(* ===== verification/Prelude.thy ===== *)
theory Prelude
  imports Complex_Main
begin

text \<open>
  What the components share: names for the identifiers and quantities of
  \<^verbatim>\<open>src/imageshield/types.py\<close>, JSON values, the exceptions the stores raise, tables and
  the SQL statements over them, and the facts about tables that every store proof uses.

  A table is the list of its rows in insertion order.  \<open>sql_update\<close>, \<open>sql_upsert\<close>,
  \<open>sql_delete\<close> and \<open>sql_first\<close> are the \<^verbatim>\<open>UPDATE .. WHERE\<close>,
  \<^verbatim>\<open>INSERT .. ON CONFLICT DO UPDATE\<close>, \<^verbatim>\<open>DELETE .. WHERE\<close> and single-row
  \<^verbatim>\<open>SELECT .. WHERE\<close> statements of the stores.  The locale \<open>upsert_table\<close> is the
  contract of a table with a unique key; each store interprets it on its own tables.
\<close>

section \<open>Identifiers, instants, money\<close>

text \<open>A UUID is a 128-bit number; only equality of UUIDs is ever used.\<close>

type_synonym uuid = nat
type_synonym user_ref = uuid
type_synonym provider_id = string
type_synonym url_hash = string

text \<open>
  An instant is a number of microseconds since the epoch (UTC), the resolution of both
  \<^verbatim>\<open>datetime\<close> and \<^verbatim>\<open>TIMESTAMPTZ\<close>.  Money is a \<^verbatim>\<open>Decimal\<close>, exact here.
\<close>

type_synonym instant = int
type_synonym money = rat

abbreviation second_us :: int where
  "second_us \<equiv> 1000000"

abbreviation day_us :: int where
  "day_us \<equiv> 86400000000"

section \<open>JSON values and exceptions\<close>

datatype json =
    JNull
  | JBool bool
  | JNum rat
  | JStr string
  | JArr "json list"
  | JObj "(string \<times> json) list"

text \<open>The exceptions that leave a modelled operation.\<close>

datatype exn =
    LookupError string
  | KeyError string
  | ValueError string
  | UnknownSubject
  | CheckViolation string
  | ForeignKeyViolation string
  | NumericValueOutOfRange
  | TypeError string
  | AssertionError
  | ProviderUnavailable string
  | UniqueViolation string
  | OverflowError

section \<open>Named collections\<close>

text \<open>
  \<open>sql\<close> rewrites table operations, \<open>frame\<close> says which tables an operation leaves alone,
  \<open>keeps\<close> collects preservation facts of invariants.
\<close>

named_theorems sql
named_theorems frame
named_theorems keeps

section \<open>Tables\<close>

definition sql_update :: "('r \<Rightarrow> bool) \<Rightarrow> ('r \<Rightarrow> 'r) \<Rightarrow> 'r list \<Rightarrow> 'r list" where
  "sql_update p f t = map (\<lambda>r. if p r then f r else r) t"

definition sql_first :: "('r \<Rightarrow> bool) \<Rightarrow> 'r list \<Rightarrow> 'r option" where
  "sql_first p t = List.find p t"

definition sql_upsert :: "('r \<Rightarrow> bool) \<Rightarrow> ('r \<Rightarrow> 'r) \<Rightarrow> 'r \<Rightarrow> 'r list \<Rightarrow> 'r list" where
  "sql_upsert p f new t = (if list_ex p t then sql_update p f t else t @ [new])"

definition sql_delete :: "('r \<Rightarrow> bool) \<Rightarrow> 'r list \<Rightarrow> 'r list" where
  "sql_delete p t = filter (\<lambda>r. \<not> p r) t"

lemma length_sql_update [simp]: "length (sql_update p f t) = length t"
  by (simp add: sql_update_def)

lemma sql_update_Nil [simp]: "sql_update p f [] = []"
  by (simp add: sql_update_def)

lemma sql_update_Cons [simp]:
  "sql_update p f (r # t) = (if p r then f r else r) # sql_update p f t"
  by (simp add: sql_update_def)

lemma sql_update_append [simp]:
  "sql_update p f (t @ u) = sql_update p f t @ sql_update p f u"
  by (simp add: sql_update_def)

lemma in_sql_update [sql]:
  "r \<in> set (sql_update p f t) \<longleftrightarrow> (\<exists>q\<in>set t. r = (if p q then f q else q))"
  by (auto simp: sql_update_def)

lemma in_sql_updateI: "q \<in> set t \<Longrightarrow> (if p q then f q else q) \<in> set (sql_update p f t)"
  by (auto simp: in_sql_update)

lemma sql_update_hit:
  assumes "r \<in> set (sql_update (\<lambda>r. k r = x) f t)" "k r = x" "\<And>q. k (f q) = k q"
  obtains q where "q \<in> set t" "r = f q"
  using assms by (auto simp: in_sql_update split: if_splits)

lemma sql_update_none [sql]:
  "(\<And>r. r \<in> set t \<Longrightarrow> \<not> p r) \<Longrightarrow> sql_update p f t = t"
  by (induction t) auto

lemma map_sql_update [sql]:
  "(\<And>r. r \<in> set t \<Longrightarrow> p r \<Longrightarrow> k (f r) = k r) \<Longrightarrow> map k (sql_update p f t) = map k t"
  by (simp add: sql_update_def)

lemma sql_first_Nil [simp]: "sql_first p [] = None"
  by (simp add: sql_first_def)

lemma sql_first_Cons [simp]:
  "sql_first p (r # t) = (if p r then Some r else sql_first p t)"
  by (simp add: sql_first_def)

lemma sql_first_SomeD:
  "sql_first p t = Some r \<Longrightarrow> r \<in> set t \<and> p r"
  by (induction t) (auto split: if_splits)

lemma sql_first_None_iff: "sql_first p t = None \<longleftrightarrow> (\<forall>r\<in>set t. \<not> p r)"
  by (induction t) auto

lemma sql_first_append [sql]:
  "sql_first p (t @ u) = (case sql_first p t of None \<Rightarrow> sql_first p u | Some r \<Rightarrow> Some r)"
  by (induction t) auto

lemma sql_first_update [sql]:
  "(\<And>r. r \<in> set t \<Longrightarrow> q r \<Longrightarrow> p (f r) = p r) \<Longrightarrow>
   sql_first p (sql_update q f t) = map_option (\<lambda>r. if q r then f r else r) (sql_first p t)"
  by (induction t) auto

lemma sql_first_update_same:
  "(\<And>r. p (f r) = p r) \<Longrightarrow> sql_first p (sql_update p f t) = map_option f (sql_first p t)"
  by (induction t) auto

lemma sql_first_update_other:
  "(\<And>r. p (f r) = p r) \<Longrightarrow> (\<And>r. q r \<Longrightarrow> \<not> p r) \<Longrightarrow>
   sql_first p (sql_update q f t) = sql_first p t"
  by (induction t) auto

lemma list_ex_sql_first: "list_ex p t \<longleftrightarrow> sql_first p t \<noteq> None"
  by (induction t) auto

lemma in_sql_delete [sql]: "r \<in> set (sql_delete p t) \<longleftrightarrow> r \<in> set t \<and> \<not> p r"
  by (simp add: sql_delete_def)

lemma in_sql_upsert:
  "r \<in> set (sql_upsert p f new t) \<Longrightarrow>
     r \<in> set t \<or> r = new \<or> (\<exists>q\<in>set t. p q \<and> r = f q)"
  by (auto simp: sql_upsert_def in_sql_update split: if_splits)

lemma in_sql_upsert_keep:
  "q \<in> set t \<Longrightarrow> \<exists>r\<in>set (sql_upsert p f new t). r = (if p q then f q else q)"
proof (cases "list_ex p t")
  case True
  assume "q \<in> set t"
  with True show ?thesis by (auto simp: sql_upsert_def in_sql_update)
next
  case False
  assume "q \<in> set t"
  with False show ?thesis by (auto simp: sql_upsert_def list_ex_iff)
qed

text \<open>
  The contract of a table whose rows have a unique key: the upsert's merge keeps the key,
  and the conflict target is the key of the inserted row.
\<close>

locale upsert_table =
  fixes key :: "'r \<Rightarrow> 'k"
    and merge :: "'a \<Rightarrow> 'r \<Rightarrow> 'r"
    and fresh_row :: "'a \<Rightarrow> 'r"
  assumes merge_key: "key (merge a r) = key r"
begin

lemma upsert_keys:
  "map key (sql_upsert (\<lambda>r. key r = key (fresh_row a)) (merge a) (fresh_row a) t) =
     (if key (fresh_row a) \<in> key ` set t then map key t else map key t @ [key (fresh_row a)])"
  by (auto simp: sql_upsert_def list_ex_iff map_sql_update merge_key image_iff eq_commute)

lemma distinct_upsert:
  "distinct (map key t) \<Longrightarrow>
   distinct (map key (sql_upsert (\<lambda>r. key r = key (fresh_row a)) (merge a) (fresh_row a) t))"
  unfolding upsert_keys by auto

lemma lookup_upsert:
  "sql_first (\<lambda>r. key r = k)
     (sql_upsert (\<lambda>r. key r = key (fresh_row a)) (merge a) (fresh_row a) t) =
   (if k = key (fresh_row a)
    then Some (case sql_first (\<lambda>r. key r = k) t of None \<Rightarrow> fresh_row a | Some r \<Rightarrow> merge a r)
    else sql_first (\<lambda>r. key r = k) t)"
proof (cases "list_ex (\<lambda>r. key r = key (fresh_row a)) t")
  case True
  then obtain r where r: "sql_first (\<lambda>r. key r = key (fresh_row a)) t = Some r"
    by (auto simp: list_ex_sql_first)
  with True show ?thesis
    by (cases "sql_first (\<lambda>r. key r = k) t")
      (auto simp: sql_upsert_def sql_first_update merge_key dest: sql_first_SomeD)
next
  case False
  then have "sql_first (\<lambda>r. key r = key (fresh_row a)) t = None"
    by (simp add: list_ex_sql_first)
  with False show ?thesis
    by (auto simp: sql_upsert_def sql_first_append split: option.splits)
qed

lemma upsert_twice_length:
  "length (sql_upsert (\<lambda>r. key r = key (fresh_row a)) (merge a) (fresh_row a)
            (sql_upsert (\<lambda>r. key r = key (fresh_row a)) (merge a) (fresh_row a) t)) =
   length (sql_upsert (\<lambda>r. key r = key (fresh_row a)) (merge a) (fresh_row a) t)"
proof -
  let ?u = "sql_upsert (\<lambda>r. key r = key (fresh_row a)) (merge a) (fresh_row a) t"
  have "sql_first (\<lambda>r. key r = key (fresh_row a)) ?u \<noteq> None"
    by (simp add: lookup_upsert)
  then have "list_ex (\<lambda>r. key r = key (fresh_row a)) ?u"
    by (simp add: list_ex_sql_first)
  then show ?thesis by (simp add: sql_upsert_def)
qed

end

section \<open>Lists, numbers and decimal text\<close>

text \<open>Python's \<^verbatim>\<open>str\<close> of a non-negative integer.\<close>

fun show_nat :: "nat \<Rightarrow> string" where
  "show_nat n =
     (if n < 10 then [char_of (48 + n)] else show_nat (n div 10) @ [char_of (48 + n mod 10)])"

declare show_nat.simps [simp del]

lemma show_nat_digit [simp]: "n < 10 \<Longrightarrow> show_nat n = [char_of (48 + n)]"
  by (simp add: show_nat.simps)

lemma show_nat_nonempty: "show_nat n \<noteq> []"
  by (subst show_nat.simps) simp

text \<open>The first element with the greatest key, as Python's \<^verbatim>\<open>max(key=..)\<close> picks it.\<close>

fun argmax_first :: "('a \<Rightarrow> 'b::linorder) \<Rightarrow> 'a \<Rightarrow> 'a list \<Rightarrow> 'a" where
  "argmax_first k best [] = best"
| "argmax_first k best (x # xs) = argmax_first k (if k best < k x then x else best) xs"

lemma argmax_first_mem:
  "argmax_first k b xs \<in> insert b (set xs)"
  by (induction xs arbitrary: b) auto

lemma argmax_first_ge:
  "k b \<le> k (argmax_first k b xs) \<and> (\<forall>x\<in>set xs. k x \<le> k (argmax_first k b xs))"
proof (induction xs arbitrary: b)
  case Nil
  then show ?case by simp
next
  case (Cons x xs)
  have "k (if k b < k x then x else b) \<le> k (argmax_first k (if k b < k x then x else b) xs)"
    using Cons.IH by blast
  moreover have "k b \<le> k (if k b < k x then x else b)" and "k x \<le> k (if k b < k x then x else b)"
    by auto
  ultimately show ?case using Cons.IH [of "if k b < k x then x else b"]
    by (auto intro: order_trans)
qed

end
