(* ===== verification/Bands.thy ===== *)
theory Bands
  imports Prelude "HOL-Library.Multiset"
begin

text \<open>
  Calibration types and the banding rules of \<^verbatim>\<open>src/imageshield/calibration/models.py\<close>
  and \<^verbatim>\<open>bands.py\<close>: \<open>band_for_attestation\<close>, \<open>roll_up\<close>, \<open>validate_numeric_bands\<close>.

  A provider's score is a \<^verbatim>\<open>Decimal\<close> that may be infinite or NaN (\<open>decimal\<close>); the
  edges of bands and domains are finite, as pydantic requires of them.  Reasons are the strings
  of the source; the problems \<open>validate_numeric_bands\<close> reports are kept as the figures their
  text is formatted from.
\<close>

section \<open>Types\<close>

datatype band = Drop | Review | Auto_confirm

text \<open>\<^verbatim>\<open>BAND_ORDER\<close>: the only ordering of bands, used by \<open>roll_up\<close>.\<close>

fun BAND_ORDER :: "band \<Rightarrow> nat" where
  "BAND_ORDER Drop = 0"
| "BAND_ORDER Review = 1"
| "BAND_ORDER Auto_confirm = 2"

lemma BAND_ORDER_inj: "BAND_ORDER a = BAND_ORDER b \<longleftrightarrow> a = b"
  by (cases a; cases b) auto

instantiation band :: linorder
begin

definition less_eq_band :: "band \<Rightarrow> band \<Rightarrow> bool" where
  "less_eq_band a b \<longleftrightarrow> BAND_ORDER a \<le> BAND_ORDER b"

definition less_band :: "band \<Rightarrow> band \<Rightarrow> bool" where
  "less_band a b \<longleftrightarrow> BAND_ORDER a < BAND_ORDER b"

instance
  by standard (auto simp: less_eq_band_def less_band_def BAND_ORDER_inj)

end

fun band_text :: "band \<Rightarrow> string" where
  "band_text Drop = ''drop''"
| "band_text Review = ''review''"
| "band_text Auto_confirm = ''auto_confirm''"

definition parse_band :: "string \<Rightarrow> band option" where
  "parse_band s =
     (if s = ''drop'' then Some Drop
      else if s = ''review'' then Some Review
      else if s = ''auto_confirm'' then Some Auto_confirm
      else None)"

lemma parse_band_text [simp]: "parse_band (band_text b) = Some b"
  by (cases b) (simp_all add: parse_band_def)

lemma parse_band_Some_iff: "parse_band s = Some b \<longleftrightarrow> s = band_text b"
  by (cases b) (auto simp: parse_band_def split: if_splits)

lemma band_text_inj [simp]: "band_text a = band_text b \<longleftrightarrow> a = b"
  by (metis parse_band_text option.inject)

datatype score_kind = Numeric | Categorical

datatype decimal = Dec rat | Dec_infinity bool | Dec_nan

record score_domain =
  sd_min :: "rat option"
  sd_max :: "rat option"
  sd_categories :: "string list option"

record numeric_band =
  nb_band :: band
  nb_min :: "rat option"
  nb_max :: "rat option"

record calibration_config =
  cc_config_id :: uuid
  cc_provider_id :: provider_id
  cc_version :: string
  cc_score_kind :: score_kind
  cc_numeric_bands :: "numeric_band list"
  cc_categorical_bands :: "(string \<times> band) list"

definition declares :: "calibration_config \<Rightarrow> band \<Rightarrow> bool" where
  "declares c b \<longleftrightarrow>
     b \<in> set (map nb_band (cc_numeric_bands c)) \<or> b \<in> set (map snd (cc_categorical_bands c))"

record policy_entry =
  pe_provider_id :: provider_id
  pe_calibrated :: bool
  pe_score_domain :: score_domain
  pe_config :: "calibration_config option"

type_synonym banding_policy = "provider_id \<Rightarrow> policy_entry option"

record band_decision =
  bd_band :: band
  bd_reason :: string
  bd_calibration_version :: "string option"

section \<open>One attestation\<close>

definition review_because :: "string \<Rightarrow> string option \<Rightarrow> band_decision" where
  "review_because reason version =
     \<lparr>bd_band = Review, bd_reason = reason, bd_calibration_version = version\<rparr>"

definition in_domain :: "rat \<Rightarrow> score_domain \<Rightarrow> bool" where
  "in_domain score domain \<longleftrightarrow>
     \<not> (case sd_min domain of None \<Rightarrow> False | Some lo \<Rightarrow> score < lo) \<and>
     \<not> (case sd_max domain of None \<Rightarrow> False | Some hi \<Rightarrow> score > hi)"

text \<open>Whether one iteration of the band loop returns this band for the score.\<close>

definition covers :: "rat \<Rightarrow> score_domain \<Rightarrow> numeric_band \<Rightarrow> bool" where
  "covers score domain b \<longleftrightarrow>
     \<not> (case nb_min b of None \<Rightarrow> False | Some lo \<Rightarrow> score < lo) \<and>
     (case nb_max b of
        None \<Rightarrow> True
      | Some hi \<Rightarrow>
          let tops_domain = (case sd_max domain of None \<Rightarrow> True | Some m \<Rightarrow> hi \<ge> m)
          in \<not> score > hi \<and> \<not> (score = hi \<and> \<not> tops_domain))"

fun numeric_band_of :: "rat \<Rightarrow> numeric_band list \<Rightarrow> score_domain \<Rightarrow> band option" where
  "numeric_band_of score [] domain = None"
| "numeric_band_of score (b # bs) domain =
     (if covers score domain b then Some (nb_band b) else numeric_band_of score bs domain)"

definition band_for_attestation ::
  "policy_entry option \<Rightarrow> score_kind \<Rightarrow> decimal option \<Rightarrow> string option \<Rightarrow> band_decision" where
  "band_for_attestation entry score_kind provider_score provider_category =
     (case entry of
        None \<Rightarrow> review_because ''no_active_config'' None
      | Some e \<Rightarrow>
     (case pe_config e of
        None \<Rightarrow> review_because ''no_active_config'' None
      | Some config \<Rightarrow>
          let version = Some (cc_version config) in
          if \<not> pe_calibrated e then review_because ''provider_uncalibrated'' version
          else if cc_score_kind config \<noteq> score_kind then
            review_because ''score_kind_mismatch'' version
          else if score_kind = Numeric then
            (case provider_score of
               None \<Rightarrow> review_because ''score_kind_mismatch'' version
             | Some (Dec score) \<Rightarrow>
                 let domain = pe_score_domain e in
                 if sd_min domain = None \<or> sd_max domain = None then
                   review_because ''score_domain_unknown'' version
                 else if \<not> in_domain score domain then
                   review_because ''score_out_of_domain'' version
                 else
                   (case numeric_band_of score (cc_numeric_bands config) domain of
                      None \<Rightarrow> review_because ''no_band_covers_score'' version
                    | Some b \<Rightarrow> \<lparr>bd_band = b, bd_reason = ''numeric:'' @ band_text b,
                                 bd_calibration_version = version\<rparr>)
             | Some _ \<Rightarrow> review_because ''score_not_finite'' version)
          else
            (case provider_category of
               None \<Rightarrow> review_because ''score_kind_mismatch'' version
             | Some category \<Rightarrow>
                 (case map_of (cc_categorical_bands config) category of
                    None \<Rightarrow> review_because ''unknown_category'' version
                  | Some mapped \<Rightarrow>
                      \<lparr>bd_band = mapped, bd_reason = ''categorical:'' @ band_text mapped,
                       bd_calibration_version = version\<rparr>))))"

section \<open>Several attestations\<close>

definition least_band :: "band list \<Rightarrow> band" where
  "least_band bs = fold min (tl bs) (hd bs)"

definition greatest_band :: "band list \<Rightarrow> band" where
  "greatest_band bs = fold max (tl bs) (hd bs)"

text \<open>
  The bands are the strings read back from the database; a string that is no band sends the
  whole infringement to review.
\<close>

definition roll_up :: "string list \<Rightarrow> band \<times> string" where
  "roll_up bands =
     (if bands = [] then (Review, ''no_attestations'')
      else case List.find (\<lambda>b. parse_band b = None) bands of
        Some b \<Rightarrow> (Review, ''unknown_band:'' @ b)
      | None \<Rightarrow>
          let parsed = map (\<lambda>b. the (parse_band b)) bands;
              lowest = least_band parsed;
              highest = greatest_band parsed
          in if lowest \<noteq> highest then
               (Review, ''disagreement:'' @ band_text lowest @ ''|'' @ band_text highest
                          @ ''->review'')
             else (highest, ''unanimous:'' @ band_text highest @ ''(n=''
                              @ show_nat (length bands) @ '')''))"

section \<open>Validating a band set\<close>

datatype band_problem =
    ZeroWidth band rat
  | DomainUnbounded
  | EdgeOutside band rat
  | CoverageGap rat rat
  | CoverageOverlap rat rat

definition zero_width_problems :: "numeric_band list \<Rightarrow> band_problem list" where
  "zero_width_problems bands =
     concat (map (\<lambda>b. case (nb_min b, nb_max b) of
         (Some lo, Some hi) \<Rightarrow> if lo = hi then [ZeroWidth (nb_band b) lo] else []
       | _ \<Rightarrow> []) bands)"

definition edge_problems :: "numeric_band list \<Rightarrow> score_domain \<Rightarrow> band_problem list" where
  "edge_problems bands domain =
     concat (map (\<lambda>b. concat (map (\<lambda>edge.
         case edge of None \<Rightarrow> []
         | Some v \<Rightarrow> if in_domain v domain then [] else [EdgeOutside (nb_band b) v])
       [nb_min b, nb_max b])) bands)"

definition band_sort_key :: "numeric_band \<Rightarrow> rat" where
  "band_sort_key b = (case nb_min b of Some m \<Rightarrow> m | None \<Rightarrow> - 1000000000)"

definition band_start :: "rat \<Rightarrow> numeric_band \<Rightarrow> rat" where
  "band_start dmin b = (case nb_min b of Some m \<Rightarrow> m | None \<Rightarrow> dmin)"

definition band_end :: "rat \<Rightarrow> numeric_band \<Rightarrow> rat" where
  "band_end dmax b = (case nb_max b of Some m \<Rightarrow> m | None \<Rightarrow> dmax)"

text \<open>The cursor walk over the bands in order.\<close>

fun walk_bands :: "rat \<Rightarrow> rat \<Rightarrow> rat \<Rightarrow> numeric_band list \<Rightarrow> band_problem list" where
  "walk_bands dmin dmax cursor [] =
     (if cursor < dmax then [CoverageGap cursor dmax] else [])"
| "walk_bands dmin dmax cursor (b # bs) =
     (let start = band_start dmin b in
      (if start > cursor then [CoverageGap cursor start]
       else if start < cursor then [CoverageOverlap start cursor] else []) @
      walk_bands dmin dmax (band_end dmax b) bs)"

definition validate_numeric_bands :: "numeric_band list \<Rightarrow> score_domain \<Rightarrow> band_problem list" where
  "validate_numeric_bands bands domain =
     zero_width_problems bands @
     (case (sd_min domain, sd_max domain) of
        (Some dmin, Some dmax) \<Rightarrow>
          edge_problems bands domain @
          walk_bands dmin dmax dmin (sort_key band_sort_key bands)
      | _ \<Rightarrow> [DomainUnbounded])"

section \<open>What a decision can be\<close>

text \<open>
  No provider can confirm or discard on its own say-so: a decision other than review needs
  a calibrated provider with an active config of the same score kind, and then either a finite
  score inside a two-sided domain and a configured numeric band, or a category the config maps.
  Every decision names the config version it was made under, except the one made without any.
\<close>

theorem band_decision_needs_calibration:
  assumes "bd_band (band_for_attestation entry kind score category) \<noteq> Review"
  shows "\<exists>e c. entry = Some e \<and> pe_config e = Some c \<and> pe_calibrated e \<and>
      cc_score_kind c = kind \<and> declares c (bd_band (band_for_attestation entry kind score category)) \<and>
      bd_calibration_version (band_for_attestation entry kind score category) = Some (cc_version c) \<and>
      (case kind of
         Numeric \<Rightarrow> \<exists>x lo hi. score = Some (Dec x) \<and> sd_min (pe_score_domain e) = Some lo \<and>
           sd_max (pe_score_domain e) = Some hi \<and> lo \<le> x \<and> x \<le> hi \<and>
           (\<exists>b\<in>set (cc_numeric_bands c). covers x (pe_score_domain e) b \<and>
              nb_band b = bd_band (band_for_attestation entry kind score category))
       | Categorical \<Rightarrow> \<exists>k. category = Some k \<and>
           map_of (cc_categorical_bands c) k =
             Some (bd_band (band_for_attestation entry kind score category)))"
proof -
  have numeric: "\<exists>b\<in>set bs. covers x d b \<and> nb_band b = r" if "numeric_band_of x bs d = Some r"
    for x bs d r
    using that by (induction bs) (auto split: if_splits)
  from assms obtain e c where e: "entry = Some e" "pe_config e = Some c" "pe_calibrated e"
    "cc_score_kind c = kind"
    by (auto simp: band_for_attestation_def review_because_def Let_def
        split: option.splits if_splits)
  show ?thesis
  proof (cases kind)
    case Numeric
    with assms e obtain x r where x: "score = Some (Dec x)"
      "sd_min (pe_score_domain e) \<noteq> None" "sd_max (pe_score_domain e) \<noteq> None"
      "in_domain x (pe_score_domain e)"
      "numeric_band_of x (cc_numeric_bands c) (pe_score_domain e) = Some r"
      by (auto simp: band_for_attestation_def review_because_def Let_def
          split: option.splits if_splits decimal.splits)
    then have d: "band_for_attestation entry kind score category =
        \<lparr>bd_band = r, bd_reason = ''numeric:'' @ band_text r,
         bd_calibration_version = Some (cc_version c)\<rparr>"
      using e Numeric by (auto simp: band_for_attestation_def Let_def)
    from numeric [OF x(5)] show ?thesis
      using e x Numeric unfolding d
      by (auto simp: in_domain_def declares_def not_less image_iff)
  next
    case Categorical
    with assms e obtain k r where k: "category = Some k" "map_of (cc_categorical_bands c) k = Some r"
      by (auto simp: band_for_attestation_def review_because_def Let_def
          split: option.splits if_splits)
    then have d: "band_for_attestation entry kind score category =
        \<lparr>bd_band = r, bd_reason = ''categorical:'' @ band_text r,
         bd_calibration_version = Some (cc_version c)\<rparr>"
      using e Categorical by (auto simp: band_for_attestation_def Let_def)
    show ?thesis
      using e k Categorical map_of_SomeD [OF k(2)] unfolding d
      by (force simp: declares_def)
  qed
qed

text \<open>Hive's domain, calibrated with three bands.\<close>

definition hive_bands :: "numeric_band list" where
  "hive_bands =
     [\<lparr>nb_band = Drop, nb_min = None, nb_max = Some (18/25)\<rparr>,
      \<lparr>nb_band = Review, nb_min = Some (18/25), nb_max = Some (47/50)\<rparr>,
      \<lparr>nb_band = Auto_confirm, nb_min = Some (47/50), nb_max = None\<rparr>]"

definition hive_domain :: score_domain where
  "hive_domain = \<lparr>sd_min = Some (1/2), sd_max = Some 1, sd_categories = None\<rparr>"

definition hive_entry :: policy_entry where
  "hive_entry =
     \<lparr>pe_provider_id = ''hive'', pe_calibrated = True, pe_score_domain = hive_domain,
      pe_config = Some \<lparr>cc_config_id = 1, cc_provider_id = ''hive'', cc_version = ''v1'',
        cc_score_kind = Numeric, cc_numeric_bands = hive_bands, cc_categorical_bands = []\<rparr>\<rparr>"

theorem band_decision_needs_calibration_witness:
  "bd_band (band_for_attestation (Some hive_entry) Numeric (Some (Dec (19/20))) None) = Auto_confirm \<and>
   (\<exists>e. Some hive_entry = Some e \<and> pe_calibrated e)"
proof -
  have d: "bd_band (band_for_attestation (Some hive_entry) Numeric (Some (Dec (19/20))) None)
      = Auto_confirm"
    by (simp add: hive_entry_def hive_domain_def hive_bands_def band_for_attestation_def
        in_domain_def covers_def)
  then show ?thesis
    using band_decision_needs_calibration [of "Some hive_entry" Numeric "Some (Dec (19/20))" None]
    by auto
qed

section \<open>A validated band set tiles the domain\<close>

text \<open>For a score below the ceiling, covering is lying between start and end.\<close>

lemma covers_below_ceiling:
  assumes "sd_min d = Some dmin" "sd_max d = Some dmax" "dmin \<le> x" "x < dmax"
  shows "covers x d b \<longleftrightarrow> band_start dmin b \<le> x \<and> x < band_end dmax b"
  using assms by (auto simp: covers_def band_start_def band_end_def Let_def split: option.splits)

lemma covers_ceiling:
  assumes "sd_max d = Some dmax" "band_start dmin b \<le> dmax" "dmin \<le> dmax" "dmax \<le> band_end dmax b"
  shows "covers dmax d b"
  using assms by (auto simp: covers_def band_start_def band_end_def Let_def split: option.splits)

lemma walk_bands_Nil_iff:
  "walk_bands dmin dmax c (b # bs) = [] \<longleftrightarrow>
     band_start dmin b = c \<and> walk_bands dmin dmax (band_end dmax b) bs = []"
  by (auto simp: Let_def split: if_splits)

lemma walk_covers:
  assumes "sd_min d = Some dmin" "sd_max d = Some dmax" "dmin \<le> x"
  shows "walk_bands dmin dmax c bs = [] \<Longrightarrow> c \<le> x \<Longrightarrow> x < dmax \<Longrightarrow> \<exists>b\<in>set bs. covers x d b"
proof (induction bs arbitrary: c)
  case Nil
  then show ?case by (simp split: if_splits)
next
  case (Cons b bs)
  then show ?case
    using covers_below_ceiling [OF assms, of b] walk_bands_Nil_iff [of dmin dmax c b bs]
    by (cases "x < band_end dmax b") auto
qed

lemma walk_covers_ceiling:
  assumes "sd_min d = Some dmin" "sd_max d = Some dmax" "dmin \<le> dmax"
  shows "walk_bands dmin dmax c bs = [] \<Longrightarrow> c < dmax \<Longrightarrow> \<exists>b\<in>set bs. covers dmax d b"
proof (induction bs arbitrary: c)
  case Nil
  then show ?case by simp
next
  case (Cons b bs)
  then show ?case
    using covers_ceiling [OF assms(2), of dmin b] assms(3) walk_bands_Nil_iff [of dmin dmax c b bs]
    by (cases "band_end dmax b < dmax") auto
qed

text \<open>In key order, a band that starts no earlier than the cursor is followed only by such bands.\<close>

lemma walk_starts:
  assumes "\<forall>b\<in>set bs. dmin \<le> band_start dmin b" "- 1000000000 \<le> dmin"
  shows "walk_bands dmin dmax c bs = [] \<Longrightarrow> sorted (map band_sort_key bs) \<Longrightarrow>
    \<forall>b\<in>set bs. c \<le> band_start dmin b"
proof (cases bs)
  case (Cons b bs')
  assume w: "walk_bands dmin dmax c bs = []" and s: "sorted (map band_sort_key bs)"
  have "band_start dmin b \<le> band_start dmin b'" if "b' \<in> set bs'" for b'
  proof -
    have "band_sort_key b \<le> band_sort_key b'" using s that Cons by auto
    with assms Cons that show ?thesis
      by (fastforce simp: band_sort_key_def band_start_def split: option.splits)
  qed
  with w Cons show ?thesis by (auto simp: walk_bands_Nil_iff simp del: walk_bands.simps)
qed simp

lemma walk_unique:
  assumes d: "sd_min d = Some dmin" "sd_max d = Some dmax" "dmin \<le> x" "x < dmax"
    and k: "- 1000000000 \<le> dmin"
  shows "walk_bands dmin dmax c bs = [] \<Longrightarrow> sorted (map band_sort_key bs) \<Longrightarrow>
    \<forall>b\<in>set bs. dmin \<le> band_start dmin b \<Longrightarrow> c \<le> x \<Longrightarrow>
    length (filter (covers x d) bs) = 1"
proof (induction bs arbitrary: c)
  case Nil
  then show ?case using d by simp
next
  case (Cons b bs)
  then have start: "band_start dmin b = c" and rest: "walk_bands dmin dmax (band_end dmax b) bs = []"
    by (simp_all add: walk_bands_Nil_iff del: walk_bands.simps)
  show ?case
  proof (cases "x < band_end dmax b")
    case True
    have "\<forall>b'\<in>set bs. band_end dmax b \<le> band_start dmin b'"
      using walk_starts [OF _ k rest] Cons.prems by simp
    with True have "filter (covers x d) bs = []"
      by (auto simp: filter_empty_conv covers_below_ceiling [OF d])
    with True start Cons.prems show ?thesis by (simp add: covers_below_ceiling [OF d, of b])
  next
    case False
    with Cons.IH [OF rest] Cons.prems show ?thesis by (simp add: covers_below_ceiling [OF d, of b])
  qed
qed

lemma numeric_band_of_filter:
  "numeric_band_of x bs d =
     (case filter (covers x d) bs of [] \<Rightarrow> None | b # _ \<Rightarrow> Some (nb_band b))"
  by (induction bs) auto

lemma length_filter_sort_key:
  "length (filter p (sort_key k bs)) = length (filter p bs)"
proof -
  have "mset (filter p (sort_key k bs)) = mset (filter p bs)" by simp
  then show ?thesis by (metis size_mset)
qed

lemma no_edge_problems:
  assumes "edge_problems bands d = []" "sd_min d = Some dmin" "b \<in> set bands"
  shows "dmin \<le> band_start dmin b"
  using assms by (fastforce simp: edge_problems_def in_domain_def band_start_def split: option.splits if_splits)

text \<open>
  A band set that \<^verbatim>\<open>validate_numeric_bands\<close> accepts sends no in-domain score to
  \<^verbatim>\<open>no_band_covers_score\<close>: every score from the floor to the ceiling gets a band, and below
  the ceiling exactly one configured band claims the score, so the result does not depend on
  the order in which the bands were written down.
\<close>

theorem validated_bands_tile_domain:
  assumes "validate_numeric_bands bands d = []"
    and "sd_min d = Some dmin" "sd_max d = Some dmax" "dmin < dmax" "- 1000000000 \<le> dmin"
    and "dmin \<le> x" "x \<le> dmax"
  shows "numeric_band_of x bands d \<noteq> None \<and>
    (x < dmax \<longrightarrow> length (filter (covers x d) bands) = 1 \<and>
       (\<forall>bands'. mset bands' = mset bands \<longrightarrow> numeric_band_of x bands' d = numeric_band_of x bands d))"
proof -
  let ?bs = "sort_key band_sort_key bands"
  from assms(1-3) have w: "walk_bands dmin dmax dmin ?bs = []" and e: "edge_problems bands d = []"
    by (auto simp: validate_numeric_bands_def)
  have "\<exists>b\<in>set ?bs. covers x d b"
  proof (cases "x < dmax")
    case True
    then show ?thesis using walk_covers [OF assms(2,3,6) w assms(6)] by simp
  next
    case False
    then have "x = dmax" using assms(7) by simp
    then show ?thesis using walk_covers_ceiling [OF assms(2,3) _ w] assms(4) by simp
  qed
  then have some: "numeric_band_of x bands d \<noteq> None"
    by (auto simp: numeric_band_of_filter filter_empty_conv split: list.split)
  have uniq: "length (filter (covers x d) bands) = 1" if "x < dmax"
    using walk_unique [OF assms(2,3,6) that assms(5) w _ _ assms(6)]
      no_edge_problems [OF e assms(2)]
    by (simp add: length_filter_sort_key)
  have "numeric_band_of x bands' d = numeric_band_of x bands d"
    if "x < dmax" "mset bands' = mset bands" for bands'
  proof -
    from uniq [OF that(1)] obtain b where b: "filter (covers x d) bands = [b]"
      by (auto simp: length_Suc_conv)
    have "mset (filter (covers x d) bands') = {#b#}" using that(2) b by (metis mset_filter mset_single_iff_right)
    then have "filter (covers x d) bands' = [b]" by (simp only: mset_single_iff)
    with b show ?thesis by (simp add: numeric_band_of_filter)
  qed
  with some uniq show ?thesis by blast
qed

theorem validated_bands_tile_domain_witness:
  "validate_numeric_bands hive_bands hive_domain = [] \<and>
   numeric_band_of (18/25) hive_bands hive_domain \<noteq> None"
proof -
  have v: "validate_numeric_bands hive_bands hive_domain = []"
    by (simp add: validate_numeric_bands_def zero_width_problems_def edge_problems_def
        hive_bands_def hive_domain_def in_domain_def band_sort_key_def band_start_def band_end_def)
  have "numeric_band_of (18/25) hive_bands hive_domain \<noteq> None"
    by (rule conjunct1 [OF validated_bands_tile_domain [OF v, of "1/2" 1]])
      (simp_all add: hive_domain_def)
  with v show ?thesis by simp
qed

text \<open>
  The width check misses a band open to the ceiling: a set whose top band starts at the
  domain maximum with no upper edge is accepted although that band can only ever claim the
  ceiling itself, which the band below claims too, so what a perfect score is banded as depends
  on the order in which the two bands are written.
\<close>

theorem ceiling_band_order_dependent:
  "let review = \<lparr>nb_band = Review, nb_min = None, nb_max = Some 1\<rparr>;
       top = \<lparr>nb_band = Auto_confirm, nb_min = Some 1, nb_max = None\<rparr>
   in validate_numeric_bands [review, top] hive_domain = [] \<and>
      validate_numeric_bands [top, review] hive_domain = [] \<and>
      numeric_band_of 1 [review, top] hive_domain = Some Review \<and>
      numeric_band_of 1 [top, review] hive_domain = Some Auto_confirm"
  by (simp add: validate_numeric_bands_def zero_width_problems_def edge_problems_def hive_domain_def
      in_domain_def band_sort_key_def band_start_def band_end_def covers_def)

section \<open>Rolling up\<close>

lemma least_band_Min: "bs \<noteq> [] \<Longrightarrow> least_band bs = Min (set bs)"
  by (cases bs) (simp_all add: least_band_def flip: Min.set_eq_fold)

lemma greatest_band_Max: "bs \<noteq> [] \<Longrightarrow> greatest_band bs = Max (set bs)"
  by (cases bs) (simp_all add: greatest_band_def flip: Max.set_eq_fold)

lemma find_unknown_None:
  "List.find (\<lambda>b. parse_band b = None) bands = None \<longleftrightarrow> (\<forall>s\<in>set bands. \<exists>b. s = band_text b)"
  by (auto simp: find_None_iff parse_band_Some_iff [symmetric])

lemma Min_eq_Max_singleton:
  fixes A :: "'a::linorder set"
  assumes "finite A" "A \<noteq> {}" "Min A = Max A"
  shows "A = {Max A}"
  using assms by (metis Max_ge Max_in Min_le dual_order.antisym is_singletonI' is_singleton_def
      singletonD)

lemma roll_up_unanimous:
  assumes "bands \<noteq> []" "set bands = {band_text b}"
  shows "fst (roll_up bands) = b"
proof -
  have "set (map (\<lambda>s. the (parse_band s)) bands) = {b}" using assms(2) by simp
  moreover have "List.find (\<lambda>b. parse_band b = None) bands = None"
    using assms(2) by (simp add: find_unknown_None)
  ultimately show ?thesis
    using assms by (simp add: roll_up_def least_band_Min greatest_band_Max Let_def)
qed

lemma roll_up_not_review:
  assumes "fst (roll_up bands) \<noteq> Review"
  shows "bands \<noteq> [] \<and> set bands = {band_text (fst (roll_up bands))}"
proof -
  let ?p = "map (\<lambda>s. the (parse_band s)) bands"
  from assms have ne: "bands \<noteq> []" and none: "List.find (\<lambda>b. parse_band b = None) bands = None"
    and eq: "least_band ?p = greatest_band ?p" and r: "fst (roll_up bands) = greatest_band ?p"
    by (auto simp: roll_up_def Let_def split: if_splits option.splits)
  have "set ?p = {greatest_band ?p}"
    using eq ne by (simp add: least_band_Min greatest_band_Max) (rule Min_eq_Max_singleton; simp)
  then have "\<forall>s\<in>set bands. the (parse_band s) = greatest_band ?p" by auto
  with none have "\<forall>s\<in>set bands. s = band_text (greatest_band ?p)"
    unfolding find_unknown_None by (metis option.sel parse_band_text)
  with ne r show ?thesis by (cases bands) auto
qed

text \<open>
  An infringement leaves review only on unanimity: the rolled-up band is \<open>b\<close>, not review,
  exactly when there is at least one attestation and every stored band is \<open>b\<close>; any spread,
  unknown band or absence gives review, and the order of the attestations does not matter.
\<close>

theorem roll_up_unanimity:
  "(b \<noteq> Review \<longrightarrow> (fst (roll_up bands) = b \<longleftrightarrow> bands \<noteq> [] \<and> set bands = {band_text b})) \<and>
   (mset bands' = mset bands \<longrightarrow> fst (roll_up bands') = fst (roll_up bands))"
proof
  show iff: "b \<noteq> Review \<longrightarrow> (fst (roll_up bands) = b \<longleftrightarrow> bands \<noteq> [] \<and> set bands = {band_text b})"
    using roll_up_unanimous roll_up_not_review by metis
  show "mset bands' = mset bands \<longrightarrow> fst (roll_up bands') = fst (roll_up bands)"
  proof
    assume m: "mset bands' = mset bands"
    then have s: "set bands' = set bands" and n: "bands' = [] \<longleftrightarrow> bands = []"
      by (metis set_mset_mset, metis mset_zero_iff)
    show "fst (roll_up bands') = fst (roll_up bands)"
    proof (cases "fst (roll_up bands) = Review")
      case True
      then show ?thesis
        using roll_up_not_review [of bands'] roll_up_unanimous [of bands] s n by metis
    next
      case False
      then show ?thesis
        using roll_up_not_review [of bands] roll_up_unanimous [of bands'] s n by metis
    qed
  qed
qed

theorem roll_up_unanimity_witness:
  "Auto_confirm \<noteq> Review \<and>
   fst (roll_up [''auto_confirm'', ''auto_confirm'']) = Auto_confirm \<and>
   fst (roll_up [''drop'', ''auto_confirm'']) = fst (roll_up [''auto_confirm'', ''drop''])"
proof -
  have "mset [''drop'', ''auto_confirm''] = mset [''auto_confirm'', ''drop'']" by simp
  then show ?thesis
    using roll_up_unanimity [of Auto_confirm "[''auto_confirm'', ''auto_confirm'']" "[]"]
      roll_up_unanimity [of Drop "[''auto_confirm'', ''drop'']" "[''drop'', ''auto_confirm'']"]
    by simp
qed

end
