(* ===== verification/Cadence.thy ===== *)
theory Cadence
  imports Prelude
begin

text \<open>
  The adaptive scan cadence of \<^verbatim>\<open>src/imageshield/search/cadence.py\<close>, and the part of
  \<^verbatim>\<open>datetime\<close> it uses: a wall-clock reading in microseconds since 1970-01-01 00:00 and
  the UTC offset, absent for a naive datetime.  The offset of a value does not change under
  arithmetic, as for \<^verbatim>\<open>timezone\<close> objects; every caller in the repository uses UTC.
\<close>

section \<open>Datetimes\<close>

record datetime =
  wall :: int
  utc_offset :: "int option"

definition dt_date :: "datetime \<Rightarrow> int" where
  "dt_date d = wall d div day_us"

text \<open>Day 0 is Thursday 1970-01-01 and Monday is 0.\<close>

definition weekday_of :: "int \<Rightarrow> int" where
  "weekday_of day = (day + 3) mod 7"

definition dt_instant :: "datetime \<Rightarrow> instant" where
  "dt_instant d = wall d - (case utc_offset d of None \<Rightarrow> 0 | Some off \<Rightarrow> off)"

definition dt_add_days :: "datetime \<Rightarrow> int \<Rightarrow> datetime" where
  "dt_add_days d n = d\<lparr>wall := wall d + n * day_us\<rparr>"

definition utc_datetime :: "instant \<Rightarrow> datetime" where
  "utc_datetime t = \<lparr>wall = t, utc_offset = Some 0\<rparr>"

lemma dt_instant_utc [simp]: "dt_instant (utc_datetime t) = t"
  by (simp add: dt_instant_def utc_datetime_def)

section \<open>Tiers and policy\<close>

datatype scan_tier = New | Standard | Relaxed | Dormant | Priority

record cadence_policy =
  standard_days :: int
  relaxed_days :: int
  dormant_days :: int
  new_tier_weeks :: int
  relaxed_after_empty :: int
  dormant_after_empty :: int
  priority_release_after_empty :: int

record cadence_update =
  cu_scan_tier :: scan_tier
  cu_consecutive_empty_scans :: int
  cu_next_scan_after :: datetime
  cu_tier_next_scan_after :: datetime

text \<open>What a completed run tells the store: did it find something, when, under which policy.\<close>

record cadence_input =
  ci_found_matches :: bool
  ci_now :: datetime
  ci_policy :: cadence_policy

fun interval_days :: "scan_tier \<Rightarrow> cadence_policy \<Rightarrow> int" where
  "interval_days Relaxed policy = relaxed_days policy"
| "interval_days Dormant policy = dormant_days policy"
| "interval_days _ policy = standard_days policy"

definition demotion_for :: "int \<Rightarrow> cadence_policy \<Rightarrow> scan_tier" where
  "demotion_for empties policy =
     (if empties \<ge> dormant_after_empty policy then Dormant
      else if empties \<ge> relaxed_after_empty policy then Relaxed
      else Standard)"

definition next_tier ::
  "scan_tier \<Rightarrow> int \<Rightarrow> bool \<Rightarrow> int \<Rightarrow> cadence_policy \<Rightarrow> scan_tier \<times> int" where
  "next_tier current consecutive_empty_scans found_matches seed_age_days policy =
     (if found_matches then (Priority, 0)
      else
        let empties = consecutive_empty_scans + 1 in
        if current = New then
          (if seed_age_days < new_tier_weeks policy * 7 then (New, empties)
           else (demotion_for empties policy, empties))
        else if current = Priority then
          (if empties < priority_release_after_empty policy then (Priority, empties)
           else (Standard, empties))
        else (demotion_for empties policy, empties))"

definition should_retier :: "nat \<Rightarrow> bool" where
  "should_retier providers_succeeded \<longleftrightarrow> providers_succeeded > 0"

definition SUNDAY :: int where
  "SUNDAY = 6"

definition next_sunday :: "datetime \<Rightarrow> exn + datetime" where
  "next_sunday now =
     (case utc_offset now of
        None \<Rightarrow> Inl (ValueError ''now must be timezone-aware; the dispatch day is defined in UTC'')
      | Some _ \<Rightarrow>
          let ahead = (SUNDAY - weekday_of (dt_date now)) mod 7;
              days_ahead = (if ahead = 0 then 7 else ahead);
              target = dt_date (dt_add_days now days_ahead)
          in Inr \<lparr>wall = target * day_us, utc_offset = utc_offset now\<rparr>)"

definition update_for ::
  "scan_tier \<Rightarrow> int \<Rightarrow> bool \<Rightarrow> int \<Rightarrow> datetime \<Rightarrow> cadence_policy \<Rightarrow> exn + cadence_update" where
  "update_for current consecutive_empty_scans found_matches seed_age_days now policy =
     (let (tier, empties) =
            next_tier current consecutive_empty_scans found_matches seed_age_days policy
      in case next_sunday now of
           Inl e \<Rightarrow> Inl e
         | Inr sunday \<Rightarrow>
             Inr \<lparr>cu_scan_tier = tier, cu_consecutive_empty_scans = empties,
                  cu_next_scan_after = sunday,
                  cu_tier_next_scan_after = dt_add_days now (interval_days tier policy)\<rparr>)"

section \<open>The dispatch day\<close>

lemma dt_date_add_days: "dt_date (dt_add_days d n) = dt_date d + n"
  by (simp add: dt_date_def dt_add_days_def)

lemma dt_date_midnight: "dt_date \<lparr>wall = n * day_us, utc_offset = z\<rparr> = n"
  by (simp add: dt_date_def)

lemma next_sunday_None: "utc_offset now = None \<Longrightarrow> \<exists>m. next_sunday now = Inl (ValueError m)"
  by (simp add: next_sunday_def)

lemma mod7_shift: "(d + j + 3) mod 7 = ((d + 3) mod 7 + j) mod (7::int)"
  by (metis add.commute add.left_commute mod_add_left_eq)

lemma day_before_sunday:
  fixes d a j :: int
  assumes "0 \<le> (d + 3) mod 7" "(d + 3) mod 7 < 7"
    and "(d + 3) mod 7 = 6 \<and> a = 7 \<or> (d + 3) mod 7 < 6 \<and> a = 6 - (d + 3) mod 7"
    and "0 < j" "j < a"
  shows "(d + j + 3) mod 7 \<noteq> 6"
proof -
  note eq = mod7_shift [of d j]
  from assms(3) show ?thesis
  proof
    assume h: "(d + 3) mod 7 = 6 \<and> a = 7"
    then have "(d + j + 3) mod 7 = (7 + (j - 1)) mod 7" using eq by simp
    also have "\<dots> = j - 1" using h assms(4,5) by (simp only: mod_add_self1) simp
    finally show ?thesis using h assms(5) by simp
  next
    assume h: "(d + 3) mod 7 < 6 \<and> a = 6 - (d + 3) mod 7"
    then have "(d + j + 3) mod 7 = (d + 3) mod 7 + j" using eq assms(1,4,5) by simp
    then show ?thesis using h assms(5) by simp
  qed
qed

text \<open>
  For an aware \<open>now\<close> the next scan date is a midnight, on a Sunday, strictly after \<open>now\<close>'s
  day and at most seven days later, in \<open>now\<close>'s timezone, and no Sunday lies strictly between
  the two days; a naive \<open>now\<close> raises.
\<close>

theorem next_sunday_spec:
  "(case next_sunday now of
      Inl e \<Rightarrow> utc_offset now = None
    | Inr s \<Rightarrow>
        utc_offset now \<noteq> None \<and> utc_offset s = utc_offset now \<and>
        wall s mod day_us = 0 \<and> weekday_of (dt_date s) = SUNDAY \<and>
        dt_date now < dt_date s \<and> dt_date s \<le> dt_date now + 7 \<and>
        (\<forall>day. dt_date now < day \<and> day < dt_date s \<longrightarrow> weekday_of day \<noteq> SUNDAY))"
proof (cases "utc_offset now")
  case None
  then show ?thesis by (simp add: next_sunday_def)
next
  case (Some z)
  define d where "d = dt_date now"
  define a where "a = (if (SUNDAY - weekday_of d) mod 7 = 0 then 7
                       else (SUNDAY - weekday_of d) mod 7)"
  define s' where "s' = \<lparr>wall = (d + a) * day_us, utc_offset = Some z\<rparr>"
  have s: "next_sunday now = Inr s'"
    using Some by (simp add: next_sunday_def dt_date_add_days Let_def d_def a_def s'_def)
  have s': "dt_date s' = d + a" "wall s' mod day_us = 0" "utc_offset s' = Some z"
    unfolding s'_def by (rule dt_date_midnight, simp_all only: datetime.simps mod_mult_self2_is_0)
  have m: "0 \<le> (d + 3) mod 7" "(d + 3) mod 7 < 7" by simp_all
  then have "a = (if (d + 3) mod 7 = 6 then 7 else 6 - (d + 3) mod 7)"
    by (simp add: a_def SUNDAY_def weekday_of_def)
  with m have a_cases: "(d + 3) mod 7 = 6 \<and> a = 7 \<or> (d + 3) mod 7 < 6 \<and> a = 6 - (d + 3) mod 7"
    by auto
  have a: "0 < a" "a \<le> 7" using m a_cases by auto
  from mod7_shift [of d a] a_cases have sun: "(d + a + 3) mod 7 = 6" by auto
  have "(day + 3) mod 7 \<noteq> 6" if "d < day" "day < d + a" for day
    using day_before_sunday [OF m a_cases, of "day - d"] that by (simp add: algebra_simps)
  then show ?thesis
    using a sun s s' Some by (simp add: weekday_of_def SUNDAY_def d_def)
qed

theorem next_sunday_spec_witness:
  "(case next_sunday (utc_datetime 0) of
      Inl e \<Rightarrow> False
    | Inr s \<Rightarrow> dt_date s = 3 \<and> weekday_of (dt_date s) = SUNDAY)"
  using next_sunday_spec [of "utc_datetime 0"]
  by (simp add: next_sunday_def utc_datetime_def dt_date_def dt_add_days_def weekday_of_def SUNDAY_def)

section \<open>Runs of empty scans\<close>

text \<open>
  What a list of completed scans does to a seed: \<open>True\<close> found something, with the seed's age
  in days at that scan.
\<close>

fun tier_run :: "cadence_policy \<Rightarrow> scan_tier \<times> int \<Rightarrow> (bool \<times> int) list \<Rightarrow> scan_tier \<times> int" where
  "tier_run policy st [] = st"
| "tier_run policy st ((found, age) # scans) =
     tier_run policy (next_tier (fst st) (snd st) found age policy) scans"

abbreviation empty_scans :: "nat \<Rightarrow> (bool \<times> int) list" where
  "empty_scans n \<equiv> replicate n (False, 365)"

lemma tier_run_append: "tier_run p st (xs @ ys) = tier_run p (tier_run p st xs) ys"
  by (induction p st xs rule: tier_run.induct) auto

lemma tier_run_count:
  "\<forall>(found, age) \<in> set scans. \<not> found \<Longrightarrow> snd (tier_run p st scans) = snd st + int (length scans)"
  by (induction p st scans rule: tier_run.induct) (auto simp: next_tier_def Let_def)

lemma demotion_neq [simp]: "demotion_for n p \<noteq> New" "demotion_for n p \<noteq> Priority"
  by (auto simp: demotion_for_def)

lemma tier_run_demoting:
  "t \<noteq> New \<Longrightarrow> t \<noteq> Priority \<Longrightarrow>
   tier_run p (t, c) (empty_scans (Suc n)) = (demotion_for (c + int (Suc n)) p, c + int (Suc n))"
proof (induction n arbitrary: t c)
  case 0
  then show ?case by (simp add: next_tier_def Let_def)
next
  case (Suc n)
  have "next_tier t c False 365 p = (demotion_for (c + 1) p, c + 1)"
    using Suc.prems by (simp add: next_tier_def Let_def)
  then have "tier_run p (t, c) (empty_scans (Suc (Suc n))) =
      tier_run p (demotion_for (c + 1) p, c + 1) (empty_scans (Suc n))"
    by simp
  also have "\<dots> = (demotion_for (c + 1 + int (Suc n)) p, c + 1 + int (Suc n))"
    by (rule Suc.IH) simp_all
  finally show ?case by (simp add: algebra_simps)
qed

lemma tier_run_priority_held:
  "c + int n < priority_release_after_empty p \<Longrightarrow>
   tier_run p (Priority, c) (empty_scans n) = (Priority, c + int n)"
  by (induction n arbitrary: c) (auto simp: next_tier_def Let_def)

text \<open>
  After a hit, a seed is held at \<open>priority\<close> until the release count of consecutive empty
  scans, is then \<open>standard\<close> for exactly that scan, and from the next empty scan on its tier is
  the demotion of the whole count since the hit: with a release count at or above the relaxed
  threshold (which the configuration enforces) the very next empty scan takes it to \<open>relaxed\<close>
  or \<open>dormant\<close>.
\<close>

theorem priority_ladder:
  assumes "0 < priority_release_after_empty p"
  shows "tier_run p (next_tier t c True age p) (empty_scans n) =
    (if int n < priority_release_after_empty p then (Priority, int n)
     else if int n = priority_release_after_empty p then (Standard, int n)
     else (demotion_for (int n) p, int n))"
proof -
  let ?r = "nat (priority_release_after_empty p)"
  have start: "next_tier t c True age p = (Priority, 0)"
    by (simp add: next_tier_def)
  show ?thesis
  proof (cases "n < ?r")
    case True
    then have "int n < priority_release_after_empty p" by linarith
    then show ?thesis by (simp add: start tier_run_priority_held)
  next
    case False
    define k where "k = ?r - 1"
    from assms have k: "int (Suc k) = priority_release_after_empty p" by (simp add: k_def)
    have held: "tier_run p (Priority, 0) (empty_scans (Suc k)) = (Standard, int (Suc k))"
    proof -
      have "empty_scans (Suc k) = empty_scans k @ [(False, 365)]"
        by (simp add: replicate_append_same)
      then show ?thesis
        using k by (simp add: tier_run_append tier_run_priority_held next_tier_def Let_def
            del: replicate.simps)
    qed
    obtain m where m: "n = Suc k + m"
      using False k by (metis le_add_diff_inverse linorder_not_less nat_int)
    show ?thesis
    proof (cases m)
      case 0
      then show ?thesis using held k m start by simp
    next
      case (Suc j)
      have "tier_run p (Priority, 0) (empty_scans n) =
          tier_run p (Standard, int (Suc k)) (empty_scans (Suc j))"
        by (simp only: m Suc replicate_add tier_run_append held)
      also have "\<dots> = (demotion_for (int n) p, int n)"
        using tier_run_demoting [of Standard p "int (Suc k)" j] m Suc by (simp add: algebra_simps)
      finally show ?thesis using k m Suc start by simp
    qed
  qed
qed

text \<open>The configuration's defaults.\<close>

definition default_policy :: cadence_policy where
  "default_policy = \<lparr>standard_days = 7, relaxed_days = 14, dormant_days = 30, new_tier_weeks = 4,
     relaxed_after_empty = 8, dormant_after_empty = 20, priority_release_after_empty = 13\<rparr>"

theorem priority_ladder_witness:
  "tier_run default_policy (next_tier Dormant 25 True 400 default_policy) (empty_scans 12) = (Priority, 12) \<and>
   tier_run default_policy (next_tier Dormant 25 True 400 default_policy) (empty_scans 13) = (Standard, 13) \<and>
   tier_run default_policy (next_tier Dormant 25 True 400 default_policy) (empty_scans 14) = (Relaxed, 14)"
  by (simp add: priority_ladder default_policy_def demotion_for_def)

text \<open>
  The demotion ladder never skips evidence: from \<open>standard\<close> with no empty scans counted,
  \<open>n\<close> consecutive empty scans give the tier of their count, a new seed keeps its tier while it
  is younger than the hold, and the interval of the tier reached never shrinks as the count
  grows, given that the intervals are ordered.
\<close>

theorem demotion_ladder:
  assumes "standard_days p \<le> relaxed_days p" and "relaxed_days p \<le> dormant_days p"
    and "relaxed_after_empty p \<le> dormant_after_empty p" and "m \<le> n"
  shows "tier_run p (Standard, 0) (empty_scans (Suc n)) = (demotion_for (int (Suc n)) p, int (Suc n)) \<and>
    interval_days (fst (tier_run p (Standard, 0) (empty_scans (Suc m)))) p
      \<le> interval_days (fst (tier_run p (Standard, 0) (empty_scans (Suc n)))) p \<and>
    (age < new_tier_weeks p * 7 \<longrightarrow> next_tier New c False age p = (New, c + 1))"
proof -
  have run: "tier_run p (Standard, 0) (empty_scans (Suc k)) = (demotion_for (int (Suc k)) p, int (Suc k))"
    for k using tier_run_demoting [of Standard p 0 k] by simp
  moreover have "interval_days (demotion_for (int (Suc m)) p) p
      \<le> interval_days (demotion_for (int (Suc n)) p) p"
    using assms by (auto simp: demotion_for_def)
  moreover have "age < new_tier_weeks p * 7 \<longrightarrow> next_tier New c False age p = (New, c + 1)"
    by (simp add: next_tier_def Let_def)
  ultimately show ?thesis by (simp del: replicate.simps)
qed

theorem demotion_ladder_witness:
  "tier_run default_policy (Standard, 0) (empty_scans (Suc 19)) =
     (demotion_for (int (Suc 19)) default_policy, int (Suc 19)) \<and>
   demotion_for (int (Suc 19)) default_policy = Dormant \<and>
   interval_days (fst (tier_run default_policy (Standard, 0) (empty_scans (Suc 7)))) default_policy
     \<le> interval_days (fst (tier_run default_policy (Standard, 0) (empty_scans (Suc 19)))) default_policy"
proof -
  have p: "standard_days default_policy \<le> relaxed_days default_policy"
    "relaxed_days default_policy \<le> dormant_days default_policy"
    "relaxed_after_empty default_policy \<le> dormant_after_empty default_policy"
    and d: "demotion_for (int (Suc 19)) default_policy = Dormant"
    by (simp_all add: default_policy_def demotion_for_def)
  have "(7::nat) \<le> 19" by simp
  from demotion_ladder [OF p this, of 0 0] d show ?thesis by blast
qed

end
