(* ===== verification/Breaker.thy ===== *)
theory Breaker
  imports Prelude
begin

text \<open>
  The circuit-breaker state machine of \<^verbatim>\<open>src/imageshield/providers/breaker.py\<close>: the
  classification of a call's status and the transition it causes.  The transition is pure;
  the theory \<open>Provider_Store\<close> applies it to the locked provider row.
\<close>

section \<open>States, outcomes, transitions\<close>

datatype breaker_state = Closed | Open | Half_open

datatype outcome = Success | Failure | Neutral

text \<open>What a transition does to the cooldown clock.\<close>

datatype clock_action = Now | Clear | Keep

record breaker_transition =
  bt_changed :: bool
  bt_state :: breaker_state
  bt_consecutive_failures :: int
  bt_cooldown_seconds :: "int option"
  bt_reason :: "string option"
  bt_opened_at :: clock_action
  bt_opened :: bool

definition FAILURE_STATUSES :: "string list" where
  "FAILURE_STATUSES = [''error'', ''timeout'']"

definition SUCCESS_STATUSES :: "string list" where
  "SUCCESS_STATUSES = [''ok'']"

definition classify_status :: "string \<Rightarrow> outcome" where
  "classify_status status =
     (if status \<in> set SUCCESS_STATUSES then Success
      else if status \<in> set FAILURE_STATUSES then Failure
      else Neutral)"

definition next_cooldown :: "int option \<Rightarrow> int \<Rightarrow> int \<Rightarrow> int" where
  "next_cooldown current default_s cap_s =
     (case current of
        None \<Rightarrow> min default_s cap_s
      | Some c \<Rightarrow> min (c * 2) cap_s)"

text \<open>Python's \<^verbatim>\<open>reason or text\<close>: both an absent and an empty reason are replaced.\<close>

definition reason_or :: "string option \<Rightarrow> string \<Rightarrow> string option" where
  "reason_or reason dflt =
     (case reason of None \<Rightarrow> Some dflt | Some r \<Rightarrow> if r = [] then Some dflt else Some r)"

definition transition ::
  "breaker_state \<Rightarrow> int \<Rightarrow> int option \<Rightarrow> outcome \<Rightarrow> int \<Rightarrow> int \<Rightarrow> int
     \<Rightarrow> string option \<Rightarrow> breaker_transition" where
  "transition state consecutive_failures cooldown_seconds out
      failure_threshold default_cooldown_seconds max_cooldown_seconds reason =
     (if out = Neutral then
        (if state = Half_open then
           \<lparr>bt_changed = True, bt_state = Open,
            bt_consecutive_failures = consecutive_failures,
            bt_cooldown_seconds = cooldown_seconds,
            bt_reason = reason_or reason ''half-open probe was inconclusive'',
            bt_opened_at = Now, bt_opened = False\<rparr>
         else
           \<lparr>bt_changed = False, bt_state = state,
            bt_consecutive_failures = consecutive_failures,
            bt_cooldown_seconds = cooldown_seconds,
            bt_reason = reason, bt_opened_at = Keep, bt_opened = False\<rparr>)
      else if out = Success then
        \<lparr>bt_changed = True, bt_state = Closed, bt_consecutive_failures = 0,
         bt_cooldown_seconds = None, bt_reason = None, bt_opened_at = Clear,
         bt_opened = False\<rparr>
      else
        let failures = consecutive_failures + 1 in
        if state = Open then
          \<lparr>bt_changed = True, bt_state = Open, bt_consecutive_failures = failures,
           bt_cooldown_seconds = cooldown_seconds, bt_reason = reason,
           bt_opened_at = Keep, bt_opened = False\<rparr>
        else if failures < failure_threshold then
          \<lparr>bt_changed = True, bt_state = state, bt_consecutive_failures = failures,
           bt_cooldown_seconds = cooldown_seconds, bt_reason = reason,
           bt_opened_at = Keep, bt_opened = False\<rparr>
        else
          \<lparr>bt_changed = True, bt_state = Open, bt_consecutive_failures = failures,
           bt_cooldown_seconds =
             Some (next_cooldown cooldown_seconds default_cooldown_seconds max_cooldown_seconds),
           bt_reason = reason, bt_opened_at = Now, bt_opened = True\<rparr>)"

section \<open>Facts the stores build on\<close>

lemma classify_status_failure [simp]:
  "classify_status s = Failure \<longleftrightarrow> s = ''error'' \<or> s = ''timeout''"
  by (auto simp: classify_status_def SUCCESS_STATUSES_def FAILURE_STATUSES_def)

lemma classify_status_success [simp]: "classify_status s = Success \<longleftrightarrow> s = ''ok''"
  by (auto simp: classify_status_def SUCCESS_STATUSES_def FAILURE_STATUSES_def)

lemma next_cooldown_le_cap: "next_cooldown c d m \<le> m"
  by (simp add: next_cooldown_def split: option.split)

lemma transition_opened_iff:
  "bt_opened (transition st f c out th d m r) \<longleftrightarrow>
     out = Failure \<and> st \<noteq> Open \<and> th \<le> f + 1"
  by (cases out) (auto simp: transition_def Let_def)

lemma transition_state:
  "bt_state (transition st f c out th d m r) =
     (case out of
        Success \<Rightarrow> Closed
      | Neutral \<Rightarrow> (if st = Half_open then Open else st)
      | Failure \<Rightarrow> (if st = Open \<or> th \<le> f + 1 then Open else st))"
  by (cases out) (auto simp: transition_def Let_def)

lemma transition_failures:
  "bt_consecutive_failures (transition st f c out th d m r) =
     (case out of Success \<Rightarrow> 0 | Neutral \<Rightarrow> f | Failure \<Rightarrow> f + 1)"
  by (cases out) (auto simp: transition_def Let_def)

lemma transition_cooldown:
  "bt_cooldown_seconds (transition st f c out th d m r) =
     (case out of
        Success \<Rightarrow> None
      | Neutral \<Rightarrow> c
      | Failure \<Rightarrow> (if st \<noteq> Open \<and> th \<le> f + 1 then Some (next_cooldown c d m) else c))"
  by (cases out) (auto simp: transition_def Let_def)

lemma transition_clock:
  "bt_opened_at (transition st f c out th d m r) =
     (case out of
        Success \<Rightarrow> Clear
      | Neutral \<Rightarrow> (if st = Half_open then Now else Keep)
      | Failure \<Rightarrow> (if st \<noteq> Open \<and> th \<le> f + 1 then Now else Keep))"
  by (cases out) (auto simp: transition_def Let_def)

lemma transition_changed:
  "bt_changed (transition st f c out th d m r) \<longleftrightarrow> out \<noteq> Neutral \<or> st = Half_open"
  by (cases out) (auto simp: transition_def Let_def)

lemmas transition_fields =
  transition_state transition_failures transition_cooldown transition_clock
  transition_opened_iff transition_changed

section \<open>A run of outcomes\<close>

text \<open>
  The breaker part of a provider row and what a list of outcomes does to it, with the number
  of openings (the alarms).  The probe claim that turns \<open>Open\<close> into \<open>Half_open\<close> is an operation
  of the store, not of this machine.
\<close>

record breaker_cfg =
  failure_threshold :: int
  default_cooldown_seconds :: int
  max_cooldown_seconds :: int

record breaker_view =
  bv_state :: breaker_state
  bv_failures :: int
  bv_cooldown :: "int option"

definition breaker_step :: "breaker_cfg \<Rightarrow> breaker_view \<Rightarrow> outcome \<Rightarrow> breaker_view \<times> nat" where
  "breaker_step cfg v out =
     (let t = transition (bv_state v) (bv_failures v) (bv_cooldown v) out
                (failure_threshold cfg) (default_cooldown_seconds cfg)
                (max_cooldown_seconds cfg) None
      in (\<lparr>bv_state = bt_state t, bv_failures = bt_consecutive_failures t,
           bv_cooldown = bt_cooldown_seconds t\<rparr>, if bt_opened t then 1 else 0))"

fun breaker_run :: "breaker_cfg \<Rightarrow> breaker_view \<Rightarrow> outcome list \<Rightarrow> breaker_view \<times> nat" where
  "breaker_run cfg v [] = (v, 0)"
| "breaker_run cfg v (out # outs) =
     (let (v1, n1) = breaker_step cfg v out; (v2, n2) = breaker_run cfg v1 outs in (v2, n1 + n2))"

definition fresh_breaker :: breaker_view where
  "fresh_breaker = \<lparr>bv_state = Closed, bv_failures = 0, bv_cooldown = None\<rparr>"

lemma breaker_run_append:
  "breaker_run cfg v (xs @ ys) =
     (let (v1, n1) = breaker_run cfg v xs; (v2, n2) = breaker_run cfg v1 ys in (v2, n1 + n2))"
  by (induction xs arbitrary: v) (auto simp: Let_def split: prod.splits)

text \<open>Neutral outcomes never move a breaker that is not probing.\<close>

lemma breaker_run_neutral:
  "bv_state v \<noteq> Half_open \<Longrightarrow> breaker_run cfg v (replicate k Neutral) = (v, 0)"
  by (cases v, induction k) (auto simp: breaker_step_def transition_fields Let_def)

text \<open>Failures on an open breaker are counted and nothing else happens.\<close>

lemma breaker_run_open_failures:
  "bv_state v = Open \<Longrightarrow>
   breaker_run cfg v (replicate k Failure) = (v\<lparr>bv_failures := bv_failures v + int k\<rparr>, 0)"
  by (induction k arbitrary: v) (auto simp: breaker_step_def transition_fields Let_def)

lemma breaker_run_below_threshold:
  "bv_state v = Closed \<Longrightarrow> bv_failures v + int k < failure_threshold cfg \<Longrightarrow>
   breaker_run cfg v (replicate k Failure) = (v\<lparr>bv_failures := bv_failures v + int k\<rparr>, 0)"
  by (induction k arbitrary: v) (auto simp: breaker_step_def transition_fields Let_def)

text \<open>
  From a fresh closed breaker, \<open>k\<close> consecutive failures leave it closed with \<open>k\<close> failures
  and no alarm as long as \<open>k\<close> is below the threshold; from the threshold on it is open, the
  first cooldown is the default (capped), and the alarm has fired exactly once, however many
  straggling failures follow.
\<close>

theorem breaker_opens_at_threshold:
  assumes "0 < failure_threshold cfg"
  shows "breaker_run cfg fresh_breaker (replicate k Failure) =
    (if int k < failure_threshold cfg
     then (\<lparr>bv_state = Closed, bv_failures = int k, bv_cooldown = None\<rparr>, 0)
     else (\<lparr>bv_state = Open, bv_failures = int k,
            bv_cooldown = Some (min (default_cooldown_seconds cfg) (max_cooldown_seconds cfg))\<rparr>, 1))"
proof (cases "int k < failure_threshold cfg")
  case True
  then show ?thesis
    by (simp add: fresh_breaker_def breaker_run_below_threshold)
next
  case False
  define n where "n = nat (failure_threshold cfg) - 1"
  from assms have n: "int n + 1 = failure_threshold cfg" by (simp add: n_def)
  with False have k: "replicate k Failure =
      replicate n Failure @ Failure # replicate (k - Suc n) Failure"
    by (simp flip: replicate_Suc replicate_add)
  show ?thesis
    unfolding k using False n
    by (simp add: breaker_run_append fresh_breaker_def breaker_run_below_threshold
        breaker_step_def transition_fields next_cooldown_def breaker_run_open_failures
        of_nat_diff Let_def)
qed

theorem breaker_opens_at_threshold_witness:
  "breaker_run \<lparr>failure_threshold = 5, default_cooldown_seconds = 60, max_cooldown_seconds = 3600\<rparr>
     fresh_breaker (replicate 7 Failure) =
   (\<lparr>bv_state = Open, bv_failures = 7, bv_cooldown = Some 60\<rparr>, 1)"
  by (subst breaker_opens_at_threshold) simp_all

end
