(* ===== verification/Database.thy ===== *)
theory Database
  imports Bands Cadence Breaker
begin

text \<open>
  The tables of \<^verbatim>\<open>migrations/\<close> that the modelled stores read and write, as one record of
  lists of rows, and the row-level CHECK constraints of those tables.

  A transaction is a function from the state before to the state after (or to an exception, when
  the state is the one before).  \<open>db_now\<close> is \<^verbatim>\<open>now()\<close> of the transaction under way,
  \<open>db_fresh\<close> the source of \<^verbatim>\<open>gen_random_uuid()\<close>, \<open>db_serial\<close> of
  \<^verbatim>\<open>BIGSERIAL\<close> ids.  The \<^verbatim>\<open>SELECT .. FOR UPDATE\<close> of a store is the reason its
  read-modify-write may be modelled as one step.
\<close>

section \<open>Enumerations\<close>

datatype confirm_state =
  Unconfirmed | Machine_triaged | Confirmed | Rejected | Duplicate | Quarantined

datatype severity =
  Ncii_suspected | Explicit_unmatched | Unassessed | Benign_copy | Likely_not_subject

datatype hit_status =
    Status_new | Acknowledged | Dismissed_not_me | Authorised | Url_dead | Withdrawn
  | User_resolved

datatype task_status = Pending | Decided | Task_quarantined

datatype run_status = Queued | Running | Completed | Refused

datatype keyed_on = Page_url | Image_url

section \<open>Rows\<close>

text \<open>\<^verbatim>\<open>providers\<close>: the columns of \<^verbatim>\<open>ProviderRuntime\<close>.\<close>

record provider_runtime =
  pr_provider_id :: provider_id
  pr_enabled :: bool
  pr_cost_per_call_usd :: "money option"
  pr_daily_budget_usd :: "money option"
  pr_monthly_budget_usd :: "money option"
  pr_rate_limit_per_min :: "int option"
  pr_breaker_state :: breaker_state
  pr_breaker_opened_at :: "instant option"
  pr_breaker_reason :: "string option"
  pr_breaker_consecutive_failures :: int
  pr_breaker_cooldown_seconds :: "int option"
  pr_kind :: string

record daily_spend =
  ds_provider_id :: provider_id
  ds_spend_date :: int
  ds_call_count :: int
  ds_cost_usd :: money

record provider_call =
  pc_run_id :: "uuid option"
  pc_provider_id :: provider_id
  pc_status :: string
  pc_http_status :: "int option"
  pc_latency_ms :: "int option"
  pc_cost_usd :: "money option"
  pc_attempt :: int
  pc_error_detail :: "string option"
  pc_raw_response :: "json option"
  pc_intel_run_id :: "uuid option"
  pc_created_at :: instant

record subject_row =
  sj_user_ref :: user_ref
  sj_discovery_eligible :: bool
  sj_eligibility_reason :: string
  sj_created_at :: instant
  sj_updated_at :: instant

record seed_row =
  seed_id :: uuid
  seed_user_ref :: user_ref
  seed_kind :: string
  source_object_ref :: string
  seed_status :: string
  seed_created_at :: instant
  scan_tier :: scan_tier
  next_scan_after :: "instant option"
  tier_next_scan_after :: "instant option"
  consecutive_empty_scans :: int
  attributed_face_id :: "uuid option"

record run_row =
  run_id :: uuid
  run_seed_id :: uuid
  run_user_ref :: user_ref
  run_status :: run_status
  providers_attempted :: "provider_id list"
  providers_succeeded :: "provider_id list"
  matches_found :: nat
  threshold_config :: json
  run_seed_url :: string
  started_at :: instant
  claimed_at :: "instant option"
  completed_at :: "instant option"

record content_url =
  cu_url_hash :: url_hash
  cu_url :: string
  cu_source_domain :: string
  cu_canonical_url :: string
  cu_normalisation_version :: string
  cu_first_seen_at :: instant
  cu_last_seen_at :: instant

record infringement =
  infringement_id :: uuid
  inf_user_ref :: user_ref
  inf_url_hash :: url_hash
  page_url :: string
  image_url :: "string option"
  keyed_on :: keyed_on
  first_seen_at :: instant
  last_seen_at :: instant
  seen_count :: nat
  url_alive :: bool
  last_checked_at :: "instant option"
  last_attempted_at :: "instant option"
  inf_band :: string
  band_reason :: "string option"
  inf_status :: hit_status
  confirm_state :: confirm_state
  inf_severity :: "severity option"
  confirm_decided_by :: "string option"
  confirm_decided_at :: "instant option"
  duplicate_of :: "uuid option"
  phash :: "int option"
  face_match_score :: "rat option"
  moderation_labels :: "json option"
  preview_image_url :: "string option"

record attestation =
  at_infringement_id :: uuid
  at_provider_id :: provider_id
  at_score_kind :: score_kind
  at_provider_score :: "decimal option"
  at_provider_category :: "string option"
  at_query_quality :: "string option"
  at_score_version :: string
  first_confirmed_at :: instant
  last_confirmed_at :: instant
  confirm_count :: nat
  last_run_id :: "uuid option"
  at_band :: string
  at_calibration_version :: "string option"

record feedback_row =
  fb_infringement_id :: uuid
  fb_user_ref :: user_ref
  fb_signal :: string
  fb_created_at :: instant

record review_task =
  task_id :: uuid
  task_infringement_id :: uuid
  task_user_ref :: user_ref
  task_severity :: severity
  task_triage :: json
  task_status :: task_status
  task_decision :: "string option"
  task_decided_by :: "string option"
  task_decided_at :: "instant option"
  task_created_at :: instant

record review_verdict =
  verdict_id :: uuid
  rv_infringement_id :: uuid
  rv_operator :: string
  rv_verdict :: string
  rv_note :: "string option"
  machine_severity :: "severity option"
  rv_face_match_score :: "rat option"
  confirm_state_at_verdict :: confirm_state
  rv_created_at :: instant

record audit_row =
  actor_type :: string
  action :: string
  subject_ref :: "uuid option"
  resource_id :: "uuid option"
  metadata :: json
  occurred_at :: instant

text \<open>The payload \<^verbatim>\<open>{event, id}\<close> is kept as its two fields.\<close>

record outbox_payload =
  event :: string
  payload_id :: uuid

record outbox_row =
  outbox_id :: nat
  queue_name :: string
  payload :: outbox_payload
  ob_created_at :: instant
  published_at :: "instant option"
  attempts :: nat
  last_error :: "string option"

section \<open>The database\<close>

record db =
  db_now :: instant
  db_fresh :: uuid
  db_serial :: nat
  providers :: "provider_runtime list"
  provider_spend :: "daily_spend list"
  provider_calls :: "provider_call list"
  intel_run_ids :: "uuid list"
  subjects :: "subject_row list"
  search_seeds :: "seed_row list"
  search_runs :: "run_row list"
  content_urls :: "content_url list"
  infringements :: "infringement list"
  attestations :: "attestation list"
  infringement_feedback :: "feedback_row list"
  review_tasks :: "review_task list"
  review_verdicts :: "review_verdict list"
  audit_log :: "audit_row list"
  outbox :: "outbox_row list"

definition empty_db :: db where
  "empty_db = \<lparr>db_now = 0, db_fresh = 0, db_serial = 0, providers = [], provider_spend = [],
     provider_calls = [], intel_run_ids = [], subjects = [], search_seeds = [], search_runs = [],
     content_urls = [], infringements = [], attestations = [], infringement_feedback = [],
     review_tasks = [], review_verdicts = [], audit_log = [], outbox = []\<rparr>"

section \<open>Constraints\<close>

text \<open>0021: \<^verbatim>\<open>infringements_confirmed_needs_human\<close>, \<^verbatim>\<open>infringements_duplicate_needs_source\<close>.\<close>

definition confirmed_needs_human :: "infringement \<Rightarrow> bool" where
  "confirmed_needs_human i \<longleftrightarrow>
     confirm_state i \<noteq> Confirmed \<or>
     (confirm_decided_by i \<noteq> None \<and> confirm_decided_at i \<noteq> None)"

definition duplicate_needs_source :: "infringement \<Rightarrow> bool" where
  "duplicate_needs_source i \<longleftrightarrow> (confirm_state i = Duplicate) = (duplicate_of i \<noteq> None)"

text \<open>0021: \<^verbatim>\<open>review_tasks_decided_shape\<close> and the \<^verbatim>\<open>decision\<close> vocabulary.\<close>

definition decided_shape :: "review_task \<Rightarrow> bool" where
  "decided_shape t \<longleftrightarrow>
     (task_status t = Decided) =
     (task_decision t \<noteq> None \<and> task_decided_by t \<noteq> None \<and> task_decided_at t \<noteq> None)"

definition decision_valid :: "review_task \<Rightarrow> bool" where
  "decision_valid t \<longleftrightarrow>
     (case task_decision t of None \<Rightarrow> True | Some d \<Rightarrow> d = ''confirmed'' \<or> d = ''rejected'')"

text \<open>0005: \<^verbatim>\<open>attestation_score_shape\<close>.\<close>

definition attestation_score_shape :: "attestation \<Rightarrow> bool" where
  "attestation_score_shape a \<longleftrightarrow>
     (at_score_kind a = Numeric \<and> at_provider_score a \<noteq> None) \<or>
     (at_score_kind a = Categorical \<and> at_provider_category a \<noteq> None)"

text \<open>0039: \<^verbatim>\<open>provider_calls_one_run\<close>.\<close>

definition one_run :: "provider_call \<Rightarrow> bool" where
  "one_run c \<longleftrightarrow> pc_run_id c = None \<or> pc_intel_run_id c = None"

text \<open>
  A checked \<^verbatim>\<open>UPDATE infringements\<close>: the constraints are evaluated on the rows it writes.
\<close>

definition update_infringements ::
  "(infringement \<Rightarrow> bool) \<Rightarrow> (infringement \<Rightarrow> infringement) \<Rightarrow> 'a db_scheme
     \<Rightarrow> exn + 'a db_scheme" where
  "update_infringements p f d =
     (let written = map f (filter p (infringements d)) in
      if \<not> list_all confirmed_needs_human written
      then Inl (CheckViolation ''infringements_confirmed_needs_human'')
      else if \<not> list_all duplicate_needs_source written
      then Inl (CheckViolation ''infringements_duplicate_needs_source'')
      else Inr (d\<lparr>infringements := sql_update p f (infringements d)\<rparr>))"

definition insert_audit :: "audit_row \<Rightarrow> 'a db_scheme \<Rightarrow> 'a db_scheme" where
  "insert_audit a d = d\<lparr>audit_log := audit_log d @ [a]\<rparr>"

definition audit_entry ::
  "string \<Rightarrow> string \<Rightarrow> uuid option \<Rightarrow> uuid option \<Rightarrow> json \<Rightarrow> 'a db_scheme \<Rightarrow> audit_row" where
  "audit_entry actor act subject resource md d =
     \<lparr>actor_type = actor, action = act, subject_ref = subject, resource_id = resource,
      metadata = md, occurred_at = db_now d\<rparr>"

definition json_opt :: "('a \<Rightarrow> json) \<Rightarrow> 'a option \<Rightarrow> json" where
  "json_opt f x = (case x of None \<Rightarrow> JNull | Some v \<Rightarrow> f v)"

lemma insert_audit_frame [simp]:
  "db_now (insert_audit a d) = db_now d" "db_fresh (insert_audit a d) = db_fresh d"
  "providers (insert_audit a d) = providers d"
  "provider_spend (insert_audit a d) = provider_spend d"
  "provider_calls (insert_audit a d) = provider_calls d"
  "search_seeds (insert_audit a d) = search_seeds d"
  "search_runs (insert_audit a d) = search_runs d"
  "content_urls (insert_audit a d) = content_urls d"
  "infringements (insert_audit a d) = infringements d"
  "attestations (insert_audit a d) = attestations d"
  "infringement_feedback (insert_audit a d) = infringement_feedback d"
  "review_tasks (insert_audit a d) = review_tasks d"
  "review_verdicts (insert_audit a d) = review_verdicts d"
  "subjects (insert_audit a d) = subjects d"
  "outbox (insert_audit a d) = outbox d"
  "audit_log (insert_audit a d) = audit_log d @ [a]"
  by (simp_all add: insert_audit_def)

lemma update_infringements_Inr:
  "update_infringements p f d = Inr d' \<longleftrightarrow>
     list_all confirmed_needs_human (map f (filter p (infringements d))) \<and>
     list_all duplicate_needs_source (map f (filter p (infringements d))) \<and>
     d' = d\<lparr>infringements := sql_update p f (infringements d)\<rparr>"
  by (auto simp: update_infringements_def Let_def)

end
