(* ===== verification/Budget.thy ===== *)
theory Budget
  imports Prelude
begin

text \<open>
  The budget verdict of \<^verbatim>\<open>src/imageshield/providers/budget.py\<close>.  The \<^verbatim>\<open>detail\<close>
  text is kept as the figures it is formatted from (\<open>verdict_detail\<close>); \<open>detail_text\<close>
  renders it where a store writes it down.
\<close>

datatype verdict_detail =
    NoDailyBudget
  | CostUnknown money
  | OverBudget money money money money
  | HeadroomAfterCall money

record budget_verdict =
  allowed :: bool
  verdict_detail :: verdict_detail

definition verdict :: "money option \<Rightarrow> money option \<Rightarrow> money \<Rightarrow> budget_verdict" where
  "verdict cost_per_call_usd daily_budget_usd spent_today_usd =
     (case daily_budget_usd of
        None \<Rightarrow> \<lparr>allowed = True, verdict_detail = NoDailyBudget\<rparr>
      | Some budget \<Rightarrow>
          (case cost_per_call_usd of
             None \<Rightarrow> \<lparr>allowed = False, verdict_detail = CostUnknown budget\<rparr>
           | Some cost \<Rightarrow>
               let projected = spent_today_usd + cost in
               if projected > budget
               then \<lparr>allowed = False,
                     verdict_detail = OverBudget spent_today_usd cost projected budget\<rparr>
               else \<lparr>allowed = True, verdict_detail = HeadroomAfterCall (budget - projected)\<rparr>))"

definition headroom :: "money option \<Rightarrow> money \<Rightarrow> money option" where
  "headroom daily_budget_usd spent_today_usd =
     (case daily_budget_usd of
        None \<Rightarrow> None
      | Some budget \<Rightarrow> Some (max (budget - spent_today_usd) 0))"

lemma allowed_verdict_iff:
  "allowed (verdict cost budget spent) \<longleftrightarrow>
     (case budget of None \<Rightarrow> True
      | Some b \<Rightarrow> (case cost of None \<Rightarrow> False | Some c \<Rightarrow> spent + c \<le> b))"
  by (auto simp: verdict_def Let_def split: option.split)

lemma verdict_headroom:
  "allowed (verdict (Some c) (Some b) spent) \<Longrightarrow> 0 \<le> c \<Longrightarrow>
   \<exists>h. headroom (Some b) spent = Some h \<and> c \<le> h"
  by (auto simp: allowed_verdict_iff headroom_def)

section \<open>The text of a verdict\<close>

text \<open>
  \<^verbatim>\<open>BudgetVerdict.detail\<close>.  A \<^verbatim>\<open>Decimal\<close> prints with the scale of its column: six places
  for spend and price, two for the budget.  (A day without a spend row prints its zero as \<open>0\<close>
  in the source and as \<open>0.000000\<close> here.)  Text is UTF-8.
\<close>

definition em_dash :: string where
  "em_dash = [CHR 0xE2, CHR 0x80, CHR 0x94]"

fun pad_digits :: "nat \<Rightarrow> nat \<Rightarrow> string" where
  "pad_digits 0 n = []"
| "pad_digits (Suc k) n = pad_digits k (n div 10) @ [char_of (48 + n mod 10)]"

definition decimal_text :: "nat \<Rightarrow> rat \<Rightarrow> string" where
  "decimal_text scale x =
     (let n = nat \<lfloor>\<bar>x\<bar> * 10 ^ scale\<rfloor>
      in (if x < 0 then ''-'' else []) @ show_nat (n div 10 ^ scale) @ ''.'' @
         pad_digits scale (n mod 10 ^ scale))"

fun detail_text :: "verdict_detail \<Rightarrow> string" where
  "detail_text NoDailyBudget = ''no daily budget configured''"
| "detail_text (CostUnknown budget) =
     ''daily_budget_usd is set ('' @ decimal_text 2 budget @
     '') but cost_per_call_usd is unknown '' @ em_dash @
     '' refusing to dispatch rather than spend against an unenforceable cap''"
| "detail_text (OverBudget spent cost projected budget) =
     ''spent '' @ decimal_text 6 spent @ '' + '' @ decimal_text 6 cost @ '' would reach '' @
     decimal_text 6 projected @ '', over the '' @ decimal_text 2 budget @ '' daily budget''"
| "detail_text (HeadroomAfterCall h) = decimal_text 6 h @ '' headroom after this call''"

section \<open>Spending under the verdict\<close>

text \<open>
  Calls dispatched one after another: each is checked against the spend so far and charged
  when allowed.
\<close>

fun spend_sequential :: "money option \<Rightarrow> money \<Rightarrow> money list \<Rightarrow> money" where
  "spend_sequential budget spent [] = spent"
| "spend_sequential budget spent (c # cs) =
     spend_sequential budget
       (if allowed (verdict (Some c) budget spent) then spent + c else spent) cs"

text \<open>
  Concurrent dispatches of one provider: every one of them read the same spend row before
  any of them was recorded (the check-then-act window of \<^verbatim>\<open>gate.py\<close>).
\<close>

definition spend_concurrent :: "money option \<Rightarrow> money \<Rightarrow> money list \<Rightarrow> money" where
  "spend_concurrent budget spent cs =
     spent + sum_list (filter (\<lambda>c. allowed (verdict (Some c) budget spent)) cs)"

lemma spend_sequential_le_budget:
  "spent \<le> b \<Longrightarrow> spend_sequential (Some b) spent cs \<le> b"
  by (induction cs arbitrary: spent) (auto simp: allowed_verdict_iff)

text \<open>
  A daily budget is a ceiling: calls checked one after another against the recorded spend
  never take it over the budget, and \<open>n + 1\<close> calls at one price that all read the same spend
  before any was recorded overshoot it by at most \<open>n\<close> times the price, within the bound the
  guard chain states for its check-then-act window.
\<close>

theorem budget_ceiling:
  assumes "spent \<le> b" and "0 \<le> c"
  shows "spend_sequential (Some b) spent cs \<le> b \<and>
    spend_concurrent (Some b) spent (replicate (Suc n) c) \<le> b + of_nat n * c"
proof
  show "spend_sequential (Some b) spent cs \<le> b"
    using assms(1) by (rule spend_sequential_le_budget)
  have sum: "sum_list (replicate k c) = of_nat k * c" for k
    by (induction k) (auto simp: algebra_simps)
  show "spend_concurrent (Some b) spent (replicate (Suc n) c) \<le> b + of_nat n * c"
  proof (cases "spent + c \<le> b")
    case True
    then have "filter (\<lambda>c. allowed (verdict (Some c) (Some b) spent)) (replicate (Suc n) c)
        = replicate (Suc n) c"
      by (simp add: filter_replicate allowed_verdict_iff)
    with True sum [of n] show ?thesis
      by (simp add: spend_concurrent_def add.assoc [symmetric])
  next
    case False
    then have "spend_concurrent (Some b) spent (replicate (Suc n) c) = spent"
      by (simp add: spend_concurrent_def filter_replicate allowed_verdict_iff)
    with assms show ?thesis by (simp add: add_increasing2)
  qed
qed

theorem budget_ceiling_witness:
  "spend_sequential (Some 1) 0 [1/2, 2/5, 1/5, 1/10] \<le> 1 \<and>
   spend_concurrent (Some 1) (9/10) (replicate (Suc 2) (1/10)) \<le> 1 + of_nat 2 * (1/10)"
  using budget_ceiling [of 0 1 "1/10" "[1/2, 2/5, 1/5, 1/10]"]
    budget_ceiling [of "9/10" 1 "1/10" "[]" 2] by simp

end
