(* ===== verification/Provider_Store.thy ===== *)
theory Provider_Store
  imports Database Budget
begin

text \<open>
  The provider control store of \<^verbatim>\<open>src/imageshield/providers/store.py\<close>
  (\<^verbatim>\<open>PostgresProviderControlStore\<close>) on the database of theory \<open>Database\<close>, and the
  \<^verbatim>\<open>ProviderResult\<close> of \<^verbatim>\<open>src/imageshield/search/provider.py\<close>.

  \<open>process\<close> is the database as one process sees it, with that process's runtime cache and its
  monotonic clock.  A row of \<^verbatim>\<open>providers\<close> is a \<open>provider_runtime\<close>; provider ids are written
  by migrations only, so \<^verbatim>\<open>parse_provider_id\<close> of a stored id is the id.  Log lines are not
  modelled.
\<close>

section \<open>What an adapter returns\<close>

record provider_match =
  pm_image_url :: string
  pm_page_urls :: "string list"
  pm_provider_score :: "decimal option"
  pm_provider_category :: "string option"
  pm_query_quality :: "string option"

record provider_result =
  res_provider_id :: provider_id
  res_status :: string
  res_matches :: "provider_match list"
  res_raw_response :: json
  res_http_status :: "int option"
  res_latency_ms :: int
  res_attempts :: int
  res_error_detail :: "string option"

datatype skip_reason = Provider_disabled | Breaker_open | Budget_exceeded

fun skip_reason_text :: "skip_reason \<Rightarrow> string" where
  "skip_reason_text Provider_disabled = ''provider_disabled''"
| "skip_reason_text Breaker_open = ''breaker_open''"
| "skip_reason_text Budget_exceeded = ''budget_exceeded''"

section \<open>The process\<close>

record process = db +
  cached :: "(provider_id \<Rightarrow> provider_runtime option) option"
  cached_at :: "rat option"
  monotonic :: rat

record control_cfg = breaker_cfg +
  cache_seconds :: rat

definition has_provider :: "provider_id \<Rightarrow> provider_runtime \<Rightarrow> bool" where
  "has_provider pid r \<longleftrightarrow> pr_provider_id r = pid"

definition runtime_of :: "provider_id \<Rightarrow> 'a db_scheme \<Rightarrow> provider_runtime option" where
  "runtime_of pid d = sql_first (has_provider pid) (providers d)"

section \<open>Reads\<close>

definition load_runtimes :: "'a db_scheme \<Rightarrow> provider_id \<Rightarrow> provider_runtime option" where
  "load_runtimes d = (\<lambda>pid. runtime_of pid d)"

definition runtimes ::
  "control_cfg \<Rightarrow> process \<Rightarrow> (provider_id \<Rightarrow> provider_runtime option) \<times> process" where
  "runtimes cfg w =
     (case (cached w, cached_at w) of
        (Some m, Some at0) \<Rightarrow>
          if monotonic w - at0 < cache_seconds cfg then (m, w)
          else (load_runtimes w, w\<lparr>cached := Some (load_runtimes w), cached_at := Some (monotonic w)\<rparr>)
      | _ \<Rightarrow>
          (load_runtimes w, w\<lparr>cached := Some (load_runtimes w), cached_at := Some (monotonic w)\<rparr>))"

definition invalidate :: "process \<Rightarrow> process" where
  "invalidate w = w\<lparr>cached := None, cached_at := None\<rparr>"

definition daily_spend :: "provider_id \<Rightarrow> int \<Rightarrow> 'a db_scheme \<Rightarrow> daily_spend option" where
  "daily_spend pid spend_date d =
     sql_first (\<lambda>r. ds_provider_id r = pid \<and> ds_spend_date r = spend_date) (provider_spend d)"

definition spend_or_zero :: "daily_spend option \<Rightarrow> money" where
  "spend_or_zero spend = (case spend of None \<Rightarrow> 0 | Some r \<Rightarrow> ds_cost_usd r)"

text \<open>A naive datetime is taken as UTC.\<close>

definition utc_spend_date :: "datetime \<Rightarrow> int" where
  "utc_spend_date now =
     (case utc_offset now of
        None \<Rightarrow> dt_date now
      | Some _ \<Rightarrow> dt_date (utc_datetime (dt_instant now)))"

section \<open>The half-open claim\<close>

definition cooldown_of :: "'c breaker_cfg_scheme \<Rightarrow> provider_runtime \<Rightarrow> int" where
  "cooldown_of cfg r =
     (case pr_breaker_cooldown_seconds r of None \<Rightarrow> default_cooldown_seconds cfg | Some c \<Rightarrow> c)"

definition claimable :: "'c breaker_cfg_scheme \<Rightarrow> instant \<Rightarrow> provider_runtime \<Rightarrow> bool" where
  "claimable cfg now r \<longleftrightarrow>
     (case pr_breaker_opened_at r of
        None \<Rightarrow> False
      | Some opened \<Rightarrow>
          (pr_breaker_state r = Open \<and> opened + cooldown_of cfg r * second_us \<le> now) \<or>
          (pr_breaker_state r = Half_open \<and>
           opened + (cooldown_of cfg r + default_cooldown_seconds cfg) * second_us \<le> now))"

definition claim_half_open_probe ::
  "control_cfg \<Rightarrow> provider_id \<Rightarrow> process \<Rightarrow> bool \<times> process" where
  "claim_half_open_probe cfg pid w =
     (if list_ex (\<lambda>r. has_provider pid r \<and> claimable cfg (db_now w) r) (providers w)
      then (True, invalidate (w\<lparr>providers :=
              sql_update (\<lambda>r. has_provider pid r \<and> claimable cfg (db_now w) r)
                (\<lambda>r. r\<lparr>pr_breaker_state := Half_open\<rparr>) (providers w)\<rparr>))
      else (False, w))"

section \<open>Recording a call\<close>

definition insert_call :: "provider_call \<Rightarrow> 'a db_scheme \<Rightarrow> exn + 'a db_scheme" where
  "insert_call c d =
     (if runtime_of (pc_provider_id c) d = None
      then Inl (ForeignKeyViolation ''provider_calls_provider_id_fkey'')
      else if (case pc_run_id c of None \<Rightarrow> False | Some r \<Rightarrow> r \<notin> run_id ` set (search_runs d))
      then Inl (ForeignKeyViolation ''provider_calls_run_id_fkey'')
      else if (case pc_intel_run_id c of None \<Rightarrow> False | Some r \<Rightarrow> r \<notin> set (intel_run_ids d))
      then Inl (ForeignKeyViolation ''provider_calls_intel_run_id_fkey'')
      else if \<not> one_run c then Inl (CheckViolation ''provider_calls_one_run'')
      else Inr (d\<lparr>provider_calls := provider_calls d @ [c]\<rparr>))"

definition charge :: "money \<Rightarrow> daily_spend \<Rightarrow> daily_spend" where
  "charge cost r = r\<lparr>ds_call_count := ds_call_count r + 1, ds_cost_usd := ds_cost_usd r + cost\<rparr>"

definition upsert_spend :: "provider_id \<Rightarrow> int \<Rightarrow> money \<Rightarrow> 'a db_scheme \<Rightarrow> 'a db_scheme" where
  "upsert_spend pid day cost d =
     d\<lparr>provider_spend :=
        sql_upsert (\<lambda>r. (ds_provider_id r, ds_spend_date r) = (pid, day)) (charge cost)
          \<lparr>ds_provider_id = pid, ds_spend_date = day, ds_call_count = 1, ds_cost_usd = cost\<rparr>
          (provider_spend d)\<rparr>"

definition apply_change :: "instant \<Rightarrow> breaker_transition \<Rightarrow> provider_runtime \<Rightarrow> provider_runtime" where
  "apply_change now c r =
     r\<lparr>pr_breaker_state := bt_state c,
       pr_breaker_consecutive_failures := bt_consecutive_failures c,
       pr_breaker_cooldown_seconds := bt_cooldown_seconds c,
       pr_breaker_reason := bt_reason c,
       pr_breaker_opened_at :=
         (case bt_opened_at c of Now \<Rightarrow> Some now | Clear \<Rightarrow> None | Keep \<Rightarrow> pr_breaker_opened_at r)\<rparr>"

definition apply_breaker :: "provider_id \<Rightarrow> breaker_transition \<Rightarrow> 'a db_scheme \<Rightarrow> 'a db_scheme" where
  "apply_breaker pid c d =
     d\<lparr>providers := sql_update (has_provider pid) (apply_change (db_now d) c) (providers d)\<rparr>"

definition show_int :: "int \<Rightarrow> string" where
  "show_int n = (if n < 0 then ''-'' @ show_nat (nat (- n)) else show_nat (nat n))"

definition breaker_reason :: "provider_result \<Rightarrow> string option" where
  "breaker_reason result =
     (if classify_status (res_status result) \<noteq> Failure then None
      else case res_http_status result of
        Some http \<Rightarrow> Some (res_status result @ '' (http '' @ show_int http @ '')'')
      | None \<Rightarrow> Some (res_status result))"

definition result_call ::
  "uuid option \<Rightarrow> provider_result \<Rightarrow> money option \<Rightarrow> uuid option \<Rightarrow> instant \<Rightarrow> provider_call" where
  "result_call run result cost intel now =
     \<lparr>pc_run_id = run, pc_provider_id = res_provider_id result, pc_status = res_status result,
      pc_http_status = res_http_status result, pc_latency_ms = Some (res_latency_ms result),
      pc_cost_usd = cost, pc_attempt = res_attempts result,
      pc_error_detail = res_error_detail result, pc_raw_response = Some (res_raw_response result),
      pc_intel_run_id = intel, pc_created_at = now\<rparr>"

definition outcome_transition ::
  "'c breaker_cfg_scheme \<Rightarrow> provider_runtime \<Rightarrow> provider_result \<Rightarrow> breaker_transition" where
  "outcome_transition cfg r result =
     transition (pr_breaker_state r) (pr_breaker_consecutive_failures r)
       (pr_breaker_cooldown_seconds r) (classify_status (res_status result))
       (failure_threshold cfg) (default_cooldown_seconds cfg) (max_cooldown_seconds cfg)
       (breaker_reason result)"

definition record_outcome ::
  "control_cfg \<Rightarrow> uuid option \<Rightarrow> provider_result \<Rightarrow> money option \<Rightarrow> int \<Rightarrow> uuid option
     \<Rightarrow> process \<Rightarrow> exn + process" where
  "record_outcome cfg run result cost_usd spend_date intel_run_id w =
     (case runtime_of (res_provider_id result) w of
        None \<Rightarrow> Inl (LookupError (''unknown provider '' @ res_provider_id result))
      | Some runtime \<Rightarrow>
          (case insert_call (result_call run result cost_usd intel_run_id (db_now w)) w of
             Inl e \<Rightarrow> Inl e
           | Inr w1 \<Rightarrow>
               let w2 = upsert_spend (res_provider_id result) spend_date
                          (case cost_usd of None \<Rightarrow> 0 | Some c \<Rightarrow> c) w1;
                   change = outcome_transition cfg runtime result
               in Inr (if bt_changed change
                       then invalidate (apply_breaker (res_provider_id result) change w2)
                       else w2)))"

definition skip_call ::
  "uuid option \<Rightarrow> provider_id \<Rightarrow> skip_reason \<Rightarrow> string \<Rightarrow> uuid option \<Rightarrow> instant \<Rightarrow> provider_call" where
  "skip_call run pid reason detail intel now =
     \<lparr>pc_run_id = run, pc_provider_id = pid, pc_status = skip_reason_text reason,
      pc_http_status = None, pc_latency_ms = None, pc_cost_usd = None, pc_attempt = 0,
      pc_error_detail = Some detail,
      pc_raw_response = Some (JObj [(''skipped'', JStr (skip_reason_text reason)),
                                    (''detail'', JStr detail)]),
      pc_intel_run_id = intel, pc_created_at = now\<rparr>"

definition record_skip ::
  "uuid option \<Rightarrow> provider_id \<Rightarrow> skip_reason \<Rightarrow> string \<Rightarrow> uuid option \<Rightarrow> 'a db_scheme
     \<Rightarrow> exn + 'a db_scheme" where
  "record_skip run pid reason detail intel_run_id w =
     insert_call (skip_call run pid reason detail intel_run_id (db_now w)) w"

section \<open>Admin writes\<close>

definition write_with_audit ::
  "provider_id \<Rightarrow> (provider_runtime \<Rightarrow> provider_runtime) \<Rightarrow> string \<Rightarrow> json \<Rightarrow> process
     \<Rightarrow> bool \<times> process" where
  "write_with_audit pid f act md w =
     (if \<not> list_ex (has_provider pid) (providers w) then (False, w)
      else (True, invalidate (insert_audit (audit_entry ''operator'' act None None md w)
                    (w\<lparr>providers := sql_update (has_provider pid) f (providers w)\<rparr>))))"

definition admin_metadata :: "provider_id \<Rightarrow> string \<Rightarrow> string \<Rightarrow> json" where
  "admin_metadata pid actor reason =
     JObj [(''provider_id'', JStr pid), (''actor'', JStr actor), (''reason'', JStr reason)]"

definition set_enabled ::
  "provider_id \<Rightarrow> bool \<Rightarrow> string \<Rightarrow> string \<Rightarrow> process \<Rightarrow> bool \<times> process" where
  "set_enabled pid on actor reason w =
     write_with_audit pid (\<lambda>r. r\<lparr>pr_enabled := on\<rparr>)
       (if on then ''provider.enabled'' else ''provider.disabled'')
       (admin_metadata pid actor reason) w"

definition closed_breaker :: "provider_runtime \<Rightarrow> provider_runtime" where
  "closed_breaker r =
     r\<lparr>pr_breaker_state := Closed, pr_breaker_consecutive_failures := 0,
       pr_breaker_cooldown_seconds := None, pr_breaker_reason := None,
       pr_breaker_opened_at := None\<rparr>"

definition reset_breaker :: "provider_id \<Rightarrow> string \<Rightarrow> string \<Rightarrow> process \<Rightarrow> bool \<times> process" where
  "reset_breaker pid actor reason w =
     write_with_audit pid closed_breaker ''provider.breaker_reset''
       (admin_metadata pid actor reason) w"

section \<open>Facts about rows\<close>

definition unique_providers :: "'a db_scheme \<Rightarrow> bool" where
  "unique_providers d \<longleftrightarrow> distinct (map pr_provider_id (providers d))"

interpretation spend: upsert_table
  "\<lambda>r. (ds_provider_id r, ds_spend_date r)"
  "\<lambda>(pid, day, cost). charge cost"
  "\<lambda>(pid, day, cost). \<lparr>ds_provider_id = pid, ds_spend_date = day, ds_call_count = 1,
     ds_cost_usd = cost\<rparr>"
  by unfold_locales (auto simp: charge_def)

lemma daily_spend_upsert:
  "daily_spend p d (upsert_spend pid day cost w) =
     (if p = pid \<and> d = day
      then Some (case daily_spend pid day w of
                   None \<Rightarrow> \<lparr>ds_provider_id = pid, ds_spend_date = day, ds_call_count = 1,
                             ds_cost_usd = cost\<rparr>
                 | Some r \<Rightarrow> charge cost r)
      else daily_spend p d w)"
proof -
  have key: "(\<lambda>r. ds_provider_id r = a \<and> ds_spend_date r = b) =
      (\<lambda>r. (ds_provider_id r, ds_spend_date r) = (a, b))" for a b
    by auto
  show ?thesis
    unfolding daily_spend_def key upsert_spend_def
    using spend.lookup_upsert [of "(p, d)" "(pid, day, cost)" "provider_spend w"]
    by (simp only: prod.case daily_spend.simps db.simps Pair_inject) (auto split: option.split)
qed

lemma distinct_spend_upsert [keeps]:
  "distinct (map (\<lambda>r. (ds_provider_id r, ds_spend_date r)) (provider_spend w)) \<Longrightarrow>
   distinct (map (\<lambda>r. (ds_provider_id r, ds_spend_date r)) (provider_spend (upsert_spend pid day cost w)))"
  using spend.distinct_upsert [of "provider_spend w" "(pid, day, cost)"]
  by (simp add: upsert_spend_def)

lemma spend_or_zero_upsert:
  "spend_or_zero (daily_spend p d (upsert_spend pid day cost w)) =
     spend_or_zero (daily_spend p d w) + (if p = pid \<and> d = day then cost else 0)"
  by (auto simp: daily_spend_upsert spend_or_zero_def charge_def split: option.splits)

lemma has_provider_apply [simp]: "has_provider p (apply_change now c r) = has_provider p r"
  by (simp add: has_provider_def apply_change_def)

lemma has_provider_half_open [simp]:
  "has_provider p (r\<lparr>pr_breaker_state := s\<rparr>) = has_provider p r"
  by (simp add: has_provider_def)

lemma runtime_of_apply_breaker:
  "runtime_of p (apply_breaker pid c w) =
     (if p = pid then map_option (apply_change (db_now w) c) (runtime_of p w) else runtime_of p w)"
proof (cases "p = pid")
  case True
  then show ?thesis
    unfolding runtime_of_def apply_breaker_def by (simp add: sql_first_update_same)
next
  case False
  then show ?thesis
    unfolding runtime_of_def apply_breaker_def
    by (simp, intro sql_first_update_other) (auto simp: has_provider_def apply_change_def)
qed

lemma invalidate_frame [simp]:
  "db_now (invalidate w) = db_now w" "db_fresh (invalidate w) = db_fresh w"
  "providers (invalidate w) = providers w"
  "provider_spend (invalidate w) = provider_spend w"
  "provider_calls (invalidate w) = provider_calls w"
  "search_runs (invalidate w) = search_runs w"
  "search_seeds (invalidate w) = search_seeds w"
  "infringements (invalidate w) = infringements w"
  "attestations (invalidate w) = attestations w"
  "content_urls (invalidate w) = content_urls w"
  "outbox (invalidate w) = outbox w" "subjects (invalidate w) = subjects w"
  "intel_run_ids (invalidate w) = intel_run_ids w"
  "audit_log (invalidate w) = audit_log w" "monotonic (invalidate w) = monotonic w"
  "cached (invalidate w) = None" "cached_at (invalidate w) = None"
  by (simp_all add: invalidate_def)

lemma apply_breaker_frame [simp]:
  "db_now (apply_breaker pid c w) = db_now w" "db_fresh (apply_breaker pid c w) = db_fresh w"
  "provider_spend (apply_breaker pid c w) = provider_spend w"
  "provider_calls (apply_breaker pid c w) = provider_calls w"
  "search_runs (apply_breaker pid c w) = search_runs w"
  "search_seeds (apply_breaker pid c w) = search_seeds w"
  "infringements (apply_breaker pid c w) = infringements w"
  "attestations (apply_breaker pid c w) = attestations w"
  "content_urls (apply_breaker pid c w) = content_urls w"
  "outbox (apply_breaker pid c w) = outbox w" "subjects (apply_breaker pid c w) = subjects w"
  "intel_run_ids (apply_breaker pid c w) = intel_run_ids w"
  "audit_log (apply_breaker pid c w) = audit_log w"
  by (simp_all add: apply_breaker_def)

lemma upsert_spend_frame [simp]:
  "db_now (upsert_spend pid day c w) = db_now w" "db_fresh (upsert_spend pid day c w) = db_fresh w"
  "providers (upsert_spend pid day c w) = providers w"
  "provider_calls (upsert_spend pid day c w) = provider_calls w"
  "search_runs (upsert_spend pid day c w) = search_runs w"
  "search_seeds (upsert_spend pid day c w) = search_seeds w"
  "infringements (upsert_spend pid day c w) = infringements w"
  "attestations (upsert_spend pid day c w) = attestations w"
  "content_urls (upsert_spend pid day c w) = content_urls w"
  "outbox (upsert_spend pid day c w) = outbox w" "subjects (upsert_spend pid day c w) = subjects w"
  "intel_run_ids (upsert_spend pid day c w) = intel_run_ids w"
  "audit_log (upsert_spend pid day c w) = audit_log w"
  "runtime_of p (upsert_spend pid day c w) = runtime_of p w"
  by (simp_all add: upsert_spend_def runtime_of_def)

lemma runtime_of_frame [simp]:
  "runtime_of p (invalidate w) = runtime_of p w"
  "runtime_of p (insert_audit a d) = runtime_of p d"
  "runtime_of p (d\<lparr>provider_calls := cs\<rparr>) = runtime_of p d"
  by (simp_all add: runtime_of_def)

lemma daily_spend_frame [simp]:
  "daily_spend p d (invalidate w) = daily_spend p d w"
  "daily_spend p d (apply_breaker pid c v) = daily_spend p d v"
  "daily_spend p d (v\<lparr>provider_calls := cs\<rparr>) = daily_spend p d v"
  by (simp_all add: daily_spend_def)

lemma insert_call_Inr:
  "insert_call c d = Inr d' \<Longrightarrow>
     d' = d\<lparr>provider_calls := provider_calls d @ [c]\<rparr> \<and> runtime_of (pc_provider_id c) d \<noteq> None"
  by (auto simp: insert_call_def split: if_splits)

lemma runtime_of_id: "runtime_of p d = Some r \<Longrightarrow> pr_provider_id r = p"
  using sql_first_SomeD [of "has_provider p" "providers d" r]
  by (auto simp: runtime_of_def has_provider_def)

section \<open>Recording an outcome is one transaction\<close>

lemma record_outcome_Inr:
  assumes "record_outcome cfg run result cost day intel w = Inr w'"
  obtains r where "runtime_of (res_provider_id result) w = Some r"
    and "provider_calls w' = provider_calls w @ [result_call run result cost intel (db_now w)]"
    and "\<And>p d. daily_spend p d w' =
      daily_spend p d (upsert_spend (res_provider_id result) day (case cost of None \<Rightarrow> 0 | Some c \<Rightarrow> c) w)"
    and "\<And>p. runtime_of p w' =
      (if p = res_provider_id result \<and> bt_changed (outcome_transition cfg r result)
       then map_option (apply_change (db_now w) (outcome_transition cfg r result)) (runtime_of p w)
       else runtime_of p w)"
    and "providers w' =
      (if bt_changed (outcome_transition cfg r result)
       then sql_update (has_provider (res_provider_id result))
              (apply_change (db_now w) (outcome_transition cfg r result)) (providers w)
       else providers w)"
    and "db_now w' = db_now w"
    and "bt_changed (outcome_transition cfg r result) \<Longrightarrow> cached w' = None"
proof -
  from assms obtain r where r: "runtime_of (res_provider_id result) w = Some r"
    by (auto simp: record_outcome_def split: option.splits)
  with assms obtain w1 where w1: "insert_call (result_call run result cost intel (db_now w)) w = Inr w1"
    by (auto simp: record_outcome_def split: sum.splits)
  from insert_call_Inr [OF w1]
  have w1_eq: "w1 = w\<lparr>provider_calls := provider_calls w @ [result_call run result cost intel (db_now w)]\<rparr>"
    by blast
  define pid where "pid = res_provider_id result"
  define c where "c = (case cost of None \<Rightarrow> 0 | Some c \<Rightarrow> c)"
  define t where "t = outcome_transition cfg r result"
  have w': "w' = (if bt_changed t then invalidate (apply_breaker pid t (upsert_spend pid day c w1))
                  else upsert_spend pid day c w1)"
    using assms by (auto simp: record_outcome_def r w1 Let_def pid_def c_def t_def)
  have spend: "daily_spend p d (upsert_spend pid day c w1) = daily_spend p d (upsert_spend pid day c w)"
    for p d
    by (simp add: daily_spend_upsert w1_eq)
  show thesis
  proof (rule that [OF r])
    show "provider_calls w' = provider_calls w @ [result_call run result cost intel (db_now w)]"
      by (simp add: w' w1_eq)
    show "daily_spend p d w' = daily_spend p d
        (upsert_spend (res_provider_id result) day (case cost of None \<Rightarrow> 0 | Some c \<Rightarrow> c) w)" for p d
      using spend by (simp add: w' flip: pid_def c_def)
    show "runtime_of p w' =
      (if p = res_provider_id result \<and> bt_changed (outcome_transition cfg r result)
       then map_option (apply_change (db_now w) (outcome_transition cfg r result)) (runtime_of p w)
       else runtime_of p w)" for p
      by (simp add: w' w1_eq runtime_of_apply_breaker flip: pid_def t_def)
    show "providers w' =
      (if bt_changed (outcome_transition cfg r result)
       then sql_update (has_provider (res_provider_id result))
              (apply_change (db_now w) (outcome_transition cfg r result)) (providers w)
       else providers w)"
      by (simp add: w' w1_eq apply_breaker_def upsert_spend_def flip: pid_def t_def)
    show "db_now w' = db_now w"
      by (simp add: w' w1_eq)
    show "bt_changed (outcome_transition cfg r result) \<Longrightarrow> cached w' = None"
      by (simp add: w' flip: t_def)
  qed
qed


text \<open>A process with one priced, budgeted provider, and a configuration.\<close>

definition hive_row :: provider_runtime where
  "hive_row = \<lparr>pr_provider_id = ''hive'', pr_enabled = True, pr_cost_per_call_usd = Some (1/100),
     pr_daily_budget_usd = Some 1, pr_monthly_budget_usd = None, pr_rate_limit_per_min = None,
     pr_breaker_state = Closed, pr_breaker_opened_at = None, pr_breaker_reason = None,
     pr_breaker_consecutive_failures = 0, pr_breaker_cooldown_seconds = None,
     pr_kind = ''image_search''\<rparr>"

definition process_of :: "db \<Rightarrow> process" where
  "process_of d = db.extend d (process.fields None None 0)"

definition hive_process :: process where
  "hive_process = process_of (empty_db\<lparr>providers := [hive_row]\<rparr>)"

definition demo_cfg :: control_cfg where
  "demo_cfg = \<lparr>failure_threshold = 5, default_cooldown_seconds = 300,
     max_cooldown_seconds = 3600, cache_seconds = 30\<rparr>"

definition hive_ok :: provider_result where
  "hive_ok = \<lparr>res_provider_id = ''hive'', res_status = ''ok'', res_matches = [],
     res_raw_response = JObj [], res_http_status = Some 200, res_latency_ms = 120,
     res_attempts = 1, res_error_detail = None\<rparr>"

lemmas demo_defs = hive_row_def process_of_def hive_process_def demo_cfg_def hive_ok_def
  empty_db_def db.defs process.defs


section \<open>The control plane as a transition system\<close>

text \<open>
  Any interleaving of the store's transactions by any number of processes, with time passing in
  between.  A transaction that raises leaves no step.
\<close>

inductive control_step :: "control_cfg \<Rightarrow> process \<Rightarrow> process \<Rightarrow> bool" for cfg where
  outcome: "record_outcome cfg run result cost day intel w = Inr w' \<Longrightarrow> control_step cfg w w'"
| skip: "record_skip run pid reason detail intel w = Inr w' \<Longrightarrow> control_step cfg w w'"
| claim: "control_step cfg w (snd (claim_half_open_probe cfg pid w))"
| enable: "control_step cfg w (snd (set_enabled pid on actor reason w))"
| reset: "control_step cfg w (snd (reset_breaker pid actor reason w))"
| read: "control_step cfg w (snd (runtimes cfg w))"
| tick: "db_now w \<le> t \<Longrightarrow> monotonic w \<le> m \<Longrightarrow> control_step cfg w (w\<lparr>db_now := t, monotonic := m\<rparr>)"

abbreviation control_reachable :: "control_cfg \<Rightarrow> process \<Rightarrow> process \<Rightarrow> bool" where
  "control_reachable cfg \<equiv> (control_step cfg)\<^sup>*\<^sup>*"

subsection \<open>The breaker of a stored row\<close>

text \<open>
  A closed breaker has fewer failures than the threshold and no clock; any other has at least the
  threshold, was opened in the past, and its cooldown is on the doubling ladder under the cap.
\<close>

definition breaker_ok :: "'c breaker_cfg_scheme \<Rightarrow> instant \<Rightarrow> provider_runtime \<Rightarrow> bool" where
  "breaker_ok cfg now r \<longleftrightarrow>
     (if pr_breaker_state r = Closed
      then 0 \<le> pr_breaker_consecutive_failures r \<and>
        pr_breaker_consecutive_failures r < failure_threshold cfg \<and>
        pr_breaker_cooldown_seconds r = None \<and> pr_breaker_opened_at r = None
      else failure_threshold cfg \<le> pr_breaker_consecutive_failures r \<and>
        (\<exists>t. pr_breaker_opened_at r = Some t \<and> t \<le> now) \<and>
        (\<exists>k. pr_breaker_cooldown_seconds r =
           Some (min (default_cooldown_seconds cfg * 2 ^ k) (max_cooldown_seconds cfg))))"

definition sane_cfg :: "'c breaker_cfg_scheme \<Rightarrow> bool" where
  "sane_cfg cfg \<longleftrightarrow> 0 < failure_threshold cfg \<and> 0 < default_cooldown_seconds cfg \<and>
     0 < max_cooldown_seconds cfg"

definition breakers_ok :: "control_cfg \<Rightarrow> process \<Rightarrow> bool" where
  "breakers_ok cfg w \<longleftrightarrow>
     unique_providers w \<and> (\<forall>r\<in>set (providers w). breaker_ok cfg (db_now w) r)"

lemma next_cooldown_ladder:
  assumes "0 < d" "0 < (m::int)"
  shows "next_cooldown None d m = min (d * 2 ^ 0) m"
    and "next_cooldown (Some (min (d * 2 ^ k) m)) d m = min (d * 2 ^ Suc k) m"
proof -
  have "0 < d * 2 ^ k" using assms(1) by simp
  with assms show "next_cooldown (Some (min (d * 2 ^ k) m)) d m = min (d * 2 ^ Suc k) m"
    by (simp add: next_cooldown_def min_def mult.commute mult.left_commute)
qed (simp add: next_cooldown_def)

lemma breaker_ok_transition:
  assumes ok: "breaker_ok cfg now r" and cfg: "sane_cfg cfg"
  shows "breaker_ok cfg now (apply_change now
    (transition (pr_breaker_state r) (pr_breaker_consecutive_failures r)
       (pr_breaker_cooldown_seconds r) out (failure_threshold cfg)
       (default_cooldown_seconds cfg) (max_cooldown_seconds cfg) reason) r)"
proof (cases out)
  case Success
  then show ?thesis using cfg
    by (simp add: breaker_ok_def apply_change_def  transition_fields sane_cfg_def)
next
  case Neutral
  then show ?thesis using ok
    by (auto simp: breaker_ok_def apply_change_def  transition_fields
        split: if_splits)
next
  case Failure
  show ?thesis
  proof (cases "pr_breaker_state r = Closed")
    case True
    then show ?thesis using ok Failure cfg next_cooldown_ladder(1)
      by (auto simp: breaker_ok_def apply_change_def  transition_fields
          sane_cfg_def intro!: exI [of _ 0])
  next
    case False
    with ok obtain k where k: "pr_breaker_cooldown_seconds r =
        Some (min (default_cooldown_seconds cfg * 2 ^ k) (max_cooldown_seconds cfg))"
      by (auto simp: breaker_ok_def)
    have "0 < default_cooldown_seconds cfg" "0 < max_cooldown_seconds cfg"
      using cfg by (simp_all add: sane_cfg_def)
    note ladder = next_cooldown_ladder(2) [OF this, of k]
    show ?thesis
    proof (cases "pr_breaker_state r")
      case Open
      then show ?thesis using ok Failure k
        by (auto simp: breaker_ok_def apply_change_def  transition_fields)
    next
      case Half_open
      then show ?thesis using ok Failure k ladder
        by (auto simp: breaker_ok_def apply_change_def  transition_fields
            intro!: exI [of _ "Suc k"])
    qed (use False in simp)
  qed
qed

lemma breaker_ok_apply [keeps]:
  "breaker_ok cfg now r \<Longrightarrow> sane_cfg cfg \<Longrightarrow>
   breaker_ok cfg now (apply_change now (outcome_transition cfg r result) r)"
  unfolding outcome_transition_def by (rule breaker_ok_transition)

lemma unique_runtime_of:
  "unique_providers d \<Longrightarrow> r \<in> set (providers d) \<Longrightarrow> runtime_of (pr_provider_id r) d = Some r"
proof -
  have "distinct (map pr_provider_id t) \<Longrightarrow> r \<in> set t \<Longrightarrow>
      sql_first (has_provider (pr_provider_id r)) t = Some r" for t
    by (induction t) (auto simp: has_provider_def image_iff)
  then show "unique_providers d \<Longrightarrow> r \<in> set (providers d) \<Longrightarrow>
      runtime_of (pr_provider_id r) d = Some r"
    by (simp add: unique_providers_def runtime_of_def)
qed

lemma breaker_ok_later: "breaker_ok cfg now r \<Longrightarrow> now \<le> t \<Longrightarrow> breaker_ok cfg t r"
  by (fastforce simp: breaker_ok_def split: if_splits)

lemma unique_update [keeps]:
  "(\<And>r. pr_provider_id (f r) = pr_provider_id r) \<Longrightarrow>
   distinct (map pr_provider_id (sql_update p f t)) = distinct (map pr_provider_id t)"
  by (simp add: map_sql_update)

lemma breakers_ok_update:
  assumes "breakers_ok cfg w" "\<And>r. pr_provider_id (f r) = pr_provider_id r"
    and "providers w' = sql_update p f (providers w)" "db_now w' = db_now w"
    and "\<And>r. r \<in> set (providers w) \<Longrightarrow> p r \<Longrightarrow> breaker_ok cfg (db_now w) r \<Longrightarrow>
           breaker_ok cfg (db_now w) (f r)"
  shows "breakers_ok cfg w'"
  using assms by (auto simp: breakers_ok_def unique_providers_def unique_update in_sql_update)

lemma claim_providers:
  "providers (snd (claim_half_open_probe cfg pid w)) =
     sql_update (\<lambda>r. has_provider pid r \<and> claimable cfg (db_now w) r)
       (\<lambda>r. r\<lparr>pr_breaker_state := Half_open\<rparr>) (providers w)"
  "db_now (snd (claim_half_open_probe cfg pid w)) = db_now w"
  by (auto simp: claim_half_open_probe_def list_ex_iff intro!: sql_update_none [symmetric])

lemma write_with_audit_providers:
  "providers (snd (write_with_audit pid f act md w)) =
     sql_update (has_provider pid) f (providers w)"
  "db_now (snd (write_with_audit pid f act md w)) = db_now w"
  by (auto simp: write_with_audit_def list_ex_iff intro!: sql_update_none [symmetric])

lemma runtimes_frame [simp]:
  "providers (snd (runtimes cfg w)) = providers w" "db_now (snd (runtimes cfg w)) = db_now w"
  "provider_spend (snd (runtimes cfg w)) = provider_spend w"
  "provider_calls (snd (runtimes cfg w)) = provider_calls w"
  by (auto simp: runtimes_def split: option.splits)

lemma record_skip_providers:
  "record_skip run pid reason detail intel w = Inr w' \<Longrightarrow>
     w' = w\<lparr>provider_calls := provider_calls w @ [skip_call run pid reason detail intel (db_now w)]\<rparr>"
  using insert_call_Inr by (fastforce simp: record_skip_def)

lemma claimable_not_closed: "claimable cfg now r \<Longrightarrow> pr_breaker_state r \<noteq> Closed"
  by (auto simp: claimable_def split: option.splits)

lemma control_step_breakers [keeps]:
  assumes "control_step cfg w w'" "sane_cfg cfg" "breakers_ok cfg w"
  shows "breakers_ok cfg w'"
  using assms(1)
proof cases
  case (outcome run result cost day intel)
  then show ?thesis
  proof (rule record_outcome_Inr)
    fix r assume r: "runtime_of (res_provider_id result) w = Some r"
    assume p: "providers w' =
        (if bt_changed (outcome_transition cfg r result)
         then sql_update (has_provider (res_provider_id result))
                (apply_change (db_now w) (outcome_transition cfg r result)) (providers w)
         else providers w)"
    assume now: "db_now w' = db_now w"
    have same: "q = r" if "q \<in> set (providers w)" "has_provider (res_provider_id result) q" for q
      using unique_runtime_of [of w q] assms(3) that r by (auto simp: breakers_ok_def has_provider_def)
    show ?thesis
    proof (cases "bt_changed (outcome_transition cfg r result)")
      case True
      with p have p': "providers w' = sql_update (has_provider (res_provider_id result))
          (apply_change (db_now w) (outcome_transition cfg r result)) (providers w)" by simp
      show ?thesis
        by (rule breakers_ok_update [OF assms(3) _ p' now])
          (use same assms(2) breaker_ok_apply in \<open>auto simp: apply_change_def\<close>)
    next
      case False
      with p now assms(3) show ?thesis by (simp add: breakers_ok_def unique_providers_def)
    qed
  qed
next
  case (skip run pid reason detail intel)
  from record_skip_providers [OF this] assms(3) show ?thesis
    by (simp add: breakers_ok_def unique_providers_def)
next
  case (claim pid)
  show ?thesis unfolding claim
    by (rule breakers_ok_update [OF assms(3) _ claim_providers])
      (auto simp: breaker_ok_def dest: claimable_not_closed split: if_splits)
next
  case (enable pid on actor reason)
  show ?thesis unfolding enable set_enabled_def
    by (rule breakers_ok_update [OF assms(3) _ write_with_audit_providers])
      (auto simp: breaker_ok_def)
next
  case (reset pid actor reason)
  show ?thesis unfolding reset reset_breaker_def
    by (rule breakers_ok_update [OF assms(3) _ write_with_audit_providers])
      (use assms(2) in \<open>auto simp: breaker_ok_def closed_breaker_def sane_cfg_def\<close>)
next
  case read
  with assms(3) show ?thesis by (simp add: breakers_ok_def unique_providers_def)
next
  case (tick t m)
  with assms(3) show ?thesis
    by (auto simp: breakers_ok_def unique_providers_def intro: breaker_ok_later)
qed

text \<open>
  Whatever calls, skips, probe claims, kill-switch flips and resets any number of workers
  interleave, every stored breaker keeps its meaning: closed means fewer consecutive failures than
  the threshold and nothing pending, and a breaker that is not closed reached the threshold, has
  an opening time in the past, and a cooldown that is the default doubled some number of times
  under the cap.
\<close>

theorem breaker_rows_keep_their_meaning:
  assumes "control_reachable cfg w w'" and "sane_cfg cfg" and "breakers_ok cfg w"
  shows "breakers_ok cfg w'"
  using assms(1)
  by induction (use assms(2,3) control_step_breakers in auto)

theorem breaker_rows_keep_their_meaning_witness:
  "breakers_ok demo_cfg (snd (set_enabled ''hive'' False ''op'' ''outage'' hive_process))"
proof -
  have step: "control_reachable demo_cfg hive_process
      (snd (set_enabled ''hive'' False ''op'' ''outage'' hive_process))"
    by (blast intro: control_step.enable)
  have "sane_cfg demo_cfg" by (simp add: sane_cfg_def demo_cfg_def)
  moreover have "breakers_ok demo_cfg hive_process"
    by (simp add: breakers_ok_def unique_providers_def breaker_ok_def demo_defs)
  ultimately show ?thesis by (rule breaker_rows_keep_their_meaning [OF step])
qed

subsection \<open>The spend ledger\<close>

text \<open>
  The two totals the module keeps apart: the pre-aggregated spend of a provider, and the
  \<^verbatim>\<open>SUM\<close> over \<^verbatim>\<open>provider_calls\<close> that the guard never computes.
\<close>

definition ledger_total :: "provider_id \<Rightarrow> 'a db_scheme \<Rightarrow> money" where
  "ledger_total p d =
     sum_list (map ds_cost_usd (filter (\<lambda>r. ds_provider_id r = p) (provider_spend d)))"

definition calls_total :: "provider_id \<Rightarrow> 'a db_scheme \<Rightarrow> money" where
  "calls_total p d =
     sum_list (map (\<lambda>c. case pc_cost_usd c of None \<Rightarrow> 0 | Some x \<Rightarrow> x)
       (filter (\<lambda>c. pc_provider_id c = p) (provider_calls d)))"

definition spend_keys_distinct :: "'a db_scheme \<Rightarrow> bool" where
  "spend_keys_distinct d \<longleftrightarrow> distinct (map (\<lambda>r. (ds_provider_id r, ds_spend_date r)) (provider_spend d))"

lemma charge_absent:
  "(pid, day) \<notin> (\<lambda>r. (ds_provider_id r, ds_spend_date r)) ` set t \<Longrightarrow>
   sql_update (\<lambda>r. (ds_provider_id r, ds_spend_date r) = (pid, day)) (charge c) t = t"
  by (rule sql_update_none) auto

lemma sum_charge_once:
  assumes "distinct (map (\<lambda>r. (ds_provider_id r, ds_spend_date r)) t)"
    and "(pid, day) \<in> (\<lambda>r. (ds_provider_id r, ds_spend_date r)) ` set t"
  shows "sum_list (map ds_cost_usd (filter (\<lambda>r. ds_provider_id r = p)
           (sql_update (\<lambda>r. (ds_provider_id r, ds_spend_date r) = (pid, day)) (charge c) t))) =
     sum_list (map ds_cost_usd (filter (\<lambda>r. ds_provider_id r = p) t)) + (if p = pid then c else 0)"
  using assms
proof (induction t)
  case Nil
  then show ?case by simp
next
  case (Cons r t)
  show ?case
  proof (cases "(ds_provider_id r, ds_spend_date r) = (pid, day)")
    case True
    with Cons.prems have "(pid, day) \<notin> (\<lambda>r. (ds_provider_id r, ds_spend_date r)) ` set t"
      by auto
    from charge_absent [OF this, of c] True show ?thesis
      by (simp only: sql_update_Cons if_True) (auto simp: charge_def)
  next
    case False
    with Cons show ?thesis by auto
  qed
qed

lemma ledger_total_upsert:
  assumes "spend_keys_distinct d"
  shows "ledger_total p (upsert_spend pid day c d) = ledger_total p d + (if p = pid then c else 0)"
proof (cases "(pid, day) \<in> (\<lambda>r. (ds_provider_id r, ds_spend_date r)) ` set (provider_spend d)")
  case True
  then have "list_ex (\<lambda>r. (ds_provider_id r, ds_spend_date r) = (pid, day)) (provider_spend d)"
    by (auto simp: list_ex_iff)
  with sum_charge_once [OF assms [unfolded spend_keys_distinct_def] True] show ?thesis
    by (simp add: ledger_total_def upsert_spend_def sql_upsert_def)
next
  case False
  then have "\<not> list_ex (\<lambda>r. (ds_provider_id r, ds_spend_date r) = (pid, day)) (provider_spend d)"
    by (auto simp: list_ex_iff)
  then show ?thesis
    by (simp add: ledger_total_def upsert_spend_def sql_upsert_def)
qed

lemma ledger_frame [simp]:
  "ledger_total p (invalidate w) = ledger_total p w"
  "ledger_total p (apply_breaker pid c v) = ledger_total p v"
  "calls_total p (invalidate w) = calls_total p w"
  "spend_keys_distinct (invalidate w) = spend_keys_distinct w"
  "spend_keys_distinct (apply_breaker pid c v) = spend_keys_distinct v"
  "ledger_total p (v\<lparr>provider_calls := cs\<rparr>) = ledger_total p v"
  "spend_keys_distinct (v\<lparr>provider_calls := cs\<rparr>) = spend_keys_distinct v"
  by (simp_all add: ledger_total_def calls_total_def spend_keys_distinct_def)

lemma record_outcome_ledger:
  assumes "record_outcome cfg run result cost day intel w = Inr w'" "spend_keys_distinct w"
  shows "spend_keys_distinct w' \<and>
    ledger_total p w' = ledger_total p w +
      (if p = res_provider_id result then (case cost of None \<Rightarrow> 0 | Some c \<Rightarrow> c) else 0)"
proof -
  obtain w1 where w1: "insert_call (result_call run result cost intel (db_now w)) w = Inr w1"
    using assms(1) by (auto simp: record_outcome_def split: option.splits sum.splits)
  from insert_call_Inr [OF w1] have frame: "spend_keys_distinct w1" "ledger_total p w1 = ledger_total p w"
    using assms(2) by auto
  have "spend_keys_distinct (upsert_spend (res_provider_id result) day c w1)" for c
    using distinct_spend_upsert [of w1] frame(1) by (simp add: spend_keys_distinct_def)
  with assms(1) w1 frame show ?thesis
    by (auto simp: record_outcome_def ledger_total_upsert Let_def split: option.splits)
qed



section \<open>The half-open probe\<close>

text \<open>How many of \<open>n\<close> workers that ask for the probe at one instant get it.\<close>

fun claim_winners :: "control_cfg \<Rightarrow> provider_id \<Rightarrow> nat \<Rightarrow> process \<Rightarrow> nat" where
  "claim_winners cfg pid 0 w = 0"
| "claim_winners cfg pid (Suc n) w =
     (let (won, w') = claim_half_open_probe cfg pid w
      in (if won then 1 else 0) + claim_winners cfg pid n w')"

lemma claimable_row_iff:
  assumes "unique_providers w" "runtime_of pid w = Some r"
  shows "list_ex (\<lambda>q. has_provider pid q \<and> claimable cfg now q) (providers w) \<longleftrightarrow> claimable cfg now r"
proof -
  have r: "r \<in> set (providers w)" "has_provider pid r"
    using assms(2) sql_first_SomeD [of "has_provider pid" "providers w" r]
    by (simp_all add: runtime_of_def)
  have "q = r" if "q \<in> set (providers w)" "has_provider pid q" for q
    using unique_runtime_of [OF assms(1) that(1)] assms(2) that(2) by (simp add: has_provider_def)
  with r show ?thesis unfolding list_ex_iff by blast
qed

lemma claim_winner_result:
  assumes "unique_providers w" "runtime_of pid w = Some r"
  shows "fst (claim_half_open_probe cfg pid w) \<longleftrightarrow> claimable cfg (db_now w) r"
    and "runtime_of pid (snd (claim_half_open_probe cfg pid w)) =
      Some (if claimable cfg (db_now w) r then r\<lparr>pr_breaker_state := Half_open\<rparr> else r)"
    and "unique_providers (snd (claim_half_open_probe cfg pid w))"
proof -
  show "fst (claim_half_open_probe cfg pid w) \<longleftrightarrow> claimable cfg (db_now w) r"
    unfolding claim_half_open_probe_def claimable_row_iff [OF assms] by simp
  show "unique_providers (snd (claim_half_open_probe cfg pid w))"
    using assms(1) by (simp add: unique_providers_def claim_providers unique_update)
  have "sql_first (has_provider pid) (sql_update (\<lambda>r. has_provider pid r \<and> claimable cfg (db_now w) r)
          (\<lambda>r. r\<lparr>pr_breaker_state := Half_open\<rparr>) (providers w)) =
      map_option (\<lambda>r. if has_provider pid r \<and> claimable cfg (db_now w) r
          then r\<lparr>pr_breaker_state := Half_open\<rparr> else r) (sql_first (has_provider pid) (providers w))"
    by (rule sql_first_update) simp
  then show "runtime_of pid (snd (claim_half_open_probe cfg pid w)) =
      Some (if claimable cfg (db_now w) r then r\<lparr>pr_breaker_state := Half_open\<rparr> else r)"
    using assms(2) runtime_of_id [OF assms(2)]
    by (simp add: runtime_of_def claim_providers has_provider_def)
qed

lemma claim_winners_half_open:
  assumes "unique_providers w" "runtime_of pid w = Some r" "pr_breaker_state r = Half_open"
  shows "claim_winners cfg pid n w = (if claimable cfg (db_now w) r then n else 0)"
  using assms
proof (induction n arbitrary: w)
  case 0
  then show ?case by simp
next
  case (Suc n)
  note res = claim_winner_result [OF Suc.prems(1,2), of cfg]
  have same: "r\<lparr>pr_breaker_state := Half_open\<rparr> = r" using Suc.prems(3) by simp
  have "claim_winners cfg pid n (snd (claim_half_open_probe cfg pid w)) =
      (if claimable cfg (db_now w) r then n else 0)"
    using Suc.IH [OF res(3), OF _ Suc.prems(3)] res(2) same claim_providers(2) [of cfg pid w] by auto
  with res(1) show ?case by (simp add: case_prod_beta)
qed

text \<open>
  The probe of an open breaker: before its cooldown is over nobody gets it, and during the
  grace period after that exactly one of any number of simultaneous workers does.  Once a whole
  default cooldown more has passed since the opening, the claim no longer excludes anyone: the
  stale-probe clause still counts from the opening time, which a claim does not refresh, so every
  worker that asks gets the probe.
\<close>

theorem half_open_probe_winners:
  assumes "unique_providers w" and "runtime_of pid w = Some r"
    and "pr_breaker_state r = Open" and "pr_breaker_opened_at r = Some opened"
    and "0 \<le> default_cooldown_seconds cfg"
  shows "claim_winners cfg pid n w =
    (let due = opened + cooldown_of cfg r * second_us in
     if db_now w < due then 0
     else if db_now w < due + default_cooldown_seconds cfg * second_us then min n 1
     else n)"
proof (cases n)
  case 0
  then show ?thesis by (simp add: Let_def)
next
  case (Suc m)
  note res = claim_winner_result [OF assms(1,2), of cfg]
  have open': "claimable cfg (db_now w) r \<longleftrightarrow> opened + cooldown_of cfg r * second_us \<le> db_now w"
    using assms(3,4) by (simp add: claimable_def)
  define h where "h = r\<lparr>pr_breaker_state := Half_open\<rparr>"
  have half: "claimable cfg (db_now w) h \<longleftrightarrow>
      opened + cooldown_of cfg r * second_us + default_cooldown_seconds cfg * second_us \<le> db_now w"
    using assms(4) by (simp add: claimable_def cooldown_of_def h_def algebra_simps)
  show ?thesis
  proof (cases "claimable cfg (db_now w) r")
    case True
    then have "claim_winners cfg pid m (snd (claim_half_open_probe cfg pid w)) =
        (if claimable cfg (db_now w) h then m else 0)"
      using claim_winners_half_open [OF res(3), of pid h cfg m] res(2) claim_providers(2) [of cfg pid w]
      by (simp add: h_def)
    with True res(1) Suc open' half show ?thesis by (auto simp: case_prod_beta Let_def)
  next
    case False
    then have "claim_half_open_probe cfg pid w = (False, w)"
      unfolding claim_half_open_probe_def claimable_row_iff [OF assms(1,2)] by simp
    then have "claim_winners cfg pid k w = 0" for k by (induction k) simp_all
    with False open' show ?thesis by (simp add: Let_def)
  qed
qed

definition open_row :: provider_runtime where
  "open_row = hive_row\<lparr>pr_breaker_state := Open, pr_breaker_opened_at := Some 0,
     pr_breaker_consecutive_failures := 5, pr_breaker_cooldown_seconds := Some 300\<rparr>"

definition open_process :: "instant \<Rightarrow> process" where
  "open_process now = process_of (empty_db\<lparr>providers := [open_row], db_now := now\<rparr>)"

theorem half_open_probe_winners_witness:
  "claim_winners demo_cfg ''hive'' 3 (open_process 400000000) = 1 \<and>
   claim_winners demo_cfg ''hive'' 3 (open_process 600000000) = 3"
proof -
  have "claim_winners demo_cfg ''hive'' 3 (open_process now) =
    (let due = 0 + cooldown_of demo_cfg open_row * second_us in
     if db_now (open_process now) < due then 0
     else if db_now (open_process now) < due + default_cooldown_seconds demo_cfg * second_us then min 3 1
     else 3)" for now
    by (rule half_open_probe_winners)
      (simp_all add: open_process_def open_row_def unique_providers_def runtime_of_def
        has_provider_def demo_defs)
  then show ?thesis
    by (simp add: open_process_def open_row_def cooldown_of_def demo_defs Let_def)
qed

section \<open>The kill switch and the cache\<close>

lemma write_with_audit_True:
  assumes "write_with_audit pid f act md w = (True, w')"
    and f: "\<And>r. has_provider pid (f r) = has_provider pid r"
  shows "runtime_of pid w' = map_option f (runtime_of pid w)"
    and "cached w' = None"
    and "audit_log w' = audit_log w @ [audit_entry ''operator'' act None None md w]"
proof -
  have w': "w' = invalidate (insert_audit (audit_entry ''operator'' act None None md w)
      (w\<lparr>providers := sql_update (has_provider pid) f (providers w)\<rparr>))"
    using assms(1) by (auto simp: write_with_audit_def split: if_splits)
  show "runtime_of pid w' = map_option f (runtime_of pid w)"
    by (simp add: w' runtime_of_def sql_first_update_same f)
  show "cached w' = None" "audit_log w' = audit_log w @ [audit_entry ''operator'' act None None md w]"
    by (simp_all add: w')
qed

text \<open>
  The kill switch takes effect.  A successful flip is audited and the flipping process sees the
  new flag on its next read; every other process, whatever its cache holds, re-reads the database
  once its copy is as old as the configured lifetime, and never serves an older one.
\<close>

theorem kill_switch_takes_effect:
  "(\<forall>w1 r. set_enabled pid on actor reason w = (True, w1) \<and> runtime_of pid w = Some r \<longrightarrow>
      fst (runtimes cfg w1) pid = Some (r\<lparr>pr_enabled := on\<rparr>) \<and>
      length (audit_log w1) = Suc (length (audit_log w))) \<and>
   (\<forall>at0. cached_at v = Some at0 \<and> cache_seconds cfg \<le> monotonic v - at0 \<longrightarrow>
      fst (runtimes cfg v) = (\<lambda>p. runtime_of p v)) \<and>
   (fst (runtimes cfg v) \<noteq> (\<lambda>p. runtime_of p v) \<longrightarrow>
      (\<exists>at0. cached_at v = Some at0 \<and> monotonic v - at0 < cache_seconds cfg))"
proof (intro conjI allI impI)
  fix w1 r assume h: "set_enabled pid on actor reason w = (True, w1) \<and> runtime_of pid w = Some r"
  note flip = write_with_audit_True [OF h [THEN conjunct1, unfolded set_enabled_def]]
  show "fst (runtimes cfg w1) pid = Some (r\<lparr>pr_enabled := on\<rparr>)"
    using flip(1,2) h by (simp add: runtimes_def load_runtimes_def has_provider_def)
  show "length (audit_log w1) = Suc (length (audit_log w))"
    using flip(3) by (simp add: has_provider_def)
next
  fix at0 assume "cached_at v = Some at0 \<and> cache_seconds cfg \<le> monotonic v - at0"
  then show "fst (runtimes cfg v) = (\<lambda>p. runtime_of p v)"
    by (auto simp: runtimes_def load_runtimes_def split: option.split)
next
  assume "fst (runtimes cfg v) \<noteq> (\<lambda>p. runtime_of p v)"
  then show "\<exists>at0. cached_at v = Some at0 \<and> monotonic v - at0 < cache_seconds cfg"
    by (auto simp: runtimes_def load_runtimes_def split: option.splits if_splits)
qed

theorem kill_switch_takes_effect_witness:
  "\<exists>w1. set_enabled ''hive'' False ''op'' ''outage'' hive_process = (True, w1) \<and>
     fst (runtimes demo_cfg w1) ''hive'' = Some (hive_row\<lparr>pr_enabled := False\<rparr>)"
proof -
  obtain w1 where w1: "set_enabled ''hive'' False ''op'' ''outage'' hive_process = (True, w1)"
    by (simp add: set_enabled_def write_with_audit_def has_provider_def demo_defs)
  have "runtime_of ''hive'' hive_process = Some hive_row"
    by (simp add: runtime_of_def has_provider_def demo_defs)
  with w1 conjunct1 [OF kill_switch_takes_effect] show ?thesis by blast
qed

end
