(* ===== verification/Gate.thy ===== *)
theory Gate
  imports Provider_Store
begin

text \<open>
  The dispatch guard chain of \<^verbatim>\<open>src/imageshield/providers/gate.py\<close> and the
  \<^verbatim>\<open>ProviderControlStore\<close> protocol it is written against.  A protocol is a record of
  operations on an arbitrary state; \<open>pg_control\<close> is the Postgres store.  The locale
  \<open>control_store\<close> states what the guard chain needs of a store.
\<close>

section \<open>The protocol\<close>

record 's provider_control =
  ctl_runtimes :: "'s \<Rightarrow> (provider_id \<Rightarrow> provider_runtime option) \<times> 's"
  ctl_daily_spend :: "provider_id \<Rightarrow> int \<Rightarrow> 's \<Rightarrow> daily_spend option"
  ctl_claim_half_open_probe :: "provider_id \<Rightarrow> 's \<Rightarrow> bool \<times> 's"
  ctl_record_outcome ::
    "uuid option \<Rightarrow> provider_result \<Rightarrow> money option \<Rightarrow> int \<Rightarrow> 's \<Rightarrow> exn + 's"
  ctl_record_skip ::
    "uuid option \<Rightarrow> provider_id \<Rightarrow> skip_reason \<Rightarrow> string \<Rightarrow> 's \<Rightarrow> exn + 's"

definition pg_control :: "control_cfg \<Rightarrow> process provider_control" where
  "pg_control cfg =
     \<lparr>ctl_runtimes = runtimes cfg,
      ctl_daily_spend = daily_spend,
      ctl_claim_half_open_probe = claim_half_open_probe cfg,
      ctl_record_outcome = (\<lambda>run result cost day. record_outcome cfg run result cost day None),
      ctl_record_skip = (\<lambda>run pid reason detail. record_skip run pid reason detail None)\<rparr>"

section \<open>The chain\<close>

datatype decision =
    Dispatch (dec_provider_id: provider_id) (dec_cost_usd: "money option") (dec_probe: bool)
  | Skip (dec_provider_id: provider_id) (dec_reason: skip_reason) (dec_detail: string)

definition em_dash_text :: "string \<Rightarrow> string \<Rightarrow> string" where
  "em_dash_text a b = a @ '' '' @ em_dash @ '' '' @ b"

text \<open>Python's \<^verbatim>\<open>reason or text\<close> for an optional reason.\<close>

definition text_or :: "string option \<Rightarrow> string \<Rightarrow> string" where
  "text_or s dflt = (case s of None \<Rightarrow> dflt | Some t \<Rightarrow> if t = [] then dflt else t)"

definition decide ::
  "'s provider_control \<Rightarrow> provider_id \<Rightarrow> provider_runtime option \<Rightarrow> datetime \<Rightarrow> 's \<Rightarrow> decision \<times> 's" where
  "decide store pid runtime now s =
     (case runtime of
        None \<Rightarrow>
          (Skip pid Provider_disabled
             (em_dash_text ''no provider row'' ''treated as disabled so the run still completes''), s)
      | Some r \<Rightarrow>
          if \<not> pr_enabled r then
            (Skip pid Provider_disabled ''kill switch: providers.enabled = false'', s)
          else if pr_breaker_state r = Half_open then
            (Skip pid Breaker_open ''half-open probe already in flight'', s)
          else
            let needs_probe = pr_breaker_state r = Open;
                spend = ctl_daily_spend store pid (utc_spend_date now) s;
                money = verdict (pr_cost_per_call_usd r) (pr_daily_budget_usd r) (spend_or_zero spend)
            in if \<not> allowed money then
                 (Skip pid Budget_exceeded (detail_text (verdict_detail money)), s)
               else if needs_probe then
                 (let (probe, s1) = ctl_claim_half_open_probe store pid s
                  in if \<not> probe then
                       (Skip pid Breaker_open (text_or (pr_breaker_reason r) ''breaker open''), s1)
                     else (Dispatch pid (pr_cost_per_call_usd r) probe, s1))
               else (Dispatch pid (pr_cost_per_call_usd r) False, s))"

lemma dec_provider_id_decide [simp]:
  "dec_provider_id (fst (decide store pid rt now s)) = pid"
  by (auto simp: decide_def Let_def split: option.split prod.split)

section \<open>What the chain needs of a store\<close>

text \<open>
  A lost claim changes nothing.  A claim that is won and any recorded skip leave the spend
  alone; calls are only ever appended, one per record.
\<close>

locale control_store =
  fixes store :: "'s provider_control"
    and spend :: "provider_id \<Rightarrow> int \<Rightarrow> 's \<Rightarrow> money"
    and calls :: "'s \<Rightarrow> provider_call list"
    and breaker :: "provider_id \<Rightarrow> 's \<Rightarrow> (breaker_state \<times> int) option"
  assumes daily_spend: "spend_or_zero (ctl_daily_spend store pid day s) = spend pid day s"
    and claim_lost: "ctl_claim_half_open_probe store pid s = (False, s') \<Longrightarrow> s' = s"
    and claim_won: "ctl_claim_half_open_probe store pid s = (True, s') \<Longrightarrow>
      calls s' = calls s \<and> spend p day s' = spend p day s \<and>
      (p \<noteq> pid \<longrightarrow> breaker p s' = breaker p s)"
    and runtimes_only_reads: "ctl_runtimes store s = (m, s') \<Longrightarrow>
      calls s' = calls s \<and> spend p day s' = spend p day s \<and> breaker p s' = breaker p s"
    and skip_recorded: "ctl_record_skip store run pid reason detail s = Inr s' \<Longrightarrow>
      (\<exists>c. calls s' = calls s @ [c] \<and> pc_provider_id c = pid \<and> pc_run_id c = run \<and>
         pc_attempt c = 0 \<and> pc_cost_usd c = None \<and> pc_status c = skip_reason_text reason) \<and>
      spend p day s' = spend p day s \<and> breaker p s' = breaker p s"
    and outcome_recorded: "ctl_record_outcome store run result cost day s = Inr s' \<Longrightarrow>
      (\<exists>c. calls s' = calls s @ [c] \<and> pc_provider_id c = res_provider_id result \<and>
         pc_run_id c = run \<and> pc_attempt c = res_attempts result \<and> pc_cost_usd c = cost \<and>
         pc_status c = res_status result) \<and>
      spend p d s' = spend p d s +
        (if p = res_provider_id result \<and> d = day
         then (case cost of None \<Rightarrow> 0 | Some c \<Rightarrow> c) else 0) \<and>
      (p \<noteq> res_provider_id result \<longrightarrow> breaker p s' = breaker p s)"
begin

lemma skip_changes_nothing:
  assumes "decide store pid rt now s = (Skip p reason detail, s')"
  shows "s' = s"
  using assms claim_lost
  by (auto simp: decide_def Let_def split: option.splits if_splits prod.splits)

lemma dispatch_requires:
  assumes "decide store pid rt now s = (Dispatch p cost probe, s')"
  shows "\<exists>r. rt = Some r \<and> p = pid \<and> pr_enabled r \<and> pr_breaker_state r \<noteq> Half_open \<and>
    cost = pr_cost_per_call_usd r \<and> probe = (pr_breaker_state r = Open) \<and>
    allowed (verdict cost (pr_daily_budget_usd r) (spend pid (utc_spend_date now) s)) \<and>
    (if probe then ctl_claim_half_open_probe store pid s = (True, s') else s' = s)"
  using assms
  by (auto simp: decide_def Let_def daily_spend split: option.splits if_splits prod.splits)

lemma skip_reason:
  assumes "decide store pid rt now s = (Skip p reason detail, s')"
  shows "p = pid \<and> (case rt of
      None \<Rightarrow> reason = Provider_disabled
    | Some r \<Rightarrow>
        (case reason of
           Provider_disabled \<Rightarrow> \<not> pr_enabled r
         | Budget_exceeded \<Rightarrow> pr_enabled r \<and> pr_breaker_state r \<noteq> Half_open \<and>
             \<not> allowed (verdict (pr_cost_per_call_usd r) (pr_daily_budget_usd r)
                 (spend pid (utc_spend_date now) s))
         | Breaker_open \<Rightarrow> pr_enabled r \<and>
             (pr_breaker_state r = Half_open \<or>
              pr_breaker_state r = Open \<and>
              allowed (verdict (pr_cost_per_call_usd r) (pr_daily_budget_usd r)
                 (spend pid (utc_spend_date now) s)) \<and>
              \<not> fst (ctl_claim_half_open_probe store pid s))))"
  using assms
  by (auto simp: decide_def Let_def daily_spend split: option.splits if_splits prod.splits)

lemma decide_frame:
  assumes "decide store pid rt now s = (d, s')"
  shows "calls s' = calls s \<and> spend p day s' = spend p day s \<and>
    (p \<noteq> pid \<longrightarrow> breaker p s' = breaker p s)"
proof (cases d)
  case (Skip q reason detail)
  with skip_changes_nothing assms have "s' = s" by blast
  then show ?thesis by simp
next
  case (Dispatch q cost probe)
  with dispatch_requires assms have "if probe then ctl_claim_half_open_probe store pid s = (True, s')
      else s' = s" by blast
  then show ?thesis using claim_won [of pid s s' p day] by (cases probe) auto
qed

end

section \<open>The Postgres store provides it\<close>

definition breaker_of :: "provider_id \<Rightarrow> 'a db_scheme \<Rightarrow> (breaker_state \<times> int) option" where
  "breaker_of p d =
     map_option (\<lambda>r. (pr_breaker_state r, pr_breaker_consecutive_failures r)) (runtime_of p d)"

lemma claim_frame:
  assumes "claim_half_open_probe cfg pid w = (b, w')"
  shows "provider_calls w' = provider_calls w" and "daily_spend p day w' = daily_spend p day w"
    and "p \<noteq> pid \<Longrightarrow> runtime_of p w' = runtime_of p w"
proof -
  have "snd (claim_half_open_probe cfg pid w) = w'" by (simp add: assms)
  note prov = claim_providers(1) [of cfg pid w, unfolded this]
  show "provider_calls w' = provider_calls w" "daily_spend p day w' = daily_spend p day w"
    using assms by (auto simp: claim_half_open_probe_def daily_spend_def split: if_splits)
  assume "p \<noteq> pid"
  then show "runtime_of p w' = runtime_of p w"
    unfolding runtime_of_def prov by (intro sql_first_update_other) (auto simp: has_provider_def)
qed

interpretation pg: control_store "pg_control cfg"
  "\<lambda>p day w. spend_or_zero (daily_spend p day w)" provider_calls breaker_of
proof unfold_locales
  fix pid s s' p and day d :: int
  show "spend_or_zero (ctl_daily_spend (pg_control cfg) pid day s) = spend_or_zero (daily_spend pid day s)"
    by (simp add: pg_control_def)
  show "ctl_claim_half_open_probe (pg_control cfg) pid s = (False, s') \<Longrightarrow> s' = s"
    by (auto simp: pg_control_def claim_half_open_probe_def split: if_splits)
  show "ctl_claim_half_open_probe (pg_control cfg) pid s = (True, s') \<Longrightarrow>
      provider_calls s' = provider_calls s \<and>
      spend_or_zero (daily_spend p day s') = spend_or_zero (daily_spend p day s) \<and>
      (p \<noteq> pid \<longrightarrow> breaker_of p s' = breaker_of p s)"
    using claim_frame [of cfg pid s True s'] by (simp add: pg_control_def breaker_of_def)
  fix m
  show "ctl_runtimes (pg_control cfg) s = (m, s') \<Longrightarrow>
      provider_calls s' = provider_calls s \<and>
      spend_or_zero (daily_spend p day s') = spend_or_zero (daily_spend p day s) \<and>
      breaker_of p s' = breaker_of p s"
    using runtimes_frame [of cfg s]
    by (simp add: pg_control_def daily_spend_def breaker_of_def runtime_of_def)
  fix run reason detail
  show "ctl_record_skip (pg_control cfg) run pid reason detail s = Inr s' \<Longrightarrow>
      (\<exists>c. provider_calls s' = provider_calls s @ [c] \<and> pc_provider_id c = pid \<and>
         pc_run_id c = run \<and> pc_attempt c = 0 \<and> pc_cost_usd c = None \<and>
         pc_status c = skip_reason_text reason) \<and>
      spend_or_zero (daily_spend p day s') = spend_or_zero (daily_spend p day s) \<and>
      breaker_of p s' = breaker_of p s"
    using record_skip_providers [of run pid reason detail None s s']
    by (auto simp: pg_control_def breaker_of_def skip_call_def)
  fix result cost
  show "ctl_record_outcome (pg_control cfg) run result cost day s = Inr s' \<Longrightarrow>
      (\<exists>c. provider_calls s' = provider_calls s @ [c] \<and>
         pc_provider_id c = res_provider_id result \<and> pc_run_id c = run \<and>
         pc_attempt c = res_attempts result \<and> pc_cost_usd c = cost \<and>
         pc_status c = res_status result) \<and>
      spend_or_zero (daily_spend p d s') = spend_or_zero (daily_spend p d s) +
        (if p = res_provider_id result \<and> d = day
         then (case cost of None \<Rightarrow> 0 | Some c \<Rightarrow> c) else 0) \<and>
      (p \<noteq> res_provider_id result \<longrightarrow> breaker_of p s' = breaker_of p s)"
    unfolding pg_control_def provider_control.simps
    by (erule record_outcome_Inr)
      (simp add: spend_or_zero_upsert breaker_of_def result_call_def)
qed

section \<open>The chain on the Postgres store\<close>

text \<open>
  C22. The guard chain.  A dispatch is given only to a provider that has a row, is enabled, is not
  being probed, and whose price fits in what is left of its daily budget; it carries that price,
  it is a probe exactly when the breaker was open, and then the one durable claim was won.  Every
  refusal is free: the database, the cache and with them every budget, breaker and probe are
  exactly what they were.  Its reason is the first guard that failed, and some guard did: no row, the kill
  switch, a probe in flight, a price over the budget, or an open breaker whose one claim was lost.  So a
  provider that fails no guard is dispatched.
\<close>

theorem gate_refusals_cost_nothing:
  "case decide (pg_control cfg) pid rt now w of
     (Dispatch p cost probe, w') \<Rightarrow>
       \<exists>r. rt = Some r \<and> p = pid \<and> pr_enabled r \<and> pr_breaker_state r \<noteq> Half_open \<and>
         cost = pr_cost_per_call_usd r \<and> probe = (pr_breaker_state r = Open) \<and>
         allowed (verdict cost (pr_daily_budget_usd r)
           (spend_or_zero (daily_spend pid (utc_spend_date now) w))) \<and>
         (probe, w') = (if pr_breaker_state r = Open then claim_half_open_probe cfg pid w
                        else (False, w))
   | (Skip p reason detail, w') \<Rightarrow>
       w' = w \<and> p = pid \<and>
       (case rt of
          None \<Rightarrow> reason = Provider_disabled
        | Some r \<Rightarrow>
            (if \<not> pr_enabled r then reason = Provider_disabled
             else if pr_breaker_state r = Half_open then reason = Breaker_open
             else if \<not> allowed (verdict (pr_cost_per_call_usd r) (pr_daily_budget_usd r)
                      (spend_or_zero (daily_spend pid (utc_spend_date now) w))) then reason = Budget_exceeded
             else reason = Breaker_open \<and> pr_breaker_state r = Open \<and> \<not> fst (claim_half_open_probe cfg pid w)))"
proof (cases "decide (pg_control cfg) pid rt now w")
  case (Pair d w')
  show ?thesis
  proof (cases d)
    case (Dispatch p cost probe)
    with Pair have "decide (pg_control cfg) pid rt now w = (Dispatch p cost probe, w')" by simp
    from pg.dispatch_requires [OF this] obtain r where r: "rt = Some r" "p = pid" "pr_enabled r"
      "pr_breaker_state r \<noteq> Half_open" "cost = pr_cost_per_call_usd r"
      "probe = (pr_breaker_state r = Open)"
      "allowed (verdict cost (pr_daily_budget_usd r)
         (spend_or_zero (daily_spend pid (utc_spend_date now) w)))"
      and claim: "if probe then ctl_claim_half_open_probe (pg_control cfg) pid w = (True, w') else w' = w"
      by blast
    from claim r(6) have "(probe, w') = (if pr_breaker_state r = Open
        then claim_half_open_probe cfg pid w else (False, w))"
      by (cases probe) (simp_all add: pg_control_def)
    with r Pair Dispatch show ?thesis
      by (simp only: prod.case decision.case) blast
  next
    case (Skip p reason detail)
    with Pair have eq: "decide (pg_control cfg) pid rt now w = (Skip p reason detail, w')" by simp
    have claim: "ctl_claim_half_open_probe (pg_control cfg) = claim_half_open_probe cfg" by (simp add: pg_control_def)
    from pg.skip_changes_nothing [OF eq] pg.skip_reason [OF eq] Pair Skip show ?thesis
      by (cases reason) (auto simp: claim split: option.splits)
  qed
qed

text \<open>
  A probe abandoned by a dead worker is never reclaimed through the gate.  With a snapshot that
  shows the half-open row, the chain refuses before it reaches the claim, at any later time, and
  leaves the row half-open; the reclaim inside the claim would have succeeded by then.  Only an
  operator's reset moves such a provider.
\<close>

theorem abandoned_probe_needs_reset:
  assumes "unique_providers w" and "runtime_of pid w = Some r" and "pr_enabled r"
    and "pr_breaker_state r = Half_open" and "pr_breaker_opened_at r = Some opened"
    and "opened + (cooldown_of cfg r + default_cooldown_seconds cfg) * second_us \<le> db_now w"
  shows "decide (pg_control cfg) pid (runtime_of pid w) now w =
      (Skip pid Breaker_open ''half-open probe already in flight'', w) \<and>
    fst (claim_half_open_probe cfg pid w) \<and>
    (\<exists>w1. reset_breaker pid actor reason w = (True, w1) \<and>
       map_option pr_breaker_state (runtime_of pid w1) = Some Closed)"
proof (intro conjI)
  show "decide (pg_control cfg) pid (runtime_of pid w) now w =
      (Skip pid Breaker_open ''half-open probe already in flight'', w)"
    using assms(2-4) by (simp add: decide_def)
  have "claimable cfg (db_now w) r"
    using assms(4-6) by (simp add: claimable_def)
  then show "fst (claim_half_open_probe cfg pid w)"
    using claim_winner_result(1) [OF assms(1,2), of cfg] by simp
  have "list_ex (has_provider pid) (providers w)"
    using assms(2) by (simp add: list_ex_sql_first runtime_of_def)
  then obtain w1 where w1: "reset_breaker pid actor reason w = (True, w1)"
    by (simp add: reset_breaker_def write_with_audit_def)
  have "\<And>r. has_provider pid (closed_breaker r) = has_provider pid r"
    by (simp add: has_provider_def closed_breaker_def)
  from write_with_audit_True(1) [OF w1 [unfolded reset_breaker_def] this] assms(2) w1
  show "\<exists>w1. reset_breaker pid actor reason w = (True, w1) \<and>
       map_option pr_breaker_state (runtime_of pid w1) = Some Closed"
    by (simp add: closed_breaker_def)
qed

definition half_open_process :: process where
  "half_open_process = process_of (empty_db\<lparr>
     providers := [open_row\<lparr>pr_breaker_state := Half_open\<rparr>], db_now := 86400000000\<rparr>)"

theorem abandoned_probe_needs_reset_witness:
  "fst (decide (pg_control demo_cfg) ''hive'' (runtime_of ''hive'' half_open_process)
     (utc_datetime 86400000000) half_open_process) =
   Skip ''hive'' Breaker_open ''half-open probe already in flight'' \<and>
   fst (claim_half_open_probe demo_cfg ''hive'' half_open_process)"
proof -
  let ?r = "open_row\<lparr>pr_breaker_state := Half_open\<rparr>"
  have rows: "providers half_open_process = [?r]" "db_now half_open_process = 86400000000"
    by (simp_all add: half_open_process_def demo_defs)
  have row: "pr_provider_id ?r = ''hive''" "pr_enabled ?r" "pr_breaker_state ?r = Half_open"
    "pr_breaker_opened_at ?r = Some 0" "cooldown_of demo_cfg ?r = 300"
    by (simp_all add: open_row_def cooldown_of_def demo_defs)
  have "unique_providers half_open_process" by (simp add: unique_providers_def rows)
  moreover have "runtime_of ''hive'' half_open_process = Some ?r"
    by (simp add: runtime_of_def rows has_provider_def row)
  moreover have "0 + (cooldown_of demo_cfg ?r + default_cooldown_seconds demo_cfg) * second_us
      \<le> db_now half_open_process"
    unfolding rows row by (simp add: demo_cfg_def)
  ultimately show ?thesis
    using abandoned_probe_needs_reset [of half_open_process "''hive''" ?r 0 demo_cfg] row(2-4)
    by (metis fst_conv)
qed

end
