(* ===== verification/Outbox.thy ===== *)
theory Outbox
  imports Database
begin

text \<open>
  The transactional outbox helper of \<^verbatim>\<open>src/imageshield/outbox.py\<close>: rows are inserted on the
  caller's transaction, with the id the serial column gives them.
\<close>

definition QUEUE_IDENTITY_INDEX :: string where
  "QUEUE_IDENTITY_INDEX = ''identity:index''"

definition QUEUE_SEARCH_RUNS :: string where
  "QUEUE_SEARCH_RUNS = ''search:runs''"

definition QUEUE_CONFIRM_HITS :: string where
  "QUEUE_CONFIRM_HITS = ''confirm:hits''"

definition QUEUES :: "string list" where
  "QUEUES = [QUEUE_IDENTITY_INDEX, QUEUE_SEARCH_RUNS, QUEUE_CONFIRM_HITS]"

definition insert_outbox :: "string \<Rightarrow> outbox_payload \<Rightarrow> 'a db_scheme \<Rightarrow> 'a db_scheme" where
  "insert_outbox queue p d =
     d\<lparr>outbox := outbox d @ [\<lparr>outbox_id = db_serial d, queue_name = queue, payload = p,
         ob_created_at = db_now d, published_at = None, attempts = 0, last_error = None\<rparr>],
       db_serial := Suc (db_serial d)\<rparr>"

definition enqueue :: "string \<Rightarrow> outbox_payload \<Rightarrow> 'a db_scheme \<Rightarrow> exn + nat \<times> 'a db_scheme" where
  "enqueue queue p d =
     (if queue \<notin> set QUEUES then Inl (ValueError (''unknown queue_name '' @ queue))
      else Inr (db_serial d, insert_outbox queue p d))"

text \<open>One row per payload, in order.\<close>

definition insert_all :: "string \<Rightarrow> outbox_payload list \<Rightarrow> 'a db_scheme \<Rightarrow> 'a db_scheme" where
  "insert_all queue ps d = fold (insert_outbox queue) ps d"

lemma insert_outbox_frame [simp]:
  "db_now (insert_outbox q p d) = db_now d" "db_fresh (insert_outbox q p d) = db_fresh d"
  "providers (insert_outbox q p d) = providers d"
  "provider_spend (insert_outbox q p d) = provider_spend d"
  "provider_calls (insert_outbox q p d) = provider_calls d"
  "search_seeds (insert_outbox q p d) = search_seeds d"
  "search_runs (insert_outbox q p d) = search_runs d"
  "content_urls (insert_outbox q p d) = content_urls d"
  "infringements (insert_outbox q p d) = infringements d"
  "attestations (insert_outbox q p d) = attestations d"
  "review_tasks (insert_outbox q p d) = review_tasks d"
  "audit_log (insert_outbox q p d) = audit_log d"
  "subjects (insert_outbox q p d) = subjects d"
  "db_serial (insert_outbox q p d) = Suc (db_serial d)"
  by (simp_all add: insert_outbox_def)

lemma insert_all_frame [simp]:
  "infringements (insert_all q ps d) = infringements d"
  "review_tasks (insert_all q ps d) = review_tasks d"
  "attestations (insert_all q ps d) = attestations d"
  "search_runs (insert_all q ps d) = search_runs d"
  "search_seeds (insert_all q ps d) = search_seeds d"
  "provider_calls (insert_all q ps d) = provider_calls d"
  "provider_spend (insert_all q ps d) = provider_spend d"
  "providers (insert_all q ps d) = providers d"
  "content_urls (insert_all q ps d) = content_urls d"
  "audit_log (insert_all q ps d) = audit_log d"
  "db_fresh (insert_all q ps d) = db_fresh d"
  "db_now (insert_all q ps d) = db_now d"
  by (induction ps arbitrary: d) (simp_all add: insert_all_def)

lemma insert_all_outbox:
  "map payload (outbox (insert_all q ps d)) = map payload (outbox d) @ ps"
  "\<exists>new. outbox (insert_all q ps d) = outbox d @ new \<and> map payload new = ps \<and>
     (\<forall>r\<in>set new. queue_name r = q \<and> published_at r = None \<and> attempts r = 0)"
proof -
  show "\<exists>new. outbox (insert_all q ps d) = outbox d @ new \<and> map payload new = ps \<and>
     (\<forall>r\<in>set new. queue_name r = q \<and> published_at r = None \<and> attempts r = 0)"
  proof (induction ps arbitrary: d)
    case (Cons p ps)
    obtain new where new: "outbox (insert_all q ps (insert_outbox q p d)) =
        outbox (insert_outbox q p d) @ new" "map payload new = ps"
      "\<forall>r\<in>set new. queue_name r = q \<and> published_at r = None \<and> attempts r = 0"
      using Cons.IH by blast
    show ?case
      by (rule exI [of _ "last (outbox (insert_outbox q p d)) # new"])
        (use new in \<open>simp add: insert_all_def, simp add: insert_outbox_def\<close>)
  qed (simp add: insert_all_def)
  then show "map payload (outbox (insert_all q ps d)) = map payload (outbox d) @ ps"
    by fastforce
qed

end
