(* ===== verification/Ratelimit.thy ===== *)
theory Ratelimit
  imports Prelude
begin

text \<open>
  The bounded, jittered back-off of \<^verbatim>\<open>src/imageshield/providers/ratelimit.py\<close>.

  Python floats are modelled with their special values (\<open>pyfloat\<close>); finite values are exact
  rationals, the rounding of binary64 is not modelled.  \<open>py_min\<close> and \<open>py_max\<close> are the
  built-in two-argument \<^verbatim>\<open>min\<close> and \<^verbatim>\<open>max\<close>, which keep their first argument
  unless the second compares strictly better: with a NaN that is not a bound at all.
  \<open>send\<close> and \<open>rng\<close> are the injected callables: the outcome of the n-th request, the n-th draw.
\<close>

section \<open>Floats with special values\<close>

datatype pyfloat = Fin rat | PosInf | NegInf | NaN

fun fl_less :: "pyfloat \<Rightarrow> pyfloat \<Rightarrow> bool" where
  "fl_less NaN _ = False"
| "fl_less _ NaN = False"
| "fl_less (Fin x) (Fin y) = (x < y)"
| "fl_less NegInf NegInf = False"
| "fl_less NegInf _ = True"
| "fl_less _ PosInf = True"
| "fl_less _ _ = False"

fun fl_neg :: "pyfloat \<Rightarrow> pyfloat" where
  "fl_neg (Fin x) = Fin (- x)"
| "fl_neg PosInf = NegInf"
| "fl_neg NegInf = PosInf"
| "fl_neg NaN = NaN"

fun fl_add :: "pyfloat \<Rightarrow> pyfloat \<Rightarrow> pyfloat" where
  "fl_add NaN _ = NaN"
| "fl_add _ NaN = NaN"
| "fl_add (Fin x) (Fin y) = Fin (x + y)"
| "fl_add (Fin _) y = y"
| "fl_add x (Fin _) = x"
| "fl_add x y = (if x = y then x else NaN)"

definition fl_scale :: "rat \<Rightarrow> pyfloat \<Rightarrow> pyfloat" where
  "fl_scale k x =
     (case x of
        Fin y \<Rightarrow> Fin (k * y)
      | NaN \<Rightarrow> NaN
      | _ \<Rightarrow> if k = 0 then NaN else if k < 0 then fl_neg x else x)"

definition py_min :: "pyfloat \<Rightarrow> pyfloat \<Rightarrow> pyfloat" where
  "py_min x y = (if fl_less y x then y else x)"

definition py_max :: "pyfloat \<Rightarrow> pyfloat \<Rightarrow> pyfloat" where
  "py_max x y = (if fl_less x y then y else x)"

section \<open>Python's float of a string\<close>

definition is_space :: "char \<Rightarrow> bool" where
  "is_space c \<longleftrightarrow> of_char c \<in> set [9::nat, 10, 11, 12, 13, 28, 29, 30, 31, 32]"

definition py_strip :: "string \<Rightarrow> string" where
  "py_strip s = rev (dropWhile is_space (rev (dropWhile is_space s)))"

definition lower_char :: "char \<Rightarrow> char" where
  "lower_char c =
     (let n = of_char c in if 65 \<le> n \<and> n \<le> (90::nat) then char_of (n + 32) else c)"

definition py_lower :: "string \<Rightarrow> string" where
  "py_lower s = map lower_char s"

definition is_digit :: "char \<Rightarrow> bool" where
  "is_digit c \<longleftrightarrow> 48 \<le> (of_char c :: nat) \<and> of_char c \<le> (57::nat)"

definition digits_value :: "string \<Rightarrow> nat" where
  "digits_value s = foldl (\<lambda>n c. 10 * n + (of_char c - 48)) 0 s"

text \<open>
  A run of digits, with single underscores allowed between two digits: the digits read and
  the rest of the string.
\<close>

fun take_digits :: "string \<Rightarrow> string \<times> string" where
  "take_digits (c # d # e # s) =
     (if is_digit c then
        (if d = CHR ''_'' \<and> is_digit e
         then let (ds, r) = take_digits (e # s) in (c # ds, r)
         else let (ds, r) = take_digits (d # e # s) in (c # ds, r))
      else ([], c # d # e # s))"
| "take_digits (c # s) =
     (if is_digit c then let (ds, r) = take_digits s in (c # ds, r) else ([], c # s))"
| "take_digits [] = ([], [])"

definition take_sign :: "string \<Rightarrow> bool \<times> string" where
  "take_sign s =
     (case s of c # r \<Rightarrow> if c = CHR ''-'' then (True, r)
                        else if c = CHR ''+'' then (False, r) else (False, s)
      | [] \<Rightarrow> (False, []))"

definition parse_exponent :: "string \<Rightarrow> int option" where
  "parse_exponent s =
     (case s of
        [] \<Rightarrow> Some 0
      | c # r \<Rightarrow>
          if c = CHR ''e'' then
            (let (neg, r1) = take_sign r; (ds, r2) = take_digits r1 in
             if ds = [] \<or> r2 \<noteq> [] then None
             else Some (if neg then - int (digits_value ds) else int (digits_value ds)))
          else None)"

definition pow10 :: "int \<Rightarrow> rat" where
  "pow10 e = (if 0 \<le> e then 10 ^ nat e else inverse (10 ^ nat (- e)))"

text \<open>The unsigned part; \<open>None\<close> is the \<^verbatim>\<open>ValueError\<close> of \<^verbatim>\<open>float()\<close>.\<close>

definition parse_unsigned_float :: "string \<Rightarrow> pyfloat option" where
  "parse_unsigned_float s =
     (if s = ''inf'' \<or> s = ''infinity'' then Some PosInf
      else if s = ''nan'' then Some NaN
      else
        let (ip, r) = take_digits s;
            (fp, r2) = (case r of c # r1 \<Rightarrow> if c = CHR ''.'' then take_digits r1 else ([], r)
                        | [] \<Rightarrow> ([], []))
        in if ip = [] \<and> fp = [] then None
           else map_option
             (\<lambda>e. Fin (of_nat (digits_value (ip @ fp)) * pow10 (e - int (length fp))))
             (parse_exponent r2))"

definition py_float :: "string \<Rightarrow> pyfloat option" where
  "py_float s =
     (let (neg, r) = take_sign (py_lower (py_strip s)) in
      map_option (\<lambda>x. if neg then fl_neg x else x) (parse_unsigned_float r))"

section \<open>The wait\<close>

definition FALLBACK_BASE_SECONDS :: rat where
  "FALLBACK_BASE_SECONDS = 1"

definition parse_retry_after :: "string option \<Rightarrow> pyfloat option" where
  "parse_retry_after header =
     (case header of
        None \<Rightarrow> None
      | Some h \<Rightarrow>
          (case py_float (py_strip h) of
             None \<Rightarrow> None
           | Some v \<Rightarrow> if fl_less v (Fin 0) then None else Some v))"

text \<open>None is \<^verbatim>\<open>OverflowError\<close>: \<^verbatim>\<open>2**1024\<close> has no float.\<close>

definition wait_seconds :: "nat \<Rightarrow> pyfloat option \<Rightarrow> rat \<Rightarrow> rat \<Rightarrow> rat \<Rightarrow> pyfloat option" where
  "wait_seconds attempt retry_after max_wait_seconds jitter_fraction draw =
     (if retry_after = None \<and> 1024 \<le> attempt then None
      else Some (let base = (case retry_after of Some v \<Rightarrow> v
                  | None \<Rightarrow> Fin (FALLBACK_BASE_SECONDS * 2 ^ attempt));
          capped = py_min (py_max base (Fin 0)) (Fin max_wait_seconds);
          spread = fl_scale jitter_fraction capped;
          jittered = fl_add (fl_add capped (fl_neg spread)) (fl_scale (2 * draw) spread)
      in py_min (py_max jittered (Fin 0)) (Fin max_wait_seconds)))"

section \<open>The retry loop\<close>

record retry_policy =
  max_retries :: int
  max_wait_seconds :: rat
  jitter_fraction :: rat

record response =
  status_code :: int
  retry_after_header :: "string option"

text \<open>
  \<open>send_loop\<close> is the body of the \<^verbatim>\<open>while True\<close> with \<open>attempts\<close> requests already made;
  it returns the response and the number of attempts, or the exception of the request, and
  the sleeps taken.
\<close>

function send_loop ::
  "(nat \<Rightarrow> exn + response) \<Rightarrow> retry_policy \<Rightarrow> (nat \<Rightarrow> rat) \<Rightarrow> nat
     \<Rightarrow> (exn + (response \<times> nat)) \<times> pyfloat list" where
  "send_loop send policy rng attempts =
     (case send attempts of
        Inl e \<Rightarrow> (Inl e, [])
      | Inr resp \<Rightarrow>
          if status_code resp \<noteq> 429 \<or> int (Suc attempts) > max_retries policy
          then (Inr (resp, Suc attempts), [])
          else
            (case wait_seconds attempts (parse_retry_after (retry_after_header resp))
                    (max_wait_seconds policy) (jitter_fraction policy) (rng attempts) of
               None \<Rightarrow> (Inl OverflowError, [])
             | Some w \<Rightarrow>
                 (let (res, ws) = send_loop send policy rng (Suc attempts) in (res, w # ws))))"
  by pat_completeness auto
termination
  by (relation "measure (\<lambda>(send, policy, rng, attempts). nat (max_retries policy) - attempts)") auto

declare send_loop.simps [simp del]

definition send_with_retry ::
  "(nat \<Rightarrow> exn + response) \<Rightarrow> retry_policy \<Rightarrow> (nat \<Rightarrow> rat)
     \<Rightarrow> (exn + (response \<times> nat)) \<times> pyfloat list" where
  "send_with_retry send policy rng = send_loop send policy rng 0"

section \<open>Bounds\<close>

lemma py_clamp_Fin:
  "0 \<le> m \<Longrightarrow> \<exists>x. py_min (py_max (Fin b) (Fin 0)) (Fin m) = Fin x \<and> 0 \<le> x \<and> x \<le> m"
  by (auto simp: py_min_def py_max_def)

lemma py_clamp:
  "v \<noteq> NaN \<Longrightarrow> 0 \<le> m \<Longrightarrow>
   \<exists>x. py_min (py_max v (Fin 0)) (Fin m) = Fin x \<and> 0 \<le> x \<and> x \<le> m"
  by (cases v) (auto simp: py_min_def py_max_def)

text \<open>
  A NaN hint goes through both clamps unchanged: the wait is then NaN, not a number of seconds
  within the cap.
\<close>

lemma wait_seconds_NaN: "wait_seconds n (Some NaN) m j d = Some NaN"
  by (simp add: wait_seconds_def py_min_def py_max_def fl_scale_def Let_def)

lemma wait_seconds_bounds:
  assumes "retry_after \<noteq> Some NaN" and "0 \<le> m" and "retry_after = None \<longrightarrow> n < 1024"
  shows "\<exists>x. wait_seconds n retry_after m j d = Some (Fin x) \<and> 0 \<le> x \<and> x \<le> m"
proof -
  obtain v where v: "v = (case retry_after of Some v \<Rightarrow> v | None \<Rightarrow> Fin (FALLBACK_BASE_SECONDS * 2 ^ n))"
    and "v \<noteq> NaN" using assms(1) by (cases retry_after) auto
  then obtain c where c: "py_min (py_max v (Fin 0)) (Fin m) = Fin c"
    using assms(2) py_clamp by blast
  then show ?thesis
    using py_clamp_Fin [OF assms(2)] assms(3)
    by (auto simp: wait_seconds_def v [symmetric] fl_scale_def Let_def)
qed

text \<open>
  Both ways a call ends, after \<open>n\<close> requests: with the last one's response or exception, or with the overflow
  of the fall-back wait.
\<close>

definition ended_by :: "(nat \<Rightarrow> exn + response) \<Rightarrow> retry_policy \<Rightarrow> nat \<Rightarrow> exn + (response \<times> nat) \<Rightarrow> bool" where
  "ended_by send policy n res =
     (case res of
        Inr (r, attempts) \<Rightarrow> attempts = n \<and> send (n - 1) = Inr r \<and> (status_code r = 429 \<longrightarrow> max_retries policy < int n)
      | Inl e \<Rightarrow> send (n - 1) = Inl e \<or>
          (e = OverflowError \<and> 1024 < n \<and> int n \<le> max_retries policy \<and>
           (\<exists>r. send (n - 1) = Inr r \<and> status_code r = 429 \<and> parse_retry_after (retry_after_header r) = None)))"

lemma send_loop_result:
  "\<exists>n>a. int n \<le> max (int (Suc a)) (max_retries policy + 1) \<and>
     ended_by send policy n (fst (send_loop send policy rng a)) \<and>
     length (snd (send_loop send policy rng a)) = n - Suc a \<and>
     (\<forall>i. a \<le> i \<and> Suc i < n \<longrightarrow> (\<exists>q. send i = Inr q \<and> status_code q = 429)) \<and>
     (\<forall>send'. (\<forall>i. a \<le> i \<and> i < n \<longrightarrow> send' i = send i) \<longrightarrow>
        send_loop send' policy rng a = send_loop send policy rng a)"
proof (induction send policy rng a rule: send_loop.induct)
  case (1 send policy rng a)
  note step = send_loop.simps [of _ policy rng a]
  show ?case
  proof (cases "send a")
    case (Inl e)
    then show ?thesis
      by (intro exI [of _ "Suc a"]) (auto simp: step ended_by_def)
  next
    case (Inr q)
    show ?thesis
    proof (cases "status_code q \<noteq> 429 \<or> int (Suc a) > max_retries policy")
      case True
      with Inr show ?thesis by (intro exI [of _ "Suc a"]) (auto simp: step ended_by_def)
    next
      case False
      let ?w = "wait_seconds a (parse_retry_after (retry_after_header q)) (max_wait_seconds policy)
        (jitter_fraction policy) (rng a)"
      show ?thesis
      proof (cases ?w)
        case None
        then have "parse_retry_after (retry_after_header q) = None" "1024 \<le> a"
          by (simp_all add: wait_seconds_def split: if_splits)
        with Inr False None show ?thesis
          by (intro exI [of _ "Suc a"]) (auto simp: step ended_by_def)
      next
        case (Some w)
        from "1.IH" [OF Inr False Some] obtain n where n: "Suc a < n"
          "int n \<le> max (int (Suc (Suc a))) (max_retries policy + 1)"
          "ended_by send policy n (fst (send_loop send policy rng (Suc a)))"
          "length (snd (send_loop send policy rng (Suc a))) = n - Suc (Suc a)"
          "\<forall>i. Suc a \<le> i \<and> Suc i < n \<longrightarrow> (\<exists>q. send i = Inr q \<and> status_code q = 429)"
          "\<forall>send'. (\<forall>i. Suc a \<le> i \<and> i < n \<longrightarrow> send' i = send i) \<longrightarrow>
             send_loop send' policy rng (Suc a) = send_loop send policy rng (Suc a)" by blast
        have loop: "send_loop s policy rng a =
            (fst (send_loop s policy rng (Suc a)), w # snd (send_loop s policy rng (Suc a)))" if "s a = Inr q" for s
          using that False Some by (simp add: step case_prod_beta)
        have "\<exists>q. send i = Inr q \<and> status_code q = 429" if "a \<le> i" "Suc i < n" for i
          using n(5) that False Inr by (cases "i = a") (simp_all add: Suc_le_eq)
        moreover have "send_loop send' policy rng a = send_loop send policy rng a"
          if "\<forall>i. a \<le> i \<and> i < n \<longrightarrow> send' i = send i" for send'
        proof -
          have "send' a = Inr q" using that n(1) Inr by simp
          moreover have "send_loop send' policy rng (Suc a) = send_loop send policy rng (Suc a)"
            by (rule n(6) [rule_format]) (rule that [rule_format], linarith)
          ultimately show ?thesis using loop [of send'] loop [of send] Inr by metis
        qed
        moreover have "int n \<le> max (int (Suc a)) (max_retries policy + 1)" using n(2) False by linarith
        moreover have "a < n" "fst (send_loop send policy rng a) = fst (send_loop send policy rng (Suc a))"
          "length (snd (send_loop send policy rng a)) = n - Suc a"
          using n(1,4) loop [of send, OF Inr] by simp_all
        ultimately show ?thesis using n(3) by (intro exI [of _ n] conjI) (simp_all only:, blast+)
      qed
    qed
  qed
qed

text \<open>
  C39.  Sending with retries ends, however the requests answer: after at most \<open>max_retries + 1\<close> requests (one
  when the policy allows no retry) it hands back the response of the last one or raises its exception.  Every
  earlier response was a 429, with one wait after each; a final 429 is handed back only when the retries are
  used up; and no later answer of the provider could change the outcome, for no further request is made.
  (The one exception of its own: past 1024 attempts without a retry-after header the fall-back wait overflows.)
\<close>

theorem send_with_retry_bounded:
  "\<exists>attempts>0. int attempts \<le> max 1 (max_retries policy + 1) \<and>
     ended_by send policy attempts (fst (send_with_retry send policy rng)) \<and>
     length (snd (send_with_retry send policy rng)) = attempts - 1 \<and>
     (\<forall>i. Suc i < attempts \<longrightarrow> (\<exists>q. send i = Inr q \<and> status_code q = 429)) \<and>
     (\<forall>send'. (\<forall>i<attempts. send' i = send i) \<longrightarrow>
        send_with_retry send' policy rng = send_with_retry send policy rng)"
  using send_loop_result [of 0 policy send rng] by (simp add: send_with_retry_def)

definition throttled_then :: "(nat \<Rightarrow> exn + response) \<Rightarrow> nat \<Rightarrow> exn + response" where
  "throttled_then later n = (if n < 1 then Inr \<lparr>status_code = 429, retry_after_header = None\<rparr>
     else if n < 2 then Inl (ValueError ''x'') else later n)"

definition two_retries :: retry_policy where
  "two_retries = \<lparr>max_retries = 2, max_wait_seconds = 8, jitter_fraction = 0\<rparr>"

lemma throttled_run:
  "send_with_retry (throttled_then (\<lambda>_. Inl (ValueError ''y''))) two_retries (\<lambda>_. 0) = (Inl (ValueError ''x''), [Fin 1])"
  by (simp add: send_with_retry_def send_loop.simps throttled_then_def two_retries_def wait_seconds_def
      parse_retry_after_def FALLBACK_BASE_SECONDS_def py_min_def py_max_def fl_scale_def)

theorem send_with_retry_bounded_witness:
  "send_with_retry (throttled_then (\<lambda>n. Inr \<lparr>status_code = 200, retry_after_header = None\<rparr>)) two_retries (\<lambda>_. 0) =
     (Inl (ValueError ''x''), [Fin 1])"
proof -
  let ?a = "throttled_then (\<lambda>_. Inl (ValueError ''y''))"
  let ?b = "throttled_then (\<lambda>n. Inr \<lparr>status_code = 200, retry_after_header = None\<rparr>)"
  obtain k where k: "length (snd (send_with_retry ?a two_retries (\<lambda>_. 0))) = k - 1" "0 < k"
    "\<forall>send'. (\<forall>i<k. send' i = ?a i) \<longrightarrow>
       send_with_retry send' two_retries (\<lambda>_. 0) = send_with_retry ?a two_retries (\<lambda>_. 0)"
    using send_with_retry_bounded [of two_retries ?a "\<lambda>_. 0"] by metis
  have "k = 2" using k(1,2) throttled_run by simp
  moreover have "\<forall>i<2. ?b i = ?a i" by (simp add: throttled_then_def)
  ultimately show ?thesis using k(3) throttled_run by metis
qed

text \<open>
  The wait before a retry is a number of seconds between zero and the configured maximum,
  whatever the provider's \<^verbatim>\<open>retry-after\<close> header says (up to attempt 1024 if it says nothing), with one
  exception: the header
  \<^verbatim>\<open>nan\<close> parses as a float, is not refused as negative, and goes through both clamps
  unchanged, so that wait is NaN.
\<close>

theorem retry_wait_bounded:
  assumes "0 \<le> m"
  shows "(parse_retry_after header \<noteq> Some NaN \<longrightarrow>
      parse_retry_after header = None \<and> 1024 \<le> n \<or>
      (\<exists>x. wait_seconds n (parse_retry_after header) m j d = Some (Fin x) \<and> 0 \<le> x \<and> x \<le> m)) \<and>
    wait_seconds n (parse_retry_after (Some ''nan'')) m j d = Some NaN"
proof -
  have "parse_retry_after (Some ''nan'') = Some NaN"
    by code_simp
  then show ?thesis
    using wait_seconds_bounds [OF _ assms, of "parse_retry_after header" n]
    by (cases "n < 1024"; cases "parse_retry_after header") (auto simp: wait_seconds_NaN)
qed

theorem retry_wait_bounded_witness:
  "wait_seconds 0 (parse_retry_after (Some '' 90 '')) 30 (1/10) (1/2) = Some (Fin 30) \<and>
   (\<exists>x. wait_seconds 0 (parse_retry_after (Some '' 90 '')) 30 (1/10) (1/2) = Some (Fin x) \<and> 0 \<le> x \<and> x \<le> 30)"
proof -
  have p: "parse_retry_after (Some '' 90 '') = Some (Fin 90)"
    by (simp add: parse_retry_after_def py_float_def py_strip_def is_space_def py_lower_def
        lower_char_def take_sign_def parse_unsigned_float_def is_digit_def parse_exponent_def
        digits_value_def pow10_def)
  have "wait_seconds 0 (parse_retry_after (Some '' 90 '')) 30 (1/10) (1/2) = Some (Fin 30)"
    by (simp add: p wait_seconds_def py_min_def py_max_def fl_scale_def)
  then show ?thesis
    using retry_wait_bounded [of 30 "Some '' 90 ''" 0 "1/10" "1/2"] p by simp
qed

end
