(* ===== verification/Urlhash.thy ===== *)
theory Urlhash
  imports Ratelimit "HOL-Library.Word" "HOL-Library.Multiset" "HOL-Library.List_Lexorder" "HOL-Library.Char_ord"
begin

unbundle bit_operations_syntax

text \<open>
  URL normalisation v1 and the dedup key of \<^verbatim>\<open>src/imageshield/search/urlhash.py\<close>, with the
  parts of the Python library it calls: \<^verbatim>\<open>urlsplit\<close> with \<^verbatim>\<open>hostname\<close> and \<^verbatim>\<open>port\<close>,
  \<^verbatim>\<open>str.split\<close>, \<^verbatim>\<open>str.partition\<close>, and SHA-256.

  A string is the list of its bytes, UTF-8 where it is not ASCII; comparing bytes is comparing code
  points.  The three tables of the library that no byte string carries (the IDNA codec, the
  \<^verbatim>\<open>ipaddress\<close> check of a bracketed host, the NFKC check of a host name) are the argument
  \<open>host_lib\<close>; for an ASCII host without brackets the first is the identity and the others pass
  (\<open>ascii_lib\<close>).  \<open>str_strip\<close> strips the white space of all of Unicode; lower-casing is that of ASCII, and
  the claims are stated for ASCII text.
\<close>

section \<open>Splitting and joining\<close>

fun split_on :: "char \<Rightarrow> string \<Rightarrow> string list" where
  "split_on c [] = [[]]"
| "split_on c (x # xs) =
     (if x = c then [] # split_on c xs
      else (x # hd (split_on c xs)) # tl (split_on c xs))"

fun join_with :: "char \<Rightarrow> string list \<Rightarrow> string" where
  "join_with c [] = []"
| "join_with c [s] = s"
| "join_with c (s # t # ts) = s @ c # join_with c (t # ts)"

definition before :: "char \<Rightarrow> string \<Rightarrow> string" where
  "before c s = takeWhile (\<lambda>x. x \<noteq> c) s"

definition after :: "char \<Rightarrow> string \<Rightarrow> string" where
  "after c s = tl (dropWhile (\<lambda>x. x \<noteq> c) s)"

definition after_last :: "char \<Rightarrow> string \<Rightarrow> string" where
  "after_last c s = rev (takeWhile (\<lambda>x. x \<noteq> c) (rev s))"

definition starts_with :: "string \<Rightarrow> string \<Rightarrow> bool" where
  "starts_with p s \<longleftrightarrow> take (length p) s = p"

lemma split_on_nonempty [simp]: "split_on c s \<noteq> []"
  by (cases s) auto

lemma split_on_no_sep: "x \<in> set (split_on c s) \<Longrightarrow> c \<notin> set x"
proof (induction s arbitrary: x)
  case (Cons y ys)
  show ?case
  proof (cases "y = c")
    case True
    with Cons show ?thesis by auto
  next
    case False
    have "hd (split_on c ys) \<in> set (split_on c ys)" "set (tl (split_on c ys)) \<subseteq> set (split_on c ys)"
      by (simp_all add: list.set_sel(2) subsetI)
    with False Cons show ?thesis by auto
  qed
qed simp

lemma split_on_plain: "c \<notin> set s \<Longrightarrow> split_on c s = [s]"
  by (induction s) auto

lemma split_on_append: "c \<notin> set s \<Longrightarrow> split_on c (s @ c # t) = s # split_on c t"
  by (induction s) auto

lemma split_join:
  "ss \<noteq> [] \<Longrightarrow> \<forall>s\<in>set ss. c \<notin> set s \<Longrightarrow> split_on c (join_with c ss) = ss"
  by (induction c ss rule: join_with.induct) (auto simp: split_on_plain split_on_append)

lemma join_split: "join_with c (split_on c s) = s"
proof (induction s)
  case (Cons x xs)
  then show ?case
    by (cases "split_on c xs"; cases "tl (split_on c xs)") auto
qed simp

section \<open>strip\<close>

text \<open>
  \<^verbatim>\<open>str.strip\<close> on UTF-8: beside the ASCII white space, U+0085, U+00A0, U+1680, U+2000 to U+200A, U+2028,
  U+2029, U+202F, U+205F and U+3000.  No encoding is the end of another, so the bytes are read from either side.
\<close>

definition space2 :: "char \<Rightarrow> char \<Rightarrow> bool" where
  "space2 a b \<longleftrightarrow> of_char a = (0xC2::nat) \<and> of_char b \<in> set [0x85::nat, 0xA0]"

definition space3 :: "char \<Rightarrow> char \<Rightarrow> char \<Rightarrow> bool" where
  "space3 a b c \<longleftrightarrow>
     (let x = of_char a; y = of_char b; z = of_char c :: nat in
      (x = (0xE1::nat) \<and> y = (0x9A::nat) \<and> z = 0x80) \<or>
      (x = 0xE2 \<and> y = 0x80 \<and> (0x80 \<le> z \<and> z \<le> 0x8A \<or> z \<in> set [0xA8, 0xA9, 0xAF])) \<or>
      (x = 0xE2 \<and> y = 0x81 \<and> z = 0x9F) \<or> (x = 0xE3 \<and> y = 0x80 \<and> z = 0x80))"

fun lstrip :: "string \<Rightarrow> string" where
  "lstrip (a # b # c # s) =
     (if is_space a then lstrip (b # c # s)
      else if space2 a b then lstrip (c # s)
      else if space3 a b c then lstrip s
      else a # b # c # s)"
| "lstrip [a, b] = (if is_space a then lstrip [b] else if space2 a b then [] else [a, b])"
| "lstrip [a] = (if is_space a then [] else [a])"
| "lstrip [] = []"

text \<open>The same on the reversed string.\<close>

fun rstrip_rev :: "string \<Rightarrow> string" where
  "rstrip_rev (c # b # a # s) =
     (if is_space c then rstrip_rev (b # a # s)
      else if space2 b c then rstrip_rev (a # s)
      else if space3 a b c then rstrip_rev s
      else c # b # a # s)"
| "rstrip_rev [c, b] = (if is_space c then rstrip_rev [b] else if space2 b c then [] else [c, b])"
| "rstrip_rev [c] = (if is_space c then [] else [c])"
| "rstrip_rev [] = []"

definition str_strip :: "string \<Rightarrow> string" where
  "str_strip s = rev (rstrip_rev (rev (lstrip s)))"

section \<open>urlsplit\<close>

record host_lib =
  idna :: "string \<Rightarrow> string option"
  bracketed_host_ok :: "string \<Rightarrow> bool"
  nfkc_ok :: "string \<Rightarrow> bool"

definition ascii_lib :: host_lib where
  "ascii_lib = \<lparr>idna = Some, bracketed_host_ok = (\<lambda>h. False), nfkc_ok = (\<lambda>n. True)\<rparr>"

record split_result =
  sr_scheme :: string
  sr_netloc :: string
  sr_path :: string
  sr_query :: string

definition is_alpha :: "char \<Rightarrow> bool" where
  "is_alpha c \<longleftrightarrow>
     (let n = of_char c :: nat in (65 \<le> n \<and> n \<le> 90) \<or> (97 \<le> n \<and> n \<le> 122))"

definition scheme_char :: "char \<Rightarrow> bool" where
  "scheme_char c \<longleftrightarrow> is_alpha c \<or> is_digit c \<or> c \<in> set ''+-.''"

definition c0_or_space :: "char \<Rightarrow> bool" where
  "c0_or_space c \<longleftrightarrow> of_char c \<le> (32::nat)"

definition unsafe_char :: "char \<Rightarrow> bool" where
  "unsafe_char c \<longleftrightarrow> of_char c \<in> set [9::nat, 13, 10]"

text \<open>The scheme and what follows its colon.\<close>

definition split_scheme :: "string \<Rightarrow> string \<times> string" where
  "split_scheme url =
     (let s = before CHR '':'' url in
      if CHR '':'' \<in> set url \<and> s \<noteq> [] \<and> is_alpha (hd s) \<and> list_all scheme_char s
      then (py_lower s, after CHR '':'' url) else ([], url))"

definition netloc_end :: "char \<Rightarrow> bool" where
  "netloc_end c \<longleftrightarrow> c = CHR ''/'' \<or> c = CHR ''?'' \<or> c = CHR ''#''"

definition netloc_ok :: "host_lib \<Rightarrow> string \<Rightarrow> bool" where
  "netloc_ok lib n \<longleftrightarrow>
     (CHR ''['' \<in> set n) = (CHR '']'' \<in> set n) \<and>
     (CHR ''['' \<in> set n \<longrightarrow> bracketed_host_ok lib (before CHR '']'' (after CHR ''['' n)))"

definition urlsplit :: "host_lib \<Rightarrow> string \<Rightarrow> split_result option" where
  "urlsplit lib u =
     (let url = filter (\<lambda>c. \<not> unsafe_char c) (dropWhile c0_or_space u);
          (scheme, rest) = split_scheme url;
          has_netloc = starts_with ''//'' rest;
          netloc = (if has_netloc then takeWhile (\<lambda>c. \<not> netloc_end c) (drop 2 rest) else []);
          rest1 = (if has_netloc then dropWhile (\<lambda>c. \<not> netloc_end c) (drop 2 rest) else rest);
          rest2 = before CHR ''#'' rest1;
          path = before CHR ''?'' rest2;
          query = after CHR ''?'' rest2
      in if has_netloc \<and> \<not> netloc_ok lib netloc then None
         else if \<not> nfkc_ok lib netloc then None
         else Some \<lparr>sr_scheme = scheme, sr_netloc = netloc, sr_path = path, sr_query = query\<rparr>)"

definition hostinfo :: "string \<Rightarrow> string \<times> string option" where
  "hostinfo netloc =
     (let h = after_last CHR ''@'' netloc;
          (hostname, port) =
            (if CHR ''['' \<in> set h
             then (before CHR '']'' (after CHR ''['' h),
                   after CHR '':'' (after CHR '']'' (after CHR ''['' h)))
             else (before CHR '':'' h, after CHR '':'' h))
      in (hostname, if port = [] then None else Some port))"

definition sr_hostname :: "split_result \<Rightarrow> string option" where
  "sr_hostname r =
     (let h = fst (hostinfo (sr_netloc r)) in
      if h = [] then None
      else Some (py_lower (before CHR ''%'' h) @ dropWhile (\<lambda>x. x \<noteq> CHR ''%'') h))"

text \<open>The outer option is \<^verbatim>\<open>ValueError\<close>.\<close>

definition sr_port :: "split_result \<Rightarrow> nat option option" where
  "sr_port r =
     (case snd (hostinfo (sr_netloc r)) of
        None \<Rightarrow> Some None
      | Some p \<Rightarrow>
          if list_all is_digit p \<and> digits_value p \<le> 65535 then Some (Some (digits_value p))
          else None)"

section \<open>SHA-256\<close>

text \<open>
  The constants are what the standard says they are: the first 32 bits of the fractional parts of
  the roots of the first primes.  \<open>floor_root k n 36 0\<close> is the \<open>k\<close>-th root of a number below
  \<open>2 ^ (36 * k)\<close>, rounded down, bit by bit.
\<close>

fun floor_root :: "nat \<Rightarrow> nat \<Rightarrow> nat \<Rightarrow> nat \<Rightarrow> nat" where
  "floor_root k n 0 r = r"
| "floor_root k n (Suc b) r = floor_root k n b (if (r + 2 ^ b) ^ k \<le> n then r + 2 ^ b else r)"

definition root_bits :: "nat \<Rightarrow> nat \<Rightarrow> 32 word" where
  "root_bits k p = of_nat (floor_root k (p * 2 ^ (32 * k)) 36 0)"

definition first_primes :: "nat list" where
  "first_primes = [
    2, 3, 5, 7, 11, 13, 17, 19, 23, 29, 31, 37, 41, 43, 47, 53,
    59, 61, 67, 71, 73, 79, 83, 89, 97, 101, 103, 107, 109, 113, 127, 131,
    137, 139, 149, 151, 157, 163, 167, 173, 179, 181, 191, 193, 197, 199, 211, 223,
    227, 229, 233, 239, 241, 251, 257, 263, 269, 271, 277, 281, 283, 293, 307, 311]"

definition sha_k :: "32 word list" where
  "sha_k = map (root_bits 3) first_primes"

definition sha_init :: "32 word list" where
  "sha_init = map (root_bits 2) (take 8 first_primes)"

definition rotr :: "nat \<Rightarrow> 32 word \<Rightarrow> 32 word" where
  "rotr n w = word_rotr n w"

text \<open>The message schedule, latest word first.\<close>

fun sha_schedule :: "nat \<Rightarrow> 32 word list \<Rightarrow> 32 word list" where
  "sha_schedule 0 ws = ws"
| "sha_schedule (Suc n) ws =
     (let w15 = ws ! 14; w2 = ws ! 1;
          s0 = rotr 7 w15 XOR rotr 18 w15 XOR drop_bit 3 w15;
          s1 = rotr 17 w2 XOR rotr 19 w2 XOR drop_bit 10 w2
      in sha_schedule n ((ws ! 15 + s0 + ws ! 6 + s1) # ws))"

fun sha_round :: "32 word list \<Rightarrow> 32 word \<times> 32 word \<Rightarrow> 32 word list" where
  "sha_round [a, b, c, d, e, f, g, h] (k, w) =
     (let s1 = rotr 6 e XOR rotr 11 e XOR rotr 25 e;
          ch = (e AND f) XOR (NOT e AND g);
          t1 = h + s1 + ch + k + w;
          s0 = rotr 2 a XOR rotr 13 a XOR rotr 22 a;
          maj = (a AND b) XOR (a AND c) XOR (b AND c);
          t2 = s0 + maj
      in [t1 + t2, a, b, c, d + t1, e, f, g])"
| "sha_round s _ = s"

definition sha_block :: "32 word list \<Rightarrow> 32 word list \<Rightarrow> 32 word list" where
  "sha_block h ws =
     map2 (+) h (foldl sha_round h (zip sha_k (rev (sha_schedule 48 (rev ws)))))"

fun chunks_of :: "nat \<Rightarrow> 'a list \<Rightarrow> 'a list list" where
  "chunks_of n xs =
     (if n = 0 \<or> xs = [] then [] else take n xs # chunks_of n (drop n xs))"

declare chunks_of.simps [simp del]

definition big_endian :: "nat \<Rightarrow> nat \<Rightarrow> nat list" where
  "big_endian k n = map (\<lambda>i. n div 256 ^ (k - 1 - i) mod 256) [0..<k]"

definition sha_pad :: "nat list \<Rightarrow> nat list" where
  "sha_pad bs =
     bs @ 128 # replicate ((119 - length bs mod 64) mod 64) 0 @ big_endian 8 (8 * length bs)"

definition bytes_word :: "nat list \<Rightarrow> 32 word" where
  "bytes_word bs = of_nat (foldl (\<lambda>n b. 256 * n + b) 0 bs)"

definition sha256 :: "nat list \<Rightarrow> nat list" where
  "sha256 bs =
     concat (map (\<lambda>w. big_endian 4 (unat w))
       (foldl (\<lambda>h blk. sha_block h (map bytes_word (chunks_of 4 blk))) sha_init
         (chunks_of 64 (sha_pad bs))))"

definition hex_digit :: "nat \<Rightarrow> char" where
  "hex_digit n = (if n < 10 then char_of (48 + n) else char_of (87 + n))"

definition hexdigest :: "nat list \<Rightarrow> string" where
  "hexdigest bs = concat (map (\<lambda>b. [hex_digit (b div 16), hex_digit (b mod 16)]) bs)"

section \<open>The rules\<close>

definition TRACKING_EXACT :: "string list" where
  "TRACKING_EXACT = [''fbclid'', ''gclid'', ''msclkid'', ''mc_eid'', ''ref'', ''ref_src'',
     ''source'', ''igshid'', ''_ga'', ''yclid'']"

definition DEFAULT_PORTS :: "string \<Rightarrow> nat option" where
  "DEFAULT_PORTS scheme =
     (if scheme = ''http'' then Some 80 else if scheme = ''https'' then Some 443 else None)"

definition unreserved :: "char \<Rightarrow> bool" where
  "unreserved c \<longleftrightarrow> is_alpha c \<or> is_digit c \<or> c \<in> set ''-._~''"

definition hex_value :: "char \<Rightarrow> nat option" where
  "hex_value c =
     (let n = of_char c :: nat in
      if 48 \<le> n \<and> n \<le> 57 then Some (n - 48)
      else if 65 \<le> n \<and> n \<le> 70 then Some (n - 55)
      else if 97 \<le> n \<and> n \<le> 102 then Some (n - 87)
      else None)"

definition upper_char :: "char \<Rightarrow> char" where
  "upper_char c =
     (let n = of_char c in if 97 \<le> n \<and> n \<le> (122::nat) then char_of (n - 32) else c)"

text \<open>One match of \<^verbatim>\<open>_PCT_RE\<close>.\<close>

definition pct_one :: "char \<Rightarrow> char \<Rightarrow> string option" where
  "pct_one a b =
     (case (hex_value a, hex_value b) of
        (Some x, Some y) \<Rightarrow>
          let char = char_of (16 * x + y) in
          Some (if unreserved char then [char] else [CHR ''%'', upper_char a, upper_char b])
      | _ \<Rightarrow> None)"

fun normalise_pct :: "string \<Rightarrow> string" where
  "normalise_pct (c # a # b # s) =
     (if c = CHR ''%'' then
        (case pct_one a b of
           Some r \<Rightarrow> r @ normalise_pct s
         | None \<Rightarrow> c # normalise_pct (a # b # s))
      else c # normalise_pct (a # b # s))"
| "normalise_pct (c # s) = c # normalise_pct s"
| "normalise_pct [] = []"

definition dot_step :: "string \<Rightarrow> string list \<Rightarrow> string list" where
  "dot_step seg out =
     (if seg = ''.'' then out
      else if seg = ''..'' then (if length out > 1 then butlast out else out)
      else out @ [seg])"

definition resolve_dot_segments :: "string \<Rightarrow> string" where
  "resolve_dot_segments path =
     (if path = [] then []
      else
        let segments = split_on CHR ''/'' path;
            out = fold dot_step segments [];
            out' = (if last segments \<in> {''.'', ''..''} \<and> (out = [] \<or> last out \<noteq> [])
                    then out @ [[]] else out)
        in join_with CHR ''/'' out')"

definition strip_trailing_slash :: "string \<Rightarrow> string" where
  "strip_trailing_slash path =
     (if path \<noteq> [] \<and> last path = CHR ''/'' \<and> length path > 1 then butlast path else path)"

definition param_key :: "string \<Rightarrow> string" where
  "param_key p = before CHR ''='' p"

definition tracking :: "string \<Rightarrow> bool" where
  "tracking param \<longleftrightarrow>
     (let key = py_lower (param_key param)
      in starts_with ''utm_'' key \<or> key \<in> set TRACKING_EXACT)"

definition query_params :: "string \<Rightarrow> string list" where
  "query_params query =
     map normalise_pct (filter (\<lambda>p. p \<noteq> [] \<and> \<not> tracking p) (split_on CHR ''&'' query))"

definition normalise_query :: "string \<Rightarrow> string" where
  "normalise_query query =
     (if query = [] then []
      else join_with CHR ''&'' (sort_key (\<lambda>p. [param_key p, p]) (query_params query)))"

definition idna_host :: "host_lib \<Rightarrow> string \<Rightarrow> string" where
  "idna_host lib host = (case idna lib host of None \<Rightarrow> host | Some h \<Rightarrow> h)"

definition canonical_parts :: "host_lib \<Rightarrow> split_result \<Rightarrow> nat option \<Rightarrow> string \<Rightarrow> string" where
  "canonical_parts lib parts port hostname =
     (let scheme = py_lower (sr_scheme parts);
          host = idna_host lib hostname;
          netloc = (case port of
                      None \<Rightarrow> host
                    | Some p \<Rightarrow> if Some p = DEFAULT_PORTS scheme then host
                                else host @ '':'' @ show_nat p);
          p0 = resolve_dot_segments (normalise_pct (sr_path parts));
          path = strip_trailing_slash (if p0 = [] then ''/'' else p0);
          query = normalise_query (sr_query parts)
      in scheme @ ''://'' @ netloc @ path @ (if query = [] then [] else CHR ''?'' # query))"

definition canonicalise :: "host_lib \<Rightarrow> string \<Rightarrow> string" where
  "canonicalise lib url =
     (let raw = str_strip url in
      case urlsplit lib raw of
        None \<Rightarrow> raw
      | Some parts \<Rightarrow>
          (case sr_port parts of
             None \<Rightarrow> raw
           | Some port \<Rightarrow>
               (case sr_hostname parts of
                  None \<Rightarrow> raw
                | Some hostname \<Rightarrow>
                    if sr_scheme parts = [] then raw
                    else canonical_parts lib parts port hostname)))"

definition url_hash :: "host_lib \<Rightarrow> string \<Rightarrow> url_hash" where
  "url_hash lib url = hexdigest (sha256 (map of_char (canonicalise lib url)))"

definition source_domain :: "host_lib \<Rightarrow> string \<Rightarrow> string" where
  "source_domain lib url =
     (case urlsplit lib (canonicalise lib url) of
        None \<Rightarrow> ''unknown''
      | Some parts \<Rightarrow> (case sr_hostname parts of None \<Rightarrow> ''unknown'' | Some h \<Rightarrow> h))"

section \<open>What the key ignores\<close>

text \<open>Printable ASCII: no white space, no control character, nothing outside ASCII.\<close>

definition printable :: "string \<Rightarrow> bool" where
  "printable s \<longleftrightarrow> (\<forall>c\<in>set s. (32::nat) < of_char c \<and> of_char c < (127::nat))"

lemma printable_simps [simp]:
  "printable []" "printable (c # s) \<longleftrightarrow> ((32::nat) < of_char c \<and> of_char c < (127::nat)) \<and> printable s"
  "printable (s @ t) \<longleftrightarrow> printable s \<and> printable t"
  by (auto simp: printable_def)

lemma dropWhile_none: "(\<And>c. c \<in> set s \<Longrightarrow> \<not> P c) \<Longrightarrow> dropWhile P s = s"
  by (cases s) auto

lemma str_strip_printable: "printable s \<Longrightarrow> str_strip s = s"
proof -
  have plain: "\<not> is_space c" "\<not> space2 a c" "\<not> space2 c a" "\<not> space3 c a b" "\<not> space3 a b c"
    if "(32::nat) < of_char c" "of_char c < (127::nat)" for a b c
    using that by (auto simp: is_space_def space2_def space3_def Let_def)
  have "lstrip s = s" if "printable s" for s using that by (cases s rule: lstrip.cases; simp add: plain)
  moreover have "rstrip_rev s = s" if "printable s" for s
    using that by (cases s rule: rstrip_rev.cases; simp add: plain)
  moreover assume "printable s"
  moreover from this have "printable (rev s)" by (simp add: printable_def)
  ultimately show ?thesis by (simp add: str_strip_def)
qed

lemma urlsplit_clean:
  "printable s \<Longrightarrow> filter (\<lambda>c. \<not> unsafe_char c) (dropWhile c0_or_space s) = s"
proof -
  assume "printable s"
  then have c: "\<And>c. c \<in> set s \<Longrightarrow> \<not> c0_or_space c \<and> \<not> unsafe_char c"
    unfolding printable_def c0_or_space_def unsafe_char_def by fastforce
  then have "dropWhile c0_or_space s = s" by (intro dropWhile_none) simp
  with c show ?thesis by (simp add: filter_id_conv)
qed

lemma before_append: "before c (s @ t) = (if c \<in> set s then before c s else s @ before c t)"
  by (auto simp: before_def takeWhile_append)

lemma after_append: "after c (s @ t) = (if c \<in> set s then after c s @ t else after c t)"
  by (induction s) (auto simp: after_def)

lemma before_Cons [simp]: "before c (x # s) = (if x = c then [] else x # before c s)"
  by (simp add: before_def)

lemma after_Cons [simp]: "after c (x # s) = (if x = c then s else after c s)"
  by (simp add: after_def)

lemma before_absent: "c \<notin> set s \<Longrightarrow> before c s = s"
  by (simp add: before_def takeWhile_eq_all_conv) blast

lemma after_absent: "c \<notin> set s \<Longrightarrow> after c s = []"
  by (induction s) (auto simp: after_def)

lemma set_after: "set (after c s) \<subseteq> set s"
  by (induction s) (auto simp: after_def)

lemma split_scheme_append:
  assumes "fst (split_scheme base) \<noteq> []"
  shows "split_scheme (base @ t) = (fst (split_scheme base), snd (split_scheme base) @ t)"
  using assms
  by (auto simp: split_scheme_def Let_def before_append after_append split: if_splits)

text \<open>A query and a fragment after a base without either.\<close>

lemma urlsplit_query:
  assumes base: "urlsplit lib base = Some parts" "sr_hostname parts \<noteq> None" "sr_scheme parts \<noteq> []"
    and clean: "printable (base @ CHR ''?'' # q @ t)"
    and no: "CHR ''?'' \<notin> set base" "CHR ''#'' \<notin> set base" "CHR ''#'' \<notin> set q"
    and t: "t = [] \<or> hd t = CHR ''#''"
  shows "urlsplit lib (base @ CHR ''?'' # q @ t) = Some (parts\<lparr>sr_query := q\<rparr>)"
proof -
  define rest where "rest = snd (split_scheme base)"
  have cbase: "filter (\<lambda>c. \<not> unsafe_char c) (dropWhile c0_or_space base) = base"
    using clean by (intro urlsplit_clean) simp
  note u = base(1)[unfolded urlsplit_def cbase Let_def case_prod_beta]
  have scheme: "fst (split_scheme base) = sr_scheme parts"
    using u by (auto split: if_splits)
  have net: "starts_with ''//'' rest"
  proof (rule ccontr)
    assume "\<not> starts_with ''//'' rest"
    with u have "sr_netloc parts = []" by (auto simp: rest_def split: if_splits)
    with base(2) show False
      by (simp add: sr_hostname_def hostinfo_def after_last_def before_def Let_def)
  qed
  then obtain r where r: "rest = ''//'' @ r"
    by (cases rest; cases "tl rest") (auto simp: starts_with_def)
  have "set rest \<subseteq> set base"
    using set_after [of "CHR '':''" base] by (auto simp: rest_def split_scheme_def Let_def)
  with no r have rno: "CHR ''?'' \<notin> set r" "CHR ''#'' \<notin> set r" by auto
  define path where "path = dropWhile (\<lambda>c. \<not> netloc_end c) r"
  have pno: "CHR ''?'' \<notin> set path" "CHR ''#'' \<notin> set path"
    using rno set_dropWhileD by (fastforce simp: path_def)+
  have split: "split_scheme (base @ CHR ''?'' # q @ t) = (sr_scheme parts, ''//'' @ r @ CHR ''?'' # q @ t)"
    using split_scheme_append [of base] scheme base(3) r by (simp add: rest_def)
  have take: "takeWhile (\<lambda>c. \<not> netloc_end c) (r @ CHR ''?'' # q @ t) = takeWhile (\<lambda>c. \<not> netloc_end c) r"
    by (induction r) (auto simp: netloc_end_def)
  have drop: "dropWhile (\<lambda>c. \<not> netloc_end c) (r @ CHR ''?'' # q @ t) = path @ CHR ''?'' # q @ t"
    unfolding path_def by (induction r) (auto simp: netloc_end_def)
  have hash: "before CHR ''#'' (path @ CHR ''?'' # q @ t) = path @ CHR ''?'' # q"
  proof -
    have "before CHR ''#'' t = []" using t by (cases t) (auto simp: before_def)
    then show ?thesis using pno no(3) by (simp add: before_append)
  qed
  have q1: "before CHR ''?'' (path @ CHR ''?'' # q) = path" "after CHR ''?'' (path @ CHR ''?'' # q) = q"
    using pno by (simp_all add: before_append after_append)
  have p0: "before CHR ''#'' path = path" "before CHR ''?'' path = path"
    using pno by (simp_all add: before_absent)
  have parts: "parts = \<lparr>sr_scheme = sr_scheme parts, sr_netloc = takeWhile (\<lambda>c. \<not> netloc_end c) r,
      sr_path = path, sr_query = after CHR ''?'' path\<rparr>"
    and ok: "netloc_ok lib (takeWhile (\<lambda>c. \<not> netloc_end c) r)"
      "nfkc_ok lib (takeWhile (\<lambda>c. \<not> netloc_end c) r)"
    using u r net p0 by (auto simp: rest_def path_def starts_with_def split: if_splits)
  show ?thesis
    unfolding urlsplit_def urlsplit_clean [OF clean] Let_def split case_prod_conv
    using ok by (subst parts) (simp add: starts_with_def take drop hash q1)
qed

lemma sort_key_mset_inj:
  fixes f :: "'a \<Rightarrow> 'b::linorder"
  assumes "inj f" "mset xs = mset ys"
  shows "sort_key f xs = sort_key f ys"
proof -
  have "map f (sort_key f zs) = sort (map f zs)" for zs
    by (rule sym, rule properties_for_sort) (simp_all add: mset_map)
  moreover have "sort (map f xs) = sort (map f ys)"
    using assms(2) by (intro properties_for_sort) (simp_all add: mset_map)
  ultimately have "map f (sort_key f xs) = map f (sort_key f ys)" by simp
  with assms(1) show ?thesis by (simp add: inj_map_eq_map)
qed

lemma query_params_join:
  assumes "\<forall>p\<in>set ps. CHR ''&'' \<notin> set p"
  shows "query_params (join_with CHR ''&'' ps) =
    map normalise_pct (filter (\<lambda>p. p \<noteq> [] \<and> \<not> tracking p) ps)"
  using split_join [OF _ assms] by (cases ps) (auto simp: query_params_def)

lemma normalise_query_params:
  "normalise_query q = join_with CHR ''&'' (sort_key (\<lambda>p. [param_key p, p]) (query_params q))"
  by (simp add: normalise_query_def query_params_def)

lemma normalise_query_mset:
  assumes "\<forall>p\<in>set ps \<union> set qs. CHR ''&'' \<notin> set p"
    and "mset (filter (\<lambda>p. p \<noteq> [] \<and> \<not> tracking p) ps) =
         mset (filter (\<lambda>p. p \<noteq> [] \<and> \<not> tracking p) qs)"
  shows "normalise_query (join_with CHR ''&'' ps) = normalise_query (join_with CHR ''&'' qs)"
proof -
  have "inj (\<lambda>p. [param_key p, p])" by (simp add: inj_on_def)
  moreover have "mset (query_params (join_with CHR ''&'' ps)) =
      mset (query_params (join_with CHR ''&'' qs))"
    using assms by (simp add: query_params_join)
  ultimately have "sort_key (\<lambda>p. [param_key p, p]) (query_params (join_with CHR ''&'' ps)) =
      sort_key (\<lambda>p. [param_key p, p]) (query_params (join_with CHR ''&'' qs))"
    by (rule sort_key_mset_inj)
  then show ?thesis by (simp only: normalise_query_params)
qed

lemma canonicalise_query:
  assumes "urlsplit lib base = Some parts" "sr_port parts = Some port"
    "sr_hostname parts = Some h" "sr_scheme parts \<noteq> []"
    and "printable (base @ CHR ''?'' # q @ t)" "CHR ''?'' \<notin> set base" "CHR ''#'' \<notin> set base"
    "CHR ''#'' \<notin> set q" "t = [] \<or> hd t = CHR ''#''"
  shows "canonicalise lib (base @ CHR ''?'' # q @ t) =
    canonical_parts lib (parts\<lparr>sr_query := q\<rparr>) port h"
proof -
  have "urlsplit lib (base @ CHR ''?'' # q @ t) = Some (parts\<lparr>sr_query := q\<rparr>)"
    using assms by (intro urlsplit_query) auto
  with assms(2-4) show ?thesis
    unfolding canonicalise_def str_strip_printable [OF assms(5)] Let_def
    by (simp add: sr_port_def sr_hostname_def)
qed



section \<open>Dot segments\<close>

definition dots :: "string set" where
  "dots = {''.'', ''..''}"

lemma set_dot_step: "set (dot_step seg out) \<subseteq> set out \<union> (if seg \<in> dots then {} else {seg})"
proof -
  have "set (butlast out) \<subseteq> set out" by (auto dest: in_set_butlastD)
  then show ?thesis unfolding dot_step_def dots_def by auto
qed

lemma fold_dot_step_clean:
  "\<forall>s\<in>set segs. P s \<Longrightarrow> \<forall>s\<in>set out. P s \<and> s \<notin> dots \<Longrightarrow>
   \<forall>s\<in>set (fold dot_step segs out). P s \<and> s \<notin> dots"
proof (induction segs arbitrary: out)
  case (Cons seg segs)
  have "P s \<and> s \<notin> dots" if "s \<in> set (dot_step seg out)" for s
  proof -
    have "s \<in> set out \<or> s = seg \<and> seg \<notin> dots"
      using that set_dot_step [of seg out] by (cases "seg \<in> dots") auto
    with Cons.prems show ?thesis by auto
  qed
  then have "\<forall>s\<in>set (dot_step seg out). P s \<and> s \<notin> dots" by blast
  from Cons.IH [OF _ this] Cons.prems(1) show ?case by simp
qed simp

lemma fold_dot_step_id:
  "\<forall>s\<in>set segs. s \<notin> dots \<Longrightarrow> fold dot_step segs out = out @ segs"
  by (induction segs arbitrary: out) (auto simp: dot_step_def dots_def)

lemma fold_dot_step_root:
  "out \<noteq> [] \<Longrightarrow> hd out = [] \<Longrightarrow> fold dot_step segs out \<noteq> [] \<and> hd (fold dot_step segs out) = []"
proof (induction segs arbitrary: out)
  case (Cons seg segs)
  have "dot_step seg out \<noteq> [] \<and> hd (dot_step seg out) = []"
    using Cons.prems by (cases out; cases "tl out") (auto simp: dot_step_def)
  with Cons.IH show ?case by simp
qed simp

text \<open>The segments \<open>resolve_dot_segments\<close> joins.\<close>

definition resolved_segments :: "string \<Rightarrow> string list" where
  "resolved_segments path =
     (let segments = split_on CHR ''/'' path; out = fold dot_step segments []
      in if last segments \<in> {''.'', ''..''} \<and> (out = [] \<or> last out \<noteq> []) then out @ [[]] else out)"

lemma resolve_join: "path \<noteq> [] \<Longrightarrow> resolve_dot_segments path = join_with CHR ''/'' (resolved_segments path)"
  by (simp add: resolve_dot_segments_def resolved_segments_def Let_def)

lemma resolved_segments_clean: "s \<in> set (resolved_segments path) \<Longrightarrow> CHR ''/'' \<notin> set s \<and> s \<notin> dots"
  using fold_dot_step_clean [of "split_on CHR ''/'' path" "\<lambda>s. CHR ''/'' \<notin> set s" "[]"] split_on_no_sep
  by (auto simp: resolved_segments_def Let_def dots_def split: if_splits)

lemma split_resolved:
  "resolved_segments path \<noteq> [] \<Longrightarrow>
   split_on CHR ''/'' (join_with CHR ''/'' (resolved_segments path)) = resolved_segments path"
  using resolved_segments_clean by (intro split_join) auto

text \<open>
  Resolving dot segments leaves none behind, whatever the path: no segment of the result is
  \<open>.\<close> or \<open>..\<close>, resolving again changes nothing, and a rooted path stays rooted (or becomes
  the empty path, which the caller turns into the root): no number of \<open>..\<close> climbs above it.
\<close>

theorem resolve_dot_segments_normal_form:
  "set (split_on CHR ''/'' (resolve_dot_segments path)) \<inter> {''.'', ''..''} = {} \<and>
   resolve_dot_segments (resolve_dot_segments path) = resolve_dot_segments path \<and>
   (path = CHR ''/'' # rest \<longrightarrow>
      resolve_dot_segments path = [] \<or> hd (resolve_dot_segments path) = CHR ''/'')"
proof (cases "path = [] \<or> resolved_segments path = []")
  case True
  then have e: "resolve_dot_segments path = []"
    using resolve_join [of path] by (cases "path = []") (auto simp: resolve_dot_segments_def)
  have "resolve_dot_segments [] = []" by (simp add: resolve_dot_segments_def)
  then show ?thesis unfolding e by simp
next
  case False
  define r where "r = resolve_dot_segments path"
  define segs where "segs = resolved_segments path"
  have r: "r = join_with CHR ''/'' segs" using False by (simp add: r_def segs_def resolve_join)
  have split: "split_on CHR ''/'' r = segs" using split_resolved False by (simp add: r segs_def)
  have clean: "\<forall>s\<in>set segs. s \<notin> dots" using resolved_segments_clean by (auto simp: segs_def)
  have "segs \<noteq> []" using False by (simp add: segs_def)
  then have last: "last segs \<notin> dots" using clean by simp
  have "resolve_dot_segments r = r"
  proof (cases "r = []")
    case False
    have "resolved_segments r = segs"
      using fold_dot_step_id [OF clean, of "[]"] last
      by (auto simp: resolved_segments_def split Let_def dots_def)
    with False r show ?thesis by (simp add: resolve_join)
  qed (simp add: resolve_dot_segments_def)
  moreover have "r = [] \<or> hd r = CHR ''/''" if "path = CHR ''/'' # rest"
  proof -
    have "fold dot_step (split_on CHR ''/'' path) [] = fold dot_step (split_on CHR ''/'' rest) [[]]"
      by (simp add: that dot_step_def)
    with fold_dot_step_root [of "[[]]" "split_on CHR ''/'' rest"]
    have "hd segs = []" by (auto simp: segs_def resolved_segments_def Let_def)
    with \<open>segs \<noteq> []\<close> show ?thesis by (cases segs; cases "tl segs") (auto simp: r)
  qed
  moreover have "set (split_on CHR ''/'' r) \<inter> {''.'', ''..''} = {}"
    using clean unfolding split dots_def by blast
  ultimately show ?thesis unfolding r_def by blast
qed

theorem resolve_dot_segments_normal_form_witness:
  "hd (resolve_dot_segments ''/a/./b/../../../c'') = CHR ''/''"
proof -
  have "resolve_dot_segments ''/a/./b/../../../c'' \<noteq> []" by code_simp
  with resolve_dot_segments_normal_form [of "''/a/./b/../../../c''" "''a/./b/../../../c''"]
  show ?thesis by simp
qed

section \<open>Percent-encoding\<close>

text \<open>The bytes a string stands for, and the strings whose every percent sign starts an escape.\<close>

fun unquote :: "string \<Rightarrow> string" where
  "unquote (c # a # b # s) =
     (if c = CHR ''%'' then
        (case (hex_value a, hex_value b) of
           (Some x, Some y) \<Rightarrow> char_of (16 * x + y) # unquote s
         | _ \<Rightarrow> c # unquote (a # b # s))
      else c # unquote (a # b # s))"
| "unquote (c # s) = c # unquote s"
| "unquote [] = []"

fun escapes_ok :: "string \<Rightarrow> bool" where
  "escapes_ok (c # a # b # s) =
     (if c = CHR ''%'' then hex_value a \<noteq> None \<and> hex_value b \<noteq> None \<and> escapes_ok s
      else escapes_ok (a # b # s))"
| "escapes_ok (c # s) = (c \<noteq> CHR ''%'' \<and> escapes_ok s)"
| "escapes_ok [] = True"

lemma plain_step:
  "c \<noteq> CHR ''%'' \<Longrightarrow> normalise_pct (c # s) = c # normalise_pct s"
  "c \<noteq> CHR ''%'' \<Longrightarrow> unquote (c # s) = c # unquote s"
  "c \<noteq> CHR ''%'' \<Longrightarrow> escapes_ok (c # s) = escapes_ok s"
  by (cases s rule: escapes_ok.cases; simp)+

lemma hex_value_upper [simp]: "hex_value (upper_char a) = hex_value a"
proof -
  have "of_char (char_of (n - 32) :: char) = n - 32" if "97 \<le> n" "n \<le> 122" for n :: nat
    using that by simp
  then show ?thesis by (auto simp: hex_value_def upper_char_def Let_def)
qed

lemma upper_char_idem [simp]: "upper_char (upper_char a) = upper_char a"
  by (auto simp: upper_char_def Let_def)

lemma pct_one_cases:
  assumes "hex_value a = Some x" "hex_value b = Some y"
  shows "pct_one a b = Some (if unreserved (char_of (16 * x + y)) then [char_of (16 * x + y)]
    else [CHR ''%'', upper_char a, upper_char b])"
  using assms by (simp add: pct_one_def Let_def)

lemma unreserved_not_percent: "unreserved c \<Longrightarrow> c \<noteq> CHR ''%''"
  by (auto simp: unreserved_def is_alpha_def is_digit_def)

lemma normalise_pct_props:
  "escapes_ok s \<Longrightarrow>
   unquote (normalise_pct s) = unquote s \<and> escapes_ok (normalise_pct s) \<and>
   normalise_pct (normalise_pct s) = normalise_pct s"
proof (induction s rule: escapes_ok.induct)
  case (1 c a b s)
  show ?case
  proof (cases "c = CHR ''%''")
    case True
    with 1 obtain x y where xy: "hex_value a = Some x" "hex_value b = Some y" by auto
    let ?ch = "char_of (16 * x + y) :: char"
    show ?thesis
    proof (cases "unreserved ?ch")
      case True
      with \<open>c = _\<close> xy 1 unreserved_not_percent [OF True] show ?thesis
        by (simp add: pct_one_cases plain_step)
    next
      case False
      with \<open>c = _\<close> xy 1 show ?thesis
        by (simp add: pct_one_cases)
    qed
  next
    case False
    with 1 show ?thesis by (simp add: plain_step)
  qed
qed (auto simp: plain_step)

text \<open>
  Normalising percent-encoding keeps what the string stands for and is done in one pass:
  when every percent sign starts an escape, the normal form decodes to the same bytes and is its
  own normal form.  A stray percent sign breaks both: the escapes after it can combine with it
  into a new escape.
\<close>

theorem normalise_pct_preserves_meaning:
  "(escapes_ok s \<longrightarrow>
      unquote (normalise_pct s) = unquote s \<and> normalise_pct (normalise_pct s) = normalise_pct s) \<and>
   normalise_pct ''%%34%31'' = ''%41'' \<and> normalise_pct ''%41'' = ''A''"
proof (intro conjI impI)
  show "escapes_ok s \<Longrightarrow> unquote (normalise_pct s) = unquote s"
    "escapes_ok s \<Longrightarrow> normalise_pct (normalise_pct s) = normalise_pct s"
    by (simp_all add: normalise_pct_props)
  show "normalise_pct ''%%34%31'' = ''%41''" "normalise_pct ''%41'' = ''A''"
    by code_simp+
qed

theorem normalise_pct_preserves_meaning_witness:
  "unquote (normalise_pct ''/%7euser/a%2fb'') = unquote ''/%7euser/a%2fb''"
proof -
  have "escapes_ok ''/%7euser/a%2fb''" by code_simp
  with normalise_pct_preserves_meaning show ?thesis by blast
qed

end
