(* ===== verification/Search_Store.thy ===== *)
theory Search_Store
  imports Outbox Urlhash Provider_Store "HOL-Library.Product_Lexorder"
begin

text \<open>
  The search store of \<^verbatim>\<open>src/imageshield/search/store.py\<close> (\<^verbatim>\<open>PostgresSearchStore\<close>), the
  feedback policy of \<^verbatim>\<open>search/feedback.py\<close> and the row models of \<^verbatim>\<open>search/models.py\<close>.
  Every operation is one transaction on the tables of theory \<open>Database\<close>.
\<close>

section \<open>Feedback policy\<close>

definition status_for :: "string \<Rightarrow> exn + hit_status option" where
  "status_for signal =
     (if signal = ''not_me'' then Inr (Some Dismissed_not_me)
      else if signal = ''confirmed'' then Inr (Some Acknowledged)
      else if signal = ''uncertain'' then Inr None
      else if signal = ''authorised'' then Inr (Some Authorised)
      else if signal = ''resolved'' then Inr (Some User_resolved)
      else Inl (KeyError signal))"

section \<open>Fan-out\<close>

record infringement_key =
  ik_url_hash :: url_hash
  ik_key_url :: string
  ik_keyed_on :: keyed_on
  ik_match :: provider_match

definition targets_of :: "provider_match \<Rightarrow> (string \<times> keyed_on) list" where
  "targets_of m =
     (if pm_page_urls m \<noteq> [] then map (\<lambda>page. (page, Page_url)) (pm_page_urls m)
      else [(pm_image_url m, Image_url)])"

definition add_key :: "infringement_key \<Rightarrow> infringement_key list \<Rightarrow> infringement_key list" where
  "add_key k seen = (if ik_url_hash k \<in> ik_url_hash ` set seen then seen else seen @ [k])"

definition match_keys :: "host_lib \<Rightarrow> provider_match \<Rightarrow> infringement_key list" where
  "match_keys lib m =
     map (\<lambda>(key_url, keyed). \<lparr>ik_url_hash = url_hash lib key_url, ik_key_url = key_url,
            ik_keyed_on = keyed, ik_match = m\<rparr>) (targets_of m)"

definition fan_out :: "host_lib \<Rightarrow> provider_match list \<Rightarrow> infringement_key list" where
  "fan_out lib matches = fold add_key (concat (map (match_keys lib) matches)) []"

section \<open>Seeds and runs\<close>

definition create_seed ::
  "user_ref \<Rightarrow> string \<Rightarrow> string \<Rightarrow> 'a db_scheme \<Rightarrow> exn + uuid \<times> 'a db_scheme" where
  "create_seed user kind object_ref d =
     (if user \<notin> sj_user_ref ` set (subjects d) then Inl UnknownSubject
      else Inr (db_fresh d,
        d\<lparr>search_seeds := search_seeds d @
            [\<lparr>seed_id = db_fresh d, seed_user_ref = user, seed_kind = kind,
              source_object_ref = object_ref, seed_status = ''active'',
              seed_created_at = db_now d, scan_tier = New, next_scan_after = None,
              tier_next_scan_after = None, consecutive_empty_scans = 0,
              attributed_face_id = None\<rparr>],
          db_fresh := Suc (db_fresh d)\<rparr>))"

definition get_seed :: "uuid \<Rightarrow> 'a db_scheme \<Rightarrow> seed_row option" where
  "get_seed sid d = sql_first (\<lambda>s. seed_id s = sid) (search_seeds d)"

definition RUN_REQUESTED_EVENT :: string where
  "RUN_REQUESTED_EVENT = ''search.run_requested''"

definition create_run ::
  "user_ref \<Rightarrow> uuid \<Rightarrow> provider_id list \<Rightarrow> string \<Rightarrow> 'a db_scheme \<Rightarrow> exn + uuid \<times> 'a db_scheme" where
  "create_run user sid attempted seed_url d =
     (if sid \<notin> seed_id ` set (search_seeds d)
      then Inl (ForeignKeyViolation ''search_runs_seed_id_fkey'')
      else
        let rid = db_fresh d;
            d1 = d\<lparr>search_runs := search_runs d @
                [\<lparr>run_id = rid, run_seed_id = sid, run_user_ref = user, run_status = Queued,
                  providers_attempted = attempted, providers_succeeded = [], matches_found = 0,
                  threshold_config = JObj [(''band'', JStr ''review''),
                                           (''reason'', JStr ''uncalibrated_v1'')],
                  run_seed_url = seed_url, started_at = db_now d, claimed_at = None,
                  completed_at = None\<rparr>],
              db_fresh := Suc rid\<rparr>
        in (case enqueue QUEUE_SEARCH_RUNS \<lparr>event = RUN_REQUESTED_EVENT, payload_id = rid\<rparr> d1 of
              Inl e \<Rightarrow> Inl e
            | Inr (_, d2) \<Rightarrow> Inr (rid, d2)))"

definition get_run :: "uuid \<Rightarrow> 'a db_scheme \<Rightarrow> (run_row \<times> scan_tier \<times> instant option) option" where
  "get_run rid d =
     (case sql_first (\<lambda>r. run_id r = rid) (search_runs d) of
        None \<Rightarrow> None
      | Some r \<Rightarrow>
          map_option (\<lambda>s. (r, scan_tier s, next_scan_after s)) (get_seed (run_seed_id r) d))"

record claimed_run =
  cl_run_id :: uuid
  cl_seed_id :: uuid
  cl_user_ref :: user_ref
  cl_seed_url :: string
  cl_providers_attempted :: "provider_id list"
  cl_discovery_eligible :: bool

definition STALE_CLAIM_US :: int where
  "STALE_CLAIM_US = 15 * 60 * second_us"

definition run_claimable :: "instant \<Rightarrow> run_row \<Rightarrow> bool" where
  "run_claimable now r \<longleftrightarrow>
     run_status r = Queued \<or>
     (run_status r = Running \<and>
      (case claimed_at r of None \<Rightarrow> False | Some t \<Rightarrow> t < now - STALE_CLAIM_US))"

text \<open>A subject row deleted meanwhile reads as ineligible.\<close>

definition subject_eligible :: "user_ref \<Rightarrow> 'a db_scheme \<Rightarrow> bool" where
  "subject_eligible user d =
     (case sql_first (\<lambda>s. sj_user_ref s = user) (subjects d) of
        None \<Rightarrow> False
      | Some s \<Rightarrow> sj_discovery_eligible s)"

definition claim_run :: "uuid \<Rightarrow> 'a db_scheme \<Rightarrow> claimed_run option \<times> 'a db_scheme" where
  "claim_run rid d =
     (case sql_first (\<lambda>r. run_id r = rid \<and> run_claimable (db_now d) r) (search_runs d) of
        None \<Rightarrow> (None, d)
      | Some r \<Rightarrow>
          (case get_seed (run_seed_id r) d of
             None \<Rightarrow> (None, d)
           | Some s \<Rightarrow>
               (Some \<lparr>cl_run_id = run_id r, cl_seed_id = run_seed_id r,
                      cl_user_ref = run_user_ref r, cl_seed_url = run_seed_url r,
                      cl_providers_attempted = providers_attempted r,
                      cl_discovery_eligible = subject_eligible (seed_user_ref s) d\<rparr>,
                d\<lparr>search_runs :=
                    sql_update (\<lambda>r. run_id r = rid \<and> run_claimable (db_now d) r)
                      (\<lambda>r. r\<lparr>run_status := Running, claimed_at := Some (db_now d)\<rparr>)
                      (search_runs d)\<rparr>)))"

definition enabled_provider_ids :: "'a db_scheme \<Rightarrow> provider_id list" where
  "enabled_provider_ids d =
     sort (map pr_provider_id
       (filter (\<lambda>r. pr_enabled r \<and> pr_kind r \<in> {''image_search'', ''face_search''}) (providers d)))"

definition DISCOVERY_REFUSED_ACTION :: string where
  "DISCOVERY_REFUSED_ACTION = ''discovery.refused''"

definition refuse_run :: "uuid \<Rightarrow> user_ref \<Rightarrow> string \<Rightarrow> 'a db_scheme \<Rightarrow> 'a db_scheme" where
  "refuse_run rid user reason d =
     insert_audit
       (audit_entry ''service'' DISCOVERY_REFUSED_ACTION (Some user) (Some rid)
         (JObj [(''outcome'', JStr ''discovery_not_available''), (''refused_at'', JStr ''dispatch''),
                (''reason'', JStr reason)]) d)
       (d\<lparr>search_runs := sql_update (\<lambda>r. run_id r = rid)
            (\<lambda>r. r\<lparr>run_status := Refused, completed_at := Some (db_now d)\<rparr>) (search_runs d)\<rparr>)"

section \<open>Recording what a provider found\<close>

record provider_descriptor =
  desc_provider_id :: provider_id
  desc_score_kind :: score_kind
  desc_score_version :: string

text \<open>\<^verbatim>\<open>provider_score NUMERIC(6,4)\<close>: rounded half away from zero to four places.\<close>

definition round_half_away :: "rat \<Rightarrow> int" where
  "round_half_away x = (if 0 \<le> x then \<lfloor>x + 1 / 2\<rfloor> else - \<lfloor>- x + 1 / 2\<rfloor>)"

definition numeric_6_4 :: "decimal option \<Rightarrow> exn + decimal option" where
  "numeric_6_4 score =
     (case score of
        None \<Rightarrow> Inr None
      | Some Dec_nan \<Rightarrow> Inr (Some Dec_nan)
      | Some (Dec_infinity _) \<Rightarrow> Inl NumericValueOutOfRange
      | Some (Dec x) \<Rightarrow>
          let n = round_half_away (x * 10000) in
          if 1000000 \<le> \<bar>n\<bar> then Inl NumericValueOutOfRange
          else Inr (Some (Dec (of_int n / 10000))))"

text \<open>A value stored in a \<^verbatim>\<open>NUMERIC(5,2)\<close> column.\<close>

definition numeric_5_2 :: "rat option \<Rightarrow> exn + rat option" where
  "numeric_5_2 score =
     (case score of
        None \<Rightarrow> Inr None
      | Some x \<Rightarrow>
          let n = round_half_away (x * 100) in
          if 100000 \<le> \<bar>n\<bar> then Inl NumericValueOutOfRange else Inr (Some (of_int n / 100)))"

definition upsert_url :: "host_lib \<Rightarrow> infringement_key \<Rightarrow> 'a db_scheme \<Rightarrow> 'a db_scheme" where
  "upsert_url lib k d =
     d\<lparr>content_urls :=
        sql_upsert (\<lambda>c. cu_url_hash c = ik_url_hash k) (\<lambda>c. c\<lparr>cu_last_seen_at := db_now d\<rparr>)
          \<lparr>cu_url_hash = ik_url_hash k, cu_url = ik_key_url k,
           cu_source_domain = source_domain lib (ik_key_url k),
           cu_canonical_url = canonicalise lib (ik_key_url k),
           cu_normalisation_version = ''v1'',
           cu_first_seen_at = db_now d, cu_last_seen_at = db_now d\<rparr>
          (content_urls d)\<rparr>"

definition new_infringement ::
  "user_ref \<Rightarrow> infringement_key \<Rightarrow> uuid \<Rightarrow> instant \<Rightarrow> infringement" where
  "new_infringement user k iid now =
     \<lparr>infringement_id = iid, inf_user_ref = user, inf_url_hash = ik_url_hash k,
      page_url = ik_key_url k, image_url = Some (pm_image_url (ik_match k)),
      keyed_on = ik_keyed_on k, first_seen_at = now, last_seen_at = now, seen_count = 1,
      url_alive = True, last_checked_at = None, last_attempted_at = None, inf_band = ''review'',
      band_reason = None, inf_status = Status_new, confirm_state = Unconfirmed,
      inf_severity = None, confirm_decided_by = None, confirm_decided_at = None,
      duplicate_of = None, phash = None, face_match_score = None, moderation_labels = None,
      preview_image_url = None\<rparr>"

definition seen_again :: "instant \<Rightarrow> infringement \<Rightarrow> infringement" where
  "seen_again now i = i\<lparr>last_seen_at := now, seen_count := Suc (seen_count i)\<rparr>"

definition inf_key :: "infringement \<Rightarrow> user_ref \<times> url_hash" where
  "inf_key i = (inf_user_ref i, inf_url_hash i)"

text \<open>The upsert of the hit and the id it returns.\<close>

definition upsert_infringement ::
  "user_ref \<Rightarrow> infringement_key \<Rightarrow> 'a db_scheme \<Rightarrow> uuid \<times> 'a db_scheme" where
  "upsert_infringement user k d =
     (let row = new_infringement user k (db_fresh d) (db_now d);
          d' = d\<lparr>infringements := sql_upsert (\<lambda>i. inf_key i = inf_key row) (seen_again (db_now d)) row
                     (infringements d),
                 db_fresh := Suc (db_fresh d)\<rparr>
      in case sql_first (\<lambda>i. inf_key i = inf_key row) (infringements d) of
           Some i \<Rightarrow> (infringement_id i, d')
         | None \<Rightarrow> (db_fresh d, d'))"

definition at_key :: "attestation \<Rightarrow> uuid \<times> provider_id" where
  "at_key a = (at_infringement_id a, at_provider_id a)"

definition new_attestation ::
  "uuid \<Rightarrow> provider_descriptor \<Rightarrow> provider_match \<Rightarrow> decimal option \<Rightarrow> uuid \<Rightarrow> band_decision \<Rightarrow> instant
     \<Rightarrow> attestation" where
  "new_attestation iid provider m score rid decision now =
     \<lparr>at_infringement_id = iid, at_provider_id = desc_provider_id provider,
      at_score_kind = desc_score_kind provider, at_provider_score = score,
      at_provider_category = pm_provider_category m, at_query_quality = pm_query_quality m,
      at_score_version = desc_score_version provider, first_confirmed_at = now,
      last_confirmed_at = now, confirm_count = 1, last_run_id = Some rid,
      at_band = band_text (bd_band decision),
      at_calibration_version = bd_calibration_version decision\<rparr>"

text \<open>\<^verbatim>\<open>ON CONFLICT DO UPDATE\<close>: everything but the key, the kind and the first sighting.\<close>

definition reattest :: "attestation \<Rightarrow> attestation \<Rightarrow> attestation" where
  "reattest new a =
     a\<lparr>last_confirmed_at := last_confirmed_at new, confirm_count := Suc (confirm_count a),
       at_provider_score := at_provider_score new, at_provider_category := at_provider_category new,
       at_query_quality := at_query_quality new, at_score_version := at_score_version new,
       last_run_id := last_run_id new, at_band := at_band new,
       at_calibration_version := at_calibration_version new\<rparr>"

definition upsert_attestation :: "attestation \<Rightarrow> 'a db_scheme \<Rightarrow> exn + 'a db_scheme" where
  "upsert_attestation a d =
     (let t = sql_upsert (\<lambda>b. at_key b = at_key a) (reattest a) a (attestations d) in
      if \<not> attestation_score_shape a \<or> \<not> list_all attestation_score_shape t
      then Inl (CheckViolation ''attestation_score_shape'')
      else if runtime_of (at_provider_id a) d = None
      then Inl (ForeignKeyViolation ''attestations_provider_id_fkey'')
      else if (case last_run_id a of None \<Rightarrow> False | Some r \<Rightarrow> r \<notin> run_id ` set (search_runs d))
      then Inl (ForeignKeyViolation ''attestations_last_run_id_fkey'')
      else Inr (d\<lparr>attestations := t\<rparr>))"

definition bands_of :: "uuid \<Rightarrow> 'a db_scheme \<Rightarrow> string list" where
  "bands_of iid d = map at_band (filter (\<lambda>a. at_infringement_id a = iid) (attestations d))"

definition set_band :: "uuid \<Rightarrow> band \<times> string \<Rightarrow> 'a db_scheme \<Rightarrow> 'a db_scheme" where
  "set_band iid rolled d =
     d\<lparr>infringements := sql_update (\<lambda>i. infringement_id i = iid)
        (\<lambda>i. i\<lparr>inf_band := band_text (fst rolled), band_reason := Some (snd rolled)\<rparr>)
        (infringements d)\<rparr>"

definition record_key ::
  "host_lib \<Rightarrow> uuid \<Rightarrow> user_ref \<Rightarrow> provider_descriptor \<Rightarrow> banding_policy \<Rightarrow> infringement_key
     \<Rightarrow> 'a db_scheme \<Rightarrow> exn + 'a db_scheme" where
  "record_key lib rid user provider policy k d =
     (let (iid, d1) = upsert_infringement user k (upsert_url lib k d);
          decision = band_for_attestation (policy (desc_provider_id provider))
                       (desc_score_kind provider) (pm_provider_score (ik_match k))
                       (pm_provider_category (ik_match k))
      in case numeric_6_4 (pm_provider_score (ik_match k)) of
           Inl e \<Rightarrow> Inl e
         | Inr score \<Rightarrow>
             (case upsert_attestation
                     (new_attestation iid provider (ik_match k) score rid decision (db_now d)) d1 of
                Inl e \<Rightarrow> Inl e
              | Inr d2 \<Rightarrow> Inr (set_band iid (roll_up (bands_of iid d2)) d2)))"

fun record_keys ::
  "host_lib \<Rightarrow> uuid \<Rightarrow> user_ref \<Rightarrow> provider_descriptor \<Rightarrow> banding_policy \<Rightarrow> infringement_key list
     \<Rightarrow> 'a db_scheme \<Rightarrow> exn + 'a db_scheme" where
  "record_keys lib rid user provider policy [] d = Inr d"
| "record_keys lib rid user provider policy (k # ks) d =
     (case record_key lib rid user provider policy k d of
        Inl e \<Rightarrow> Inl e
      | Inr d' \<Rightarrow> record_keys lib rid user provider policy ks d')"

definition record_infringements ::
  "host_lib \<Rightarrow> uuid \<Rightarrow> user_ref \<Rightarrow> provider_descriptor \<Rightarrow> provider_match list \<Rightarrow> banding_policy
     \<Rightarrow> 'a db_scheme \<Rightarrow> exn + nat \<times> 'a db_scheme" where
  "record_infringements lib rid user provider matches policy d =
     (let keys = fan_out lib matches in
      case record_keys lib rid user provider policy keys d of
        Inl e \<Rightarrow> Inl e
      | Inr d' \<Rightarrow> Inr (length keys, d'))"

section \<open>Completing a run\<close>

definition CONFIRM_REQUESTED_EVENT :: string where
  "CONFIRM_REQUESTED_EVENT = ''confirm.hit_requested''"

text \<open>
  \<^verbatim>\<open>SELECT DISTINCT\<close> over the join: the hits this run attested that nothing has triaged yet,
  each once.
\<close>

definition hits_to_confirm :: "uuid \<Rightarrow> 'a db_scheme \<Rightarrow> uuid list" where
  "hits_to_confirm rid d =
     map infringement_id
       (filter (\<lambda>i. confirm_state i = Unconfirmed \<and>
            list_ex (\<lambda>a. at_infringement_id a = infringement_id i \<and> last_run_id a = Some rid)
              (attestations d))
          (infringements d))"

definition enqueue_confirm_hits :: "uuid \<Rightarrow> 'a db_scheme \<Rightarrow> 'a db_scheme" where
  "enqueue_confirm_hits rid d =
     insert_all QUEUE_CONFIRM_HITS
       (map (\<lambda>iid. \<lparr>event = CONFIRM_REQUESTED_EVENT, payload_id = iid\<rparr>) (hits_to_confirm rid d)) d"

definition mark_completed :: "uuid \<Rightarrow> provider_id list \<Rightarrow> 'a db_scheme \<Rightarrow> 'a db_scheme" where
  "mark_completed rid succeeded d =
     d\<lparr>search_runs := sql_update (\<lambda>r. run_id r = rid)
        (\<lambda>r. r\<lparr>run_status := Completed, providers_succeeded := succeeded,
               matches_found := length (filter (\<lambda>a. last_run_id a = Some rid) (attestations d)),
               completed_at := Some (db_now d)\<rparr>)
        (search_runs d)\<rparr>"

definition update_cadence :: "uuid \<Rightarrow> cadence_update \<Rightarrow> 'a db_scheme \<Rightarrow> 'a db_scheme" where
  "update_cadence sid u d =
     d\<lparr>search_seeds := sql_update (\<lambda>s. seed_id s = sid)
        (\<lambda>s. s\<lparr>scan_tier := cu_scan_tier u, consecutive_empty_scans := cu_consecutive_empty_scans u,
               next_scan_after := Some (dt_instant (cu_next_scan_after u)),
               tier_next_scan_after := Some (dt_instant (cu_tier_next_scan_after u))\<rparr>)
        (search_seeds d)\<rparr>"

definition cadence_for :: "cadence_input option \<Rightarrow> uuid \<Rightarrow> 'a db_scheme \<Rightarrow> exn + cadence_update option" where
  "cadence_for retier sid d =
     (case retier of
        None \<Rightarrow> Inr None
      | Some inp \<Rightarrow>
          (case get_seed sid d of
             None \<Rightarrow> Inr None
           | Some seed \<Rightarrow>
               if utc_offset (ci_now inp) = None
               then Inl (TypeError ''can't subtract offset-naive and offset-aware datetimes'')
               else (case update_for (scan_tier seed) (consecutive_empty_scans seed)
                            (ci_found_matches inp)
                            ((dt_instant (ci_now inp) - seed_created_at seed) div day_us)
                            (ci_now inp) (ci_policy inp) of
                       Inl e \<Rightarrow> Inl e
                     | Inr u \<Rightarrow> Inr (Some u))))"

definition complete_run ::
  "uuid \<Rightarrow> uuid \<Rightarrow> provider_id list \<Rightarrow> cadence_input option \<Rightarrow> bool \<Rightarrow> 'a db_scheme
     \<Rightarrow> exn + cadence_update option \<times> 'a db_scheme" where
  "complete_run rid sid succeeded retier enqueue_confirm d =
     (case cadence_for retier sid d of
        Inl e \<Rightarrow> Inl e
      | Inr update \<Rightarrow>
          let d1 = mark_completed rid succeeded d;
              d2 = (case update of None \<Rightarrow> d1 | Some u \<Rightarrow> update_cadence sid u d1);
              d3 = (if enqueue_confirm then enqueue_confirm_hits rid d2 else d2)
          in Inr (update, d3))"

section \<open>Listing\<close>

record infringement_row =
  ir_infringement_id :: uuid
  ir_page_url :: string
  ir_image_url :: "string option"
  ir_keyed_on :: keyed_on
  ir_first_seen_at :: instant
  ir_last_seen_at :: instant
  ir_seen_count :: nat
  ir_band :: string
  ir_status :: hit_status
  ir_band_reason :: "string option"
  ir_url_alive :: bool
  ir_last_checked_at :: "instant option"
  ir_attestations :: "attestation list"

definition head_row :: "infringement \<Rightarrow> attestation list \<Rightarrow> infringement_row" where
  "head_row i as =
     \<lparr>ir_infringement_id = infringement_id i, ir_page_url = page_url i, ir_image_url = image_url i,
      ir_keyed_on = keyed_on i, ir_first_seen_at = first_seen_at i, ir_last_seen_at = last_seen_at i,
      ir_seen_count = seen_count i, ir_band = inf_band i, ir_status = inf_status i,
      ir_band_reason = band_reason i, ir_url_alive = url_alive i,
      ir_last_checked_at = last_checked_at i, ir_attestations = as\<rparr>"

text \<open>One joined row: the first sight of an infringement opens a group, the rest extend it.\<close>

definition group_row ::
  "infringement \<times> attestation \<Rightarrow> infringement_row list \<Rightarrow> infringement_row list" where
  "group_row p groups =
     (let (i, a) = p in
      if infringement_id i \<in> ir_infringement_id ` set groups
      then map (\<lambda>g. if ir_infringement_id g = infringement_id i
                    then g\<lparr>ir_attestations := ir_attestations g @ [a]\<rparr> else g) groups
      else groups @ [head_row i [a]])"

definition group_infringements :: "(infringement \<times> attestation) list \<Rightarrow> infringement_row list" where
  "group_infringements rows = fold group_row rows []"

definition list_rows ::
  "user_ref \<Rightarrow> instant option \<Rightarrow> 'a db_scheme \<Rightarrow> (infringement \<times> attestation) list" where
  "list_rows user since d =
     sort_key (\<lambda>(i, a). (- last_seen_at i, infringement_id i, at_provider_id a))
       (concat (map (\<lambda>i. map (\<lambda>a. (i, a))
            (filter (\<lambda>a. at_infringement_id a = infringement_id i) (attestations d)))
          (filter (\<lambda>i. inf_user_ref i = user \<and>
             (case since of None \<Rightarrow> True | Some t \<Rightarrow> t \<le> last_seen_at i)) (infringements d))))"

definition list_infringements ::
  "user_ref \<Rightarrow> instant option \<Rightarrow> 'a db_scheme \<Rightarrow> infringement_row list" where
  "list_infringements user since d = group_infringements (list_rows user since d)"

section \<open>Feedback\<close>

definition owned_by :: "uuid \<Rightarrow> user_ref \<Rightarrow> infringement \<Rightarrow> bool" where
  "owned_by iid user i \<longleftrightarrow> infringement_id i = iid \<and> inf_user_ref i = user"

definition record_feedback ::
  "uuid \<Rightarrow> user_ref \<Rightarrow> string \<Rightarrow> 'a db_scheme \<Rightarrow> exn + hit_status option \<times> 'a db_scheme" where
  "record_feedback iid user signal d =
     (case status_for signal of
        Inl e \<Rightarrow> Inl e
      | Inr status \<Rightarrow>
          (case sql_first (owned_by iid user) (infringements d) of
             None \<Rightarrow> Inr (None, d)
           | Some i \<Rightarrow>
               let d1 = d\<lparr>infringement_feedback := infringement_feedback d @
                     [\<lparr>fb_infringement_id = iid, fb_user_ref = user, fb_signal = signal,
                       fb_created_at = db_now d\<rparr>]\<rparr>
               in (case status of
                     None \<Rightarrow> Inr (Some (inf_status i), d1)
                   | Some st \<Rightarrow>
                       Inr (Some st,
                         d1\<lparr>infringements := sql_update (owned_by iid user)
                              (\<lambda>i. i\<lparr>inf_status := st\<rparr>) (infringements d1)\<rparr>))))"

section \<open>Fan-out: one key per page\<close>

lemma fold_add_key_distinct:
  "distinct (map ik_url_hash seen) \<Longrightarrow> distinct (map ik_url_hash (fold add_key ks seen))"
  by (induction ks arbitrary: seen) (auto simp: add_key_def)

lemma fold_add_key_hashes:
  "ik_url_hash ` set (fold add_key ks seen) = ik_url_hash ` set seen \<union> ik_url_hash ` set ks"
  by (induction ks arbitrary: seen) (auto simp: add_key_def)

lemma fold_add_key_first:
  "k \<in> set (fold add_key ks []) \<Longrightarrow>
   \<exists>us vs. ks = us @ k # vs \<and> ik_url_hash k \<notin> ik_url_hash ` set us"
proof (induction ks rule: rev_induct)
  case (snoc x ks)
  show ?case
  proof (cases "k \<in> set (fold add_key ks [])")
    case True
    with snoc.IH obtain us vs where "ks = us @ k # vs" "ik_url_hash k \<notin> ik_url_hash ` set us" by blast
    then show ?thesis by (intro exI [of _ us] exI [of _ "vs @ [x]"]) simp
  next
    case False
    with snoc.prems have "k = x" "ik_url_hash k \<notin> ik_url_hash ` set (fold add_key ks [])"
      by (auto simp: add_key_def [of x "fold add_key ks []"] split: if_splits)
    then show ?thesis using fold_add_key_hashes [of ks "[]"]
      by (intro exI [of _ ks] exI [of _ "[]"]) simp
  qed
qed simp

lemma distinct_fan_out: "distinct (map ik_url_hash (fan_out lib matches))"
  using fold_add_key_distinct [of "[]"] by (simp add: fan_out_def)

text \<open>
  One key per page: the keys of a batch have distinct hashes, exactly the hashes of all the
  pages the batch reports (of the image where a match reports no page), and each key is the first
  target of its hash in the provider's order.
\<close>

theorem fan_out_one_key_per_page:
  "distinct (map ik_url_hash (fan_out lib matches)) \<and>
   ik_url_hash ` set (fan_out lib matches) =
     (\<Union>m\<in>set matches. url_hash lib ` fst ` set (targets_of m)) \<and>
   set (fan_out lib matches) \<subseteq>
     {k. ik_url_hash k = url_hash lib (ik_key_url k) \<and>
         (\<exists>us vs. concat (map (match_keys lib) matches) = us @ k # vs \<and>
            ik_url_hash k \<notin> ik_url_hash ` set us)}"
proof (intro conjI)
  show "distinct (map ik_url_hash (fan_out lib matches))" by (rule distinct_fan_out)
  show "ik_url_hash ` set (fan_out lib matches) =
     (\<Union>m\<in>set matches. url_hash lib ` fst ` set (targets_of m))"
    unfolding fan_out_def fold_add_key_hashes
    by (force simp: match_keys_def image_iff)
  show "set (fan_out lib matches) \<subseteq>
     {k. ik_url_hash k = url_hash lib (ik_key_url k) \<and>
         (\<exists>us vs. concat (map (match_keys lib) matches) = us @ k # vs \<and>
            ik_url_hash k \<notin> ik_url_hash ` set us)}"
  proof
    fix k assume "k \<in> set (fan_out lib matches)"
    then obtain us vs where first: "concat (map (match_keys lib) matches) = us @ k # vs"
      "ik_url_hash k \<notin> ik_url_hash ` set us"
      using fold_add_key_first by (fastforce simp: fan_out_def)
    have "k \<in> set (concat (map (match_keys lib) matches))" by (simp add: first)
    then have "ik_url_hash k = url_hash lib (ik_key_url k)"
      by (auto simp: match_keys_def)
    with first show "k \<in> {k. ik_url_hash k = url_hash lib (ik_key_url k) \<and>
         (\<exists>us vs. concat (map (match_keys lib) matches) = us @ k # vs \<and>
            ik_url_hash k \<notin> ik_url_hash ` set us)}" by blast
  qed
qed

section \<open>The hit tables\<close>

interpretation hit_table: upsert_table inf_key
  "\<lambda>(user, k, iid, now). seen_again now" "\<lambda>(user, k, iid, now). new_infringement user k iid now"
  by unfold_locales (auto simp: inf_key_def seen_again_def)

interpretation attestation_table: upsert_table at_key reattest "\<lambda>a. a"
  by unfold_locales (simp add: at_key_def reattest_def)

interpretation url_table: upsert_table cu_url_hash "\<lambda>(row, now) c. c\<lparr>cu_last_seen_at := now\<rparr>" fst
  by unfold_locales (simp add: case_prod_beta)

text \<open>
  What the tables promise: one hit per user and page, one attestation per hit and provider, ids
  that are really fresh, and a stored band that is the roll-up of the attestations behind it.
\<close>

definition rolled_up :: "'a db_scheme \<Rightarrow> infringement \<Rightarrow> bool" where
  "rolled_up d i \<longleftrightarrow>
     bands_of (infringement_id i) d \<noteq> [] \<and>
     inf_band i = band_text (fst (roll_up (bands_of (infringement_id i) d))) \<and>
     band_reason i = Some (snd (roll_up (bands_of (infringement_id i) d)))"

definition hits_ok :: "'a db_scheme \<Rightarrow> bool" where
  "hits_ok d \<longleftrightarrow>
     distinct (map inf_key (infringements d)) \<and>
     distinct (map infringement_id (infringements d)) \<and>
     distinct (map at_key (attestations d)) \<and>
     (\<forall>i\<in>set (infringements d). infringement_id i < db_fresh d) \<and>
     (\<forall>i\<in>set (infringements d). rolled_up d i)"

text \<open>What recording leaves alone in an existing hit: everything a person or a later stage decided.\<close>

definition same_decision :: "infringement \<Rightarrow> infringement \<Rightarrow> bool" where
  "same_decision i j \<longleftrightarrow>
     infringement_id j = infringement_id i \<and> inf_key j = inf_key i \<and>
     first_seen_at j = first_seen_at i \<and> inf_status j = inf_status i \<and>
     confirm_state j = confirm_state i \<and> inf_severity j = inf_severity i \<and>
     confirm_decided_by j = confirm_decided_by i \<and> url_alive j = url_alive i \<and>
     duplicate_of j = duplicate_of i \<and> phash j = phash i \<and> seen_count i \<le> seen_count j"

lemma same_decision_trans: "same_decision i j \<Longrightarrow> same_decision j k \<Longrightarrow> same_decision i k"
  by (auto simp: same_decision_def)

lemma same_decision_refl [simp]: "same_decision i i"
  by (simp add: same_decision_def)

lemma record_key_Inr:
  assumes "record_key lib rid user provider policy k d = Inr d'"
  obtains iid score where
    "iid = (case sql_first (\<lambda>i. inf_key i = (user, ik_url_hash k)) (infringements d) of
              Some i \<Rightarrow> infringement_id i | None \<Rightarrow> db_fresh d)"
    "attestations d' =
      (let a = new_attestation iid provider (ik_match k) score rid
                 (band_for_attestation (policy (desc_provider_id provider)) (desc_score_kind provider)
                   (pm_provider_score (ik_match k)) (pm_provider_category (ik_match k))) (db_now d)
       in sql_upsert (\<lambda>b. at_key b = at_key a) (reattest a) a (attestations d))"
    "infringements d' = sql_update (\<lambda>i. infringement_id i = iid)
        (\<lambda>i. i\<lparr>inf_band := band_text (fst (roll_up (bands_of iid d'))),
               band_reason := Some (snd (roll_up (bands_of iid d')))\<rparr>)
        (sql_upsert (\<lambda>i. inf_key i = (user, ik_url_hash k)) (seen_again (db_now d))
          (new_infringement user k (db_fresh d) (db_now d)) (infringements d))"
    "db_fresh d' = Suc (db_fresh d)" "content_urls d' = content_urls (upsert_url lib k d)"
    "db_now d' = db_now d"
proof -
  define d0 where "d0 = upsert_url lib k d"
  obtain iid d1 where u: "upsert_infringement user k d0 = (iid, d1)" by fastforce
  have key: "inf_key (new_infringement user k f n) = (user, ik_url_hash k)" for f n
    by (simp add: inf_key_def new_infringement_def)
  have d0: "infringements d0 = infringements d" "attestations d0 = attestations d"
    "db_fresh d0 = db_fresh d" "db_now d0 = db_now d"
    by (simp_all add: d0_def upsert_url_def)
  have d1: "d1 = d0\<lparr>infringements := sql_upsert (\<lambda>i. inf_key i = (user, ik_url_hash k)) (seen_again (db_now d))
          (new_infringement user k (db_fresh d) (db_now d)) (infringements d), db_fresh := Suc (db_fresh d)\<rparr>"
    and iid: "iid = (case sql_first (\<lambda>i. inf_key i = (user, ik_url_hash k)) (infringements d) of
              Some i \<Rightarrow> infringement_id i | None \<Rightarrow> db_fresh d)"
    using u by (auto simp: upsert_infringement_def Let_def key d0 split: option.splits)
  let ?dec = "band_for_attestation (policy (desc_provider_id provider)) (desc_score_kind provider)
                (pm_provider_score (ik_match k)) (pm_provider_category (ik_match k))"
  from assms u obtain score d2 where score: "numeric_6_4 (pm_provider_score (ik_match k)) = Inr score"
    and up: "upsert_attestation (new_attestation iid provider (ik_match k) score rid ?dec (db_now d)) d1 = Inr d2"
    and d': "d' = set_band iid (roll_up (bands_of iid d2)) d2"
    by (auto simp: record_key_def d0_def [symmetric] split: sum.splits)
  let ?a = "new_attestation iid provider (ik_match k) score rid ?dec (db_now d)"
  have d2: "d2 = d1\<lparr>attestations := sql_upsert (\<lambda>b. at_key b = at_key ?a) (reattest ?a) ?a (attestations d1)\<rparr>"
    using up by (auto simp: upsert_attestation_def Let_def split: if_splits)
  have bands: "bands_of iid d' = bands_of iid d2" by (simp add: d' set_band_def bands_of_def)
  show thesis
  proof (rule that [OF iid])
    show "attestations d' = (let a = new_attestation iid provider (ik_match k) score rid ?dec (db_now d)
       in sql_upsert (\<lambda>b. at_key b = at_key a) (reattest a) a (attestations d))"
      by (simp add: d' d2 set_band_def Let_def d1 d0)
    show "infringements d' = sql_update (\<lambda>i. infringement_id i = iid)
        (\<lambda>i. i\<lparr>inf_band := band_text (fst (roll_up (bands_of iid d'))),
               band_reason := Some (snd (roll_up (bands_of iid d')))\<rparr>)
        (sql_upsert (\<lambda>i. inf_key i = (user, ik_url_hash k)) (seen_again (db_now d))
          (new_infringement user k (db_fresh d) (db_now d)) (infringements d))"
      unfolding bands by (simp add: d' d2 set_band_def d1)
    show "db_fresh d' = Suc (db_fresh d)" "content_urls d' = content_urls (upsert_url lib k d)"
      "db_now d' = db_now d"
      by (simp_all add: d' d2 set_band_def d1 d0 flip: d0_def)
  qed
qed

lemma key_new_infringement [simp]: "inf_key (new_infringement user k f n) = (user, ik_url_hash k)"
  by (simp add: inf_key_def new_infringement_def)

lemma key_seen_again [simp]:
  "inf_key (seen_again now i) = inf_key i" "infringement_id (seen_again now i) = infringement_id i"
  by (simp_all add: inf_key_def seen_again_def)

definition hit_upsert :: "user_ref \<Rightarrow> infringement_key \<Rightarrow> uuid \<Rightarrow> instant \<Rightarrow> infringement list \<Rightarrow> infringement list" where
  "hit_upsert user k fresh now t =
     sql_upsert (\<lambda>i. inf_key i = (user, ik_url_hash k)) (seen_again now)
       (new_infringement user k fresh now) t"

definition hit_id :: "user_ref \<Rightarrow> infringement_key \<Rightarrow> uuid \<Rightarrow> infringement list \<Rightarrow> uuid" where
  "hit_id user k fresh t =
     (case sql_first (\<lambda>i. inf_key i = (user, ik_url_hash k)) t of
        Some i \<Rightarrow> infringement_id i | None \<Rightarrow> fresh)"

lemma hit_upsert_keys:
  "map inf_key (hit_upsert user k f n t) =
     (if (user, ik_url_hash k) \<in> inf_key ` set t then map inf_key t
      else map inf_key t @ [(user, ik_url_hash k)])"
  using hit_table.upsert_keys [of "(user, k, f, n)" t] by (simp add: hit_upsert_def)

lemma hit_upsert_if:
  "hit_upsert user k f n t =
     (if (user, ik_url_hash k) \<in> inf_key ` set t
      then sql_update (\<lambda>i. inf_key i = (user, ik_url_hash k)) (seen_again n) t
      else t @ [new_infringement user k f n])"
proof -
  have "list_ex (\<lambda>i. inf_key i = (user, ik_url_hash k)) t \<longleftrightarrow> (user, ik_url_hash k) \<in> inf_key ` set t"
    unfolding list_ex_iff image_iff by metis
  then show ?thesis by (simp add: hit_upsert_def sql_upsert_def)
qed

lemma hit_upsert_ids:
  "map infringement_id (hit_upsert user k f n t) =
     (if (user, ik_url_hash k) \<in> inf_key ` set t then map infringement_id t
      else map infringement_id t @ [f])"
  by (simp add: hit_upsert_if map_sql_update) (simp add: new_infringement_def)

lemma hit_id_present:
  assumes "(user, ik_url_hash k) \<in> inf_key ` set t"
  shows "\<exists>i\<in>set t. inf_key i = (user, ik_url_hash k) \<and> hit_id user k f t = infringement_id i"
proof -
  from assms have "sql_first (\<lambda>i. inf_key i = (user, ik_url_hash k)) t \<noteq> None"
    by (auto simp: sql_first_None_iff)
  then obtain i where "sql_first (\<lambda>i. inf_key i = (user, ik_url_hash k)) t = Some i" by blast
  with sql_first_SomeD [OF this] show ?thesis by (auto simp: hit_id_def)
qed

lemma hit_id_absent:
  "(user, ik_url_hash k) \<notin> inf_key ` set t \<Longrightarrow> hit_id user k f t = f"
proof -
  assume "(user, ik_url_hash k) \<notin> inf_key ` set t"
  then have "sql_first (\<lambda>i. inf_key i = (user, ik_url_hash k)) t = None"
    by (force simp: sql_first_None_iff)
  then show ?thesis by (simp add: hit_id_def)
qed

lemma hit_upsert_other:
  assumes "distinct (map inf_key t)" "j \<in> set (hit_upsert user k f n t)"
    "infringement_id j \<noteq> hit_id user k f t"
  shows "j \<in> set t"
proof (cases "(user, ik_url_hash k) \<in> inf_key ` set t")
  case True
  from hit_id_present [OF this] obtain i where i: "i \<in> set t" "inf_key i = (user, ik_url_hash k)"
    "hit_id user k f t = infringement_id i" by blast
  have only: "q = i" if "q \<in> set t" "inf_key q = (user, ik_url_hash k)" for q
    using assms(1) that i unfolding distinct_map inj_on_def by metis
  obtain q where "q \<in> set t" "j = (if inf_key q = (user, ik_url_hash k) then seen_again n q else q)"
    using assms(2) True by (auto simp: hit_upsert_if in_sql_update)
  then show ?thesis
    using assms(3) i(3) only [of q] by (cases "inf_key q = (user, ik_url_hash k)") auto
next
  case False
  with assms(2) consider "j \<in> set t" | "j = new_infringement user k f n"
    by (auto simp: hit_upsert_if)
  then show ?thesis
    using assms(3) False by cases (simp_all add: hit_id_absent new_infringement_def)
qed

lemma hit_upsert_has:
  "\<exists>j\<in>set (hit_upsert user k f n t). infringement_id j = hit_id user k f t \<and>
     inf_key j = (user, ik_url_hash k)"
proof (cases "(user, ik_url_hash k) \<in> inf_key ` set t")
  case True
  from hit_id_present [OF this] obtain i where i: "i \<in> set t" "inf_key i = (user, ik_url_hash k)"
    "hit_id user k f t = infringement_id i" by blast
  then have "seen_again n i \<in> set (hit_upsert user k f n t)"
    using True by (auto simp: hit_upsert_if in_sql_update)
  with i show ?thesis by (intro bexI [of _ "seen_again n i"]) simp_all
next
  case False
  then have "new_infringement user k f n \<in> set (hit_upsert user k f n t)"
    by (simp add: hit_upsert_if)
  with False show ?thesis
    by (intro bexI [of _ "new_infringement user k f n"])
      (simp_all add: hit_id_absent, simp add: new_infringement_def)
qed

lemma hit_upsert_same:
  assumes "i \<in> set t"
  shows "\<exists>j\<in>set (hit_upsert user k f n t). same_decision i j"
proof -
  have "same_decision i (seen_again n i)"
    by (simp add: same_decision_def inf_key_def seen_again_def)
  with in_sql_upsert_keep [OF assms, of "\<lambda>i. inf_key i = (user, ik_url_hash k)" "seen_again n"
      "new_infringement user k f n"]
  show ?thesis unfolding hit_upsert_def by (metis same_decision_refl)
qed

lemma bands_of_upsert_other:
  "at_infringement_id a \<noteq> x \<Longrightarrow>
   map at_band (filter (\<lambda>b. at_infringement_id b = x)
      (sql_upsert (\<lambda>b. at_key b = at_key a) (reattest a) a t)) =
   map at_band (filter (\<lambda>b. at_infringement_id b = x) t)"
proof -
  assume ne: "at_infringement_id a \<noteq> x"
  have "map at_band (filter (\<lambda>b. at_infringement_id b = x)
      (sql_update (\<lambda>b. at_key b = at_key a) (reattest a) t)) =
      map at_band (filter (\<lambda>b. at_infringement_id b = x) t)"
    using ne by (induction t) (auto simp: at_key_def reattest_def)
  with ne show ?thesis by (simp add: sql_upsert_def)
qed

text \<open>One key: the invariant, the keys, and the decisions.\<close>

lemma record_key_state:
  assumes ok: "hits_ok d" and rec: "record_key lib rid user provider policy k d = Inr d'"
  shows "hits_ok d'"
    and "inf_key ` set (infringements d') = insert (user, ik_url_hash k) (inf_key ` set (infringements d))"
    and "\<exists>a\<in>set (attestations d'). at_key a =
           (hit_id user k (db_fresh d) (infringements d), desc_provider_id provider) \<and> last_run_id a = Some rid"
    and "\<exists>i\<in>set (infringements d'). inf_key i = (user, ik_url_hash k) \<and>
           infringement_id i = hit_id user k (db_fresh d) (infringements d)"
    and "\<forall>i\<in>set (infringements d). \<exists>j\<in>set (infringements d'). same_decision i j"
    and "at_key ` set (attestations d') =
      insert (hit_id user k (db_fresh d) (infringements d), desc_provider_id provider)
        (at_key ` set (attestations d))"
    and "\<forall>a\<in>set (attestations d). \<exists>b\<in>set (attestations d').
      at_key b = at_key a \<and> (last_run_id b = last_run_id a \<or> last_run_id b = Some rid)"
    and "content_urls d' = content_urls (upsert_url lib k d)"
proof -
  define iid where "iid = hit_id user k (db_fresh d) (infringements d)"
  define J where "J = hit_upsert user k (db_fresh d) (db_now d) (infringements d)"
  define band where "band = (\<lambda>i::infringement. i\<lparr>inf_band := band_text (fst (roll_up (bands_of iid d'))),
               band_reason := Some (snd (roll_up (bands_of iid d')))\<rparr>)"
  from ok have dk: "distinct (map inf_key (infringements d))" and di: "distinct (map infringement_id (infringements d))"
    and da: "distinct (map at_key (attestations d))"
    and fresh: "\<forall>i\<in>set (infringements d). infringement_id i < db_fresh d"
    and roll: "\<forall>i\<in>set (infringements d). rolled_up d i"
    by (auto simp: hits_ok_def)
  obtain score where att: "attestations d' =
      (let a = new_attestation iid provider (ik_match k) score rid
                 (band_for_attestation (policy (desc_provider_id provider)) (desc_score_kind provider)
                   (pm_provider_score (ik_match k)) (pm_provider_category (ik_match k))) (db_now d)
       in sql_upsert (\<lambda>b. at_key b = at_key a) (reattest a) a (attestations d))"
    and inf: "infringements d' = sql_update (\<lambda>i. infringement_id i = iid) band J"
    and fresh': "db_fresh d' = Suc (db_fresh d)"
    using record_key_Inr [OF rec] unfolding iid_def J_def band_def hit_id_def hit_upsert_def by metis
  define a where "a = new_attestation iid provider (ik_match k) score rid
                 (band_for_attestation (policy (desc_provider_id provider)) (desc_score_kind provider)
                   (pm_provider_score (ik_match k)) (pm_provider_category (ik_match k))) (db_now d)"
  have att: "attestations d' = sql_upsert (\<lambda>b. at_key b = at_key a) (reattest a) a (attestations d)"
    using att by (simp add: a_def Let_def)
  have a: "at_key a = (iid, desc_provider_id provider)" "last_run_id a = Some rid" "at_infringement_id a = iid"
    by (simp_all add: a_def new_attestation_def at_key_def)
  have band [simp]: "infringement_id (band i) = infringement_id i" "inf_key (band i) = inf_key i"
    "same_decision i (band i)" for i
    by (simp_all add: band_def inf_key_def same_decision_def)
  have keys: "map inf_key (infringements d') = map inf_key J"
    "map infringement_id (infringements d') = map infringement_id J"
    unfolding inf by (simp_all add: map_sql_update)
  have setJ: "inf_key ` set J = insert (user, ik_url_hash k) (inf_key ` set (infringements d))"
    using arg_cong [OF hit_upsert_keys [of user k "db_fresh d" "db_now d" "infringements d"], of set]
    unfolding J_def [symmetric] set_map by auto
  then show "inf_key ` set (infringements d') = insert (user, ik_url_hash k) (inf_key ` set (infringements d))"
    using arg_cong [OF keys(1), of set] by simp
  show atk: "at_key ` set (attestations d') =
      insert (hit_id user k (db_fresh d) (infringements d), desc_provider_id provider)
        (at_key ` set (attestations d))"
    using arg_cong [OF attestation_table.upsert_keys [of a "attestations d"], of set]
    unfolding att a(1) iid_def by auto
  show "\<forall>c\<in>set (attestations d). \<exists>b\<in>set (attestations d').
      at_key b = at_key c \<and> (last_run_id b = last_run_id c \<or> last_run_id b = Some rid)"
  proof
    fix c assume "c \<in> set (attestations d)"
    from in_sql_upsert_keep [OF this, of "\<lambda>b. at_key b = at_key a" "reattest a" a]
    obtain b where "b \<in> set (attestations d')" "b = (if at_key c = at_key a then reattest a c else c)"
      unfolding att by blast
    then show "\<exists>b\<in>set (attestations d').
        at_key b = at_key c \<and> (last_run_id b = last_run_id c \<or> last_run_id b = Some rid)"
      using a(2) by (intro bexI [of _ b]) (auto simp: at_key_def reattest_def)
  qed
  show "content_urls d' = content_urls (upsert_url lib k d)"
    by (rule record_key_Inr [OF rec])
  have lookup: "sql_first (\<lambda>b. at_key b = at_key a) (attestations d') =
      Some (case sql_first (\<lambda>b. at_key b = at_key a) (attestations d) of None \<Rightarrow> a | Some b \<Rightarrow> reattest a b)"
    using attestation_table.lookup_upsert [of "at_key a" a "attestations d"] by (simp add: att)
  then obtain b where b: "b \<in> set (attestations d')" "at_key b = at_key a" "last_run_id b = Some rid"
    using sql_first_SomeD [OF lookup] a(2) by (auto simp: reattest_def split: option.splits)
  then show "\<exists>b\<in>set (attestations d'). at_key b =
      (hit_id user k (db_fresh d) (infringements d), desc_provider_id provider) \<and> last_run_id b = Some rid"
    using a(1) by (auto simp: iid_def)
  obtain j where j: "j \<in> set J" "infringement_id j = iid" "inf_key j = (user, ik_url_hash k)"
    using hit_upsert_has [of user k "db_fresh d" "db_now d" "infringements d"] by (auto simp: J_def iid_def)
  then have "band j \<in> set (infringements d')" unfolding inf by (auto simp: in_sql_update)
  with j show "\<exists>i\<in>set (infringements d'). inf_key i = (user, ik_url_hash k) \<and>
      infringement_id i = hit_id user k (db_fresh d) (infringements d)"
    by (intro bexI [of _ "band j"]) (simp_all add: iid_def)
  show "\<forall>i\<in>set (infringements d). \<exists>j\<in>set (infringements d'). same_decision i j"
  proof
    fix i assume "i \<in> set (infringements d)"
    from hit_upsert_same [OF this, of user k "db_fresh d" "db_now d"]
    obtain j where "j \<in> set J" "same_decision i j" unfolding J_def by blast
    then show "\<exists>j\<in>set (infringements d'). same_decision i j"
      unfolding inf in_sql_update Bex_def
      by (intro exI [of _ "if infringement_id j = iid then band j else j"]) (auto intro: same_decision_trans)
  qed
  have "bands_of iid d' \<noteq> []"
    using b a(1) by (auto simp: bands_of_def filter_empty_conv at_key_def)
  then have "rolled_up d' (band i)" if "infringement_id i = iid" for i
    using that by (simp add: rolled_up_def band_def)
  moreover have "rolled_up d' i" if "i \<in> set J" "infringement_id i \<noteq> iid" for i
  proof -
    have "i \<in> set (infringements d)"
      using hit_upsert_other [OF dk] that by (auto simp: J_def iid_def)
    moreover have "bands_of (infringement_id i) d' = bands_of (infringement_id i) d"
      using bands_of_upsert_other [of a "infringement_id i"] that(2) a(3) by (simp add: bands_of_def att)
    ultimately show ?thesis using roll by (auto simp: rolled_up_def)
  qed
  ultimately have roll': "\<forall>i\<in>set (infringements d'). rolled_up d' i"
    unfolding inf by (auto simp: in_sql_update)
  have "distinct (map inf_key J)"
    using hit_table.distinct_upsert [OF dk, of "(user, k, db_fresh d, db_now d)"]
    by (simp add: J_def hit_upsert_def)
  moreover have ids: "infringement_id ` set J \<subseteq> insert (db_fresh d) (infringement_id ` set (infringements d))"
    using arg_cong [OF hit_upsert_ids [of user k "db_fresh d" "db_now d" "infringements d"], of set]
    unfolding J_def [symmetric] set_map by auto
  moreover have "distinct (map infringement_id J)"
    using di fresh unfolding J_def hit_upsert_ids by auto
  moreover have "\<forall>i\<in>set (infringements d'). infringement_id i < Suc (db_fresh d)"
  proof
    fix i assume "i \<in> set (infringements d')"
    then have "infringement_id i \<in> infringement_id ` set J"
      using arg_cong [OF keys(2), of set] by (metis image_eqI list.set_map)
    with ids fresh show "infringement_id i < Suc (db_fresh d)" by (auto simp: less_Suc_eq)
  qed
  moreover have "distinct (map at_key (attestations d'))"
    using attestation_table.distinct_upsert [OF da, of a] by (simp add: att)
  ultimately show "hits_ok d'"
    using roll' keys fresh' by (simp add: hits_ok_def)
qed

text \<open>A page the provider attested in this run.\<close>

definition attested :: "user_ref \<Rightarrow> provider_id \<Rightarrow> uuid \<Rightarrow> 'a db_scheme \<Rightarrow> url_hash \<Rightarrow> bool" where
  "attested user pid rid d h \<longleftrightarrow>
     (\<exists>i\<in>set (infringements d). \<exists>a\<in>set (attestations d). inf_key i = (user, h) \<and>
        at_key a = (infringement_id i, pid) \<and> last_run_id a = Some rid)"

lemma record_key_attested_mono:
  assumes "hits_ok d" "record_key lib rid user provider policy k d = Inr d'"
    "attested user pid rid d h"
  shows "attested user pid rid d' h"
proof -
  note st = record_key_state [OF assms(1,2)]
  from assms(3) obtain i a where ia: "i \<in> set (infringements d)" "a \<in> set (attestations d)"
    "inf_key i = (user, h)" "at_key a = (infringement_id i, pid)" "last_run_id a = Some rid"
    by (auto simp: attested_def)
  from st(5) ia(1) obtain j where "j \<in> set (infringements d')" "same_decision i j" by blast
  moreover from st(7) ia(2,5) obtain b where "b \<in> set (attestations d')" "at_key b = at_key a"
    "last_run_id b = Some rid" by force
  ultimately show ?thesis using ia unfolding attested_def same_decision_def by metis
qed

lemma record_key_attested:
  assumes "hits_ok d" "record_key lib rid user provider policy k d = Inr d'"
  shows "attested user (desc_provider_id provider) rid d' (ik_url_hash k)"
  using record_key_state(3,4) [OF assms] unfolding attested_def by metis

lemma record_keys_state:
  assumes "hits_ok d" "record_keys lib rid user provider policy ks d = Inr d'"
  shows "hits_ok d' \<and>
    inf_key ` set (infringements d') =
      inf_key ` set (infringements d) \<union> (\<lambda>k. (user, ik_url_hash k)) ` set ks \<and>
    (\<forall>i\<in>set (infringements d). \<exists>j\<in>set (infringements d'). same_decision i j) \<and>
    (\<forall>k\<in>set ks. attested user (desc_provider_id provider) rid d' (ik_url_hash k)) \<and>
    (\<forall>h. attested user (desc_provider_id provider) rid d h \<longrightarrow>
         attested user (desc_provider_id provider) rid d' h)"
  using assms
proof (induction ks arbitrary: d)
  case Nil
  then show ?case by (auto intro!: bexI)
next
  case (Cons k ks)
  then obtain d1 where one: "record_key lib rid user provider policy k d = Inr d1"
    and rest: "record_keys lib rid user provider policy ks d1 = Inr d'"
    by (auto split: sum.splits)
  note st = record_key_state [OF Cons.prems(1) one]
  note ih = Cons.IH [OF st(1) rest]
  have "attested user (desc_provider_id provider) rid d' (ik_url_hash k)"
    using ih record_key_attested [OF Cons.prems(1) one] by blast
  moreover have "attested user (desc_provider_id provider) rid d' h"
    if "attested user (desc_provider_id provider) rid d h" for h
    using ih record_key_attested_mono [OF Cons.prems(1) one that] by blast
  moreover have "\<forall>i\<in>set (infringements d). \<exists>j\<in>set (infringements d'). same_decision i j"
    using ih st(5) same_decision_trans by meson
  moreover have "inf_key ` set (infringements d') =
      inf_key ` set (infringements d) \<union> (\<lambda>k. (user, ik_url_hash k)) ` set (k # ks)"
    using ih st(2) by auto
  ultimately show ?case using ih by auto
qed

text \<open>
  Recording a provider's matches keeps the hit tables right: afterwards there is still one hit
  per user and page and one attestation per hit and provider, every stored band is the roll-up of
  the attestations behind it, the user's hits are those there were plus exactly the pages of the
  batch, each of which carries an attestation of this provider from this run, and no existing hit
  lost a decision, a status or its first sighting.
\<close>

theorem record_infringements_keeps_tables:
  assumes "hits_ok d"
    and "record_infringements lib rid user provider matches policy d = Inr (n, d')"
  shows "hits_ok d' \<and> n = length (fan_out lib matches) \<and>
    inf_key ` set (infringements d') = inf_key ` set (infringements d) \<union>
      (\<lambda>k. (user, ik_url_hash k)) ` set (fan_out lib matches) \<and>
    (\<forall>k\<in>set (fan_out lib matches).
       attested user (desc_provider_id provider) rid d' (ik_url_hash k)) \<and>
    (\<forall>i\<in>set (infringements d). \<exists>j\<in>set (infringements d'). same_decision i j)"
proof -
  from assms(2) have "record_keys lib rid user provider policy (fan_out lib matches) d = Inr d'"
    and n: "n = length (fan_out lib matches)"
    by (auto simp: record_infringements_def Let_def split: sum.splits)
  from record_keys_state [OF assms(1) this(1)] n show ?thesis by blast
qed

section \<open>Rescans\<close>

definition present :: "user_ref \<Rightarrow> provider_id \<Rightarrow> 'a db_scheme \<Rightarrow> url_hash \<Rightarrow> bool" where
  "present user pid d h \<longleftrightarrow>
     (\<exists>i\<in>set (infringements d). inf_key i = (user, h) \<and>
        (infringement_id i, pid) \<in> at_key ` set (attestations d))"

lemma attested_present: "attested user pid rid d h \<Longrightarrow> present user pid d h"
  unfolding attested_def present_def by (metis imageI)

lemma upsert_url_hashes:
  "cu_url_hash ` set (content_urls (upsert_url lib k d)) =
     insert (ik_url_hash k) (cu_url_hash ` set (content_urls d))"
  "ik_url_hash k \<in> cu_url_hash ` set (content_urls d) \<Longrightarrow>
     length (content_urls (upsert_url lib k d)) = length (content_urls d)"
proof -
  let ?row = "\<lparr>cu_url_hash = ik_url_hash k, cu_url = ik_key_url k,
           cu_source_domain = source_domain lib (ik_key_url k),
           cu_canonical_url = canonicalise lib (ik_key_url k),
           cu_normalisation_version = ''v1'',
           cu_first_seen_at = db_now d, cu_last_seen_at = db_now d\<rparr>"
  have keys: "map cu_url_hash (content_urls (upsert_url lib k d)) =
      (if ik_url_hash k \<in> cu_url_hash ` set (content_urls d) then map cu_url_hash (content_urls d)
       else map cu_url_hash (content_urls d) @ [ik_url_hash k])"
    using url_table.upsert_keys [of "(?row, db_now d)" "content_urls d"] by (simp add: upsert_url_def)
  from arg_cong [OF keys, of set]
  show "cu_url_hash ` set (content_urls (upsert_url lib k d)) =
     insert (ik_url_hash k) (cu_url_hash ` set (content_urls d))"
    unfolding set_map by (auto split: if_splits)
  from arg_cong [OF keys, of length]
  show "ik_url_hash k \<in> cu_url_hash ` set (content_urls d) \<Longrightarrow>
     length (content_urls (upsert_url lib k d)) = length (content_urls d)"
    by simp
qed

lemma record_key_present:
  assumes "hits_ok d" "record_key lib rid user provider policy k d = Inr d'"
    "present user (desc_provider_id provider) d (ik_url_hash k)"
  shows "at_key ` set (attestations d') = at_key ` set (attestations d)"
    and "present user (desc_provider_id provider) d h \<Longrightarrow> present user (desc_provider_id provider) d' h"
proof -
  note st = record_key_state [OF assms(1,2)]
  obtain i where i: "i \<in> set (infringements d)" "inf_key i = (user, ik_url_hash k)"
    "(infringement_id i, desc_provider_id provider) \<in> at_key ` set (attestations d)"
    using assms(3) by (auto simp: present_def)
  then have "(user, ik_url_hash k) \<in> inf_key ` set (infringements d)" by (metis imageI)
  from hit_id_present [OF this, of "db_fresh d"] obtain q where q: "q \<in> set (infringements d)"
    "inf_key q = (user, ik_url_hash k)" "hit_id user k (db_fresh d) (infringements d) = infringement_id q"
    by blast
  have "q = i"
    using assms(1) i(1,2) q(1,2) unfolding hits_ok_def distinct_map inj_on_def by metis
  with st(6) i(3) q(3) show at: "at_key ` set (attestations d') = at_key ` set (attestations d)"
    by (simp add: insert_absorb)
  show "present user (desc_provider_id provider) d h \<Longrightarrow> present user (desc_provider_id provider) d' h"
    using st(5) at unfolding present_def same_decision_def by metis
qed

lemma record_keys_present:
  assumes "hits_ok d" "record_keys lib rid user provider policy ks d = Inr d'"
    and "\<forall>k\<in>set ks. present user (desc_provider_id provider) d (ik_url_hash k)"
    and "\<forall>k\<in>set ks. ik_url_hash k \<in> cu_url_hash ` set (content_urls d)"
  shows "at_key ` set (attestations d') = at_key ` set (attestations d) \<and>
    length (content_urls d') = length (content_urls d)"
  using assms
proof (induction ks arbitrary: d)
  case (Cons k ks)
  then obtain d1 where one: "record_key lib rid user provider policy k d = Inr d1"
    and rest: "record_keys lib rid user provider policy ks d1 = Inr d'"
    by (auto split: sum.splits)
  note st = record_key_state [OF Cons.prems(1) one]
  have "present user (desc_provider_id provider) d (ik_url_hash k)" using Cons.prems(3) by simp
  note pres = record_key_present [OF Cons.prems(1) one this]
  have "\<forall>k\<in>set ks. present user (desc_provider_id provider) d1 (ik_url_hash k)"
    using Cons.prems(3) pres(2) by simp
  moreover have "\<forall>k\<in>set ks. ik_url_hash k \<in> cu_url_hash ` set (content_urls d1)"
    using Cons.prems(4) st(8) upsert_url_hashes(1) [of lib k d] by simp
  ultimately have "at_key ` set (attestations d') = at_key ` set (attestations d1) \<and>
      length (content_urls d') = length (content_urls d1)"
    using Cons.IH [OF st(1) rest] by blast
  moreover have "length (content_urls d1) = length (content_urls d)"
    unfolding st(8) by (rule upsert_url_hashes(2)) (use Cons.prems(4) in simp)
  ultimately show ?case using pres(1) by simp
qed simp

lemma record_keys_urls:
  assumes "hits_ok d" "record_keys lib rid user provider policy ks d = Inr d'"
  shows "cu_url_hash ` set (content_urls d') =
    cu_url_hash ` set (content_urls d) \<union> ik_url_hash ` set ks"
  using assms
proof (induction ks arbitrary: d)
  case (Cons k ks)
  then obtain d1 where one: "record_key lib rid user provider policy k d = Inr d1"
    and rest: "record_keys lib rid user provider policy ks d1 = Inr d'"
    by (auto split: sum.splits)
  note st = record_key_state [OF Cons.prems(1) one]
  from Cons.IH [OF st(1) rest] st(8) show ?case by (simp add: upsert_url_hashes(1) Un_assoc)
qed simp

lemma length_by_keys:
  "distinct (map f xs) \<Longrightarrow> distinct (map f ys) \<Longrightarrow> f ` set xs = f ` set ys \<Longrightarrow> length xs = length ys"
  by (metis distinct_card length_map list.set_map)

text \<open>
  C33. Rows grow with content, not with time: when a later run of the same provider reports the
  same matches for the user, under whatever banding policy, it adds no row to the pages, the hits
  or the attestations.
\<close>

theorem rescan_adds_no_rows:
  assumes "hits_ok d"
    and "record_infringements lib rid user provider matches policy d = Inr (n, d1)"
    and "record_infringements lib rid2 user provider matches policy2 d1 = Inr (n2, d2)"
  shows "n2 = n \<and> length (infringements d2) = length (infringements d1) \<and>
    length (attestations d2) = length (attestations d1) \<and>
    length (content_urls d2) = length (content_urls d1)"
proof -
  let ?ks = "fan_out lib matches"
  from assms(2) have r1: "record_keys lib rid user provider policy ?ks d = Inr d1" and n: "n = length ?ks"
    by (auto simp: record_infringements_def Let_def split: sum.splits)
  from assms(3) have r2: "record_keys lib rid2 user provider policy2 ?ks d1 = Inr d2" and n2: "n2 = length ?ks"
    by (auto simp: record_infringements_def Let_def split: sum.splits)
  note s1 = record_keys_state [OF assms(1) r1]
  then have ok1: "hits_ok d1" by blast
  note s2 = record_keys_state [OF ok1 r2]
  then have ok2: "hits_ok d2" by blast
  have "inf_key ` set (infringements d2) = inf_key ` set (infringements d1)"
    using s1 s2 by blast
  then have hits: "length (infringements d2) = length (infringements d1)"
    using ok1 ok2 unfolding hits_ok_def by (intro length_by_keys [of inf_key]) simp_all
  have "\<forall>k\<in>set ?ks. present user (desc_provider_id provider) d1 (ik_url_hash k)"
    by (intro ballI attested_present [of _ _ rid]) (use s1 in simp)
  moreover have "\<forall>k\<in>set ?ks. ik_url_hash k \<in> cu_url_hash ` set (content_urls d1)"
    unfolding record_keys_urls [OF assms(1) r1] by blast
  ultimately have same: "at_key ` set (attestations d2) = at_key ` set (attestations d1)"
    "length (content_urls d2) = length (content_urls d1)"
    using record_keys_present [OF ok1 r2] by blast+
  from same(1) have "length (attestations d2) = length (attestations d1)"
    using ok1 ok2 unfolding hits_ok_def by (intro length_by_keys [of at_key]) simp_all
  with hits same(2) n n2 show ?thesis by simp
qed

text \<open>A database with one run of one provider, and one reported page.\<close>

definition one_run_db :: db where
  "one_run_db = empty_db\<lparr>providers := [hive_row], db_fresh := 10,
     subjects := [\<lparr>sj_user_ref = 7, sj_discovery_eligible = True, sj_eligibility_reason = ''adult'',
        sj_created_at = 0, sj_updated_at = 0\<rparr>],
     search_seeds := [\<lparr>seed_id = 2, seed_user_ref = 7, seed_kind = ''enrolment'',
        source_object_ref = ''k'', seed_status = ''active'', seed_created_at = 0, scan_tier = New,
        next_scan_after = None, tier_next_scan_after = None, consecutive_empty_scans = 0,
              attributed_face_id = None\<rparr>],
     search_runs := [\<lparr>run_id = 1, run_seed_id = 2, run_user_ref = 7, run_status = Queued,
        providers_attempted = [''hive''], providers_succeeded = [], matches_found = 0,
        threshold_config = JObj [], run_seed_url = ''u'', started_at = 0, claimed_at = None,
        completed_at = None\<rparr>]\<rparr>"

definition one_match :: provider_match where
  "one_match = \<lparr>pm_image_url = ''i'', pm_page_urls = [''p''], pm_provider_score = Some (Dec (3/4)),
     pm_provider_category = None, pm_query_quality = None\<rparr>"

definition hive_descriptor :: provider_descriptor where
  "hive_descriptor = \<lparr>desc_provider_id = ''hive'', desc_score_kind = Numeric,
     desc_score_version = ''v1''\<rparr>"

definition one_key :: "host_lib \<Rightarrow> infringement_key" where
  "one_key lib = \<lparr>ik_url_hash = url_hash lib ''p'', ik_key_url = ''p'', ik_keyed_on = Page_url,
     ik_match = one_match\<rparr>"

lemma one_fan_out: "fan_out lib [one_match] = [one_key lib]"
  by (simp add: fan_out_def match_keys_def targets_of_def one_match_def add_key_def one_key_def)

lemma numeric_6_4_three_quarters: "numeric_6_4 (Some (Dec (3/4))) = Inr (Some (Dec (3/4)))"
proof -
  have "\<lfloor>(3 / 4 * 10000 + 1 / 2) :: rat\<rfloor> = 7500" by (simp add: floor_eq_iff)
  then show ?thesis by (simp add: numeric_6_4_def round_half_away_def Let_def)
qed

definition one_hit_db :: db where
  "one_hit_db =
     (case record_infringements ascii_lib 1 7 hive_descriptor [one_match] (\<lambda>_. None) one_run_db of
        Inl _ \<Rightarrow> one_run_db | Inr (_, d) \<Rightarrow> d)"

lemma record_one:
  "record_infringements lib rid user provider [one_match] policy d =
     (case record_key lib rid user provider policy (one_key lib) d of
        Inl e \<Rightarrow> Inl e | Inr d' \<Rightarrow> Inr (1, d'))"
  by (simp add: record_infringements_def one_fan_out split: sum.split)

lemma one_simps [simp]:
  "ik_url_hash (one_key lib) = url_hash lib ''p''" "ik_match (one_key lib) = one_match"
  "ik_key_url (one_key lib) = ''p''" "ik_keyed_on (one_key lib) = Page_url"
  "pm_provider_score one_match = Some (Dec (3/4))" "pm_provider_category one_match = None"
  "desc_provider_id hive_descriptor = ''hive''" "desc_score_kind hive_descriptor = Numeric"
  by (simp_all add: one_key_def one_match_def hive_descriptor_def)

lemmas record_defs = record_one record_key_def upsert_infringement_def upsert_url_def
  upsert_attestation_def sql_upsert_def new_infringement_def inf_key_def at_key_def set_band_def
  new_attestation_def attestation_score_shape_def bands_of_def runtime_of_def has_provider_def
  seen_again_def reattest_def

lemma record_first:
  "record_infringements ascii_lib 1 7 hive_descriptor [one_match] (\<lambda>_. None) one_run_db =
     Inr (1, one_hit_db)"
  unfolding one_hit_db_def
  by (simp add: record_defs one_run_db_def empty_db_def hive_row_def numeric_6_4_three_quarters Let_def)

lemma record_second:
  "\<exists>d2. record_infringements ascii_lib 1 7 hive_descriptor [one_match] (\<lambda>_. None) one_hit_db =
     Inr (1, d2)"
  unfolding one_hit_db_def
  by (simp add: record_defs one_run_db_def empty_db_def hive_row_def numeric_6_4_three_quarters Let_def)

lemma one_run_hits_ok: "hits_ok one_run_db"
  by (simp add: hits_ok_def one_run_db_def empty_db_def)

theorem record_infringements_keeps_tables_witness:
  "hits_ok one_hit_db \<and>
   inf_key ` set (infringements one_hit_db) = {(7, url_hash ascii_lib ''p'')}"
  using record_infringements_keeps_tables [OF one_run_hits_ok record_first]
  by (simp add: one_fan_out one_key_def) (simp add: one_run_db_def empty_db_def)

theorem rescan_adds_no_rows_witness:
  "\<exists>d2. record_infringements ascii_lib 1 7 hive_descriptor [one_match] (\<lambda>_. None) one_hit_db = Inr (1, d2) \<and>
     length (infringements d2) = length (infringements one_hit_db)"
  using record_second rescan_adds_no_rows [OF one_run_hits_ok record_first] by blast

section \<open>Claiming a run\<close>

definition unique_runs :: "'a db_scheme \<Rightarrow> bool" where
  "unique_runs d \<longleftrightarrow> distinct (map run_id (search_runs d))"

definition run_of :: "uuid \<Rightarrow> 'a db_scheme \<Rightarrow> run_row option" where
  "run_of rid d = sql_first (\<lambda>r. run_id r = rid) (search_runs d)"

lemma claimable_first:
  assumes "unique_runs d" "run_of rid d = Some r"
  shows "sql_first (\<lambda>q. run_id q = rid \<and> P q) (search_runs d) = (if P r then Some r else None)"
proof -
  have "distinct (map run_id t) \<Longrightarrow> sql_first (\<lambda>q. run_id q = rid) t = Some r \<Longrightarrow>
      sql_first (\<lambda>q. run_id q = rid \<and> P q) t = (if P r then Some r else None)" for t
  proof (induction t)
    case (Cons q t)
    show ?case
    proof (cases "run_id q = rid")
      case True
      then have "\<forall>x\<in>set t. run_id x \<noteq> rid" using Cons.prems(1) by (auto simp: image_iff)
      then have "sql_first (\<lambda>q. run_id q = rid \<and> P q) t = None" by (simp add: sql_first_None_iff)
      with True Cons.prems show ?thesis by auto
    next
      case False
      with Cons show ?thesis by simp
    qed
  qed simp
  with assms show ?thesis by (simp add: unique_runs_def run_of_def)
qed

lemma run_of_update:
  assumes "\<And>r. run_id (f r) = run_id r"
  shows "sql_first (\<lambda>r. run_id r = rid) (sql_update p f t) =
    map_option (\<lambda>r. if p r then f r else r) (sql_first (\<lambda>r. run_id r = rid) t)"
  by (rule sql_first_update) (simp add: assms)

lemma unique_runs_update:
  assumes "\<And>r. run_id (f r) = run_id r"
  shows "unique_runs (d\<lparr>search_runs := sql_update p f (search_runs d)\<rparr>) = unique_runs d"
  by (simp add: unique_runs_def map_sql_update assms)

lemma claim_run_cases:
  assumes "unique_runs d" "run_of rid d = Some r" "get_seed (run_seed_id r) d = Some s"
  shows "claim_run rid d =
    (if run_claimable (db_now d) r
     then (Some \<lparr>cl_run_id = run_id r, cl_seed_id = run_seed_id r, cl_user_ref = run_user_ref r,
             cl_seed_url = run_seed_url r, cl_providers_attempted = providers_attempted r,
             cl_discovery_eligible = subject_eligible (seed_user_ref s) d\<rparr>,
           d\<lparr>search_runs := sql_update (\<lambda>r. run_id r = rid \<and> run_claimable (db_now d) r)
               (\<lambda>r. r\<lparr>run_status := Running, claimed_at := Some (db_now d)\<rparr>) (search_runs d)\<rparr>)
     else (None, d))"
  using assms(3) by (simp add: claim_run_def claimable_first [OF assms(1,2)])

text \<open>
  A run is executed by one worker at a time.  Of two deliveries of a queued run the second gets
  nothing until the first claim is more than fifteen minutes old, whatever the time of the second;
  then it gets the same run again.  A completed run is never claimed again.
\<close>

theorem claim_run_exclusive:
  assumes "unique_runs d" and "run_of rid d = Some r" and "get_seed (run_seed_id r) d = Some s"
    and "run_status r = Queued" and "claim_run rid d = (c, d1)"
  shows "c \<noteq> None \<and>
    (fst (claim_run rid (d1\<lparr>db_now := t\<rparr>)) = None \<longleftrightarrow> t \<le> db_now d + STALE_CLAIM_US) \<and>
    claim_run rid ((mark_completed rid succeeded d1)\<lparr>db_now := t\<rparr>) =
      (None, (mark_completed rid succeeded d1)\<lparr>db_now := t\<rparr>)"
proof -
  have claimable: "run_claimable (db_now d) r" using assms(4) by (simp add: run_claimable_def)
  note first = claim_run_cases [OF assms(1-3)]
  have c: "c \<noteq> None" and d1: "d1 = d\<lparr>search_runs :=
      sql_update (\<lambda>r. run_id r = rid \<and> run_claimable (db_now d) r)
        (\<lambda>r. r\<lparr>run_status := Running, claimed_at := Some (db_now d)\<rparr>) (search_runs d)\<rparr>"
    using first assms(5) claimable by auto
  define r1 where "r1 = r\<lparr>run_status := Running, claimed_at := Some (db_now d)\<rparr>"
  have rid: "run_id r = rid" using assms(2) by (auto simp: run_of_def dest: sql_first_SomeD)
  have run1: "run_of rid d1 = Some r1"
    using assms(2) claimable rid by (simp add: run_of_def d1 run_of_update r1_def)
  have uniq1: "unique_runs d1" using assms(1) by (simp add: d1 unique_runs_update)
  have seeds: "search_seeds d1 = search_seeds d" by (simp add: d1)
  have "claim_run rid (d1\<lparr>db_now := t\<rparr>) =
      (if run_claimable t r1 then (fst (claim_run rid (d1\<lparr>db_now := t\<rparr>)), snd (claim_run rid (d1\<lparr>db_now := t\<rparr>)))
       else (None, d1\<lparr>db_now := t\<rparr>)) \<and> (run_claimable t r1 \<longrightarrow> fst (claim_run rid (d1\<lparr>db_now := t\<rparr>)) \<noteq> None)"
    using claim_run_cases [of "d1\<lparr>db_now := t\<rparr>" rid r1 s] uniq1 run1 assms(3)
    by (simp add: unique_runs_def run_of_def get_seed_def seeds r1_def)
  then have second: "fst (claim_run rid (d1\<lparr>db_now := t\<rparr>)) = None \<longleftrightarrow> \<not> run_claimable t r1"
    by (metis fst_conv)
  have "run_claimable t r1 \<longleftrightarrow> db_now d < t - STALE_CLAIM_US"
    by (simp add: run_claimable_def r1_def)
  with second have stale: "fst (claim_run rid (d1\<lparr>db_now := t\<rparr>)) = None \<longleftrightarrow> t \<le> db_now d + STALE_CLAIM_US"
    by auto
  let ?d2 = "(mark_completed rid succeeded d1)\<lparr>db_now := t\<rparr>"
  have "unique_runs ?d2"
    using uniq1 by (simp add: mark_completed_def unique_runs_def map_sql_update)
  moreover have "\<exists>r2. run_of rid ?d2 = Some r2 \<and> run_status r2 = Completed"
    using run1 rid by (simp add: run_of_def mark_completed_def run_of_update r1_def)
  ultimately have "claim_run rid ?d2 = (None, ?d2)"
    using claimable_first [of ?d2 rid] by (auto simp: claim_run_def run_claimable_def)
  with c stale show ?thesis by blast
qed

theorem claim_run_exclusive_witness:
  "\<exists>c d1. claim_run 1 one_run_db = (Some c, d1) \<and>
     fst (claim_run 1 (d1\<lparr>db_now := 899000000\<rparr>)) = None \<and>
     fst (claim_run 1 (d1\<lparr>db_now := 901000000\<rparr>)) \<noteq> None"
proof -
  obtain c d1 where c: "claim_run 1 one_run_db = (c, d1)" by fastforce
  have run: "unique_runs one_run_db" "\<exists>r s. run_of 1 one_run_db = Some r \<and> run_status r = Queued \<and>
      get_seed (run_seed_id r) one_run_db = Some s"
    by (simp_all add: one_run_db_def empty_db_def unique_runs_def run_of_def get_seed_def)
  have "c \<noteq> None \<and> (fst (claim_run 1 (d1\<lparr>db_now := t\<rparr>)) = None \<longleftrightarrow>
      t \<le> db_now one_run_db + STALE_CLAIM_US)" for t
    using run claim_run_exclusive [of one_run_db 1 _ _ c d1 t] c by blast
  from this [of 899000000] this [of 901000000] show ?thesis
    using c by (auto simp: one_run_db_def empty_db_def STALE_CLAIM_US_def)
qed

section \<open>Completing a run\<close>

lemma hits_to_confirm_frame:
  "hits_to_confirm rid (mark_completed rid s d) = hits_to_confirm rid d"
  "hits_to_confirm rid (update_cadence sid u d) = hits_to_confirm rid d"
  by (simp_all add: hits_to_confirm_def mark_completed_def update_cadence_def)

lemma distinct_hits_to_confirm: "hits_ok d \<Longrightarrow> distinct (hits_to_confirm rid d)"
  by (simp add: hits_ok_def hits_to_confirm_def distinct_map_filter)

definition attested_run :: "uuid \<Rightarrow> 'a db_scheme \<Rightarrow> uuid \<Rightarrow> bool" where
  "attested_run rid d iid \<longleftrightarrow>
     (\<exists>a\<in>set (attestations d). at_infringement_id a = iid \<and> last_run_id a = Some rid)"

text \<open>
  C29. Completion is one step.  The run row is completed with the providers that worked and with as
  many matches as attestations carry the run; the outbox gains, when triage is wanted, one row per
  hit the run attested that nothing has triaged yet, each hit once, and nothing otherwise; the
  cadence of the seed moves only when the run is evidence about it; hits and attestations are
  untouched.
\<close>

theorem complete_run_all_together:
  assumes "hits_ok d" and "unique_runs d" and "run_of rid d = Some r"
    and "complete_run rid sid succeeded retier confirm d = Inr (update, d')"
  shows "(\<exists>r'. run_of rid d' = Some r' \<and> run_status r' = Completed \<and>
        providers_succeeded r' = succeeded \<and> providers_attempted r' = providers_attempted r \<and>
        matches_found r' = length (filter (\<lambda>a. last_run_id a = Some rid) (attestations d))) \<and>
    (\<exists>new ids. outbox d' = outbox d @ new \<and>
       map payload new = map (\<lambda>i. \<lparr>event = CONFIRM_REQUESTED_EVENT, payload_id = i\<rparr>) ids \<and>
       distinct ids \<and>
       set ids = (if confirm
         then infringement_id ` {i \<in> set (infringements d). confirm_state i = Unconfirmed \<and>
                attested_run rid d (infringement_id i)} else {})) \<and>
    (retier = None \<longrightarrow> search_seeds d' = search_seeds d) \<and>
    infringements d' = infringements d \<and> attestations d' = attestations d"
proof -
  define d1 where "d1 = mark_completed rid succeeded d"
  define d2 where "d2 = (case update of None \<Rightarrow> d1 | Some u \<Rightarrow> update_cadence sid u d1)"
  from assms(4) have cad: "cadence_for retier sid d = Inr update"
    and d': "d' = (if confirm then enqueue_confirm_hits rid d2 else d2)"
    unfolding d1_def d2_def by (auto simp: complete_run_def Let_def split: sum.splits)
  have d2: "search_runs d2 = search_runs d1" "infringements d2 = infringements d"
    "attestations d2 = attestations d" "outbox d2 = outbox d"
    "hits_to_confirm rid d2 = hits_to_confirm rid d"
    by (simp_all add: d2_def d1_def hits_to_confirm_frame split: option.split)
      (simp_all add: mark_completed_def update_cadence_def split: option.split)
  have run: "run_id r = rid" using assms(3) by (auto simp: run_of_def dest: sql_first_SomeD)
  have runs: "search_runs d' = search_runs d1" "infringements d' = infringements d"
    "attestations d' = attestations d" "search_seeds d' = search_seeds d2"
    by (simp_all add: d' enqueue_confirm_hits_def d2)
  have "\<exists>r'. run_of rid d' = Some r' \<and> run_status r' = Completed \<and>
        providers_succeeded r' = succeeded \<and> providers_attempted r' = providers_attempted r \<and>
        matches_found r' = length (filter (\<lambda>a. last_run_id a = Some rid) (attestations d))"
    using assms(3) run by (simp add: run_of_def runs d1_def mark_completed_def run_of_update)
  moreover have "\<exists>new ids. outbox d' = outbox d @ new \<and>
       map payload new = map (\<lambda>i. \<lparr>event = CONFIRM_REQUESTED_EVENT, payload_id = i\<rparr>) ids \<and>
       distinct ids \<and>
       set ids = (if confirm
         then infringement_id ` {i \<in> set (infringements d). confirm_state i = Unconfirmed \<and>
                attested_run rid d (infringement_id i)} else {})"
  proof (cases confirm)
    case True
    obtain new where new: "outbox d' = outbox d @ new"
      "map payload new = map (\<lambda>i. \<lparr>event = CONFIRM_REQUESTED_EVENT, payload_id = i\<rparr>) (hits_to_confirm rid d)"
      using insert_all_outbox(2) [of QUEUE_CONFIRM_HITS _ d2] True
      by (auto simp: d' enqueue_confirm_hits_def d2)
    have "set (hits_to_confirm rid d) = infringement_id ` {i \<in> set (infringements d).
        confirm_state i = Unconfirmed \<and> attested_run rid d (infringement_id i)}"
      by (auto simp: hits_to_confirm_def attested_run_def list_ex_iff)
    with new distinct_hits_to_confirm [OF assms(1)] True show ?thesis by auto
  next
    case False
    then show ?thesis by (intro exI [of _ "[]"]) (simp add: d' d2)
  qed
  moreover have "search_seeds d' = search_seeds d" if "retier = None"
    using cad that by (auto simp: cadence_for_def runs d2_def d1_def mark_completed_def)
  ultimately show ?thesis using runs by blast
qed

theorem complete_run_all_together_witness:
  "\<exists>d'. complete_run 1 2 [''hive''] None True one_hit_db = Inr (None, d') \<and>
     map (payload_id \<circ> payload) (outbox d') = [10]"
proof -
  have ok: "hits_ok one_hit_db"
    using record_infringements_keeps_tables [OF one_run_hits_ok record_first] by blast
  have row: "\<exists>i a. infringements one_hit_db = [i] \<and> infringement_id i = 10 \<and>
      confirm_state i = Unconfirmed \<and> attestations one_hit_db = [a] \<and>
      at_infringement_id a = 10 \<and> last_run_id a = Some 1 \<and> outbox one_hit_db = [] \<and>
      search_runs one_hit_db = search_runs one_run_db"
    by (simp add: one_hit_db_def record_defs one_run_db_def empty_db_def hive_row_def
        numeric_6_4_three_quarters Let_def)
  have runs: "unique_runs one_run_db" "\<exists>r. run_of 1 one_run_db = Some r"
    by (simp_all add: unique_runs_def run_of_def one_run_db_def empty_db_def)
  with row have db: "unique_runs one_hit_db" "\<exists>r. run_of 1 one_hit_db = Some r" "outbox one_hit_db = []"
    by (auto simp: unique_runs_def run_of_def)
  have hits: "infringement_id ` {i \<in> set (infringements one_hit_db). confirm_state i = Unconfirmed \<and>
        attested_run 1 one_hit_db (infringement_id i)} = {10}"
    using row by (auto simp: attested_run_def)
  obtain d' where d': "complete_run 1 2 [''hive''] None True one_hit_db = Inr (None, d')"
    by (simp add: complete_run_def cadence_for_def Let_def)
  from complete_run_all_together [OF ok db(1) _ d'] db(2)
  obtain new ids where "outbox d' = outbox one_hit_db @ new"
    "map payload new = map (\<lambda>i. \<lparr>event = CONFIRM_REQUESTED_EVENT, payload_id = i\<rparr>) ids"
    "distinct ids" "set ids = {10}"
    unfolding hits by auto
  note new = this
  have "length ids = 1" using distinct_card [OF new(3)] new(4) by simp
  then have "ids = [10]" using new(4) by (cases ids) auto
  moreover have "map payload_id (map payload new) = ids" unfolding new(2) by (simp add: comp_def)
  ultimately show ?thesis using d' new(1) db(3) by (intro exI [of _ d']) (simp add: comp_def)
qed

section \<open>What a user sees\<close>

definition group_of :: "(infringement \<times> attestation) list \<Rightarrow> infringement \<Rightarrow> infringement_row" where
  "group_of rows i = head_row i (map snd (filter (\<lambda>p. infringement_id (fst p) = infringement_id i) rows))"

lemma head_row_id [simp]: "ir_infringement_id (head_row i as) = infringement_id i"
  by (simp add: head_row_def)

lemma group_of_fields [simp]:
  "ir_infringement_id (group_of rows i) = infringement_id i"
  "ir_last_seen_at (group_of rows i) = last_seen_at i"
  by (simp_all add: group_of_def head_row_def)

lemma group_infringements_spec:
  assumes "\<forall>p\<in>set rows. \<forall>q\<in>set rows. infringement_id (fst p) = infringement_id (fst q) \<longrightarrow> fst p = fst q"
  shows "\<exists>is. group_infringements rows = map (group_of rows) is \<and> set is = fst ` set rows \<and>
    distinct (map infringement_id is) \<and>
    (sorted (map (\<lambda>p. - last_seen_at (fst p)) rows) \<longrightarrow> sorted (map (\<lambda>i. - last_seen_at i) is))"
  using assms
proof (induction rows rule: rev_induct)
  case Nil
  then show ?case by (simp add: group_infringements_def)
next
  case (snoc p rows)
  obtain j a where p: "p = (j, a)" by fastforce
  from snoc obtain is' where is': "group_infringements rows = map (group_of rows) is'"
    "set is' = fst ` set rows" "distinct (map infringement_id is')"
    "sorted (map (\<lambda>p. - last_seen_at (fst p)) rows) \<longrightarrow> sorted (map (\<lambda>i. - last_seen_at i) is')"
    by auto
  have step: "group_infringements (rows @ [p]) = group_row p (map (group_of rows) is')"
    using is'(1) by (simp add: group_infringements_def)
  have seen: "infringement_id j \<in> ir_infringement_id ` set (map (group_of rows) is') \<longleftrightarrow> j \<in> set is'"
  proof
    assume "infringement_id j \<in> ir_infringement_id ` set (map (group_of rows) is')"
    then obtain i where "i \<in> set is'" "infringement_id i = infringement_id j"
      by auto
    moreover from this(1) is'(2) obtain b where "(i, b) \<in> set rows" by auto
    ultimately have "i = j" using snoc.prems p by fastforce
    with \<open>i \<in> set is'\<close> show "j \<in> set is'" by simp
  qed (simp add: image_image)
  have extend: "group_of (rows @ [p]) i = (if infringement_id i = infringement_id j
      then (group_of rows i)\<lparr>ir_attestations := ir_attestations (group_of rows i) @ [a]\<rparr>
      else group_of rows i)" for i
    by (simp add: group_of_def p head_row_def)
  have order: "sorted (map (\<lambda>p. - last_seen_at (fst p)) (rows @ [p])) \<Longrightarrow>
      sorted (map (\<lambda>p. - last_seen_at (fst p)) rows) \<and> (\<forall>i\<in>set is'. - last_seen_at i \<le> - last_seen_at j)"
    using is'(2) by (auto simp: sorted_append p)
  show ?case
  proof (cases "j \<in> set is'")
    case True
    then have "group_infringements (rows @ [p]) = map (group_of (rows @ [p])) is'"
      using seen unfolding step by (simp add: group_row_def p extend [unfolded p])
    with True is' order p show ?thesis by (intro exI [of _ is']) auto
  next
    case False
    have new: "infringement_id i \<noteq> infringement_id j" if "i \<in> set is'" for i
    proof
      assume "infringement_id i = infringement_id j"
      with imageI [OF that, of infringement_id]
      have "infringement_id j \<in> ir_infringement_id ` set (map (group_of rows) is')"
        by (simp add: image_image)
      with seen False show False by blast
    qed
    have "filter (\<lambda>q. infringement_id (fst q) = infringement_id j) rows = []"
      using new is'(2) by (auto simp: filter_empty_conv)
    then have "group_of (rows @ [p]) j = head_row j [a]" by (simp add: group_of_def p)
    moreover have "map (group_of (rows @ [p])) is' = map (group_of rows) is'"
      using new extend by auto
    ultimately have "group_infringements (rows @ [p]) = map (group_of (rows @ [p])) (is' @ [j])"
      unfolding step using seen False by (simp add: group_row_def p)
    moreover have "infringement_id j \<notin> infringement_id ` set is'" using new by (metis imageE)
    then have "distinct (map infringement_id (is' @ [j]))" using is'(3) by simp
    moreover have "sorted (map (\<lambda>i. - last_seen_at i) (is' @ [j]))"
      if "sorted (map (\<lambda>p. - last_seen_at (fst p)) (rows @ [p]))"
      using order [OF that] is'(4) by (auto simp: sorted_append)
    moreover have "set (is' @ [j]) = fst ` set (rows @ [p])" using is'(2) p by simp
    ultimately show ?thesis by blast
  qed
qed

definition visible :: "user_ref \<Rightarrow> instant option \<Rightarrow> infringement \<Rightarrow> bool" where
  "visible user since i \<longleftrightarrow>
     inf_user_ref i = user \<and> (case since of None \<Rightarrow> True | Some t \<Rightarrow> t \<le> last_seen_at i)"

lemma set_list_rows:
  "set (list_rows user since d) =
     {(i, a). i \<in> set (infringements d) \<and> a \<in> set (attestations d) \<and> visible user since i \<and>
        at_infringement_id a = infringement_id i}"
  by (auto simp: list_rows_def visible_def)

lemma mset_list_rows_of:
  assumes "distinct (map infringement_id (infringements d))" "i \<in> set (infringements d)"
    "visible user since i"
  shows "mset (map snd (filter (\<lambda>p. infringement_id (fst p) = infringement_id i) (list_rows user since d))) =
    mset (filter (\<lambda>a. at_infringement_id a = infringement_id i) (attestations d))"
proof -
  let ?rows = "\<lambda>t. concat (map (\<lambda>i. map (\<lambda>a. (i, a))
      (filter (\<lambda>a. at_infringement_id a = infringement_id i) (attestations d)))
      (filter (visible user since) t))"
  have none: "filter (\<lambda>p. infringement_id (fst p) = x) (?rows t) = []"
    if "x \<notin> infringement_id ` set t" for x t
    using that by (auto simp: filter_empty_conv)
  have "distinct (map infringement_id t) \<Longrightarrow> i \<in> set t \<Longrightarrow>
      map snd (filter (\<lambda>p. infringement_id (fst p) = infringement_id i) (?rows t)) =
      filter (\<lambda>a. at_infringement_id a = infringement_id i) (attestations d)" for t
  proof (induction t)
    case (Cons j t)
    show ?case
    proof (cases "j = i")
      case True
      with Cons.prems none [of "infringement_id i" t] assms(3) show ?thesis
        by (simp add: filter_map comp_def)
    next
      case False
      with Cons have "infringement_id j \<noteq> infringement_id i" by (auto simp: image_iff)
      with False Cons show ?thesis by (simp add: filter_map comp_def)
    qed
  qed simp
  from this [OF assms(1,2)]
  have "mset (map snd (filter (\<lambda>p. infringement_id (fst p) = infringement_id i) (?rows (infringements d)))) =
    mset (filter (\<lambda>a. at_infringement_id a = infringement_id i) (attestations d))" by simp
  moreover have "list_rows user since d =
      sort_key (\<lambda>(i, a). (- last_seen_at i, infringement_id i, at_provider_id a)) (?rows (infringements d))"
    by (simp add: list_rows_def visible_def [abs_def])
  ultimately show ?thesis by (simp add: filter_sort mset_filter [symmetric] del: mset_filter)
qed

text \<open>
  A user's list is complete and in order: it has exactly one row for each of the user's hits
  seen since the given moment, newest first, each with that hit's stored fields and exactly its
  attestations, and no hit of anyone else.
\<close>

theorem list_infringements_complete:
  assumes "hits_ok d"
  shows "distinct (map ir_infringement_id (list_infringements user since d)) \<and>
    sorted (map (\<lambda>r. - ir_last_seen_at r) (list_infringements user since d)) \<and>
    ir_infringement_id ` set (list_infringements user since d) =
      infringement_id ` {i \<in> set (infringements d). visible user since i} \<and>
    (\<forall>r\<in>set (list_infringements user since d). \<exists>i as. i \<in> set (infringements d) \<and>
       visible user since i \<and> r = head_row i as \<and>
       mset as = mset (filter (\<lambda>a. at_infringement_id a = infringement_id i) (attestations d)))"
proof -
  let ?rows = "list_rows user since d"
  have ids: "distinct (map infringement_id (infringements d))"
    and roll: "\<forall>i\<in>set (infringements d). bands_of (infringement_id i) d \<noteq> []"
    using assms by (auto simp: hits_ok_def rolled_up_def)
  have "\<forall>p\<in>set ?rows. \<forall>q\<in>set ?rows. infringement_id (fst p) = infringement_id (fst q) \<longrightarrow> fst p = fst q"
    using ids by (auto simp: set_list_rows distinct_map inj_on_def)
  from group_infringements_spec [OF this] obtain is' where is':
    "list_infringements user since d = map (group_of ?rows) is'" "set is' = fst ` set ?rows"
    "distinct (map infringement_id is')"
    "sorted (map (\<lambda>p. - last_seen_at (fst p)) ?rows) \<longrightarrow> sorted (map (\<lambda>i. - last_seen_at i) is')"
    by (auto simp: list_infringements_def)
  have heads: "set is' = {i \<in> set (infringements d). visible user since i}"
    using roll by (force simp: is'(2) set_list_rows bands_of_def filter_empty_conv image_iff)
  have "sorted (map (\<lambda>(i, a). (- last_seen_at i, infringement_id i, at_provider_id a)) ?rows)"
    by (simp add: list_rows_def)
  then have "sorted (map (\<lambda>p. - last_seen_at (fst p)) ?rows)"
    by (induction ?rows rule: list.induct) (auto simp: sorted_wrt_map sorted_map less_eq_prod_def
        intro: sorted_wrt_mono_rel [rotated])
  with is'(4) have sorted: "sorted (map (\<lambda>i. - last_seen_at i) is')" by blast
  have "\<exists>i as. i \<in> set (infringements d) \<and> visible user since i \<and> r = head_row i as \<and>
       mset as = mset (filter (\<lambda>a. at_infringement_id a = infringement_id i) (attestations d))"
    if "r \<in> set (map (group_of ?rows) is')" for r
  proof -
    from that heads obtain i where i: "i \<in> set (infringements d)" "visible user since i" "r = group_of ?rows i"
      by auto
    from mset_list_rows_of [OF ids i(1,2)] i show ?thesis unfolding group_of_def by blast
  qed
  moreover have "ir_infringement_id ` set (map (group_of ?rows) is') = infringement_id ` set is'"
    by (simp add: image_image)
  ultimately show ?thesis unfolding is'(1) using is'(3) sorted heads by (simp add: comp_def)
qed

theorem list_infringements_complete_witness:
  "ir_infringement_id ` set (list_infringements 7 None one_hit_db) =
     infringement_id ` {i \<in> set (infringements one_hit_db). visible 7 None i}"
  using record_infringements_keeps_tables [OF one_run_hits_ok record_first]
    list_infringements_complete [of one_hit_db 7 None] by blast

section \<open>Feedback changes one column\<close>

text \<open>
  Feedback is recorded and otherwise only sets the hit's status.  For a hit of the user one
  feedback row is appended, the status becomes the signal's (or stays, for an uncertain one) and
  nothing else of the hit, no other hit, and no other table moves: not a band, not an attestation,
  not the identity.  For a hit that is absent or someone else's the answer and the state are the
  same, and an unknown signal raises before anything is read.
\<close>

theorem feedback_touches_only_status:
  "case record_feedback iid user signal d of
     Inl e \<Rightarrow> status_for signal = Inl e
   | Inr (None, d') \<Rightarrow> d' = d \<and> list_all (\<lambda>i. \<not> owned_by iid user i) (infringements d)
   | Inr (Some st, d') \<Rightarrow>
       \<exists>i. sql_first (owned_by iid user) (infringements d) = Some i \<and>
         Some st = (case status_for signal of Inr (Some s) \<Rightarrow> Some s | _ \<Rightarrow> Some (inf_status i)) \<and>
         d' = d\<lparr>infringement_feedback := infringement_feedback d @
                  [\<lparr>fb_infringement_id = iid, fb_user_ref = user, fb_signal = signal,
                    fb_created_at = db_now d\<rparr>],
                infringements := (case status_for signal of
                    Inr (Some s) \<Rightarrow> sql_update (owned_by iid user) (\<lambda>i. i\<lparr>inf_status := s\<rparr>) (infringements d)
                  | _ \<Rightarrow> infringements d)\<rparr>"
proof (cases "status_for signal")
  case (Inl e)
  then show ?thesis by (simp add: record_feedback_def)
next
  case (Inr status)
  show ?thesis
  proof (cases "sql_first (owned_by iid user) (infringements d)")
    case None
    then have "list_all (\<lambda>i. \<not> owned_by iid user i) (infringements d)"
      by (simp add: list_all_iff sql_first_None_iff)
    with None Inr show ?thesis by (simp add: record_feedback_def)
  next
    case (Some i)
    with Inr show ?thesis
      by (cases status) (simp_all add: record_feedback_def Let_def)
  qed
qed

end
