(* ===== verification/Runner.thy ===== *)
theory Runner
  imports Gate Search_Store
begin

text \<open>
  The execution of one claimed run (\<^verbatim>\<open>src/imageshield/search/runner.py\<close>) and the queue
  consumer around it (\<^verbatim>\<open>search/worker.py\<close>), against the protocols \<^verbatim>\<open>SearchStore\<close> and
  \<^verbatim>\<open>ProviderControlStore\<close>.

  An adapter is a function of the seed URL that returns a result or raises (\<open>None\<close> stands for any
  exception its \<^verbatim>\<open>search\<close> raises).  \<^verbatim>\<open>asyncio.gather\<close> returns the results in dispatch
  order and the adapters do not touch the stores, so calling them one after another is the same.
  The transactions of one run share one \<^verbatim>\<open>now()\<close> here.
\<close>

section \<open>Adapters and protocols\<close>

record search_provider =
  sp_score_kind :: score_kind
  sp_score_version :: string
  sp_search :: "string \<Rightarrow> provider_result option"

record 's search_store =
  ss_claim_run :: "uuid \<Rightarrow> 's \<Rightarrow> claimed_run option \<times> 's"
  ss_refuse_run :: "uuid \<Rightarrow> user_ref \<Rightarrow> string \<Rightarrow> 's \<Rightarrow> 's"
  ss_record_infringements ::
    "uuid \<Rightarrow> user_ref \<Rightarrow> provider_descriptor \<Rightarrow> provider_match list \<Rightarrow> banding_policy \<Rightarrow> 's \<Rightarrow> exn + nat \<times> 's"
  ss_complete_run ::
    "uuid \<Rightarrow> uuid \<Rightarrow> provider_id list \<Rightarrow> cadence_input option \<Rightarrow> bool \<Rightarrow> 's
       \<Rightarrow> exn + cadence_update option \<times> 's"

definition pg_search :: "host_lib \<Rightarrow> 'a db_scheme search_store" where
  "pg_search lib =
     \<lparr>ss_claim_run = claim_run, ss_refuse_run = refuse_run,
      ss_record_infringements = record_infringements lib, ss_complete_run = complete_run\<rparr>"

record run_outcome =
  ro_providers_succeeded :: "provider_id list"
  ro_providers_skipped :: "provider_id list"
  ro_matches_recorded :: nat

section \<open>One provider\<close>

definition crashed_result :: "provider_id \<Rightarrow> provider_result" where
  "crashed_result pid =
     \<lparr>res_provider_id = pid, res_status = ''error'', res_matches = [],
      res_raw_response = JObj [(''exception'', JStr ''adapter raised'')], res_http_status = None,
      res_latency_ms = 0, res_attempts = 1, res_error_detail = Some ''adapter raised''\<rparr>"

definition call_provider :: "search_provider \<Rightarrow> provider_id \<Rightarrow> string \<Rightarrow> provider_result" where
  "call_provider p pid seed_url =
     (case sp_search p seed_url of None \<Rightarrow> crashed_result pid | Some r \<Rightarrow> r)"

definition missing_adapter_result :: "provider_id \<Rightarrow> provider_result" where
  "missing_adapter_result pid =
     \<lparr>res_provider_id = pid, res_status = ''error'', res_matches = [],
      res_raw_response = JObj [(''error'', JStr ''no adapter registered for this provider'')],
      res_http_status = None, res_latency_ms = 0, res_attempts = 1,
      res_error_detail = Some ''no adapter registered for this provider''\<rparr>"

definition result_of ::
  "(provider_id \<Rightarrow> search_provider option) \<Rightarrow> string \<Rightarrow> provider_id \<Rightarrow> provider_result" where
  "result_of adapters seed_url pid =
     (case adapters pid of
        None \<Rightarrow> missing_adapter_result pid
      | Some p \<Rightarrow> call_provider p pid seed_url)"

section \<open>The run\<close>

fun decide_all ::
  "'s provider_control \<Rightarrow> (provider_id \<Rightarrow> provider_runtime option) \<Rightarrow> datetime \<Rightarrow> provider_id list \<Rightarrow> 's
     \<Rightarrow> decision list \<times> 's" where
  "decide_all control rts now [] s = ([], s)"
| "decide_all control rts now (pid # pids) s =
     (let (d, s1) = decide control pid (rts pid) now s;
          (ds, s2) = decide_all control rts now pids s1
      in (d # ds, s2))"

definition is_dispatch :: "decision \<Rightarrow> bool" where
  "is_dispatch d = (case d of Dispatch _ _ _ \<Rightarrow> True | Skip _ _ _ \<Rightarrow> False)"

text \<open>
  From here on an operation that may raise returns the exception or its value, and the state: each
  store call is a transaction of its own, so what was committed before an exception stays.
\<close>

fun record_skips :: "'s provider_control \<Rightarrow> uuid \<Rightarrow> decision list \<Rightarrow> 's \<Rightarrow> (exn + unit) \<times> 's" where
  "record_skips control rid [] s = (Inr (), s)"
| "record_skips control rid (d # ds) s =
     (case d of
        Dispatch _ _ _ \<Rightarrow> record_skips control rid ds s
      | Skip pid reason detail \<Rightarrow>
          (case ctl_record_skip control (Some rid) pid reason detail s of
             Inl e \<Rightarrow> (Inl e, s)
           | Inr s1 \<Rightarrow> record_skips control rid ds s1))"

text \<open>\<^verbatim>\<open>cost_by_provider.get(..)\<close>: the cost of the last dispatch of the provider, if any.\<close>

definition cost_by_provider :: "decision list \<Rightarrow> provider_id \<Rightarrow> money option" where
  "cost_by_provider ds pid =
     (case map_of (rev (map (\<lambda>d. (dec_provider_id d, dec_cost_usd d)) (filter is_dispatch ds))) pid of
        None \<Rightarrow> None | Some c \<Rightarrow> c)"

fun record_results ::
  "'s search_store \<Rightarrow> 's provider_control \<Rightarrow> (provider_id \<Rightarrow> search_provider option)
     \<Rightarrow> banding_policy \<Rightarrow> claimed_run \<Rightarrow> (provider_id \<Rightarrow> money option) \<Rightarrow> int
     \<Rightarrow> provider_result list \<Rightarrow> provider_id list \<Rightarrow> nat \<Rightarrow> 's
     \<Rightarrow> (exn + provider_id list \<times> nat) \<times> 's" where
  "record_results store control adapters policy claim cost day [] succeeded n s =
     (Inr (succeeded, n), s)"
| "record_results store control adapters policy claim cost day (r # rs) succeeded n s =
     (case ctl_record_outcome control (Some (cl_run_id claim)) r (cost (res_provider_id r)) day s of
        Inl e \<Rightarrow> (Inl e, s)
      | Inr s1 \<Rightarrow>
          if res_status r \<noteq> ''ok''
          then record_results store control adapters policy claim cost day rs succeeded n s1
          else
            (case adapters (res_provider_id r) of
               None \<Rightarrow> (Inl (KeyError (res_provider_id r)), s1)
             | Some adapter \<Rightarrow>
                 (case ss_record_infringements store (cl_run_id claim) (cl_user_ref claim)
                         \<lparr>desc_provider_id = res_provider_id r, desc_score_kind = sp_score_kind adapter,
                          desc_score_version = sp_score_version adapter\<rparr> (res_matches r) policy s1 of
                    Inl e \<Rightarrow> (Inl e, s1)
                  | Inr (k, s2) \<Rightarrow>
                      record_results store control adapters policy claim cost day rs
                        (succeeded @ [res_provider_id r]) (n + k) s2)))"

definition dispatch_results ::
  "(provider_id \<Rightarrow> search_provider option) \<Rightarrow> string \<Rightarrow> decision list \<Rightarrow> provider_result list" where
  "dispatch_results adapters seed_url decisions =
     map (\<lambda>d. result_of adapters seed_url (dec_provider_id d)) (filter is_dispatch decisions)"

definition execute_run ::
  "claimed_run \<Rightarrow> (provider_id \<Rightarrow> search_provider option) \<Rightarrow> 's search_store \<Rightarrow> banding_policy
     \<Rightarrow> 's provider_control \<Rightarrow> cadence_policy \<Rightarrow> bool \<Rightarrow> datetime \<Rightarrow> 's \<Rightarrow> (exn + run_outcome) \<times> 's" where
  "execute_run claim adapters store policy control cadence enqueue_confirm moment s =
     (if \<not> cl_discovery_eligible claim then
        (Inr \<lparr>ro_providers_succeeded = [], ro_providers_skipped = [], ro_matches_recorded = 0\<rparr>,
         ss_refuse_run store (cl_run_id claim) (cl_user_ref claim)
           ''subject became ineligible between enqueue and dispatch'' s)
      else
        let (rts, s1) = ctl_runtimes control s;
            (decisions, s2) = decide_all control rts moment (cl_providers_attempted claim) s1
        in case record_skips control (cl_run_id claim) decisions s2 of
             (Inl e, s3) \<Rightarrow> (Inl e, s3)
           | (Inr _, s3) \<Rightarrow>
               (case record_results store control adapters policy claim (cost_by_provider decisions)
                       (utc_spend_date moment)
                       (dispatch_results adapters (cl_seed_url claim) decisions) [] 0 s3 of
                  (Inl e, s4) \<Rightarrow> (Inl e, s4)
                | (Inr (succeeded, n), s4) \<Rightarrow>
                    (case ss_complete_run store (cl_run_id claim) (cl_seed_id claim) succeeded
                            (if should_retier (length succeeded)
                             then Some \<lparr>ci_found_matches = n > 0, ci_now = moment, ci_policy = cadence\<rparr>
                             else None)
                            enqueue_confirm s4 of
                       Inl e \<Rightarrow> (Inl e, s4)
                     | Inr (_, s5) \<Rightarrow>
                         (Inr \<lparr>ro_providers_succeeded = succeeded,
                               ro_providers_skipped =
                                 map dec_provider_id (filter (\<lambda>d. \<not> is_dispatch d) decisions),
                               ro_matches_recorded = n\<rparr>, s5))))"

section \<open>The consumer\<close>

text \<open>
  A message body is \<open>None\<close> when it does not parse to a payload; loading the banding policy is the
  calibration store's and may raise (\<open>None\<close>).  The answer is whether the message is deleted; an
  exception after the claim leaves it for redelivery.
\<close>

definition handle_message ::
  "outbox_payload option \<Rightarrow> 's search_store \<Rightarrow> (provider_id \<Rightarrow> search_provider option)
     \<Rightarrow> ('s \<Rightarrow> banding_policy option) \<Rightarrow> 's provider_control \<Rightarrow> cadence_policy \<Rightarrow> datetime
     \<Rightarrow> 's \<Rightarrow> bool \<times> 's" where
  "handle_message body store adapters load_policy control cadence moment s =
     (case body of
        None \<Rightarrow> (True, s)
      | Some p \<Rightarrow>
          if event p \<noteq> RUN_REQUESTED_EVENT then (True, s)
          else
            (case ss_claim_run store (payload_id p) s of
               (None, s1) \<Rightarrow> (True, s1)
             | (Some claim, s1) \<Rightarrow>
                 (case load_policy s1 of
                    None \<Rightarrow> (False, s1)
                  | Some policy \<Rightarrow>
                      (case execute_run claim adapters store policy control cadence True moment s1 of
                         (Inl _, s2) \<Rightarrow> (False, s2)
                       | (Inr _, s2) \<Rightarrow> (True, s2)))))"

section \<open>What a run needs of its two stores\<close>

text \<open>The search store never touches the call rows, the spend or the breakers.\<close>

locale run_stores = control_store +
  fixes search :: "'s search_store"
  assumes refuse_frame: "calls (ss_refuse_run search rid user reason s) = calls s \<and>
      spend p day (ss_refuse_run search rid user reason s) = spend p day s \<and>
      breaker p (ss_refuse_run search rid user reason s) = breaker p s"
    and record_frame: "ss_record_infringements search rid user prov ms pol s = Inr (n, s') \<Longrightarrow>
      calls s' = calls s \<and> spend p day s' = spend p day s \<and> breaker p s' = breaker p s"
    and complete_frame: "ss_complete_run search rid sid succ ret conf s = Inr (u, s') \<Longrightarrow>
      calls s' = calls s \<and> spend p day s' = spend p day s \<and> breaker p s' = breaker p s"
begin

lemma decide_all_frame:
  assumes "decide_all store rts now pids s = (ds, s')"
  shows "map dec_provider_id ds = pids \<and> calls s' = calls s \<and> spend p day s' = spend p day s"
  using assms
proof (induction pids arbitrary: s ds)
  case (Cons pid pids)
  obtain d s1 where d: "decide store pid (rts pid) now s = (d, s1)" by fastforce
  obtain ds1 where ds: "decide_all store rts now pids s1 = (ds1, s')" "ds = d # ds1"
    using Cons.prems d by (auto split: prod.splits)
  have "dec_provider_id d = pid" using dec_provider_id_decide [of store pid "rts pid" now s] d by simp
  with Cons.IH [OF ds(1)] decide_frame [OF d, of p day] ds(2) show ?case by auto
qed simp

lemma record_skips_calls:
  assumes "record_skips store rid ds s = (Inr u, s')"
  shows "\<exists>new. calls s' = calls s @ new \<and>
    map pc_provider_id new = map dec_provider_id (filter (\<lambda>d. \<not> is_dispatch d) ds) \<and>
    (\<forall>c\<in>set new. pc_run_id c = Some rid \<and> pc_attempt c = 0 \<and> pc_cost_usd c = None) \<and>
    spend p day s' = spend p day s"
  using assms
proof (induction ds arbitrary: s)
  case (Cons d ds)
  show ?case
  proof (cases d)
    case (Dispatch q c b)
    with Cons show ?thesis by (simp add: is_dispatch_def)
  next
    case (Skip q reason detail)
    with Cons.prems obtain s1 where s1: "ctl_record_skip store (Some rid) q reason detail s = Inr s1"
      and rest: "record_skips store rid ds s1 = (Inr u, s')"
      by (auto split: sum.splits)
    from Cons.IH [OF rest] obtain new where new: "calls s' = calls s1 @ new"
      "map pc_provider_id new = map dec_provider_id (filter (\<lambda>d. \<not> is_dispatch d) ds)"
      "\<forall>c\<in>set new. pc_run_id c = Some rid \<and> pc_attempt c = 0 \<and> pc_cost_usd c = None"
      "spend p day s' = spend p day s1" by blast
    from skip_recorded [OF s1, of p day] obtain c where c: "calls s1 = calls s @ [c]"
      "pc_provider_id c = q" "pc_run_id c = Some rid" "pc_attempt c = 0" "pc_cost_usd c = None"
      "spend p day s1 = spend p day s" by blast
    with new Skip show ?thesis
      by (intro exI [of _ "c # new"]) (simp add: is_dispatch_def)
  qed
qed simp

lemma record_results_calls:
  assumes "record_results search store adapters policy claim cost day rs succ n s = (Inr (succ', n'), s')"
  shows "(\<exists>new. calls s' = calls s @ new \<and>
      map pc_provider_id new = map res_provider_id rs \<and>
      map pc_status new = map res_status rs \<and>
      map pc_cost_usd new = map (\<lambda>r. cost (res_provider_id r)) rs \<and>
      (\<forall>c\<in>set new. pc_run_id c = Some (cl_run_id claim))) \<and>
    succ' = succ @ map res_provider_id (filter (\<lambda>r. res_status r = ''ok'') rs)"
  using assms
proof (induction rs arbitrary: succ n s)
  case (Cons r rs)
  from Cons.prems obtain s1 where s1:
    "ctl_record_outcome store (Some (cl_run_id claim)) r (cost (res_provider_id r)) day s = Inr s1"
    by (auto split: sum.splits)
  from outcome_recorded [OF this] obtain c where c: "calls s1 = calls s @ [c]"
    "pc_provider_id c = res_provider_id r" "pc_run_id c = Some (cl_run_id claim)"
    "pc_status c = res_status r" "pc_cost_usd c = cost (res_provider_id r)"
    by blast
  obtain succ1 n1 s2 where rest: "record_results search store adapters policy claim cost day rs succ1 n1 s2 =
      (Inr (succ', n'), s')" and s2: "calls s2 = calls s1"
    and succ1: "succ1 = succ @ map res_provider_id (filter (\<lambda>r. res_status r = ''ok'') [r])"
  proof (cases "res_status r = ''ok''")
    case True
    with Cons.prems s1 obtain adapter where ad: "adapters (res_provider_id r) = Some adapter"
      by (auto split: option.splits)
    with True Cons.prems s1 obtain k s2 where
      rec: "ss_record_infringements search (cl_run_id claim) (cl_user_ref claim)
           \<lparr>desc_provider_id = res_provider_id r, desc_score_kind = sp_score_kind adapter,
            desc_score_version = sp_score_version adapter\<rparr> (res_matches r) policy s1 = Inr (k, s2)"
      and "record_results search store adapters policy claim cost day rs
            (succ @ [res_provider_id r]) (n + k) s2 = (Inr (succ', n'), s')"
      by (auto split: sum.splits)
    with record_frame [OF rec] True show thesis
      by (intro that [of "succ @ [res_provider_id r]" "n + k" s2]) auto
  next
    case False
    with Cons.prems s1 show thesis by (intro that [of succ n s1]) auto
  qed
  from Cons.IH [OF rest] obtain new where "calls s' = calls s2 @ new"
    "map pc_provider_id new = map res_provider_id rs" "map pc_status new = map res_status rs"
    "map pc_cost_usd new = map (\<lambda>r. cost (res_provider_id r)) rs"
    "\<forall>c\<in>set new. pc_run_id c = Some (cl_run_id claim)"
    "succ' = succ1 @ map res_provider_id (filter (\<lambda>r. res_status r = ''ok'') rs)" by blast
  with c s2 succ1 show ?case by (intro conjI exI [of _ "c # new"]) auto
qed simp

lemma execute_run_calls:
  assumes "execute_run claim adapters search policy store cadence conf moment s = (Inr out, s')"
    and "cl_discovery_eligible claim"
    and own: "\<And>pid p r. adapters pid = Some p \<Longrightarrow> sp_search p (cl_seed_url claim) = Some r \<Longrightarrow>
           res_provider_id r = pid"
  shows "\<exists>skipped called. calls s' = calls s @ skipped @ called \<and>
    mset (map pc_provider_id (skipped @ called)) = mset (cl_providers_attempted claim) \<and>
    (\<forall>c\<in>set (skipped @ called). pc_run_id c = Some (cl_run_id claim)) \<and>
    (\<forall>c\<in>set skipped. pc_attempt c = 0 \<and> pc_cost_usd c = None) \<and>
    map pc_provider_id skipped = ro_providers_skipped out \<and>
    ro_providers_succeeded out = map pc_provider_id (filter (\<lambda>c. pc_status c = ''ok'') called)"
proof -
  obtain rts s1 where rts: "ctl_runtimes store s = (rts, s1)" by fastforce
  obtain ds s2 where ds: "decide_all store rts moment (cl_providers_attempted claim) s1 = (ds, s2)" by fastforce
  obtain u s3 where skips: "record_skips store (cl_run_id claim) ds s2 = (Inr u, s3)"
    using assms(1,2) rts ds by (auto simp: execute_run_def split: prod.splits sum.splits)
  obtain succ n s4 where results: "record_results search store adapters policy claim (cost_by_provider ds)
      (utc_spend_date moment) (dispatch_results adapters (cl_seed_url claim) ds) [] 0 s3 = (Inr (succ, n), s4)"
    using assms(1,2) rts ds skips by (auto simp: execute_run_def split: prod.splits sum.splits)
  obtain upd where complete: "ss_complete_run search (cl_run_id claim) (cl_seed_id claim) succ
      (if should_retier (length succ)
       then Some \<lparr>ci_found_matches = n > 0, ci_now = moment, ci_policy = cadence\<rparr> else None)
      conf s4 = Inr (upd, s')"
    and out: "ro_providers_succeeded out = succ"
      "ro_providers_skipped out = map dec_provider_id (filter (\<lambda>d. \<not> is_dispatch d) ds)"
    using assms(1,2) rts ds skips results by (auto simp: execute_run_def split: sum.splits)
  have ids: "map dec_provider_id ds = cl_providers_attempted claim" and c2: "calls s2 = calls s"
    using decide_all_frame [OF ds] runtimes_only_reads [OF rts] by auto
  obtain skipped where sk: "calls s3 = calls s2 @ skipped"
    "map pc_provider_id skipped = map dec_provider_id (filter (\<lambda>d. \<not> is_dispatch d) ds)"
    "\<forall>c\<in>set skipped. pc_run_id c = Some (cl_run_id claim) \<and> pc_attempt c = 0 \<and> pc_cost_usd c = None"
    using record_skips_calls [OF skips] by blast
  obtain called where cd: "calls s4 = calls s3 @ called"
    "map pc_provider_id called = map res_provider_id (dispatch_results adapters (cl_seed_url claim) ds)"
    "map pc_status called = map res_status (dispatch_results adapters (cl_seed_url claim) ds)"
    "\<forall>c\<in>set called. pc_run_id c = Some (cl_run_id claim)"
    "succ = [] @ map res_provider_id (filter (\<lambda>r. res_status r = ''ok'') (dispatch_results adapters (cl_seed_url claim) ds))"
    using record_results_calls [OF results] by blast
  have "res_provider_id (result_of adapters (cl_seed_url claim) pid) = pid" for pid
    using own by (auto simp: result_of_def missing_adapter_result_def call_provider_def
        crashed_result_def split: option.split)
  then have pids: "map pc_provider_id called = map dec_provider_id (filter is_dispatch ds)"
    using cd(2) by (simp add: dispatch_results_def comp_def)
  have "mset (map dec_provider_id ds) =
      mset (map dec_provider_id (filter (\<lambda>d. \<not> is_dispatch d) ds)) + mset (map dec_provider_id (filter is_dispatch ds))"
    by (induction ds) auto
  then have all: "mset (map pc_provider_id (skipped @ called)) = mset (cl_providers_attempted claim)"
    using sk(2) pids ids by simp
  have "map pc_provider_id (filter (\<lambda>c. pc_status c = ''ok'') cs) = map res_provider_id (filter (\<lambda>r. res_status r = ''ok'') rs)"
    if "map pc_provider_id cs = map res_provider_id rs" "map pc_status cs = map res_status rs" for cs rs
    using that by (induction cs arbitrary: rs) (auto simp: Cons_eq_map_conv)
  from this [OF cd(2,3)] have succ: "succ = map pc_provider_id (filter (\<lambda>c. pc_status c = ''ok'') called)"
    using cd(5) by simp
  have "calls s' = calls s4" using complete_frame [OF complete] by blast
  with all sk cd(1,4) c2 out succ show ?thesis
    by (intro exI [of _ skipped] exI [of _ called]) auto
qed

lemma refused_run_costs_nothing:
  assumes "\<not> cl_discovery_eligible claim"
    and "execute_run claim adapters search policy store cadence conf moment s = (r, s')"
  shows "calls s' = calls s \<and> spend p day s' = spend p day s \<and> breaker p s' = breaker p s"
  using assms refuse_frame by (auto simp: execute_run_def)

end

section \<open>The Postgres stores provide it\<close>

lemma upsert_url_frame:
  "provider_calls (upsert_url lib k d) = provider_calls d"
  "provider_spend (upsert_url lib k d) = provider_spend d"
  "providers (upsert_url lib k d) = providers d"
  "search_runs (upsert_url lib k d) = search_runs d"
  "search_seeds (upsert_url lib k d) = search_seeds d"
  by (simp_all add: upsert_url_def Let_def)

lemma upsert_infringement_frame:
  assumes "upsert_infringement user k d = (iid, d')"
  shows "provider_calls d' = provider_calls d \<and> provider_spend d' = provider_spend d \<and>
    providers d' = providers d \<and> search_runs d' = search_runs d \<and> search_seeds d' = search_seeds d"
  using assms by (auto simp: upsert_infringement_def Let_def split: option.splits)

lemma record_key_frame:
  assumes "record_key lib rid user prov pol k d = Inr d'"
  shows "provider_calls d' = provider_calls d \<and> provider_spend d' = provider_spend d \<and>
    providers d' = providers d \<and> search_runs d' = search_runs d \<and> search_seeds d' = search_seeds d"
proof -
  obtain iid d1 where up: "upsert_infringement user k (upsert_url lib k d) = (iid, d1)" by fastforce
  have "provider_calls d1 = provider_calls d" "provider_spend d1 = provider_spend d"
    "providers d1 = providers d" "search_runs d1 = search_runs d" "search_seeds d1 = search_seeds d"
    using upsert_infringement_frame [OF up] by (simp_all add: upsert_url_frame)
  then show ?thesis using assms up
    by (auto simp: record_key_def upsert_attestation_def set_band_def Let_def
        split: sum.splits if_splits)
qed

lemma record_infringements_frame:
  assumes "record_infringements lib rid user prov ms pol d = Inr (n, d')"
  shows "provider_calls d' = provider_calls d \<and> provider_spend d' = provider_spend d \<and>
    providers d' = providers d \<and> search_runs d' = search_runs d \<and> search_seeds d' = search_seeds d"
proof -
  have "provider_calls d' = provider_calls d \<and> provider_spend d' = provider_spend d \<and>
    providers d' = providers d \<and> search_runs d' = search_runs d \<and> search_seeds d' = search_seeds d"
    if "record_keys lib rid user prov pol ks d = Inr d'" for ks
    using that
  proof (induction ks arbitrary: d)
    case (Cons k ks)
    then obtain d1 where "record_key lib rid user prov pol k d = Inr d1"
      "record_keys lib rid user prov pol ks d1 = Inr d'" by (auto split: sum.splits)
    with Cons.IH [of d1] record_key_frame show ?case by metis
  qed simp
  with assms show ?thesis by (auto simp: record_infringements_def Let_def split: sum.splits)
qed

lemma complete_run_frame:
  assumes "complete_run rid sid succ ret conf d = Inr (u, d')"
  shows "provider_calls d' = provider_calls d \<and> provider_spend d' = provider_spend d \<and>
    providers d' = providers d"
  using assms
  by (auto simp: complete_run_def mark_completed_def update_cadence_def enqueue_confirm_hits_def
      Let_def split: sum.splits option.splits if_splits)

lemma refuse_run_frame:
  "provider_calls (refuse_run rid user reason d) = provider_calls d"
  "provider_spend (refuse_run rid user reason d) = provider_spend d"
  "providers (refuse_run rid user reason d) = providers d"
  by (simp_all add: refuse_run_def)

interpretation pgr: run_stores "pg_control cfg"
  "\<lambda>p day w. spend_or_zero (daily_spend p day w)" provider_calls breaker_of "pg_search lib"
proof unfold_locales
  fix rid user reason and s :: process and p and day :: int
  show "provider_calls (ss_refuse_run (pg_search lib) rid user reason s) = provider_calls s \<and>
      spend_or_zero (daily_spend p day (ss_refuse_run (pg_search lib) rid user reason s)) =
        spend_or_zero (daily_spend p day s) \<and>
      breaker_of p (ss_refuse_run (pg_search lib) rid user reason s) = breaker_of p s"
    by (simp add: pg_search_def refuse_run_frame daily_spend_def breaker_of_def runtime_of_def)
  fix prov ms pol n s'
  show "ss_record_infringements (pg_search lib) rid user prov ms pol s = Inr (n, s') \<Longrightarrow>
      provider_calls s' = provider_calls s \<and>
      spend_or_zero (daily_spend p day s') = spend_or_zero (daily_spend p day s) \<and>
      breaker_of p s' = breaker_of p s"
    using record_infringements_frame [of lib rid user prov ms pol s n s']
    by (simp add: pg_search_def daily_spend_def breaker_of_def runtime_of_def)
  fix sid succ ret conf u
  show "ss_complete_run (pg_search lib) rid sid succ ret conf s = Inr (u, s') \<Longrightarrow>
      provider_calls s' = provider_calls s \<and>
      spend_or_zero (daily_spend p day s') = spend_or_zero (daily_spend p day s) \<and>
      breaker_of p s' = breaker_of p s"
    using complete_run_frame [of rid sid succ ret conf s u s']
    by (simp add: pg_search_def daily_spend_def breaker_of_def runtime_of_def)
qed

section \<open>Properties of a run\<close>


text \<open>
  Discovery never runs for a subject who may not be searched: a claim that reads ineligible at
  dispatch ends as refused, not completed, with one audit row, and no call row is written, nothing
  is spent, no breaker moves and no hit is recorded.
\<close>

theorem ineligible_run_is_refused:
  assumes "\<not> cl_discovery_eligible claim"
    and "execute_run claim adapters (pg_search lib) policy (pg_control cfg) cadence conf moment w
      = (res, w')"
  shows "provider_calls w' = provider_calls w \<and> provider_spend w' = provider_spend w \<and>
    providers w' = providers w \<and> infringements w' = infringements w \<and>
    attestations w' = attestations w \<and> outbox w' = outbox w \<and>
    length (audit_log w') = Suc (length (audit_log w)) \<and>
    (\<forall>r\<in>set (search_runs w'). run_id r = cl_run_id claim \<longrightarrow> run_status r = Refused)"
proof -
  have "w' = refuse_run (cl_run_id claim) (cl_user_ref claim)
      ''subject became ineligible between enqueue and dispatch'' w"
    using assms by (simp add: execute_run_def pg_search_def)
  then show ?thesis
    by (auto simp: refuse_run_def in_sql_update)
qed

section \<open>What happens to the message\<close>

lemma runtimes_runs: "search_runs (snd (runtimes cfg w)) = search_runs w"
  by (auto simp: runtimes_def split: option.split)

lemma decide_runs: "search_runs (snd (decide (pg_control cfg) pid rt now w)) = search_runs w"
  by (auto simp: decide_def pg_control_def claim_half_open_probe_def invalidate_def Let_def
      split: option.split prod.split)

lemma decide_all_runs:
  "search_runs (snd (decide_all (pg_control cfg) rts now pids w)) = search_runs w"
proof (induction pids arbitrary: w)
  case (Cons pid pids)
  then show ?case using decide_runs [of cfg pid "rts pid" now w]
    by (simp add: Let_def split: prod.split) (metis snd_conv)
qed simp

lemma record_skips_runs:
  "search_runs (snd (record_skips (pg_control cfg) rid ds w)) = search_runs w"
proof (induction ds arbitrary: w)
  case (Cons d ds)
  then show ?case
    by (auto simp: pg_control_def record_skip_def insert_call_def split: decision.split sum.split if_splits)
qed simp

lemma record_outcome_runs:
  assumes "record_outcome cfg run r c day intel w = Inr w'"
  shows "search_runs w' = search_runs w"
  using assms
  by (auto simp: record_outcome_def insert_call_def upsert_spend_def apply_breaker_def invalidate_def
      Let_def split: option.splits if_splits)

lemma record_infringements_runs:
  "record_infringements lib rid user prov ms pol d = Inr (n, d') \<Longrightarrow> search_runs d' = search_runs d"
  using record_infringements_frame by blast

lemma record_results_runs:
  "search_runs (snd (record_results (pg_search lib) (pg_control cfg) adapters policy claim cost day rs
     succ n w)) = search_runs w"
proof (induction rs arbitrary: succ n w)
  case (Cons r rs)
  then show ?case
    by (auto simp: pg_control_def pg_search_def split: option.split sum.split prod.split
        dest!: record_infringements_runs record_outcome_runs)
qed simp

lemma complete_run_runs:
  assumes "complete_run rid sid succ ret conf d = Inr (u, d')"
  shows "\<forall>r\<in>set (search_runs d'). run_id r = rid \<longrightarrow> run_status r = Completed"
proof -
  have "search_runs d' = search_runs (mark_completed rid succ d)"
    using assms
    by (auto simp: complete_run_def update_cadence_def enqueue_confirm_hits_def Let_def
        split: sum.splits option.splits if_splits)
  moreover have "run_status r = Completed"
    if r: "r \<in> set (search_runs (mark_completed rid succ d))" "run_id r = rid" for r
    by (rule sql_update_hit [OF r(1) [unfolded mark_completed_def, simplified] r(2)]) simp_all
  ultimately show ?thesis by simp
qed

lemma execute_run_runs:
  assumes "execute_run claim adapters (pg_search lib) policy (pg_control cfg) cadence conf moment w
      = (res, w')"
  shows "case res of
      Inl _ \<Rightarrow> search_runs w' = search_runs w
    | Inr _ \<Rightarrow> \<forall>r\<in>set (search_runs w'). run_id r = cl_run_id claim \<longrightarrow> run_status r \<in> {Completed, Refused}"
proof (cases "cl_discovery_eligible claim")
  case False
  then show ?thesis using assms
    by (auto simp: execute_run_def pg_search_def refuse_run_def in_sql_update)
next
  case True
  obtain rts w1 where rts: "ctl_runtimes (pg_control cfg) w = (rts, w1)" by fastforce
  obtain ds w2 where ds: "decide_all (pg_control cfg) rts moment (cl_providers_attempted claim) w1 = (ds, w2)"
    by fastforce
  obtain sk w3 where sk: "record_skips (pg_control cfg) (cl_run_id claim) ds w2 = (sk, w3)" by fastforce
  obtain rr w4 where rr: "record_results (pg_search lib) (pg_control cfg) adapters policy claim
      (cost_by_provider ds) (utc_spend_date moment) (dispatch_results adapters (cl_seed_url claim) ds)
      [] 0 w3 = (rr, w4)" by fastforce
  have "search_runs w1 = search_runs w"
    using runtimes_runs [of cfg w] rts by (simp add: pg_control_def)
  moreover have "search_runs w2 = search_runs w1"
    using decide_all_runs [of cfg rts moment "cl_providers_attempted claim" w1] ds by simp
  moreover have "search_runs w3 = search_runs w2"
    using record_skips_runs [of cfg "cl_run_id claim" ds w2] sk by simp
  moreover have "search_runs w4 = search_runs w3"
    using record_results_runs [of lib cfg adapters policy claim "cost_by_provider ds"
        "utc_spend_date moment" "dispatch_results adapters (cl_seed_url claim) ds" "[]" 0 w3] rr by simp
  ultimately have runs: "search_runs w3 = search_runs w" "search_runs w4 = search_runs w" by simp_all
  show ?thesis
  proof (cases sk)
    case (Inl e)
    with assms True rts ds sk runs show ?thesis by (auto simp: execute_run_def)
  next
    case (Inr u)
    show ?thesis
    proof (cases rr)
      case (Inl e)
      with Inr assms True rts ds sk rr runs show ?thesis by (auto simp: execute_run_def)
    next
      case (Inr out)
      obtain succ n where out: "out = (succ, n)" by fastforce
      define cr where "cr = complete_run (cl_run_id claim) (cl_seed_id claim) succ
        (if should_retier (length succ)
         then Some \<lparr>ci_found_matches = n > 0, ci_now = moment, ci_policy = cadence\<rparr> else None)
        conf w4"
      have res: "(res, w') = (case cr of Inl e \<Rightarrow> (Inl e, w4)
          | Inr (_, w5) \<Rightarrow> (Inr \<lparr>ro_providers_succeeded = succ,
              ro_providers_skipped = map dec_provider_id (filter (\<lambda>d. \<not> is_dispatch d) ds),
              ro_matches_recorded = n\<rparr>, w5))"
        using assms True rts ds sk rr \<open>sk = Inr u\<close> Inr out
        by (simp add: execute_run_def cr_def pg_search_def)
      show ?thesis
      proof (cases cr)
        case (Inl e)
        with res runs show ?thesis by simp
      next
        case (Inr v)
        then obtain upd w5 where v: "cr = Inr (upd, w5)" by (cases v) simp
        from complete_run_runs [OF v [unfolded cr_def]] res v show ?thesis by simp
      qed
    qed
  qed
qed

lemma claim_run_rows:
  assumes "claim_run rid d = (Some c, d')" "unique_runs d"
  shows "cl_run_id c = rid \<and>
    (\<forall>r\<in>set (search_runs d'). run_id r = rid \<longrightarrow> run_status r = Running \<and> claimed_at r = Some (db_now d))"
proof -
  from assms(1) obtain r0 where r0: "r0 \<in> set (search_runs d)" "run_id r0 = rid" "run_claimable (db_now d) r0"
    and c: "cl_run_id c = run_id r0"
    and d': "search_runs d' = sql_update (\<lambda>r. run_id r = rid \<and> run_claimable (db_now d) r)
        (\<lambda>r. r\<lparr>run_status := Running, claimed_at := Some (db_now d)\<rparr>) (search_runs d)"
    by (auto simp: claim_run_def split: option.splits dest!: sql_first_SomeD)
  have uniq: "r = r0" if "r \<in> set (search_runs d)" "run_id r = rid" for r
    using assms(2) that r0 unfolding unique_runs_def
    by (metis distinct_map inj_onD)
  have "run_status r = Running \<and> claimed_at r = Some (db_now d)"
    if r: "r \<in> set (search_runs d')" "run_id r = rid" for r
  proof -
    from r(1) obtain q where q: "q \<in> set (search_runs d)"
      "r = (if run_id q = rid \<and> run_claimable (db_now d) q
            then q\<lparr>run_status := Running, claimed_at := Some (db_now d)\<rparr> else q)"
      unfolding d' in_sql_update by blast
    from q(2) have "run_id q = run_id r" by simp
    with r(2) have "run_id q = rid" by simp
    from uniq [OF q(1) this] q(2) r0(2,3) show ?thesis by simp
  qed
  with r0(2) c show ?thesis by simp
qed


section \<open>A provider deleted while a run waits\<close>

lemma decide_ids:
  "pr_provider_id ` set (providers (snd (decide (pg_control cfg) pid rt now w))) =
   pr_provider_id ` set (providers w)"
  by (auto simp: decide_def pg_control_def claim_half_open_probe_def invalidate_def Let_def
      map_sql_update simp flip: set_map split: option.split prod.split)

lemma decide_all_ids:
  "pr_provider_id ` set (providers (snd (decide_all (pg_control cfg) rts now pids w))) =
   pr_provider_id ` set (providers w)"
proof (induction pids arbitrary: w)
  case (Cons pid pids)
  then show ?case using decide_ids [of cfg pid "rts pid" now w]
    by (simp add: Let_def split: prod.split) (metis snd_conv)
qed simp

lemma decide_all_unknown:
  assumes "rts pid = None" "pid \<in> set pids"
  shows "\<exists>detail. Skip pid Provider_disabled detail \<in> set (fst (decide_all control rts now pids s))"
  using assms
proof (induction pids arbitrary: s)
  case (Cons p pids)
  show ?case
  proof (cases "p = pid")
    case True
    with Cons.prems(1) show ?thesis by (auto simp: decide_def split: prod.split)
  next
    case False
    obtain d s1 where d: "decide control p (rts p) now s = (d, s1)" by fastforce
    from False Cons obtain detail
      where "Skip pid Provider_disabled detail \<in> set (fst (decide_all control rts now pids s1))" by auto
    with d show ?thesis by (auto split: prod.split)
  qed
qed simp

lemma record_skips_unknown:
  assumes "Skip pid reason detail \<in> set ds" "pid \<notin> pr_provider_id ` set (providers w)"
  shows "\<exists>e. fst (record_skips (pg_control cfg) rid ds w) = Inl e"
  using assms
proof (induction ds arbitrary: w)
  case (Cons d ds)
  show ?case
  proof (cases d)
    case (Dispatch p c b)
    with Cons show ?thesis by simp
  next
    case (Skip p r t)
    show ?thesis
    proof (cases "ctl_record_skip (pg_control cfg) (Some rid) p r t w")
      case (Inl e)
      with Skip show ?thesis by simp
    next
      case (Inr w1)
      then have "providers w1 = providers w" and "p \<in> pr_provider_id ` set (providers w)"
        by (auto simp: pg_control_def record_skip_def insert_call_def skip_call_def runtime_of_def
            has_provider_def split: if_splits dest!: sql_first_SomeD)
      with Cons Skip Inr show ?thesis by auto
    qed
  qed
qed simp

text \<open>
  A provider whose row is gone does not let the run complete.  The guard chain turns it into a
  skip, as its comment says, but the skip's own call row needs the provider: the insert fails, the
  run ends in an exception and its message stays for redelivery, at every delivery.
\<close>

theorem deleted_provider_fails_run:
  assumes "cl_discovery_eligible claim" and "pid \<in> set (cl_providers_attempted claim)"
    and "pid \<notin> pr_provider_id ` set (providers w)" and "cached w = None"
  shows "(\<forall>control now s. \<exists>detail.
      fst (decide control pid (fst (runtimes cfg w) pid) now s) = Skip pid Provider_disabled detail) \<and>
    (\<exists>e. fst (execute_run claim adapters (pg_search lib) policy (pg_control cfg) cadence conf moment w) = Inl e)"
proof -
  have rts: "ctl_runtimes (pg_control cfg) w =
      (load_runtimes w, w\<lparr>cached := Some (load_runtimes w), cached_at := Some (monotonic w)\<rparr>)"
    using assms(4) by (simp add: pg_control_def runtimes_def)
  have none: "load_runtimes w pid = None"
    using assms(3) by (auto simp: load_runtimes_def runtime_of_def sql_first_None_iff has_provider_def)
  let ?w1 = "w\<lparr>cached := Some (load_runtimes w), cached_at := Some (monotonic w)\<rparr>"
  obtain ds w2 where ds: "decide_all (pg_control cfg) (load_runtimes w) moment
      (cl_providers_attempted claim) ?w1 = (ds, w2)" by fastforce
  have "pid \<notin> pr_provider_id ` set (providers w2)"
    using decide_all_ids [of cfg "load_runtimes w" moment "cl_providers_attempted claim" ?w1] ds assms(3)
    by simp
  moreover obtain detail where "Skip pid Provider_disabled detail \<in> set ds"
    using decide_all_unknown [of "load_runtimes w" pid "cl_providers_attempted claim" "pg_control cfg" moment ?w1]
      none assms(2) ds by auto
  ultimately obtain e where "fst (record_skips (pg_control cfg) (cl_run_id claim) ds w2) = Inl e"
    using record_skips_unknown by blast
  then have "fst (execute_run claim adapters (pg_search lib) policy (pg_control cfg) cadence conf moment w) = Inl e"
    using assms(1) rts ds by (cases "record_skips (pg_control cfg) (cl_run_id claim) ds w2")
      (simp add: execute_run_def)
  moreover have "fst (runtimes cfg w) pid = None" using rts none by (simp add: pg_control_def)
  ultimately show ?thesis by (auto simp: decide_def)
qed

section \<open>Witnesses\<close>

definition one_claim :: claimed_run where
  "one_claim = \<lparr>cl_run_id = 1, cl_seed_id = 2, cl_user_ref = 7, cl_seed_url = ''u'',
     cl_providers_attempted = [''hive''], cl_discovery_eligible = True\<rparr>"

definition run_process :: process where
  "run_process = process_of one_run_db"

lemmas run_demo_defs = one_claim_def run_process_def process_of_def one_run_db_def empty_db_def
  hive_row_def demo_cfg_def db.defs process.defs

lemma one_run_executes:
  "\<exists>out w'. execute_run one_claim (\<lambda>_. None) (pg_search lib) policy (pg_control demo_cfg) cadence conf
     (utc_datetime 0) run_process = (Inr out, w')"
  by (simp add: execute_run_def pg_control_def pg_search_def runtimes_def load_runtimes_def
      runtime_of_def has_provider_def decide_def verdict_def daily_spend_def spend_or_zero_def
      is_dispatch_def dispatch_results_def result_of_def missing_adapter_result_def
      record_outcome_def insert_call_def result_call_def one_run_def outcome_transition_def
      should_retier_def complete_run_def cadence_for_def run_demo_defs Let_def split: if_split)


theorem ineligible_run_is_refused_witness:
  "provider_calls (snd (execute_run (one_claim\<lparr>cl_discovery_eligible := False\<rparr>) (\<lambda>_. None)
     (pg_search ascii_lib) (\<lambda>_. None) (pg_control demo_cfg) undefined True (utc_datetime 0) run_process)) = []"
  using ineligible_run_is_refused [of "one_claim\<lparr>cl_discovery_eligible := False\<rparr>" "\<lambda>_. None" ascii_lib
      "\<lambda>_. None" demo_cfg undefined True "utc_datetime 0" run_process, OF _ surjective_pairing]
  by (simp add: run_demo_defs)

theorem deleted_provider_fails_run_witness:
  "\<exists>e. fst (execute_run (one_claim\<lparr>cl_providers_attempted := [''gone'']\<rparr>) (\<lambda>_. None)
     (pg_search ascii_lib) (\<lambda>_. None) (pg_control demo_cfg) undefined True (utc_datetime 0) run_process) = Inl e"
proof (rule deleted_provider_fails_run [THEN conjunct2])
  show "''gone'' \<notin> pr_provider_id ` set (providers run_process)"
    by (simp add: run_demo_defs)
qed (simp_all add: run_demo_defs)


end
