(* ===== verification/Triage.thy ===== *)
theory Triage
  imports Database "HOL-Library.Word"
begin

text \<open>
  The pure half of the confirm stage: the perceptual hash of \<^verbatim>\<open>confirm/phash.py\<close>, the
  severity table, the age tripwire and duplicate search of \<^verbatim>\<open>confirm/triage.py\<close>, and
  the reduction of the two Rekognition responses in \<^verbatim>\<open>confirm/moderation.py\<close>.

  Decoding and downscaling an image is Pillow's; the hash starts from its 9 by 8 grey pixels.
  Confidences, ages and scores are the provider's numbers, compared and never computed with.
\<close>

unbundle bit_operations_syntax

section \<open>The difference hash\<close>

definition HASH_SIZE :: nat where
  "HASH_SIZE = 8"

definition pixel_bits :: "nat list \<Rightarrow> bool list" where
  "pixel_bits pixels =
     concat (map (\<lambda>row. map (\<lambda>col.
         pixels ! (row * (HASH_SIZE + 1) + col) < pixels ! (row * (HASH_SIZE + 1) + col + 1))
       [0..<HASH_SIZE]) [0..<HASH_SIZE])"

definition shift_in :: "int \<Rightarrow> bool \<Rightarrow> int" where
  "shift_in bits b = 2 * bits + of_bool b"

definition signed_64 :: "int \<Rightarrow> int" where
  "signed_64 bits = (if 2 ^ 63 \<le> bits then bits - 2 ^ 64 else bits)"

text \<open>\<open>None\<close> is \<^verbatim>\<open>UndecodableImage\<close>: the pixels of the image could not be had.\<close>

definition dhash :: "nat list option \<Rightarrow> int option" where
  "dhash gray = map_option (\<lambda>pixels. signed_64 (foldl shift_in 0 (pixel_bits pixels))) gray"

text \<open>\<^verbatim>\<open>(x & _MASK).bit_count()\<close>: the mask keeps 64 bits of the two's complement.\<close>

definition bit_count_64 :: "int \<Rightarrow> nat" where
  "bit_count_64 x = length (filter (bit x) [0..<64])"

definition hamming :: "int \<Rightarrow> int \<Rightarrow> nat" where
  "hamming a b = bit_count_64 (a XOR b)"

definition bit_population :: "int \<Rightarrow> nat" where
  "bit_population h = bit_count_64 h"

section \<open>Moderation\<close>

record moderation_label =
  ml_name :: string
  ml_parent_name :: string
  ml_confidence :: rat

record moderation_signal =
  ms_labels :: "moderation_label list"
  ms_min_age_low :: "rat option"

text \<open>
  The two responses: each label's name, parent and confidence, absent fields read as empty or
  zero, and each face's lower age bound, absent in a face without one.
\<close>

definition assess_signal ::
  "(string option \<times> string option \<times> rat option) list \<Rightarrow> rat option list \<Rightarrow> moderation_signal" where
  "assess_signal raw_labels ages =
     (let lows = concat (map (\<lambda>a. case a of None \<Rightarrow> [] | Some l \<Rightarrow> [l]) ages) in
      \<lparr>ms_labels = map (\<lambda>(n, p, c).
           \<lparr>ml_name = case_option '''' id n, ml_parent_name = case_option '''' id p,
            ml_confidence = case_option 0 id c\<rparr>) raw_labels,
       ms_min_age_low = (if lows = [] then None else Some (foldr min lows (hd lows)))\<rparr>)"

section \<open>The decision table\<close>

fun severity_text :: "severity \<Rightarrow> string" where
  "severity_text Ncii_suspected = ''ncii_suspected''"
| "severity_text Explicit_unmatched = ''explicit_unmatched''"
| "severity_text Unassessed = ''unassessed''"
| "severity_text Benign_copy = ''benign_copy''"
| "severity_text Likely_not_subject = ''likely_not_subject''"

fun SEVERITY_RANK :: "severity \<Rightarrow> nat" where
  "SEVERITY_RANK Ncii_suspected = 0"
| "SEVERITY_RANK Explicit_unmatched = 1"
| "SEVERITY_RANK Unassessed = 2"
| "SEVERITY_RANK Benign_copy = 3"
| "SEVERITY_RANK Likely_not_subject = 4"

definition EXPLICIT_LABEL_PARENTS :: "string set" where
  "EXPLICIT_LABEL_PARENTS = {''Explicit Nudity'', ''Explicit''}"

definition EXPLICIT_MIN_CONFIDENCE :: rat where
  "EXPLICIT_MIN_CONFIDENCE = 80"

definition is_explicit :: "moderation_label list \<Rightarrow> bool" where
  "is_explicit labels \<longleftrightarrow>
     list_ex (\<lambda>l. (ml_name l \<in> EXPLICIT_LABEL_PARENTS \<or> ml_parent_name l \<in> EXPLICIT_LABEL_PARENTS) \<and>
        EXPLICIT_MIN_CONFIDENCE \<le> ml_confidence l) labels"

definition classify_severity :: "bool \<Rightarrow> rat option \<Rightarrow> rat \<Rightarrow> severity" where
  "classify_severity explicit score threshold =
     (let matched = (case score of None \<Rightarrow> False | Some s \<Rightarrow> threshold \<le> s) in
      if explicit \<and> matched then Ncii_suspected
      else if explicit then Explicit_unmatched
      else if matched then Benign_copy
      else Likely_not_subject)"

definition csam_quarantine :: "bool \<Rightarrow> rat option \<Rightarrow> rat \<Rightarrow> bool" where
  "csam_quarantine explicit min_age_low age_low_threshold \<longleftrightarrow>
     explicit \<and> (case min_age_low of None \<Rightarrow> False | Some a \<Rightarrow> a < age_low_threshold)"

section \<open>Duplicates\<close>

text \<open>The loop, with the best candidate and its distance so far.\<close>

fun find_duplicate_from ::
  "int \<Rightarrow> nat \<Rightarrow> (uuid \<times> nat) option \<Rightarrow> (uuid \<times> int) list \<Rightarrow> (uuid \<times> nat) option" where
  "find_duplicate_from h limit best [] = best"
| "find_duplicate_from h limit best ((c, p) # decided) =
     (let dist = hamming h p in
      find_duplicate_from h limit
        (if dist \<le> limit \<and> (case best of None \<Rightarrow> True | Some (_, b) \<Rightarrow> dist < b)
         then Some (c, dist) else best) decided)"

definition find_duplicate :: "int \<Rightarrow> (uuid \<times> int) list \<Rightarrow> nat \<Rightarrow> uuid option" where
  "find_duplicate h decided limit = map_option fst (find_duplicate_from h limit None decided)"

section \<open>The hash distance\<close>

lemma length_pixel_bits [simp]: "length (pixel_bits px) = 64"
  by (simp add: pixel_bits_def HASH_SIZE_def length_concat comp_def sum_list_triv)

lemma bit_shift_in: "bit (shift_in x b) n = (if n = 0 then b else bit x (n - 1))"
  by (cases n) (auto simp: shift_in_def bit_0 bit_Suc)

lemma bit_foldl_shift_in:
  "bit (foldl shift_in acc bs) n = (if n < length bs then rev bs ! n else bit acc (n - length bs))"
  by (induction bs arbitrary: n rule: rev_induct) (auto simp: bit_shift_in nth_append nth_Cons')

lemma foldl_shift_in_range: "0 \<le> acc \<Longrightarrow> 0 \<le> foldl shift_in acc bs \<and>
    foldl shift_in acc bs < (acc + 1) * 2 ^ length bs"
proof (induction bs rule: rev_induct)
  case (snoc b bs)
  then show ?case by (auto simp: shift_in_def)
qed simp

lemma bit_signed_64: "n < 64 \<Longrightarrow> bit (signed_64 x) n = bit x n"
proof -
  assume n: "n < 64"
  have "take_bit 64 (x - 2 ^ 64) = take_bit 64 x"
    by (simp add: take_bit_eq_mod)
  then have "bit (take_bit 64 (x - 2 ^ 64)) n = bit (take_bit 64 x) n" by simp
  with n show ?thesis by (simp add: signed_64_def bit_take_bit_iff)
qed

lemma hamming_bits: "hamming a b = length (filter (\<lambda>n. bit a n \<noteq> bit b n) [0..<64])"
  unfolding hamming_def bit_count_64_def by (intro arg_cong [of _ _ length] filter_cong) (auto simp: bit_xor_iff)

lemma length_filter_nth:
  assumes "length xs = n" "length ys = n"
  shows "length (filter (\<lambda>i. xs ! i \<noteq> ys ! i) [0..<n]) = length (filter (\<lambda>(x, y). x \<noteq> y) (zip xs ys))"
proof -
  have "zip xs ys = map (\<lambda>i. (xs ! i, ys ! i)) [0..<n]"
    using assms by (intro nth_equalityI) auto
  then show ?thesis by (simp add: filter_map comp_def)
qed

lemma hamming_dhash:
  "hamming (signed_64 (foldl shift_in 0 (pixel_bits p))) (signed_64 (foldl shift_in 0 (pixel_bits q))) =
   length (filter (\<lambda>(x, y). x \<noteq> y) (zip (pixel_bits p) (pixel_bits q)))"
proof -
  have "hamming (signed_64 (foldl shift_in 0 (pixel_bits p))) (signed_64 (foldl shift_in 0 (pixel_bits q))) =
      length (filter (\<lambda>i. rev (pixel_bits p) ! i \<noteq> rev (pixel_bits q) ! i) [0..<64])"
    unfolding hamming_bits by (intro arg_cong [of _ _ length] filter_cong)
      (auto simp: bit_signed_64 bit_foldl_shift_in)
  also have "\<dots> = length (filter (\<lambda>(x, y). x \<noteq> y) (zip (rev (pixel_bits p)) (rev (pixel_bits q))))"
    by (rule length_filter_nth) simp_all
  also have "zip (rev (pixel_bits p)) (rev (pixel_bits q)) = rev (zip (pixel_bits p) (pixel_bits q))"
    by (simp add: zip_rev)
  finally show ?thesis by (simp flip: rev_filter)
qed

lemma hamming_le: "hamming a b \<le> 64"
  unfolding hamming_bits using length_filter_le [of _ "[0..<64]"] by simp

lemma hamming_commute: "hamming a b = hamming b a"
  unfolding hamming_bits by (simp add: eq_commute)

lemma hamming_triangle: "hamming a c \<le> hamming a b + hamming b c"
proof -
  have "length (filter (\<lambda>n. bit a n \<noteq> bit c n) ns) \<le>
      length (filter (\<lambda>n. bit a n \<noteq> bit b n) ns) + length (filter (\<lambda>n. bit b n \<noteq> bit c n) ns)" for ns
    by (induction ns) auto
  then show ?thesis by (simp add: hamming_bits)
qed

lemma hamming_0:
  assumes "- (2 ^ 63) \<le> a" "a < 2 ^ 63" "- (2 ^ 63) \<le> b" "b < 2 ^ 63"
  shows "hamming a b = 0 \<longleftrightarrow> a = b"
proof
  assume "hamming a b = 0"
  then have "\<forall>n<64. bit a n = bit b n" by (simp add: hamming_bits filter_empty_conv)
  then have "take_bit 64 a = take_bit 64 b" by (intro bit_eqI) (auto simp: bit_take_bit_iff)
  then have "(a - b) mod 2 ^ 64 = 0" by (simp add: take_bit_eq_mod mod_eq_dvd_iff)
  then obtain k where k: "a - b = 2 ^ 64 * k" by auto
  with assms have "- (2 ^ 64) < 2 ^ 64 * k" "2 ^ 64 * k < 2 ^ 64" by auto
  then have "k = 0" by auto
  with k show "a = b" by simp
next
  show "a = b \<Longrightarrow> hamming a b = 0" by (simp add: hamming_bits)
qed

lemma dhash_range:
  assumes "dhash (Some px) = Some h"
  shows "- (2 ^ 63) \<le> h \<and> h < 2 ^ 63"
  using assms foldl_shift_in_range [of 0 "pixel_bits px"] by (auto simp: dhash_def signed_64_def)

text \<open>
  The hash distance means something.  A hash of an image fits the signed 64-bit column; the
  distance between the hashes of two images is the number of the 64 places where their gradient
  signs differ, although the hashes are stored with a sign; on the column's values the distance is
  a metric, at most 64.
\<close>

theorem hash_distance_counts_gradients:
  assumes "dhash (Some p) = Some h" and "dhash (Some q) = Some k"
    and "- (2 ^ 63) \<le> l" and "l < (2 ^ 63 :: int)"
  shows "- (2 ^ 63) \<le> h \<and> h < 2 ^ 63 \<and>
    hamming h k = length (filter (\<lambda>(x, y). x \<noteq> y) (zip (pixel_bits p) (pixel_bits q))) \<and>
    (hamming h l = 0 \<longleftrightarrow> h = l) \<and> hamming h l = hamming l h \<and> hamming h l \<le> 64 \<and>
    hamming h k \<le> hamming h l + hamming l k"
proof -
  have "h = signed_64 (foldl shift_in 0 (pixel_bits p))" "k = signed_64 (foldl shift_in 0 (pixel_bits q))"
    using assms by (simp_all add: dhash_def)
  then have "hamming h k = length (filter (\<lambda>(x, y). x \<noteq> y) (zip (pixel_bits p) (pixel_bits q)))"
    by (simp only: hamming_dhash)
  moreover note range = dhash_range [OF assms(1), THEN conjunct1] dhash_range [OF assms(1), THEN conjunct2]
  moreover note hamming_0 [OF range assms(3,4)]
  ultimately show ?thesis by (intro conjI hamming_commute hamming_le hamming_triangle)
qed

theorem hash_distance_counts_gradients_witness:
  "\<exists>h k. dhash (Some (replicate 72 0)) = Some h \<and> dhash (Some [0..<72]) = Some k \<and>
     hamming h k = length (filter (\<lambda>(x, y). x \<noteq> y)
       (zip (pixel_bits (replicate 72 0)) (pixel_bits [0..<72])))"
proof -
  obtain h k where h: "dhash (Some (replicate 72 0)) = Some h" and k: "dhash (Some [0..<72]) = Some k"
    by (simp add: dhash_def)
  from hash_distance_counts_gradients [OF h k, of 0] h k show ?thesis by simp
qed

section \<open>Duplicate search\<close>

lemma find_duplicate_from_None:
  "find_duplicate_from h limit best ds = None \<longleftrightarrow>
     best = None \<and> (\<forall>q\<in>set ds. limit < hamming h (snd q))"
proof (induction ds arbitrary: best)
  case (Cons q ds)
  obtain c p where "q = (c, p)" by fastforce
  with Cons.IH show ?case by (cases best) (simp_all add: Let_def not_le)
qed simp

text \<open>\<open>nearest_in\<close>: the first entry of a list at the least distance, with that distance.\<close>

definition nearest_in :: "int \<Rightarrow> uuid \<Rightarrow> nat \<Rightarrow> (uuid \<times> int) list \<Rightarrow> bool" where
  "nearest_in h c d ds \<longleftrightarrow>
     (\<exists>pre p post. ds = pre @ (c, p) # post \<and> d = hamming h p \<and>
        (\<forall>q\<in>set pre. d < hamming h (snd q)) \<and> (\<forall>q\<in>set post. d \<le> hamming h (snd q)))"

lemma nearest_in_here:
  "\<forall>q\<in>set ds. hamming h p \<le> hamming h (snd q) \<Longrightarrow> nearest_in h c (hamming h p) ((c, p) # ds)"
  unfolding nearest_in_def by (intro exI [of _ "[]"] exI [of _ p] exI [of _ ds]) simp

lemma nearest_in_later:
  assumes "nearest_in h c d ds" "d < hamming h (snd q)"
  shows "nearest_in h c d (q # ds)"
proof -
  from assms(1) obtain pre p post where "ds = pre @ (c, p) # post" "d = hamming h p"
    "\<forall>q\<in>set pre. d < hamming h (snd q)" "\<forall>q\<in>set post. d \<le> hamming h (snd q)"
    unfolding nearest_in_def by blast
  with assms(2) show ?thesis unfolding nearest_in_def
    by (intro exI [of _ "q # pre"] exI [of _ p] exI [of _ post]) simp
qed

lemma find_duplicate_from_keep:
  "find_duplicate_from h limit (Some (c, d)) ds = Some (c', d') \<Longrightarrow> d \<le> limit \<Longrightarrow>
     c' = c \<and> d' = d \<and> (\<forall>q\<in>set ds. d \<le> hamming h (snd q)) \<or> nearest_in h c' d' ds \<and> d' < d"
proof (induction ds arbitrary: c d)
  case (Cons q ds)
  obtain c1 p1 where q: "q = (c1, p1)" by fastforce
  show ?case
  proof (cases "hamming h p1 < d")
    case True
    with Cons.prems q have "find_duplicate_from h limit (Some (c1, hamming h p1)) ds = Some (c', d')"
      by (simp add: Let_def)
    from Cons.IH [OF this] True Cons.prems(2) q nearest_in_here [of ds h p1 c1]
      nearest_in_later [of h c' d' ds q] show ?thesis by auto
  next
    case False
    with Cons.prems q have "find_duplicate_from h limit (Some (c, d)) ds = Some (c', d')"
      by (simp add: Let_def)
    from Cons.IH [OF this Cons.prems(2)] False q nearest_in_later [of h c' d' ds q]
    show ?thesis by auto
  qed
qed simp

lemma find_duplicate_from_first:
  "find_duplicate_from h limit None ds = Some (c, d) \<Longrightarrow> nearest_in h c d ds \<and> d \<le> limit"
proof (induction ds)
  case (Cons q ds)
  obtain c1 p1 where q: "q = (c1, p1)" by fastforce
  show ?case
  proof (cases "hamming h p1 \<le> limit")
    case True
    with Cons.prems q have "find_duplicate_from h limit (Some (c1, hamming h p1)) ds = Some (c, d)"
      by (simp add: Let_def)
    from find_duplicate_from_keep [OF this True] True q nearest_in_here [of ds h p1 c1]
      nearest_in_later [of h c d ds q] show ?thesis by auto
  next
    case False
    with Cons.prems q have "find_duplicate_from h limit None ds = Some (c, d)" by (simp add: Let_def)
    from Cons.IH [OF this] False q nearest_in_later [of h c d ds q] show ?thesis by auto
  qed
qed simp

text \<open>
  A duplicate is the nearest decided image.  Nothing is a duplicate exactly when every decided
  hash is further than the limit; otherwise the answer is a candidate within the limit that no
  other candidate is closer than, and the first of those at its distance.
\<close>

theorem find_duplicate_nearest:
  "(find_duplicate h ds limit = None \<longleftrightarrow> (\<forall>q\<in>set ds. limit < hamming h (snd q))) \<and>
   (\<forall>c. find_duplicate h ds limit = Some c \<longrightarrow>
      (\<exists>pre p post. ds = pre @ (c, p) # post \<and> hamming h p \<le> limit \<and>
         (\<forall>q\<in>set pre. hamming h p < hamming h (snd q)) \<and>
         (\<forall>q\<in>set post. hamming h p \<le> hamming h (snd q))))"
proof (intro conjI allI impI)
  show "find_duplicate h ds limit = None \<longleftrightarrow> (\<forall>q\<in>set ds. limit < hamming h (snd q))"
    by (simp add: find_duplicate_def find_duplicate_from_None)
  fix c
  assume "find_duplicate h ds limit = Some c"
  then obtain d where "find_duplicate_from h limit None ds = Some (c, d)"
    by (auto simp: find_duplicate_def)
  from find_duplicate_from_first [OF this, unfolded nearest_in_def] show "\<exists>pre p post. ds = pre @ (c, p) # post \<and>
      hamming h p \<le> limit \<and> (\<forall>q\<in>set pre. hamming h p < hamming h (snd q)) \<and>
      (\<forall>q\<in>set post. hamming h p \<le> hamming h (snd q))" by blast
qed

theorem find_duplicate_nearest_witness:
  "find_duplicate 0 [(1, 7), (2, 1), (3, 2)] 4 = Some 2 \<and>
   (\<exists>pre p post. [(1, 7), (2, 1), (3, 2)] = pre @ (2 :: nat, p) # post \<and> hamming 0 p \<le> 4)"
proof -
  have "find_duplicate 0 [(1, 7), (2, 1), (3, 2)] 4 = Some 2" by code_simp
  with find_duplicate_nearest [of 0 "[(1, 7), (2, 1), (3, 2)]" 4] show ?thesis by blast
qed

end
