(* ===== verification/Confirm_Store.thy ===== *)
theory Confirm_Store
  imports Triage Search_Store
begin

text \<open>
  The Postgres store of the confirm stage (\<^verbatim>\<open>src/imageshield/confirm/store.py\<close>).  Every write
  is one transaction.  The guarded writes fire only on a hit still open to a machine decision and
  return silently otherwise; \<^verbatim>\<open>record_skipped\<close> never looks at the state of the hit.
\<close>

definition AUTO_CONFIRM_DECIDED_BY :: string where
  "AUTO_CONFIRM_DECIDED_BY = ''auto:nsfw''"

definition AUTO_CONFIRM_SEVERITY :: severity where
  "AUTO_CONFIRM_SEVERITY = Ncii_suspected"

definition REKOGNITION_CONFIRM_ID :: provider_id where
  "REKOGNITION_CONFIRM_ID = ''rekognition_confirm''"

definition CONFIRM_QUARANTINED_ACTION :: string where
  "CONFIRM_QUARANTINED_ACTION = ''confirm.quarantined''"

definition CONFIRM_AUTO_CONFIRMED_ACTION :: string where
  "CONFIRM_AUTO_CONFIRMED_ACTION = ''confirm.auto_confirmed''"

section \<open>Reads\<close>

record confirm_context =
  ctx_infringement_id :: uuid
  ctx_user_ref :: user_ref
  ctx_confirm_state :: confirm_state
  ctx_image_url :: "string option"
  ctx_page_url :: string
  ctx_run_id :: "uuid option"

text \<open>
  The order of the representative attestation: band, score descending with \<^verbatim>\<open>NULL\<close> last
  (\<^verbatim>\<open>NaN\<close> is the greatest numeric), provider.
\<close>

definition band_rank :: "string \<Rightarrow> nat" where
  "band_rank b = (if b = ''auto_confirm'' then 0 else if b = ''review'' then 1 else 2)"

fun score_rank :: "decimal option \<Rightarrow> nat \<times> rat" where
  "score_rank (Some Dec_nan) = (0, 0)"
| "score_rank (Some (Dec_infinity positive)) = (if positive then (1, 0) else (3, 0))"
| "score_rank (Some (Dec x)) = (2, - x)"
| "score_rank None = (4, 0)"

definition rep_rank :: "attestation \<Rightarrow> nat \<times> (nat \<times> rat) \<times> string" where
  "rep_rank a = (band_rank (at_band a), score_rank (at_provider_score a), at_provider_id a)"

definition representative :: "uuid \<Rightarrow> 'a db_scheme \<Rightarrow> attestation option" where
  "representative iid d =
     sql_first (\<lambda>_. True)
       (sort_key rep_rank (filter (\<lambda>a. at_infringement_id a = iid) (attestations d)))"

definition hit_of :: "uuid \<Rightarrow> 'a db_scheme \<Rightarrow> infringement option" where
  "hit_of iid d = sql_first (\<lambda>i. infringement_id i = iid) (infringements d)"

definition load_context :: "uuid \<Rightarrow> 'a db_scheme \<Rightarrow> confirm_context option" where
  "load_context iid d =
     map_option (\<lambda>i.
       \<lparr>ctx_infringement_id = infringement_id i, ctx_user_ref = inf_user_ref i,
        ctx_confirm_state = confirm_state i, ctx_image_url = image_url i, ctx_page_url = page_url i,
        ctx_run_id = (case representative iid d of None \<Rightarrow> None | Some a \<Rightarrow> last_run_id a)\<rparr>)
       (hit_of iid d)"

definition decided_phashes :: "user_ref \<Rightarrow> 'a db_scheme \<Rightarrow> (uuid \<times> int) list" where
  "decided_phashes user d =
     concat (map (\<lambda>i. case phash i of None \<Rightarrow> [] | Some p \<Rightarrow> [(infringement_id i, p)])
       (sort_key infringement_id
         (filter (\<lambda>i. inf_user_ref i = user \<and> confirm_state i \<in> {Confirmed, Rejected})
           (infringements d))))"

section \<open>The guarded update and the task upsert\<close>

definition open_to_machine :: "infringement \<Rightarrow> bool" where
  "open_to_machine i \<longleftrightarrow> confirm_state i = Unconfirmed \<or> confirm_state i = Machine_triaged"

text \<open>\<^verbatim>\<open>UPDATE .. WHERE open RETURNING user_ref\<close>; \<open>None\<close> is a row count of zero.\<close>

definition guarded_update ::
  "uuid \<Rightarrow> (infringement \<Rightarrow> infringement) \<Rightarrow> 'a db_scheme \<Rightarrow> exn + user_ref option \<times> 'a db_scheme" where
  "guarded_update iid f d =
     (case sql_first (\<lambda>i. infringement_id i = iid \<and> open_to_machine i) (infringements d) of
        None \<Rightarrow> Inr (None, d)
      | Some i \<Rightarrow>
          (case update_infringements (\<lambda>i. infringement_id i = iid \<and> open_to_machine i) f d of
             Inl e \<Rightarrow> Inl e
           | Inr d1 \<Rightarrow> Inr (Some (inf_user_ref i), d1)))"

text \<open>
  \<^verbatim>\<open>INSERT .. ON CONFLICT (infringement_id) DO UPDATE .. WHERE status = 'pending'\<close>.  The
  quarantine's statement also sets the status; the shared one leaves it pending.
\<close>

definition merge_task :: "review_task \<Rightarrow> review_task \<Rightarrow> review_task" where
  "merge_task new t =
     (if task_status t = Pending
      then t\<lparr>task_severity := task_severity new, task_triage := task_triage new,
             task_status := task_status new\<rparr>
      else t)"

definition upsert_task ::
  "uuid \<Rightarrow> user_ref \<Rightarrow> severity \<Rightarrow> json \<Rightarrow> task_status \<Rightarrow> 'a db_scheme \<Rightarrow> 'a db_scheme" where
  "upsert_task iid user sev triage status d =
     (let new = \<lparr>task_id = db_fresh d, task_infringement_id = iid, task_user_ref = user,
                 task_severity = sev, task_triage = triage, task_status = status,
                 task_decision = None, task_decided_by = None, task_decided_at = None,
                 task_created_at = db_now d\<rparr>
      in d\<lparr>db_fresh := Suc (db_fresh d),
           review_tasks := sql_upsert (\<lambda>t. task_infringement_id t = task_infringement_id new)
             (merge_task new) new (review_tasks d)\<rparr>)"

interpretation task_table: upsert_table task_infringement_id merge_task "\<lambda>t. t"
  by unfold_locales (simp add: merge_task_def)

definition service_audit :: "string \<Rightarrow> user_ref \<Rightarrow> uuid \<Rightarrow> json \<Rightarrow> 'a db_scheme \<Rightarrow> 'a db_scheme" where
  "service_audit act user iid md d =
     insert_audit (audit_entry ''service'' act (Some user) (Some iid) md d) d"

section \<open>Writes\<close>

definition record_duplicate :: "uuid \<Rightarrow> uuid \<Rightarrow> int \<Rightarrow> 'a db_scheme \<Rightarrow> exn + 'a db_scheme" where
  "record_duplicate iid source new_phash d =
     (case guarded_update iid
             (\<lambda>i. i\<lparr>confirm_state := Duplicate, duplicate_of := Some source, phash := Some new_phash\<rparr>) d of
        Inl e \<Rightarrow> Inl e
      | Inr (None, _) \<Rightarrow> Inr d
      | Inr (Some _, d1) \<Rightarrow>
          if hit_of source d1 = None then Inl (ForeignKeyViolation ''infringements_duplicate_of_fkey'')
          else Inr (d1\<lparr>review_tasks :=
                 sql_delete (\<lambda>t. task_infringement_id t = iid \<and> task_status t = Pending)
                   (review_tasks d1)\<rparr>))"

definition label_json :: "moderation_label \<Rightarrow> json" where
  "label_json l = JObj [(''name'', JStr (ml_name l)), (''parent_name'', JStr (ml_parent_name l)),
                        (''confidence'', JNum (ml_confidence l))]"

definition labels_json :: "moderation_label list \<Rightarrow> json" where
  "labels_json ls = JArr (map label_json ls)"

definition record_quarantine ::
  "uuid \<Rightarrow> int option \<Rightarrow> moderation_label list \<Rightarrow> rat option \<Rightarrow> 'a db_scheme \<Rightarrow> exn + 'a db_scheme" where
  "record_quarantine iid new_phash labels min_age_low d =
     (case guarded_update iid
             (\<lambda>i. i\<lparr>confirm_state := Quarantined, phash := new_phash,
                    moderation_labels := Some (labels_json labels)\<rparr>) d of
        Inl e \<Rightarrow> Inl e
      | Inr (None, _) \<Rightarrow> Inr d
      | Inr (Some user, d1) \<Rightarrow>
          Inr (service_audit CONFIRM_QUARANTINED_ACTION user iid
                 (JObj [(''min_age_low'', json_opt JNum min_age_low)])
                 (upsert_task iid user Ncii_suspected
                   (JObj [(''quarantine'', JBool True), (''min_age_low'', json_opt JNum min_age_low)])
                   Task_quarantined d1)))"

definition triaged ::
  "severity \<Rightarrow> int option \<Rightarrow> rat option \<Rightarrow> moderation_label list option \<Rightarrow> infringement \<Rightarrow> infringement" where
  "triaged sev new_phash score labels i =
     i\<lparr>confirm_state := Machine_triaged, inf_severity := Some sev, phash := new_phash,
       face_match_score := score, moderation_labels := map_option labels_json labels\<rparr>"

definition record_triage ::
  "uuid \<Rightarrow> severity \<Rightarrow> int option \<Rightarrow> rat option \<Rightarrow> moderation_label list option
     \<Rightarrow> (string \<times> json) list \<Rightarrow> 'a db_scheme \<Rightarrow> exn + 'a db_scheme" where
  "record_triage iid sev new_phash score labels triage d =
     (case numeric_5_2 score of
        Inl e \<Rightarrow> Inl e
      | Inr stored \<Rightarrow>
          (case guarded_update iid (triaged sev new_phash stored labels) d of
             Inl e \<Rightarrow> Inl e
           | Inr (None, _) \<Rightarrow> Inr d
           | Inr (Some user, d1) \<Rightarrow> Inr (upsert_task iid user sev (JObj triage) Pending d1)))"

definition auto_confirmed ::
  "instant \<Rightarrow> int option \<Rightarrow> rat option \<Rightarrow> moderation_label list option \<Rightarrow> infringement \<Rightarrow> infringement" where
  "auto_confirmed now new_phash score labels i =
     i\<lparr>confirm_state := Confirmed, inf_severity := Some AUTO_CONFIRM_SEVERITY, phash := new_phash,
       face_match_score := score, moderation_labels := map_option labels_json labels,
       confirm_decided_by := Some AUTO_CONFIRM_DECIDED_BY, confirm_decided_at := Some now\<rparr>"

definition record_auto_confirmed ::
  "uuid \<Rightarrow> int option \<Rightarrow> rat option \<Rightarrow> moderation_label list option \<Rightarrow> (string \<times> json) list
     \<Rightarrow> 'a db_scheme \<Rightarrow> exn + 'a db_scheme" where
  "record_auto_confirmed iid new_phash score labels triage d =
     (case numeric_5_2 score of
        Inl e \<Rightarrow> Inl e
      | Inr stored \<Rightarrow>
          (case guarded_update iid (auto_confirmed (db_now d) new_phash stored labels) d of
             Inl e \<Rightarrow> Inl e
           | Inr (None, _) \<Rightarrow> Inr d
           | Inr (Some user, d1) \<Rightarrow>
               Inr (service_audit CONFIRM_AUTO_CONFIRMED_ACTION user iid
                      (JObj [(''severity'', JStr (severity_text AUTO_CONFIRM_SEVERITY)),
                             (''face_match_score'', json_opt JNum score),
                             (''decided_by'', JStr AUTO_CONFIRM_DECIDED_BY)])
                      (upsert_task iid user AUTO_CONFIRM_SEVERITY
                        (JObj (triage @ [(''auto_confirmed'', JBool True)])) Pending d1))))"

definition record_unfetchable :: "uuid \<Rightarrow> string \<Rightarrow> 'a db_scheme \<Rightarrow> exn + 'a db_scheme" where
  "record_unfetchable iid detail d =
     (case guarded_update iid
             (\<lambda>i. i\<lparr>confirm_state := Machine_triaged, inf_severity := Some Unassessed\<rparr>) d of
        Inl e \<Rightarrow> Inl e
      | Inr (None, _) \<Rightarrow> Inr d
      | Inr (Some user, d1) \<Rightarrow>
          Inr (upsert_task iid user Unassessed (JObj [(''unfetchable'', JStr detail)]) Pending d1))"

definition record_preview_image_url :: "uuid \<Rightarrow> string \<Rightarrow> 'a db_scheme \<Rightarrow> 'a db_scheme" where
  "record_preview_image_url iid url d =
     d\<lparr>infringements := sql_update (\<lambda>i. infringement_id i = iid)
        (\<lambda>i. i\<lparr>preview_image_url := Some url\<rparr>) (infringements d)\<rparr>"

definition record_skipped :: "uuid \<Rightarrow> string \<Rightarrow> string \<Rightarrow> 'a db_scheme \<Rightarrow> 'a db_scheme" where
  "record_skipped iid reason detail d =
     (case hit_of iid d of
        None \<Rightarrow> d
      | Some i \<Rightarrow>
          upsert_task iid (inf_user_ref i) Unassessed
            (JObj [(''skipped'', JStr reason), (''detail'', JStr detail)]) Pending d)"

end
