(* ===== verification/Identifiers.thy ===== *)
theory Identifiers
  imports Urlhash
begin

text \<open>
  The identifier parsers of \<^verbatim>\<open>src/imageshield/types.py\<close>, on ASCII text, with the parts of the
  standard library they call: \<^verbatim>\<open>uuid.UUID(text)\<close> and \<^verbatim>\<open>int(text, 16)\<close>.  A UUID is the
  number it stands for; \<open>show_uuid\<close> is \<^verbatim>\<open>str(uuid)\<close>.  \<open>None\<close> is \<^verbatim>\<open>ValueError\<close>.
\<close>

section \<open>The standard library\<close>

text \<open>\<^verbatim>\<open>s.replace(p, '')\<close> for a non-empty \<open>p\<close>.\<close>

function remove_all :: "string \<Rightarrow> string \<Rightarrow> string" where
  "remove_all p [] = []"
| "remove_all p (c # cs) =
     (if p \<noteq> [] \<and> starts_with p (c # cs) then remove_all p (drop (length p) (c # cs))
      else c # remove_all p cs)"
  by pat_completeness auto
termination by (relation "measure (length \<circ> snd)") auto

definition strip_of :: "char set \<Rightarrow> string \<Rightarrow> string" where
  "strip_of cs s = rev (dropWhile (\<lambda>c. c \<in> cs) (rev (dropWhile (\<lambda>c. c \<in> cs) s)))"

text \<open>Hexadecimal digits with single underscores between them; the flag is \<^verbatim>\<open>a digit came last\<close>.\<close>

fun hex_digits :: "nat \<Rightarrow> bool \<Rightarrow> string \<Rightarrow> nat option" where
  "hex_digits acc ok [] = (if ok then Some acc else None)"
| "hex_digits acc ok (c # cs) =
     (if c = CHR ''_'' then if ok then hex_digits acc False cs else None
      else case hex_value c of
             None \<Rightarrow> None
           | Some v \<Rightarrow> hex_digits (16 * acc + v) True cs)"

definition drop_hex_prefix :: "string \<Rightarrow> string" where
  "drop_hex_prefix s =
     (case s of
        z # x # r \<Rightarrow>
          if z = CHR ''0'' \<and> (x = CHR ''x'' \<or> x = CHR ''X'')
          then (case r of u # r' \<Rightarrow> if u = CHR ''_'' then r' else r | [] \<Rightarrow> [])
          else s
      | _ \<Rightarrow> s)"

text \<open>\<^verbatim>\<open>int(s, 16)\<close> of a text without a minus sign.\<close>

definition int_16 :: "string \<Rightarrow> nat option" where
  "int_16 s =
     (let t = py_strip s;
          u = (case t of c # r \<Rightarrow> if c = CHR ''+'' then r else t | [] \<Rightarrow> [])
      in hex_digits 0 False (drop_hex_prefix u))"

definition uuid_of_text :: "string \<Rightarrow> uuid option" where
  "uuid_of_text s =
     (let hex = remove_all ''-'' (strip_of {CHR ''{'', CHR ''}''} (remove_all ''uuid:'' (remove_all ''urn:'' s)))
      in if length hex \<noteq> 32 then None else int_16 hex)"

fun hex_pad :: "nat \<Rightarrow> nat \<Rightarrow> string" where
  "hex_pad 0 n = []"
| "hex_pad (Suc k) n = hex_pad k (n div 16) @ [hex_digit (n mod 16)]"

definition show_uuid :: "uuid \<Rightarrow> string" where
  "show_uuid u =
     (let h = hex_pad 32 u in
      take 8 h @ ''-'' @ take 4 (drop 8 h) @ ''-'' @ take 4 (drop 12 h) @ ''-'' @ take 4 (drop 16 h) @
      ''-'' @ drop 20 h)"

section \<open>The parsers\<close>

definition parse_uuid :: "string \<Rightarrow> uuid option" where
  "parse_uuid value = uuid_of_text (py_strip value)"

definition parse_user_ref :: "string \<Rightarrow> user_ref option" where
  "parse_user_ref value = parse_uuid value"

definition parse_session_id :: "string \<Rightarrow> uuid option" where
  "parse_session_id value = parse_uuid value"

definition is_lower :: "char \<Rightarrow> bool" where
  "is_lower c \<longleftrightarrow> (let n = of_char c :: nat in 97 \<le> n \<and> n \<le> 122)"

definition slug_char :: "char \<Rightarrow> bool" where
  "slug_char c \<longleftrightarrow> is_lower c \<or> is_digit c \<or> c = CHR ''_'' \<or> c = CHR ''-''"

definition parse_provider_id :: "string \<Rightarrow> provider_id option" where
  "parse_provider_id value =
     (case value of
        [] \<Rightarrow> None
      | c # cs \<Rightarrow>
          if is_lower c \<and> 1 \<le> length cs \<and> length cs \<le> 63 \<and> list_all slug_char cs
          then Some value else None)"

definition lower_hex :: "char \<Rightarrow> bool" where
  "lower_hex c \<longleftrightarrow> is_digit c \<or> (let n = of_char c :: nat in 97 \<le> n \<and> n \<le> 102)"

definition parse_url_hash :: "string \<Rightarrow> url_hash option" where
  "parse_url_hash value =
     (let normalised = py_lower value in
      if length normalised = 64 \<and> list_all lower_hex normalised then Some normalised else None)"

section \<open>What the text of a UUID is made of\<close>

lemma of_char_hex_digit: "n < 16 \<Longrightarrow> of_char (hex_digit n) = (if n < 10 then 48 + n else 87 + n)"
  by (simp add: hex_digit_def of_char_of)

lemma char_neq: "(of_char c :: nat) \<noteq> of_char d \<Longrightarrow> c \<noteq> d"
  by blast

lemma hex_digit_cases:
  assumes "n < 16"
  shows "hex_value (hex_digit n) = Some n" "lower_hex (hex_digit n)"
    and "hex_digit n \<notin> set ''-_:{}+xXu''" "\<not> is_space (hex_digit n)"
  using assms by (auto simp: hex_value_def lower_hex_def is_digit_def is_space_def of_char_hex_digit Let_def
      dest!: arg_cong [of _ _ "of_char :: char \<Rightarrow> nat"] split: if_splits)

lemma hex_pad_set: "c \<in> set (hex_pad k n) \<Longrightarrow> \<exists>d<16. c = hex_digit d"
proof (induction k arbitrary: n)
  case (Suc k)
  moreover have "\<exists>d<16. hex_digit (n mod 16) = hex_digit d" by (rule exI [of _ "n mod 16"]) simp
  ultimately show ?case by (cases "c \<in> set (hex_pad k (n div 16))") auto
qed simp

lemma length_hex_pad [simp]: "length (hex_pad k n) = k"
  by (induction k arbitrary: n) simp_all

lemma hex_digits_pad:
  "\<forall>c\<in>set s. \<exists>d<16. c = hex_digit d \<Longrightarrow> s \<noteq> [] \<or> ok \<Longrightarrow> d < 16 \<Longrightarrow>
     \<exists>v. hex_digits acc ok s = Some v \<and> hex_digits acc ok (s @ [hex_digit d]) = Some (16 * v + d)"
proof (induction s arbitrary: acc ok)
  case Nil
  then show ?case using hex_digit_cases [of d] by auto
next
  case (Cons c s)
  then obtain e where e: "e < 16" "c = hex_digit e" by auto
  from Cons.IH [of True "16 * acc + e"] Cons.prems
  obtain v where "hex_digits (16 * acc + e) True s = Some v"
    "hex_digits (16 * acc + e) True (s @ [hex_digit d]) = Some (16 * v + d)" by auto
  with e hex_digit_cases [OF e(1)] show ?case by auto
qed

lemma hex_digits_hex_pad: "hex_digits 0 False (hex_pad (Suc k) n) = Some (n mod 16 ^ Suc k)"
proof (induction k arbitrary: n)
  case 0
  have "n mod 16 < 16" by simp
  from hex_digit_cases(1,3) [OF this] show ?case by simp
next
  case (Suc k)
  have "\<forall>c\<in>set (hex_pad (Suc k) (n div 16)). \<exists>d<16. c = hex_digit d" using hex_pad_set by blast
  moreover have "hex_pad (Suc k) (n div 16) \<noteq> []" by simp
  ultimately obtain v where "hex_digits 0 False (hex_pad (Suc k) (n div 16)) = Some v"
    "hex_digits 0 False (hex_pad (Suc k) (n div 16) @ [hex_digit (n mod 16)]) = Some (16 * v + n mod 16)"
    using hex_digits_pad [of "hex_pad (Suc k) (n div 16)" False "n mod 16" 0] by auto
  moreover from this Suc.IH have "v = n div 16 mod 16 ^ Suc k" by simp
  moreover have "16 * (n div 16 mod 16 ^ Suc k) + n mod 16 = n mod 16 ^ Suc (Suc k)"
    by (simp only: power_Suc mod_mult2_eq [of n 16] ac_simps)
  ultimately show ?case by simp
qed

lemma starts_with_set: "starts_with p s \<Longrightarrow> set p \<subseteq> set s"
  by (metis starts_with_def set_take_subset)

lemma remove_all_absent:
  assumes "c \<in> set p" "c \<notin> set s"
  shows "remove_all p s = s"
  using assms
proof (induction s)
  case (Cons d s)
  then have "\<not> starts_with p (d # s)" using starts_with_set [of p "d # s"] by auto
  with Cons show ?case by simp
qed simp

lemma remove_all_char: "remove_all [c] s = filter (\<lambda>d. d \<noteq> c) s"
  by (induction s) (auto simp: starts_with_def)

lemma strip_of_none: "set s \<inter> cs = {} \<Longrightarrow> strip_of cs s = s"
proof -
  assume a: "set s \<inter> cs = {}"
  have "dropWhile (\<lambda>c. c \<in> cs) t = t" if "set t \<inter> cs = {}" for t using that by (cases t) auto
  from this [of s] this [of "rev s"] a show ?thesis by (simp add: strip_of_def)
qed

lemma py_strip_none: "\<forall>c\<in>set s. \<not> is_space c \<Longrightarrow> py_strip s = s"
proof -
  assume a: "\<forall>c\<in>set s. \<not> is_space c"
  have "dropWhile is_space t = t" if "\<forall>c\<in>set t. \<not> is_space c" for t using that by (cases t) auto
  from this [of s] this [of "rev s"] a show ?thesis by (simp add: py_strip_def)
qed

lemma uuid_char: "c \<in> set (show_uuid u) \<Longrightarrow> c = CHR ''-'' \<or> (\<exists>d<16. c = hex_digit d)"
proof -
  have "c \<in> set (show_uuid u) \<Longrightarrow> c = CHR ''-'' \<or> c \<in> set (hex_pad 32 u)"
    by (auto simp: show_uuid_def Let_def simp del: hex_pad.simps dest!: in_set_takeD in_set_dropD)
  then show "c \<in> set (show_uuid u) \<Longrightarrow> c = CHR ''-'' \<or> (\<exists>d<16. c = hex_digit d)"
    using hex_pad_set by blast
qed

lemma uuid_plain:
  assumes "c \<in> set (show_uuid u)"
  shows "c \<notin> set '':{}''" "\<not> is_space c"
proof -
  have "\<not> is_space CHR ''-''" by (simp add: is_space_def)
  with uuid_char [OF assms] hex_digit_cases show "c \<notin> set '':{}''" "\<not> is_space c" by auto
qed

lemma uuid_digits: "filter (\<lambda>c. c \<noteq> CHR ''-'') (show_uuid u) = hex_pad 32 u"
proof -
  let ?h = "hex_pad 32 u"
  have "c \<noteq> CHR ''-''" if "c \<in> set ?h" for c
    using hex_pad_set [OF that] hex_digit_cases(3) by auto
  then have id: "filter (\<lambda>c. c \<noteq> CHR ''-'') t = t" if "set t \<subseteq> set ?h" for t
    using that by (intro filter_True) auto
  have parts: "set (take n ?h) \<subseteq> set ?h" "set (take m (drop n ?h)) \<subseteq> set ?h" "set (drop n ?h) \<subseteq> set ?h" for m n
    using set_take_subset [of n ?h] set_take_subset [of m "drop n ?h"] set_drop_subset [of n ?h] by blast+
  have "filter (\<lambda>c. c \<noteq> CHR ''-'') (show_uuid u) =
      take 8 ?h @ take 4 (drop 8 ?h) @ take 4 (drop 12 ?h) @ take 4 (drop 16 ?h) @ drop 20 ?h"
    by (simp add: show_uuid_def Let_def id [OF parts(1)] id [OF parts(2)] id [OF parts(3)] del: hex_pad.simps)
  also have "\<dots> = ?h"
  proof -
    have "take 4 (drop n ?h) @ drop (n + 4) ?h = drop n ?h" for n
      by (metis append_take_drop_id drop_drop add.commute)
    from this [of 8] this [of 12] this [of 16] show ?thesis by (simp del: hex_pad.simps)
  qed
  finally show ?thesis .
qed

lemma py_strip_padded:
  assumes "t \<noteq> []" "\<forall>c\<in>set t. \<not> is_space c" "\<forall>c\<in>set pre. is_space c" "\<forall>c\<in>set post. is_space c"
  shows "py_strip (pre @ t @ post) = t"
proof -
  have skip: "dropWhile is_space (a @ s) = dropWhile is_space s" if "\<forall>c\<in>set a. is_space c" for a s
    using that by (induction a) auto
  have keep: "dropWhile is_space (s @ a) = s @ a" if "s \<noteq> []" "\<forall>c\<in>set s. \<not> is_space c" for a s
    using that by (cases s) auto
  have "dropWhile is_space (pre @ t @ post) = t @ post" using skip [of pre "t @ post"] keep [of t post] assms by simp
  moreover have "dropWhile is_space (rev (t @ post)) = rev t"
    using skip [of "rev post" "rev t"] keep [of "rev t" "[]"] assms by simp
  ultimately show ?thesis by (simp add: py_strip_def)
qed

lemma hex_pad_no_prefix: "drop_hex_prefix (hex_pad k n) = hex_pad k n"
proof -
  have "c \<noteq> CHR ''x'' \<and> c \<noteq> CHR ''X''" if "c \<in> set (hex_pad k n)" for c
    using hex_pad_set [OF that] hex_digit_cases(3) by auto
  then show ?thesis by (auto simp: drop_hex_prefix_def split: list.split)
qed

lemma int_16_hex_pad: "int_16 (hex_pad (Suc k) n) = Some (n mod 16 ^ Suc k)"
proof -
  let ?h = "hex_pad (Suc k) n"
  have all: "c \<noteq> CHR ''+'' \<and> \<not> is_space c" if "c \<in> set ?h" for c
    using hex_pad_set [OF that] hex_digit_cases(3,4) by auto
  have strip: "py_strip ?h = ?h" by (rule py_strip_none) (use all in blast)
  obtain c r where h: "?h = c # r" by (cases ?h) auto
  with all have "c \<noteq> CHR ''+''" by (metis list.set_intros(1))
  with h hex_pad_no_prefix [of "Suc k" n] hex_digits_hex_pad [of k n] strip show ?thesis
    by (simp add: int_16_def del: hex_pad.simps)
qed

lemma uuid_text_parses:
  assumes "u < 2 ^ 128" "\<forall>c \<in> set pre \<union> set post. is_space c"
  shows "parse_user_ref (pre @ show_uuid u @ post) = Some u \<and>
    parse_user_ref (pre @ (''{'' @ show_uuid u @ ''}'') @ post) = Some u"
proof -
  let ?t = "show_uuid u"
  have plain: "\<forall>c\<in>set ?t. c \<noteq> CHR '':'' \<and> c \<noteq> CHR ''{'' \<and> c \<noteq> CHR ''}'' \<and> \<not> is_space c"
    using uuid_plain by auto
  have braced: "\<forall>c\<in>set (''{'' @ ?t @ ''}''). c \<noteq> CHR '':'' \<and> \<not> is_space c"
    using plain by (auto simp: is_space_def)
  have ne: "?t \<noteq> []" by (simp add: show_uuid_def Let_def)
  have strip: "py_strip (pre @ ?t @ post) = ?t" "py_strip (pre @ (''{'' @ ?t @ ''}'') @ post) = ''{'' @ ?t @ ''}''"
    by (rule py_strip_padded; use assms(2) plain braced ne in simp)+
  have urn: "remove_all ''uuid:'' (remove_all ''urn:'' s) = s" if "CHR '':'' \<notin> set s" for s
    using that remove_all_absent [of "CHR '':''" _ s] by simp
  have inner: "strip_of {CHR ''{'', CHR ''}''} ?t = ?t" "strip_of {CHR ''{'', CHR ''}''} (''{'' @ ?t @ ''}'') = ?t"
  proof -
    have dw: "dropWhile (\<lambda>c. c \<in> {CHR ''{'', CHR ''}''}) (s @ r) = s @ r"
      if "s \<noteq> []" "\<forall>c\<in>set s. c \<noteq> CHR ''{'' \<and> c \<noteq> CHR ''}''" for s r
      using that by (cases s) auto
    from dw [of ?t "[]"] dw [of "rev ?t" "[]"] dw [of ?t "''}''"] plain ne
    show "strip_of {CHR ''{'', CHR ''}''} ?t = ?t" "strip_of {CHR ''{'', CHR ''}''} (''{'' @ ?t @ ''}'') = ?t"
      by (simp_all add: strip_of_def)
  qed
  have val: "(if length (remove_all ''-'' ?t) \<noteq> 32 then None else int_16 (remove_all ''-'' ?t)) = Some u"
    using int_16_hex_pad [of 31 u] assms(1) by (simp add: remove_all_char uuid_digits del: hex_pad.simps)
  have "CHR '':'' \<notin> set ?t" "CHR '':'' \<notin> set (''{'' @ ?t @ ''}'')" using plain by auto
  from urn [OF this(1)] urn [OF this(2)]
  show ?thesis
    unfolding parse_user_ref_def parse_uuid_def uuid_of_text_def Let_def strip
    by (simp only: inner val)
qed

text \<open>
  A UUID printed by \<^verbatim>\<open>str\<close> is parsed back to itself, bare or in braces, and however it is
  padded with blanks.
\<close>

theorem uuid_text_round_trip:
  assumes "u < 2 ^ 128" "\<forall>c \<in> set pre \<union> set post. is_space c"
  shows "parse_user_ref (pre @ show_uuid u @ post) = Some u \<and>
    parse_user_ref (pre @ (''{'' @ show_uuid u @ ''}'') @ post) = Some u"
  using assms by (rule uuid_text_parses)

theorem uuid_text_round_trip_witness:
  "parse_user_ref ('' '' @ show_uuid 255 @ []) = Some 255"
proof -
  have "\<forall>c \<in> set '' '' \<union> set []. is_space c" by (simp add: is_space_def)
  from uuid_text_round_trip [OF _ this, of 255] show ?thesis by simp
qed

end
