(* ===== verification/Attribution.thy ===== *)
theory Attribution
  imports Search_Store Identifiers
begin

text \<open>
  Which enrolled person is this face in this photo (\<^verbatim>\<open>src/imageshield/attribution\<close>):
  \<^verbatim>\<open>models.py\<close>, the candidate filter of \<^verbatim>\<open>resolve.py\<close>, the seed plan of \<^verbatim>\<open>seeds.py\<close> and
  \<^verbatim>\<open>crop_upload.py\<close>, the transactions of \<^verbatim>\<open>store.py\<close> and the sequence of
  \<^verbatim>\<open>service.py\<close>.

  The photo is an abstract value: reading it, decoding it, detecting and searching its faces and
  cutting a face out are Pillow's and Rekognition's, and a PUT is the uploader's; the model takes
  them as functions.  Similarities and coordinates are compared, never computed with.
\<close>

section \<open>Faces\<close>

record bounding_box =
  bb_x :: rat
  bb_y :: rat
  bb_w :: rat
  bb_h :: rat

definition bbox_json :: "bounding_box \<Rightarrow> json" where
  "bbox_json b =
     JObj [(''x'', JNum (bb_x b)), (''y'', JNum (bb_y b)), (''w'', JNum (bb_w b)), (''h'', JNum (bb_h b))]"

record detected_face =
  fc_face_index :: nat
  fc_bbox :: bounding_box
  fc_detect_confidence :: rat

record face_match =
  fm_external_image_id :: string
  fm_similarity :: rat

record attributed_face = detected_face +
  fc_resolved_user_ref :: "user_ref option"
  fc_match_score :: "rat option"

section \<open>Resolution\<close>

definition as_candidate :: "string \<Rightarrow> user_ref set \<Rightarrow> user_ref option" where
  "as_candidate external_image_id refs =
     (case parse_user_ref external_image_id of
        None \<Rightarrow> None
      | Some ref \<Rightarrow> if ref \<in> refs then Some ref else None)"

fun surviving :: "user_ref set \<Rightarrow> face_match list \<Rightarrow> (face_match \<times> user_ref) list" where
  "surviving refs [] = []"
| "surviving refs (m # ms) =
     (case as_candidate (fm_external_image_id m) refs of
        None \<Rightarrow> surviving refs ms
      | Some ref \<Rightarrow> (m, ref) # surviving refs ms)"

definition resolve_face ::
  "detected_face \<Rightarrow> face_match list \<Rightarrow> user_ref list \<Rightarrow> attributed_face" where
  "resolve_face face matches candidate_refs =
     (case surviving (set candidate_refs) matches of
        [] \<Rightarrow> detected_face.extend face \<lparr>fc_resolved_user_ref = None, fc_match_score = None\<rparr>
      | p # ps \<Rightarrow>
          let best = argmax_first (\<lambda>q. fm_similarity (fst q)) p ps in
          detected_face.extend face
            \<lparr>fc_resolved_user_ref = Some (snd best), fc_match_score = Some (fm_similarity (fst best))\<rparr>)"

text \<open>A Python dict that is read back as its items: in order of first insertion.\<close>

definition score_or_zero :: "attributed_face \<Rightarrow> rat" where
  "score_or_zero f = (case fc_match_score f of None \<Rightarrow> 0 | Some s \<Rightarrow> s)"

definition keep_best ::
  "(user_ref \<times> attributed_face) list \<Rightarrow> attributed_face \<Rightarrow> (user_ref \<times> attributed_face) list" where
  "keep_best best face =
     (case fc_resolved_user_ref face of
        None \<Rightarrow> best
      | Some ref \<Rightarrow>
          (case map_of best ref of
             None \<Rightarrow> best @ [(ref, face)]
           | Some current \<Rightarrow>
               if score_or_zero current < score_or_zero face
               then sql_update (\<lambda>p. fst p = ref) (\<lambda>_. (ref, face)) best else best))"

definition distinct_attributed :: "attributed_face list \<Rightarrow> (user_ref \<times> attributed_face) list" where
  "distinct_attributed faces = foldl keep_best [] faces"

section \<open>What a seed points at\<close>

definition SEED_KIND_PHOTO :: string where
  "SEED_KIND_PHOTO = ''user_supplied''"

definition SEED_KIND_CROP :: string where
  "SEED_KIND_CROP = ''face_crop''"

definition MIN_FACES_FOR_CROP :: nat where
  "MIN_FACES_FOR_CROP = 2"

record crop_target =
  ct_user_ref :: user_ref
  ct_crop_ref :: string
  ct_crop_put_url :: string

record planned_seed =
  ps_user_ref :: user_ref
  ps_face :: attributed_face
  ps_source_object_ref :: string
  ps_seed_kind :: string
  ps_crop_object_ref :: "string option"

definition wants_crops :: "crop_target list \<Rightarrow> nat \<Rightarrow> bool" where
  "wants_crops crop_targets faces_detected \<longleftrightarrow>
     crop_targets \<noteq> [] \<and> MIN_FACES_FOR_CROP \<le> faces_detected"

definition photo_seed :: "user_ref \<Rightarrow> attributed_face \<Rightarrow> string \<Rightarrow> planned_seed" where
  "photo_seed user face photo_ref =
     \<lparr>ps_user_ref = user, ps_face = face, ps_source_object_ref = photo_ref,
      ps_seed_kind = SEED_KIND_PHOTO, ps_crop_object_ref = None\<rparr>"

definition crop_seed :: "user_ref \<Rightarrow> attributed_face \<Rightarrow> string \<Rightarrow> planned_seed" where
  "crop_seed user face crop_ref =
     \<lparr>ps_user_ref = user, ps_face = face, ps_source_object_ref = crop_ref,
      ps_seed_kind = SEED_KIND_CROP, ps_crop_object_ref = Some crop_ref\<rparr>"

definition target_for :: "crop_target list \<Rightarrow> user_ref \<Rightarrow> crop_target option" where
  "target_for crop_targets user = sql_first (\<lambda>t. ct_user_ref t = user) crop_targets"

record skipped_seed =
  sk_user_ref :: user_ref
  sk_reason :: string

datatype attribution_error =
    Attribution_unavailable string
  | Undecodable_image string
  | Attribution_failed exn

text \<open>\<^verbatim>\<open>crop_to_face\<close>: a crop, or \<^verbatim>\<open>CropTooSmall\<close>, or \<^verbatim>\<open>UndecodableImage\<close>.\<close>

datatype 'i crop_result = Crop 'i | Crop_too_small | Crop_undecodable string

record 'i object_uploader =
  up_put :: "string \<Rightarrow> 'i \<Rightarrow> string \<Rightarrow> bool"

definition CROP_CONTENT_TYPE :: string where
  "CROP_CONTENT_TYPE = ''image/jpeg''"

fun plan_crops ::
  "('i \<Rightarrow> bounding_box \<Rightarrow> 'i crop_result) \<Rightarrow> 'i object_uploader \<Rightarrow> 'i \<Rightarrow> crop_target list
     \<Rightarrow> (user_ref \<times> attributed_face) list
     \<Rightarrow> attribution_error + planned_seed list \<times> skipped_seed list" where
  "plan_crops crop uploader photo targets [] = Inr ([], [])"
| "plan_crops crop uploader photo targets ((user, face) # owners) =
     (let rest = plan_crops crop uploader photo targets owners;
          skip = (\<lambda>reason. case rest of Inl e \<Rightarrow> Inl e
                   | Inr (planned, skipped) \<Rightarrow>
                       Inr (planned, \<lparr>sk_user_ref = user, sk_reason = reason\<rparr> # skipped))
      in case target_for targets user of
           None \<Rightarrow> skip ''no_crop_target''
         | Some target \<Rightarrow>
             (case crop photo (fc_bbox face) of
                Crop_too_small \<Rightarrow> skip ''crop_too_small''
              | Crop_undecodable detail \<Rightarrow> Inl (Undecodable_image detail)
              | Crop bytes \<Rightarrow>
                  if \<not> up_put uploader (ct_crop_put_url target) bytes CROP_CONTENT_TYPE
                  then skip ''crop_upload_failed''
                  else (case rest of Inl e \<Rightarrow> Inl e
                          | Inr (planned, skipped) \<Rightarrow>
                              Inr (crop_seed user face (ct_crop_ref target) # planned, skipped))))"

definition plan_seeds ::
  "('i \<Rightarrow> bounding_box \<Rightarrow> 'i crop_result) \<Rightarrow> 'i object_uploader \<Rightarrow> 'i \<Rightarrow> string
     \<Rightarrow> (user_ref \<times> attributed_face) list \<Rightarrow> crop_target list \<Rightarrow> nat
     \<Rightarrow> attribution_error + planned_seed list \<times> skipped_seed list" where
  "plan_seeds crop uploader photo photo_ref seed_owners crop_targets faces_detected =
     (if \<not> wants_crops crop_targets faces_detected
      then Inr (map (\<lambda>(user, face). photo_seed user face photo_ref) seed_owners, [])
      else plan_crops crop uploader photo crop_targets seed_owners)"

section \<open>The store\<close>

record attribution_run =
  ar_run_id :: uuid
  ar_photo_ref :: string
  ar_requested_by :: user_ref
  ar_candidate_count :: nat
  ar_match_threshold :: "rat option"
  ar_max_candidates :: nat
  ar_model_id :: string
  ar_faces_detected :: "nat option"
  ar_faces_attributed :: "nat option"
  ar_status :: string
  ar_error_detail :: "string option"
  ar_completed_at :: "instant option"

record attributed_face_row =
  af_face_id :: uuid
  af_run_id :: uuid
  af_face_index :: nat
  af_bbox :: json
  af_detect_confidence :: "rat option"
  af_resolved_user_ref :: "user_ref option"
  af_match_score :: "rat option"
  af_model_id :: string

record attribution_db = db +
  attribution_runs :: "attribution_run list"
  attributed_faces :: "attributed_face_row list"

record registered_seed =
  rs_user_ref :: user_ref
  rs_seed_id :: uuid
  rs_crop_object_ref :: "string option"

record attribution_outcome =
  ao_run_id :: uuid
  ao_faces :: "attributed_face list"
  ao_seeds :: "registered_seed list"

record run_request =
  rq_photo_ref :: string
  rq_requested_by :: user_ref
  rq_candidate_count :: nat
  rq_match_threshold :: rat
  rq_max_candidates :: nat
  rq_model_id :: string

definition insert_attribution_run ::
  "run_request \<Rightarrow> nat option \<Rightarrow> nat option \<Rightarrow> string \<Rightarrow> string option
     \<Rightarrow> 'a attribution_db_scheme \<Rightarrow> exn + uuid \<times> 'a attribution_db_scheme" where
  "insert_attribution_run q detected attributed status detail d =
     (case numeric_5_2 (Some (rq_match_threshold q)) of
        Inl e \<Rightarrow> Inl e
      | Inr threshold \<Rightarrow>
          Inr (db_fresh d,
            d\<lparr>db_fresh := Suc (db_fresh d),
              attribution_runs := attribution_runs d @
                [\<lparr>ar_run_id = db_fresh d, ar_photo_ref = rq_photo_ref q,
                  ar_requested_by = rq_requested_by q, ar_candidate_count = rq_candidate_count q,
                  ar_match_threshold = threshold, ar_max_candidates = rq_max_candidates q,
                  ar_model_id = rq_model_id q, ar_faces_detected = detected,
                  ar_faces_attributed = attributed, ar_status = status, ar_error_detail = detail,
                  ar_completed_at = Some (db_now d)\<rparr>]\<rparr>))"

definition record_failed_run ::
  "run_request \<Rightarrow> string \<Rightarrow> 'a attribution_db_scheme \<Rightarrow> exn + uuid \<times> 'a attribution_db_scheme" where
  "record_failed_run q detail d = insert_attribution_run q None None ''failed'' (Some detail) d"

fun insert_faces ::
  "uuid \<Rightarrow> string \<Rightarrow> attributed_face list \<Rightarrow> 'a attribution_db_scheme
     \<Rightarrow> exn + (nat \<times> uuid) list \<times> 'a attribution_db_scheme" where
  "insert_faces rid model [] d = Inr ([], d)"
| "insert_faces rid model (f # fs) d =
     (case (numeric_5_2 (Some (fc_detect_confidence f)), numeric_5_2 (fc_match_score f)) of
        (Inr confidence, Inr score) \<Rightarrow>
          if (fc_resolved_user_ref f = None) \<noteq> (score = None)
          then Inl (CheckViolation ''attributed_faces_check'')
          else if list_ex (\<lambda>r. af_run_id r = rid \<and> af_face_index r = fc_face_index f) (attributed_faces d)
          then Inl (UniqueViolation ''attributed_faces_uniq'')
          else
            let row = \<lparr>af_face_id = db_fresh d, af_run_id = rid, af_face_index = fc_face_index f,
                       af_bbox = bbox_json (fc_bbox f), af_detect_confidence = confidence,
                       af_resolved_user_ref = fc_resolved_user_ref f, af_match_score = score,
                       af_model_id = model\<rparr>
            in (case insert_faces rid model fs
                      (d\<lparr>db_fresh := Suc (db_fresh d), attributed_faces := attributed_faces d @ [row]\<rparr>) of
                  Inl e \<Rightarrow> Inl e
                | Inr (ids, d') \<Rightarrow> Inr ((fc_face_index f, af_face_id row) # ids, d'))
      | (Inl e, _) \<Rightarrow> Inl e
      | (_, Inl e) \<Rightarrow> Inl e)"

text \<open>\<^verbatim>\<open>face_ids[plan.face.face_index]\<close>: the dict keeps the last entry of a repeated index.\<close>

fun insert_seeds ::
  "planned_seed list \<Rightarrow> (nat \<times> uuid) list \<Rightarrow> 'a attribution_db_scheme
     \<Rightarrow> exn + registered_seed list \<times> 'a attribution_db_scheme" where
  "insert_seeds [] face_ids d = Inr ([], d)"
| "insert_seeds (p # ps) face_ids d =
     (case map_of (rev face_ids) (fc_face_index (ps_face p)) of
        None \<Rightarrow> Inl (KeyError (show_nat (fc_face_index (ps_face p))))
      | Some face \<Rightarrow>
          if ps_user_ref p \<notin> sj_user_ref ` set (subjects d)
          then Inl (ForeignKeyViolation ''search_seeds_subject_fk'')
          else
            let row = \<lparr>seed_id = db_fresh d, seed_user_ref = ps_user_ref p, seed_kind = ps_seed_kind p,
                       source_object_ref = ps_source_object_ref p, seed_status = ''active'',
                       seed_created_at = db_now d, scan_tier = New, next_scan_after = None,
                       tier_next_scan_after = None, consecutive_empty_scans = 0,
                       attributed_face_id = Some face\<rparr>
            in (case insert_seeds ps face_ids
                      (d\<lparr>db_fresh := Suc (db_fresh d), search_seeds := search_seeds d @ [row]\<rparr>) of
                  Inl e \<Rightarrow> Inl e
                | Inr (seeds, d') \<Rightarrow>
                    Inr (\<lparr>rs_user_ref = ps_user_ref p, rs_seed_id = seed_id row,
                          rs_crop_object_ref = ps_crop_object_ref p\<rparr> # seeds, d')))"

definition SEED_SKIPPED_ACTION :: string where
  "SEED_SKIPPED_ACTION = ''attribution.seed_skipped''"

fun insert_skipped_audit ::
  "uuid \<Rightarrow> string \<Rightarrow> skipped_seed list \<Rightarrow> 'a db_scheme \<Rightarrow> 'a db_scheme" where
  "insert_skipped_audit rid photo_ref [] d = d"
| "insert_skipped_audit rid photo_ref (s # ss) d =
     insert_skipped_audit rid photo_ref ss
       (insert_audit (audit_entry ''service'' SEED_SKIPPED_ACTION (Some (sk_user_ref s)) (Some rid)
          (JObj [(''reason'', JStr (sk_reason s)), (''photo_ref'', JStr photo_ref)]) d) d)"

definition record_run ::
  "run_request \<Rightarrow> attributed_face list \<Rightarrow> planned_seed list \<Rightarrow> skipped_seed list
     \<Rightarrow> 'a attribution_db_scheme \<Rightarrow> exn + attribution_outcome \<times> 'a attribution_db_scheme" where
  "record_run q faces planned skipped d =
     (case insert_attribution_run q (Some (length faces))
             (Some (length (filter (\<lambda>f. fc_resolved_user_ref f \<noteq> None) faces)))
             ''completed'' None d of
        Inl e \<Rightarrow> Inl e
      | Inr (rid, d1) \<Rightarrow>
          (case insert_faces rid (rq_model_id q) faces d1 of
             Inl e \<Rightarrow> Inl e
           | Inr (face_ids, d2) \<Rightarrow>
               (case insert_seeds planned face_ids d2 of
                  Inl e \<Rightarrow> Inl e
                | Inr (seeds, d3) \<Rightarrow>
                    Inr (\<lparr>ao_run_id = rid, ao_faces = faces, ao_seeds = seeds\<rparr>,
                         insert_skipped_audit rid (rq_photo_ref q) skipped d3))))"

section \<open>The sequence\<close>

text \<open>The ports: a photo fetcher, a decoder and the face provider.\<close>

record 'i attribution_ports =
  at_fetch :: "string \<Rightarrow> attribution_error + 'i"
  at_to_jpeg :: "'i \<Rightarrow> string + 'i"
  at_detect :: "'i \<Rightarrow> attribution_error + detected_face list"
  at_search :: "'i \<Rightarrow> detected_face \<Rightarrow> rat \<Rightarrow> nat \<Rightarrow> attribution_error + face_match list"
  at_model_id :: string
  at_crop :: "'i \<Rightarrow> bounding_box \<Rightarrow> 'i crop_result"
  at_uploader :: "'i object_uploader"

text \<open>The first block: everything up to the detected faces, with the failures it turns into one.\<close>

definition detect_in_photo ::
  "'i attribution_ports \<Rightarrow> string \<Rightarrow> attribution_error + 'i \<times> detected_face list" where
  "detect_in_photo ports url =
     (case at_fetch ports url of
        Inl e \<Rightarrow> Inl e
      | Inr bytes \<Rightarrow>
          (case at_to_jpeg ports bytes of
             Inl detail \<Rightarrow> Inl (Attribution_unavailable (''photo bytes undecodable: '' @ detail))
           | Inr photo \<Rightarrow>
               (case at_detect ports photo of
                  Inl e \<Rightarrow> Inl e
                | Inr detected \<Rightarrow> Inr (photo, detected))))"

fun resolve_all ::
  "(detected_face \<Rightarrow> 'e + face_match list) \<Rightarrow> user_ref list \<Rightarrow> detected_face list
     \<Rightarrow> 'e + attributed_face list" where
  "resolve_all search refs [] = Inr []"
| "resolve_all search refs (f # fs) =
     (case search f of
        Inl e \<Rightarrow> Inl e
      | Inr matches \<Rightarrow>
          (case resolve_all search refs fs of
             Inl e \<Rightarrow> Inl e
           | Inr faces \<Rightarrow> Inr (resolve_face f matches refs # faces)))"

text \<open>
  \<^verbatim>\<open>except AttributionUnavailable: record the failed run and raise\<close>; if the record fails in
  turn, that exception leaves instead.  Any other exception leaves without a record.
\<close>

definition fail_run ::
  "run_request \<Rightarrow> attribution_error \<Rightarrow> 'a attribution_db_scheme
     \<Rightarrow> (attribution_error + 'r) \<times> 'a attribution_db_scheme" where
  "fail_run q err d =
     (case err of
        Attribution_unavailable detail \<Rightarrow>
          (case record_failed_run q detail d of
             Inl e \<Rightarrow> (Inl (Attribution_failed e), d)
           | Inr (_, d') \<Rightarrow> (Inl err, d'))
      | _ \<Rightarrow> (Inl err, d))"

definition attribute_photo ::
  "'i attribution_ports \<Rightarrow> string \<Rightarrow> user_ref \<Rightarrow> user_ref list \<Rightarrow> string \<Rightarrow> rat \<Rightarrow> nat \<Rightarrow> crop_target list
     \<Rightarrow> 'a attribution_db_scheme \<Rightarrow> (attribution_error + attribution_outcome) \<times> 'a attribution_db_scheme" where
  "attribute_photo ports photo_ref requested_by candidate_refs url threshold max_candidates crop_targets d =
     (let q = \<lparr>rq_photo_ref = photo_ref, rq_requested_by = requested_by,
               rq_candidate_count = length candidate_refs, rq_match_threshold = threshold,
               rq_max_candidates = max_candidates, rq_model_id = at_model_id ports\<rparr> in
      case detect_in_photo ports url of
        Inl err \<Rightarrow> fail_run q err d
      | Inr (photo, detected) \<Rightarrow>
          (case resolve_all (\<lambda>f. at_search ports photo f threshold max_candidates) candidate_refs detected of
             Inl err \<Rightarrow> fail_run q err d
           | Inr faces \<Rightarrow>
               (case plan_seeds (at_crop ports) (at_uploader ports) photo photo_ref
                       (distinct_attributed faces) crop_targets (length faces) of
                  Inl err \<Rightarrow> (Inl err, d)
                | Inr (planned, skipped) \<Rightarrow>
                    (case record_run q faces planned skipped d of
                       Inl e \<Rightarrow> (Inl (Attribution_failed e), d)
                     | Inr (out, d') \<Rightarrow> (Inr out, d')))))"

section \<open>The filter\<close>

lemma surviving_filter:
  "surviving refs ms = surviving refs (filter (\<lambda>m. as_candidate (fm_external_image_id m) refs \<noteq> None) ms)"
  by (induction ms) (auto split: option.split)

lemma surviving_mem:
  "(m, u) \<in> set (surviving refs ms) \<longleftrightarrow> m \<in> set ms \<and> as_candidate (fm_external_image_id m) refs = Some u"
  by (induction ms) (auto split: option.splits)

lemma as_candidate_Some: "as_candidate x refs = Some u \<Longrightarrow> u \<in> refs \<and> parse_user_ref x = Some u"
  by (auto simp: as_candidate_def split: option.splits if_splits)

lemma resolve_face_keeps [simp]:
  "fc_face_index (resolve_face f ms refs) = fc_face_index f"
  "fc_bbox (resolve_face f ms refs) = fc_bbox f"
  "fc_detect_confidence (resolve_face f ms refs) = fc_detect_confidence f"
  by (simp_all add: resolve_face_def detected_face.extend_def Let_def split: list.split)

lemma resolve_face_None:
  "fc_resolved_user_ref (resolve_face f ms refs) = None \<longleftrightarrow> surviving (set refs) ms = []"
  by (simp add: resolve_face_def detected_face.extend_def Let_def split: list.split)

lemma resolve_face_Some:
  assumes "fc_resolved_user_ref (resolve_face f ms refs) = Some u"
  shows "\<exists>m\<in>set ms. as_candidate (fm_external_image_id m) (set refs) = Some u \<and>
    fc_match_score (resolve_face f ms refs) = Some (fm_similarity m) \<and>
    (\<forall>n\<in>set ms. as_candidate (fm_external_image_id n) (set refs) \<noteq> None \<longrightarrow> fm_similarity n \<le> fm_similarity m)"
proof -
  obtain p ps where s: "surviving (set refs) ms = p # ps"
    using assms resolve_face_None [of f ms refs] by (cases "surviving (set refs) ms") auto
  define b where "b = argmax_first (\<lambda>q. fm_similarity (fst q)) p ps"
  have b: "b \<in> set (surviving (set refs) ms)" using argmax_first_mem [of _ p ps] s by (auto simp: b_def)
  have max: "fm_similarity (fst q) \<le> fm_similarity (fst b)" if "q \<in> set (surviving (set refs) ms)" for q
    using that argmax_first_ge [of "\<lambda>q. fm_similarity (fst q)" p ps] s by (auto simp: b_def)
  have r: "fc_resolved_user_ref (resolve_face f ms refs) = Some (snd b)"
    "fc_match_score (resolve_face f ms refs) = Some (fm_similarity (fst b))"
    by (simp_all add: resolve_face_def s b_def detected_face.extend_def Let_def)
  have "fm_similarity n \<le> fm_similarity (fst b)"
    if "n \<in> set ms" "as_candidate (fm_external_image_id n) (set refs) \<noteq> None" for n
    using that max surviving_mem [of n _ "set refs" ms] by fastforce
  with b r assms show ?thesis
    using surviving_mem [of "fst b" "snd b" "set refs" ms] by (intro bexI [of _ "fst b"]) auto
qed

lemma resolved_together: "(fc_resolved_user_ref (resolve_face f ms refs) = None) = (fc_match_score (resolve_face f ms refs) = None)"
  by (simp add: resolve_face_def detected_face.extend_def Let_def split: list.split)

lemma resolve_face_filter:
  "resolve_face face (filter (\<lambda>m. as_candidate (fm_external_image_id m) (set refs) \<noteq> None) matches) refs =
   resolve_face face matches refs"
  by (simp only: resolve_face_def surviving_filter [of _ matches, symmetric])

text \<open>
  C28. Only a candidate is ever recognised, and nobody else has a say: the matches of people outside
  the candidate list can be dropped beforehand without changing the answer, however well they
  score; a face is left unattributed only if no candidate matched at all; and the one it goes to
  is a candidate with the best score among them.
\<close>

theorem strangers_never_attributed:
  "resolve_face face matches refs =
     resolve_face face (filter (\<lambda>m. as_candidate (fm_external_image_id m) (set refs) \<noteq> None) matches) refs \<and>
   (case fc_resolved_user_ref (resolve_face face matches refs) of
      None \<Rightarrow> \<not> (\<exists>m\<in>set matches. as_candidate (fm_external_image_id m) (set refs) \<noteq> None)
    | Some u \<Rightarrow> u \<in> set refs \<and>
        (\<exists>m\<in>set matches. parse_user_ref (fm_external_image_id m) = Some u \<and>
          fc_match_score (resolve_face face matches refs) = Some (fm_similarity m) \<and>
          (\<forall>n\<in>set matches. as_candidate (fm_external_image_id n) (set refs) = None \<or>
             fm_similarity n \<le> fm_similarity m)))"
proof (cases "fc_resolved_user_ref (resolve_face face matches refs)")
  case None
  then have "surviving (set refs) matches = []" by (simp add: resolve_face_None)
  then have "\<not> (\<exists>m\<in>set matches. as_candidate (fm_external_image_id m) (set refs) \<noteq> None)"
    using surviving_mem [of _ _ "set refs" matches] by fastforce
  with None show ?thesis unfolding resolve_face_filter by simp
next
  case (Some u)
  from resolve_face_Some [OF Some] obtain m where m: "m \<in> set matches"
    "as_candidate (fm_external_image_id m) (set refs) = Some u"
    "fc_match_score (resolve_face face matches refs) = Some (fm_similarity m)"
    "\<forall>n\<in>set matches. as_candidate (fm_external_image_id n) (set refs) \<noteq> None \<longrightarrow> fm_similarity n \<le> fm_similarity m"
    by blast
  with as_candidate_Some [OF m(2)] Some show ?thesis
    unfolding resolve_face_filter by (auto intro!: bexI [of _ m])
qed

section \<open>One seed per person\<close>

lemma keep_best_cases:
  assumes "fc_resolved_user_ref f = Some r"
  shows "map_of best r = None \<Longrightarrow> keep_best best f = best @ [(r, f)]"
    "map_of best r = Some c \<Longrightarrow> keep_best best f =
       (if score_or_zero c < score_or_zero f then sql_update (\<lambda>p. fst p = r) (\<lambda>_. (r, f)) best else best)"
  by (simp_all only: keep_best_def assms option.case)

lemma keep_best_keys:
  assumes "fc_resolved_user_ref f = Some r"
  shows "map fst (keep_best best f) =
     (if r \<in> fst ` set best then map fst best else map fst best @ [r])"
proof (cases "map_of best r")
  case None
  have "r \<notin> fst ` set best" using None by (simp add: map_of_eq_None_iff)
  then show ?thesis unfolding keep_best_cases(1) [OF assms None] by simp
next
  case (Some c)
  have "r \<in> fst ` set best" using Some by (force dest: map_of_SomeD)
  then show ?thesis unfolding keep_best_cases(2) [OF assms Some]
    by (auto intro!: map_sql_update)
qed

definition best_so_far :: "attributed_face list \<Rightarrow> (user_ref \<times> attributed_face) list \<Rightarrow> bool" where
  "best_so_far faces best \<longleftrightarrow>
     distinct (map fst best) \<and>
     fst ` set best = {r. \<exists>f\<in>set faces. fc_resolved_user_ref f = Some r} \<and>
     (\<forall>(r, b)\<in>set best. b \<in> set faces \<and> fc_resolved_user_ref b = Some r \<and>
        (\<forall>f\<in>set faces. fc_resolved_user_ref f = Some r \<longrightarrow> score_or_zero f \<le> score_or_zero b))"

lemma best_so_farD:
  assumes "best_so_far faces best" "(r, b) \<in> set best"
  shows "b \<in> set faces" "fc_resolved_user_ref b = Some r"
    "f \<in> set faces \<Longrightarrow> fc_resolved_user_ref f = Some r \<Longrightarrow> score_or_zero f \<le> score_or_zero b"
  using assms by (auto simp: best_so_far_def)

lemma keep_best_step:
  assumes best: "best_so_far faces best"
  shows "best_so_far (faces @ [f]) (keep_best best f)"
proof (cases "fc_resolved_user_ref f")
  case None
  with assms show ?thesis by (auto simp: best_so_far_def keep_best_def)
next
  case f: (Some r)
  have dist: "distinct (map fst (keep_best best f))"
    using assms by (auto simp: keep_best_keys [OF f] best_so_far_def)
  have keys: "fst ` set (keep_best best f) = insert r (fst ` set best)"
    using arg_cong [OF keep_best_keys [OF f, of best], of set] by (auto split: if_splits)
  have each: "b \<in> set (faces @ [f]) \<and> fc_resolved_user_ref b = Some q \<and>
      (\<forall>x\<in>set (faces @ [f]). fc_resolved_user_ref x = Some q \<longrightarrow> score_or_zero x \<le> score_or_zero b)"
    if qb: "(q, b) \<in> set (keep_best best f)" for q b
  proof (cases "map_of best r")
    case None
    have nobody: "\<not> (\<exists>x\<in>set faces. fc_resolved_user_ref x = Some r)"
      using None assms by (auto simp: map_of_eq_None_iff best_so_far_def)
    from qb have "(q, b) \<in> set best \<or> (q, b) = (r, f)" by (auto simp: keep_best_cases(1) [OF f None])
    then show ?thesis
    proof
      assume old: "(q, b) \<in> set best"
      have "q \<noteq> r" using best_so_farD(1,2) [OF best old] nobody by auto
      with best_so_farD [OF best old] f show ?thesis by auto
    qed (use f nobody in auto)
  next
    case (Some c)
    then have c: "(r, c) \<in> set best" by (rule map_of_SomeD)
    note cbest = best_so_farD [OF best c]
    have only: "b' = c" if "(r, b') \<in> set best" for b'
      using that c assms eq_key_imp_eq_value [of best r b' c] by (auto simp: best_so_far_def)
    from qb have "score_or_zero c < score_or_zero f \<and> (q, b) = (r, f) \<or>
        (q, b) \<in> set best \<and> (q = r \<longrightarrow> \<not> score_or_zero c < score_or_zero f)"
      by (auto simp: keep_best_cases(2) [OF f Some] in_sql_update split: if_splits)
    then show ?thesis
    proof
      assume "score_or_zero c < score_or_zero f \<and> (q, b) = (r, f)"
      with cbest(3) f show ?thesis by (auto intro: order_trans less_imp_le)
    next
      assume old: "(q, b) \<in> set best \<and> (q = r \<longrightarrow> \<not> score_or_zero c < score_or_zero f)"
      note o = best_so_farD [OF best conjunct1 [OF old]]
      have "score_or_zero f \<le> score_or_zero b" if "q = r"
        using that old only by auto
      with o f show ?thesis by auto
    qed
  qed
  show ?thesis
    unfolding best_so_far_def using dist keys each assms f
    by (auto simp: best_so_far_def)
qed

lemma distinct_attributed_best: "best_so_far faces (distinct_attributed faces)"
proof (induction faces rule: rev_induct)
  case Nil
  then show ?case by (simp add: best_so_far_def distinct_attributed_def)
next
  case (snoc f faces)
  from keep_best_step [OF this, of f] show ?case by (simp add: distinct_attributed_def)
qed

section \<open>A group photo is never a seed\<close>

lemma target_for_Some: "target_for ts u = Some t \<Longrightarrow> t \<in> set ts \<and> ct_user_ref t = u"
  by (auto simp: target_for_def dest: sql_first_SomeD)

definition crop_stored ::
  "('i \<Rightarrow> bounding_box \<Rightarrow> 'i crop_result) \<Rightarrow> 'i object_uploader \<Rightarrow> 'i \<Rightarrow> crop_target list \<Rightarrow> planned_seed \<Rightarrow> bool" where
  "crop_stored crop uploader photo targets p \<longleftrightarrow>
     (\<exists>t bytes. t \<in> set targets \<and> ct_user_ref t = ps_user_ref p \<and>
        crop photo (fc_bbox (ps_face p)) = Crop bytes \<and>
        up_put uploader (ct_crop_put_url t) bytes CROP_CONTENT_TYPE \<and>
        ps_source_object_ref p = ct_crop_ref t \<and> ps_seed_kind p = SEED_KIND_CROP)"

lemma plan_crops_spec:
  assumes "plan_crops crop uploader photo targets owners = Inr (planned, skipped)"
  shows "(\<forall>p\<in>set planned. (ps_user_ref p, ps_face p) \<in> set owners \<and> crop_stored crop uploader photo targets p) \<and>
    mset (map ps_user_ref planned @ map sk_user_ref skipped) = mset (map fst owners)"
  using assms
proof (induction owners arbitrary: planned skipped)
  case (Cons owner owners)
  obtain user face where o: "owner = (user, face)" by fastforce
  obtain pl sk where rest: "plan_crops crop uploader photo targets owners = Inr (pl, sk)"
    using Cons.prems o by (auto simp: Let_def split: option.splits crop_result.splits sum.splits if_splits)
  note IH = Cons.IH [OF rest]
  have "(\<exists>reason. planned = pl \<and> skipped = \<lparr>sk_user_ref = user, sk_reason = reason\<rparr> # sk) \<or>
    (\<exists>t bytes. planned = crop_seed user face (ct_crop_ref t) # pl \<and> skipped = sk \<and> target_for targets user = Some t \<and>
       crop photo (fc_bbox face) = Crop bytes \<and> up_put uploader (ct_crop_put_url t) bytes CROP_CONTENT_TYPE)"
    using Cons.prems o rest by (auto simp: Let_def split: option.splits crop_result.splits if_splits)
  then show ?case
  proof (elim disjE exE conjE)
    fix reason
    assume "planned = pl" "skipped = \<lparr>sk_user_ref = user, sk_reason = reason\<rparr> # sk"
    with IH o show ?thesis by auto
  next
    fix t bytes
    assume "planned = crop_seed user face (ct_crop_ref t) # pl" "skipped = sk" "target_for targets user = Some t"
      "crop photo (fc_bbox face) = Crop bytes" "up_put uploader (ct_crop_put_url t) bytes CROP_CONTENT_TYPE"
    with IH o target_for_Some [of targets user t] show ?thesis
      by (auto simp: crop_stored_def crop_seed_def)
  qed
qed simp

text \<open>
  When the caller asked for crops and the photo shows two or more faces, the photo itself never
  becomes a seed: every planned seed is the subject's own crop, under a key minted for that
  subject, whose upload succeeded; and every recognised subject is either planned or recorded as
  skipped, exactly once.
\<close>

theorem group_photo_never_seeded:
  assumes "crop_targets \<noteq> []" "2 \<le> faces_detected"
    and "plan_seeds crop uploader photo photo_ref owners crop_targets faces_detected = Inr (planned, skipped)"
  shows "(\<forall>p\<in>set planned. \<exists>t\<in>set crop_targets. \<exists>bytes.
      ct_user_ref t = ps_user_ref p \<and> ps_source_object_ref p = ct_crop_ref t \<and> ps_seed_kind p = ''face_crop'' \<and>
      crop photo (fc_bbox (ps_face p)) = Crop bytes \<and>
      up_put uploader (ct_crop_put_url t) bytes ''image/jpeg'' \<and> (ps_user_ref p, ps_face p) \<in> set owners) \<and>
    mset (map ps_user_ref planned @ map sk_user_ref skipped) = mset (map fst owners)"
proof -
  have "plan_crops crop uploader photo crop_targets owners = Inr (planned, skipped)"
    using assms by (simp add: plan_seeds_def wants_crops_def MIN_FACES_FOR_CROP_def)
  from plan_crops_spec [OF this] show ?thesis
    by (auto simp: crop_stored_def SEED_KIND_CROP_def CROP_CONTENT_TYPE_def) blast
qed

section \<open>All of a run or none of it\<close>

lemma insert_attribution_run_Inr:
  assumes "insert_attribution_run q det att status detail d = Inr (rid, d')"
  shows "\<exists>run. attribution_runs d' = attribution_runs d @ [run] \<and> ar_run_id run = rid \<and>
    ar_status run = status \<and> ar_faces_detected run = det \<and> ar_faces_attributed run = att \<and>
    ar_candidate_count run = rq_candidate_count q \<and> ar_error_detail run = detail \<and>
    attributed_faces d' = attributed_faces d \<and> search_seeds d' = search_seeds d \<and> subjects d' = subjects d"
  using assms by (auto simp: insert_attribution_run_def split: sum.splits)

lemma insert_faces_Inr:
  assumes "insert_faces rid model fs d = Inr (ids, d')"
  shows "\<exists>rows. attributed_faces d' = attributed_faces d @ rows \<and>
    ids = map (\<lambda>r. (af_face_index r, af_face_id r)) rows \<and>
    map af_face_index rows = map fc_face_index fs \<and>
    map af_resolved_user_ref rows = map fc_resolved_user_ref fs \<and>
    (\<forall>r\<in>set rows. af_run_id r = rid) \<and> distinct (map af_face_index rows) \<and>
    (\<forall>r\<in>set rows. \<forall>q\<in>set (attributed_faces d). af_run_id q = rid \<longrightarrow> af_face_index q \<noteq> af_face_index r) \<and>
    attribution_runs d' = attribution_runs d \<and> search_seeds d' = search_seeds d \<and> subjects d' = subjects d"
  using assms
proof (induction fs arbitrary: d ids)
  case Nil
  then show ?case by simp
next
  case (Cons f fs)
  from Cons.prems obtain confidence score where n: "numeric_5_2 (Some (fc_detect_confidence f)) = Inr confidence"
    "numeric_5_2 (fc_match_score f) = Inr score" by (auto split: sum.splits)
  define row where "row = \<lparr>af_face_id = db_fresh d, af_run_id = rid, af_face_index = fc_face_index f,
                       af_bbox = bbox_json (fc_bbox f), af_detect_confidence = confidence,
                       af_resolved_user_ref = fc_resolved_user_ref f, af_match_score = score,
                       af_model_id = model\<rparr>"
  let ?d1 = "d\<lparr>db_fresh := Suc (db_fresh d), attributed_faces := attributed_faces d @ [row]\<rparr>"
  from Cons.prems n obtain ids1 where rest: "insert_faces rid model fs ?d1 = Inr (ids1, d')"
    and ids: "ids = (fc_face_index f, af_face_id row) # ids1"
    and uniq: "\<not> list_ex (\<lambda>r. af_run_id r = rid \<and> af_face_index r = fc_face_index f) (attributed_faces d)"
    by (auto simp: row_def Let_def split: sum.splits if_splits)
  from Cons.IH [OF rest] obtain rows where rows: "attributed_faces d' = attributed_faces ?d1 @ rows"
    "ids1 = map (\<lambda>r. (af_face_index r, af_face_id r)) rows" "map af_face_index rows = map fc_face_index fs"
    "map af_resolved_user_ref rows = map fc_resolved_user_ref fs" "\<forall>r\<in>set rows. af_run_id r = rid"
    "distinct (map af_face_index rows)"
    "\<forall>r\<in>set rows. \<forall>q\<in>set (attributed_faces ?d1). af_run_id q = rid \<longrightarrow> af_face_index q \<noteq> af_face_index r"
    "attribution_runs d' = attribution_runs ?d1" "search_seeds d' = search_seeds ?d1" "subjects d' = subjects ?d1"
    by blast
  have "fc_face_index f \<notin> af_face_index ` set rows" using rows(7) by (auto simp: row_def)
  then have "fc_face_index f \<notin> fc_face_index ` set fs" using arg_cong [OF rows(3), of set] by simp
  with uniq ids rows show ?case
    by (intro exI [of _ "row # rows"]) (auto simp: row_def list_ex_iff)
qed

lemma insert_seeds_Inr:
  assumes "insert_seeds ps ids d = Inr (seeds, d')"
  shows "\<exists>rows. search_seeds d' = search_seeds d @ rows \<and>
    list_all2 (\<lambda>p row. seed_user_ref row = ps_user_ref p \<and> source_object_ref row = ps_source_object_ref p \<and>
      seed_kind row = ps_seed_kind p \<and> attributed_face_id row \<noteq> None \<and>
      attributed_face_id row = map_of (rev ids) (fc_face_index (ps_face p))) ps rows \<and>
    attribution_runs d' = attribution_runs d \<and> attributed_faces d' = attributed_faces d"
  using assms
proof (induction ps arbitrary: d seeds)
  case Nil
  then show ?case by simp
next
  case (Cons p ps)
  from Cons.prems obtain face where face: "map_of (rev ids) (fc_face_index (ps_face p)) = Some face"
    by (auto split: option.splits)
  define row where "row = \<lparr>seed_id = db_fresh d, seed_user_ref = ps_user_ref p, seed_kind = ps_seed_kind p,
                       source_object_ref = ps_source_object_ref p, seed_status = ''active'',
                       seed_created_at = db_now d, scan_tier = New, next_scan_after = None,
                       tier_next_scan_after = None, consecutive_empty_scans = 0,
                       attributed_face_id = Some face\<rparr>"
  let ?d1 = "d\<lparr>db_fresh := Suc (db_fresh d), search_seeds := search_seeds d @ [row]\<rparr>"
  from Cons.prems face obtain seeds1 where rest: "insert_seeds ps ids ?d1 = Inr (seeds1, d')"
    by (auto simp: row_def Let_def split: sum.splits if_splits)
  from Cons.IH [OF rest] obtain rows where "search_seeds d' = search_seeds ?d1 @ rows"
    "list_all2 (\<lambda>p row. seed_user_ref row = ps_user_ref p \<and> source_object_ref row = ps_source_object_ref p \<and>
      seed_kind row = ps_seed_kind p \<and> attributed_face_id row \<noteq> None \<and>
      attributed_face_id row = map_of (rev ids) (fc_face_index (ps_face p))) ps rows"
    "attribution_runs d' = attribution_runs ?d1" "attributed_faces d' = attributed_faces ?d1"
    by blast
  with face show ?case by (intro exI [of _ "row # rows"]) (simp add: row_def)
qed

text \<open>What a successful \<^verbatim>\<open>record_run\<close> leaves behind: the run, its faces, one linked seed per plan.\<close>

definition run_recorded ::
  "user_ref list \<Rightarrow> attribution_outcome \<Rightarrow> 'a attribution_db_scheme \<Rightarrow> 'a attribution_db_scheme \<Rightarrow> bool" where
  "run_recorded refs out d d' \<longleftrightarrow>
     (\<exists>run faces seeds. attribution_runs d' = attribution_runs d @ [run] \<and>
        attributed_faces d' = attributed_faces d @ faces \<and> search_seeds d' = search_seeds d @ seeds \<and>
        ar_run_id run = ao_run_id out \<and> ar_status run = ''completed'' \<and>
        ar_candidate_count run = length refs \<and> ar_faces_detected run = Some (length faces) \<and>
        ar_faces_attributed run = Some (length (filter (\<lambda>f. af_resolved_user_ref f \<noteq> None) faces)) \<and>
        map af_face_index faces = map fc_face_index (ao_faces out) \<and>
        map af_resolved_user_ref faces = map fc_resolved_user_ref (ao_faces out) \<and>
        list_all (\<lambda>f. af_run_id f = ar_run_id run) faces \<and>
        distinct (map seed_user_ref seeds) \<and>
        list_all (\<lambda>s. seed_user_ref s \<in> set refs \<and>
          list_ex (\<lambda>f. attributed_face_id s = Some (af_face_id f) \<and>
            af_resolved_user_ref f = Some (seed_user_ref s)) faces) seeds)"

lemma resolve_all_refs:
  assumes "resolve_all search refs fs = Inr faces" "f \<in> set faces" "fc_resolved_user_ref f = Some u"
  shows "u \<in> set refs"
  using assms
proof (induction fs arbitrary: faces)
  case (Cons g fs)
  then obtain ms gs where "resolve_all search refs fs = Inr gs" "faces = resolve_face g ms refs # gs"
    by (auto split: sum.splits)
  with Cons show ?case by (auto dest!: resolve_face_Some as_candidate_Some)
qed simp

lemma planned_owners:
  assumes "plan_seeds crop uploader photo photo_ref owners targets n = Inr (planned, skipped)"
    and "distinct (map fst owners)"
  shows "distinct (map ps_user_ref planned)" "\<And>p. p \<in> set planned \<Longrightarrow> (ps_user_ref p, ps_face p) \<in> set owners"
proof -
  have "distinct (map ps_user_ref planned) \<and> (\<forall>p\<in>set planned. (ps_user_ref p, ps_face p) \<in> set owners)"
  proof (cases "wants_crops targets n")
    case True
    with assms(1) have "plan_crops crop uploader photo targets owners = Inr (planned, skipped)"
      by (simp add: plan_seeds_def)
    from plan_crops_spec [OF this] assms(2) show ?thesis
      by (metis distinct_append mset_eq_imp_distinct_iff)
  next
    case False
    with assms show ?thesis
      by (auto simp: plan_seeds_def photo_seed_def comp_def case_prod_unfold)
  qed
  then show "distinct (map ps_user_ref planned)"
    "\<And>p. p \<in> set planned \<Longrightarrow> (ps_user_ref p, ps_face p) \<in> set owners" by auto
qed

lemma map_of_index:
  assumes "distinct (map af_face_index rows)" "map_of (rev (map (\<lambda>r. (af_face_index r, af_face_id r)) rows)) k = Some i"
  shows "\<exists>r\<in>set rows. af_face_index r = k \<and> af_face_id r = i"
  using map_of_SomeD [OF assms(2)] by auto

lemma list_all2_right: "list_all2 P xs ys \<Longrightarrow> y \<in> set ys \<Longrightarrow> \<exists>x\<in>set xs. P x y"
  by (induction rule: list_all2_induct) auto

lemma plan_seeds_error:
  assumes "plan_seeds crop uploader photo photo_ref owners targets n = Inl err"
  shows "\<exists>x. err = Undecodable_image x"
proof -
  have "plan_crops crop uploader photo targets owners = Inl err \<Longrightarrow> \<exists>x. err = Undecodable_image x"
    by (induction owners) (auto simp: Let_def split: option.splits crop_result.splits sum.splits if_splits)
  with assms show ?thesis by (auto simp: plan_seeds_def split: if_splits)
qed

lemma insert_skipped_audit_frame [simp]:
  "attribution_runs (insert_skipped_audit rid ref sk d) = attribution_runs d"
  "attributed_faces (insert_skipped_audit rid ref sk d) = attributed_faces d"
  "search_seeds (insert_skipped_audit rid ref sk d) = search_seeds d"
  by (induction sk arbitrary: d) (simp_all add: insert_audit_def)

lemma record_run_recorded:
  assumes rec: "record_run q faces planned skipped d = Inr (out, d')"
    and count: "rq_candidate_count q = length refs"
    and refs: "\<And>f u. f \<in> set faces \<Longrightarrow> fc_resolved_user_ref f = Some u \<Longrightarrow> u \<in> set refs"
    and owners: "distinct (map ps_user_ref planned)"
      "\<And>p. p \<in> set planned \<Longrightarrow> (ps_user_ref p, ps_face p) \<in> set (distinct_attributed faces)"
  shows "run_recorded refs out d d'"
proof -
  obtain rid d1 ids d2 seeds d3 where
    run: "insert_attribution_run q (Some (length faces)) (Some (length (filter (\<lambda>f. fc_resolved_user_ref f \<noteq> None) faces)))
             ''completed'' None d = Inr (rid, d1)"
    and fc: "insert_faces rid (rq_model_id q) faces d1 = Inr (ids, d2)"
    and sd: "insert_seeds planned ids d2 = Inr (seeds, d3)"
    and out: "out = \<lparr>ao_run_id = rid, ao_faces = faces, ao_seeds = seeds\<rparr>"
    and d': "d' = insert_skipped_audit rid (rq_photo_ref q) skipped d3"
    using rec by (auto simp: record_run_def split: sum.splits)
  from insert_attribution_run_Inr [OF run] obtain r where r: "attribution_runs d1 = attribution_runs d @ [r]"
    "ar_run_id r = rid" "ar_status r = ''completed''" "ar_faces_detected r = Some (length faces)"
    "ar_faces_attributed r = Some (length (filter (\<lambda>f. fc_resolved_user_ref f \<noteq> None) faces))"
    "ar_candidate_count r = rq_candidate_count q" "attributed_faces d1 = attributed_faces d"
    "search_seeds d1 = search_seeds d" by blast
  from insert_faces_Inr [OF fc] obtain rows where rows: "attributed_faces d2 = attributed_faces d1 @ rows"
    "ids = map (\<lambda>r. (af_face_index r, af_face_id r)) rows" "map af_face_index rows = map fc_face_index faces"
    "map af_resolved_user_ref rows = map fc_resolved_user_ref faces" "\<forall>r\<in>set rows. af_run_id r = rid"
    "distinct (map af_face_index rows)" "attribution_runs d2 = attribution_runs d1" "search_seeds d2 = search_seeds d1"
    by blast
  from insert_seeds_Inr [OF sd] obtain srows where srows: "search_seeds d3 = search_seeds d2 @ srows"
    "list_all2 (\<lambda>p row. seed_user_ref row = ps_user_ref p \<and> source_object_ref row = ps_source_object_ref p \<and>
      seed_kind row = ps_seed_kind p \<and> attributed_face_id row \<noteq> None \<and>
      attributed_face_id row = map_of (rev ids) (fc_face_index (ps_face p))) planned srows"
    "attribution_runs d3 = attribution_runs d2" "attributed_faces d3 = attributed_faces d2" by blast
  have len: "length rows = length faces" using rows(3) by (metis length_map)
  have attributed: "length (filter (\<lambda>f. fc_resolved_user_ref f \<noteq> None) faces) =
      length (filter (\<lambda>f. af_resolved_user_ref f \<noteq> None) rows)"
    using arg_cong [OF rows(4), of "\<lambda>xs. length (filter (\<lambda>x. x \<noteq> None) xs)"] by (simp add: filter_map comp_def)
  have users: "map seed_user_ref srows = map ps_user_ref planned"
    using srows(2) by (induction rule: list_all2_induct) auto
  have linked: "seed_user_ref s \<in> set refs \<and> list_ex (\<lambda>f. attributed_face_id s = Some (af_face_id f) \<and>
            af_resolved_user_ref f = Some (seed_user_ref s)) rows" if "s \<in> set srows" for s
  proof -
    from list_all2_right [OF srows(2) that] obtain p where p: "p \<in> set planned" "seed_user_ref s = ps_user_ref p"
      "attributed_face_id s \<noteq> None" "attributed_face_id s = map_of (rev ids) (fc_face_index (ps_face p))"
      by blast
    then obtain i where i: "attributed_face_id s = Some i" "map_of (rev ids) (fc_face_index (ps_face p)) = Some i"
      by (metis not_None_eq)
    from best_so_farD [OF distinct_attributed_best owners(2) [OF p(1)]]
    have face: "ps_face p \<in> set faces" "fc_resolved_user_ref (ps_face p) = Some (ps_user_ref p)" by auto
    from map_of_index [OF rows(6)] i(2) rows(2)
    obtain row where row: "row \<in> set rows" "af_face_index row = fc_face_index (ps_face p)" "af_face_id row = i"
      by blast
    obtain m where m: "m < length faces" "faces ! m = ps_face p" using face(1) by (metis in_set_conv_nth)
    obtain n where n: "n < length rows" "rows ! n = row" using row(1) by (metis in_set_conv_nth)
    have "map af_face_index rows ! m = map af_face_index rows ! n"
      using m n len row(2) arg_cong [OF rows(3), of "\<lambda>xs. xs ! m"] by simp
    then have "m = n" using nth_eq_iff_index_eq [OF rows(6), of m n] m(1) n(1) len by simp
    then have "af_resolved_user_ref row = Some (ps_user_ref p)"
      using arg_cong [OF rows(4), of "\<lambda>xs. xs ! m"] m n len face(2) by simp
    with row(1,3) i(1) p(2) refs [OF face] show ?thesis by (auto simp: list_ex_iff)
  qed
  show ?thesis unfolding run_recorded_def
    using r rows srows len attributed users owners(1) linked count
    by (intro exI [of _ r] exI [of _ rows] exI [of _ srows]) (simp add: out d' list_all_iff)
qed

text \<open>
  Attribution is all or nothing.  When it returns, one completed run has been added with a row
  for every face it detected, and one seed per subject it plans for, each a candidate of the caller and
  linked to the face of this run that was recognised as that subject.  When the provider was unavailable, only
  a failed run has been added.  After any other failure nothing has changed.
\<close>

theorem attribution_all_or_nothing:
  assumes "attribute_photo ports photo_ref who refs url threshold most targets d = (res, d')"
  shows "case res of
      Inr out \<Rightarrow> run_recorded refs out d d'
    | Inl (Attribution_unavailable detail) \<Rightarrow>
        (\<exists>run. attribution_runs d' = attribution_runs d @ [run] \<and> ar_status run = ''failed'' \<and>
           ar_error_detail run = Some detail) \<and>
        attributed_faces d' = attributed_faces d \<and> search_seeds d' = search_seeds d
    | Inl _ \<Rightarrow> d' = d"
proof -
  define q where "q = \<lparr>rq_photo_ref = photo_ref, rq_requested_by = who, rq_candidate_count = length refs,
               rq_match_threshold = threshold, rq_max_candidates = most, rq_model_id = at_model_id ports\<rparr>"
  have failed: ?thesis if "fail_run q err d = (res, d')" for err
    using that
    by (cases err) (auto simp: fail_run_def record_failed_run_def split: sum.splits dest!: insert_attribution_run_Inr)
  show ?thesis
  proof (cases "detect_in_photo ports url")
    case (Inl err)
    with assms failed show ?thesis by (simp add: attribute_photo_def q_def)
  next
    case detect: (Inr pd)
    obtain photo detected where pd: "pd = (photo, detected)" by fastforce
    let ?search = "\<lambda>f. at_search ports photo f threshold most"
    show ?thesis
    proof (cases "resolve_all ?search refs detected")
      case (Inl err)
      with assms failed detect pd show ?thesis by (simp add: attribute_photo_def q_def)
    next
      case faces: (Inr faces)
      let ?plan = "plan_seeds (at_crop ports) (at_uploader ports) photo photo_ref (distinct_attributed faces)
          targets (length faces)"
      show ?thesis
      proof (cases ?plan)
        case (Inl err)
        from plan_seeds_error [OF Inl] Inl assms detect pd faces show ?thesis
          by (auto simp: attribute_photo_def q_def)
      next
        case plan: (Inr ps)
        obtain planned skipped where ps: "ps = (planned, skipped)" by fastforce
        show ?thesis
        proof (cases "record_run q faces planned skipped d")
          case (Inl e)
          with assms detect pd faces plan ps show ?thesis by (auto simp: attribute_photo_def q_def)
        next
          case rec: (Inr od)
          obtain out d1 where od: "od = (out, d1)" by fastforce
          have "distinct (map fst (distinct_attributed faces))"
            using distinct_attributed_best [of faces] by (simp add: best_so_far_def)
          note own = planned_owners [OF plan [unfolded ps] this]
          have "run_recorded refs out d d1"
            by (rule record_run_recorded [OF rec [unfolded od] _ resolve_all_refs [OF faces] own])
              (simp_all add: q_def)
          with assms detect pd faces plan ps rec od show ?thesis by (auto simp: attribute_photo_def q_def)
        qed
      qed
    qed
  qed
qed

section \<open>One photo\<close>

definition demo_box :: bounding_box where
  "demo_box = \<lparr>bb_x = 0, bb_y = 0, bb_w = 1, bb_h = 1\<rparr>"

definition demo_face :: "nat \<Rightarrow> detected_face" where
  "demo_face n = \<lparr>fc_face_index = n, fc_bbox = demo_box, fc_detect_confidence = 99\<rparr>"

text \<open>Two faces: person 7, whom a stranger outscores, and nobody.\<close>

definition demo_search :: "detected_face \<Rightarrow> attribution_error + face_match list" where
  "demo_search f = Inr (if fc_face_index f = 0
     then [\<lparr>fm_external_image_id = show_uuid 8, fm_similarity = 99\<rparr>,
           \<lparr>fm_external_image_id = show_uuid 7, fm_similarity = 90\<rparr>]
     else [\<lparr>fm_external_image_id = ''nobody'', fm_similarity = 95\<rparr>])"

definition demo_ports :: "nat attribution_ports" where
  "demo_ports = \<lparr>at_fetch = (\<lambda>_. Inr 0), at_to_jpeg = Inr, at_detect = (\<lambda>_. Inr [demo_face 0, demo_face 1]),
     at_search = (\<lambda>_ f _ _. demo_search f), at_model_id = ''m'', at_crop = (\<lambda>_ _. Crop 1),
     at_uploader = \<lparr>up_put = (\<lambda>_ _ _. True)\<rparr>\<rparr>"

definition demo_targets :: "crop_target list" where
  "demo_targets = [\<lparr>ct_user_ref = 7, ct_crop_ref = ''crop7'', ct_crop_put_url = ''u7''\<rparr>]"

definition demo_db :: attribution_db where
  "demo_db = db.extend one_run_db \<lparr>attribution_runs = [], attributed_faces = []\<rparr>"

lemma parse_demo: "parse_user_ref (show_uuid 7) = Some 7" "parse_user_ref (show_uuid 8) = Some 8"
  "parse_user_ref ''nobody'' = None"
proof -
  show "parse_user_ref (show_uuid 7) = Some 7" "parse_user_ref (show_uuid 8) = Some 8"
    using uuid_text_parses [of 7 "[]" "[]"] uuid_text_parses [of 8 "[]" "[]"] by simp_all
  show "parse_user_ref ''nobody'' = None"
    by (simp add: parse_user_ref_def parse_uuid_def uuid_of_text_def py_strip_def is_space_def strip_of_def
        starts_with_def Let_def)
qed

lemma demo_resolved:
  "resolve_all demo_search [7] [demo_face 0, demo_face 1] =
     Inr [detected_face.extend (demo_face 0) \<lparr>fc_resolved_user_ref = Some 7, fc_match_score = Some 90\<rparr>,
          detected_face.extend (demo_face 1) \<lparr>fc_resolved_user_ref = None, fc_match_score = None\<rparr>]"
  by (simp add: demo_search_def demo_face_def resolve_face_def as_candidate_def parse_demo)

theorem strangers_never_attributed_witness:
  "fc_resolved_user_ref (resolve_face (demo_face 0)
     [\<lparr>fm_external_image_id = show_uuid 8, fm_similarity = 99\<rparr>,
      \<lparr>fm_external_image_id = show_uuid 7, fm_similarity = 90\<rparr>] [7]) = Some 7"
  using strangers_never_attributed [of "demo_face 0" "[\<lparr>fm_external_image_id = show_uuid 8, fm_similarity = 99\<rparr>,
      \<lparr>fm_external_image_id = show_uuid 7, fm_similarity = 90\<rparr>]" "[7]"]
  by (auto simp: as_candidate_def parse_demo split: option.splits)

lemma demo_planned:
  "\<exists>face. plan_seeds (at_crop demo_ports) (at_uploader demo_ports) 0 ''p'' [(7, face)] demo_targets 2 =
     Inr ([crop_seed 7 face ''crop7''], [])"
  by (simp add: demo_ports_def demo_targets_def plan_seeds_def wants_crops_def MIN_FACES_FOR_CROP_def target_for_def)

theorem group_photo_never_seeded_witness:
  "\<exists>face. plan_seeds (at_crop demo_ports) (at_uploader demo_ports) 0 ''p'' [(7, face)] demo_targets 2 =
       Inr ([crop_seed 7 face ''crop7''], []) \<and>
     ps_source_object_ref (crop_seed 7 face ''crop7'') = ''crop7''"
proof -
  obtain face where plan: "plan_seeds (at_crop demo_ports) (at_uploader demo_ports) 0 ''p'' [(7, face)]
      demo_targets 2 = Inr ([crop_seed 7 face ''crop7''], [])" using demo_planned by blast
  have "demo_targets \<noteq> []" by (simp add: demo_targets_def)
  from group_photo_never_seeded [OF this _ plan] plan show ?thesis by (auto simp: demo_targets_def)
qed

lemma demo_run:
  "\<exists>out d'. attribute_photo demo_ports ''p'' 7 [7] ''url'' 80 5 demo_targets demo_db = (Inr out, d')"
proof -
  let ?f = "detected_face.extend (demo_face 0) \<lparr>fc_resolved_user_ref = Some 7, fc_match_score = Some 90\<rparr>"
  have detect: "detect_in_photo demo_ports ''url'' = Inr (0, [demo_face 0, demo_face 1])"
    by (simp add: detect_in_photo_def demo_ports_def)
  have search: "(\<lambda>f. at_search demo_ports 0 f 80 5) = demo_search" by (simp add: demo_ports_def)
  have plan: "plan_seeds (at_crop demo_ports) (at_uploader demo_ports) 0 ''p'' [(7, ?f)] demo_targets 2 =
     Inr ([crop_seed 7 ?f ''crop7''], [])"
    by (simp add: demo_ports_def demo_targets_def plan_seeds_def wants_crops_def MIN_FACES_FOR_CROP_def target_for_def)
  show ?thesis
    using demo_resolved detect plan
    by (simp add: attribute_photo_def search distinct_attributed_def keep_best_def detected_face.extend_def demo_face_def
        record_run_def insert_attribution_run_def numeric_5_2_def round_half_away_def crop_seed_def Let_def
        demo_db_def db.extend_def one_run_db_def empty_db_def numeral_2_eq_2)
qed

theorem attribution_all_or_nothing_witness:
  "\<exists>out d'. attribute_photo demo_ports ''p'' 7 [7] ''url'' 80 5 demo_targets demo_db = (Inr out, d') \<and>
     run_recorded [7] out demo_db d'"
proof -
  obtain out d' where run: "attribute_photo demo_ports ''p'' 7 [7] ''url'' 80 5 demo_targets demo_db = (Inr out, d')"
    using demo_run by blast
  from attribution_all_or_nothing [OF run] run show ?thesis by auto
qed

end
