(* ===== verification/Confirm_Worker.thy ===== *)
theory Confirm_Worker
  imports Gate Confirm_Store Attribution Outbox
begin

text \<open>
  The consumer of \<^verbatim>\<open>confirm:hits\<close> (\<^verbatim>\<open>src/imageshield/confirm/worker.py\<close>): one message from
  the queue to the verdict, against the \<^verbatim>\<open>ConfirmStore\<close> and \<^verbatim>\<open>ProviderControlStore\<close> protocols.

  An image is an abstract value.  Fetching it, its grey pixels, its re-encoding and the three
  Rekognition calls are functions of the dependencies; so are the product \<^verbatim>\<open>w * h\<close> of two floats
  and the measured latency.
\<close>

section \<open>Dependencies\<close>

record 's confirm_store =
  cs_load_context :: "uuid \<Rightarrow> 's \<Rightarrow> confirm_context option"
  cs_decided_phashes :: "user_ref \<Rightarrow> 's \<Rightarrow> (uuid \<times> int) list"
  cs_record_duplicate :: "uuid \<Rightarrow> uuid \<Rightarrow> int \<Rightarrow> 's \<Rightarrow> exn + 's"
  cs_record_quarantine :: "uuid \<Rightarrow> int option \<Rightarrow> moderation_label list \<Rightarrow> rat option \<Rightarrow> 's \<Rightarrow> exn + 's"
  cs_record_triage ::
    "uuid \<Rightarrow> severity \<Rightarrow> int option \<Rightarrow> rat option \<Rightarrow> moderation_label list option
       \<Rightarrow> (string \<times> json) list \<Rightarrow> 's \<Rightarrow> exn + 's"
  cs_record_auto_confirmed ::
    "uuid \<Rightarrow> int option \<Rightarrow> rat option \<Rightarrow> moderation_label list option \<Rightarrow> (string \<times> json) list
       \<Rightarrow> 's \<Rightarrow> exn + 's"
  cs_record_unfetchable :: "uuid \<Rightarrow> string \<Rightarrow> 's \<Rightarrow> exn + 's"
  cs_record_preview_image_url :: "uuid \<Rightarrow> string \<Rightarrow> 's \<Rightarrow> 's"
  cs_record_skipped :: "uuid \<Rightarrow> string \<Rightarrow> string \<Rightarrow> 's \<Rightarrow> 's"

definition pg_confirm :: "'a db_scheme confirm_store" where
  "pg_confirm =
     \<lparr>cs_load_context = load_context, cs_decided_phashes = decided_phashes,
      cs_record_duplicate = record_duplicate, cs_record_quarantine = record_quarantine,
      cs_record_triage = record_triage, cs_record_auto_confirmed = record_auto_confirmed,
      cs_record_unfetchable = record_unfetchable,
      cs_record_preview_image_url = record_preview_image_url, cs_record_skipped = record_skipped\<rparr>"

text \<open>\<^verbatim>\<open>AttributionUnavailable\<close> and \<^verbatim>\<open>ConfirmUnavailable\<close>, and whatever else a call raises.\<close>

datatype bundle_failure = Unavailable string | Raised string

datatype 'i fetch_answer = Fetched 'i | No_image | Fetch_raised string

record 'i confirm_deps =
  cd_fetch :: "string \<Rightarrow> 'i fetch_answer"
  cd_gray :: "'i \<Rightarrow> nat list option"
  cd_to_rekognition_jpeg :: "'i \<Rightarrow> 'i option"
  cd_detect_faces :: "'i \<Rightarrow> bundle_failure + detected_face list"
  cd_search_face :: "'i \<Rightarrow> detected_face \<Rightarrow> bundle_failure + face_match list"
  cd_assess :: "'i \<Rightarrow> bundle_failure + moderation_signal"
  cd_float_mul :: "rat \<Rightarrow> rat \<Rightarrow> rat"
  cd_latency_ms :: int
  cd_face_match_threshold :: rat
  cd_max_faces :: nat
  cd_phash_hamming_max :: nat
  cd_csam_age_low_threshold :: rat

definition PHASH_DEGENERATE_LOW_BITS :: nat where
  "PHASH_DEGENERATE_LOW_BITS = 4"

definition PHASH_DEGENERATE_HIGH_BITS :: nat where
  "PHASH_DEGENERATE_HIGH_BITS = 60"

definition phash_degenerate :: "int \<Rightarrow> bool" where
  "phash_degenerate h \<longleftrightarrow>
     bit_population h \<le> PHASH_DEGENERATE_LOW_BITS \<or> PHASH_DEGENERATE_HIGH_BITS \<le> bit_population h"

section \<open>The Rekognition bundle\<close>

definition face_area :: "(rat \<Rightarrow> rat \<Rightarrow> rat) \<Rightarrow> detected_face \<Rightarrow> rat" where
  "face_area mul f = mul (bb_w (fc_bbox f)) (bb_h (fc_bbox f))"

text \<open>\<^verbatim>\<open>sorted(faces, key=_face_area, reverse=True)[:max_faces]\<close>: stable, largest first.\<close>

definition ranked_faces :: "(rat \<Rightarrow> rat \<Rightarrow> rat) \<Rightarrow> nat \<Rightarrow> detected_face list \<Rightarrow> detected_face list" where
  "ranked_faces mul max_faces faces = take max_faces (sort_key (\<lambda>f. - face_area mul f) faces)"

definition run_bundle ::
  "'i confirm_deps \<Rightarrow> user_ref \<Rightarrow> 'i
     \<Rightarrow> bundle_failure + detected_face list \<times> attributed_face list \<times> moderation_signal" where
  "run_bundle deps user rek_bytes =
     (case cd_detect_faces deps rek_bytes of
        Inl e \<Rightarrow> Inl e
      | Inr faces \<Rightarrow>
          let ranked = ranked_faces (cd_float_mul deps) (cd_max_faces deps) faces in
          (case resolve_all (cd_search_face deps rek_bytes) [user] ranked of
             Inl e \<Rightarrow> Inl e
           | Inr attributed \<Rightarrow>
               (case cd_assess deps rek_bytes of
                  Inl e \<Rightarrow> Inl e
                | Inr moderation \<Rightarrow> Inr (ranked, attributed, moderation))))"

text \<open>The loop over the attributed faces: the first of the best scores, with its box.\<close>

fun best_match ::
  "(rat \<times> bounding_box) option \<Rightarrow> attributed_face list \<Rightarrow> (rat \<times> bounding_box) option" where
  "best_match best [] = best"
| "best_match best (f # fs) =
     best_match
       (case fc_match_score f of
          None \<Rightarrow> best
        | Some s \<Rightarrow>
            (case best of
               None \<Rightarrow> Some (s, fc_bbox f)
             | Some (b, _) \<Rightarrow> if b < s then Some (s, fc_bbox f) else best)) fs"

definition crop_bbox :: "(rat \<times> bounding_box) option \<Rightarrow> detected_face list \<Rightarrow> bounding_box option" where
  "crop_bbox best ranked =
     (case best of
        Some (_, b) \<Rightarrow> Some b
      | None \<Rightarrow> (case ranked of [] \<Rightarrow> None | f # _ \<Rightarrow> Some (fc_bbox f)))"

section \<open>Outcomes\<close>

definition failed_result :: "int \<Rightarrow> string \<Rightarrow> provider_result" where
  "failed_result latency detail =
     \<lparr>res_provider_id = REKOGNITION_CONFIRM_ID, res_status = ''error'', res_matches = [],
      res_raw_response = JObj [], res_http_status = None, res_latency_ms = latency, res_attempts = 1,
      res_error_detail = Some detail\<rparr>"

definition ok_result :: "int \<Rightarrow> nat \<Rightarrow> rat option \<Rightarrow> moderation_signal \<Rightarrow> provider_result" where
  "ok_result latency searched best_score moderation =
     \<lparr>res_provider_id = REKOGNITION_CONFIRM_ID, res_status = ''ok'', res_matches = [],
      res_raw_response = JObj [(''faces_searched'', JNum (of_nat searched)),
        (''face_match_score'', json_opt JNum best_score),
        (''moderation_label_count'', JNum (of_nat (length (ms_labels moderation)))),
        (''min_age_low'', json_opt JNum (ms_min_age_low moderation))],
      res_http_status = None, res_latency_ms = latency, res_attempts = 1, res_error_detail = None\<rparr>"

definition record_outcome_guarded ::
  "'s provider_control \<Rightarrow> uuid option \<Rightarrow> provider_result \<Rightarrow> money option \<Rightarrow> int \<Rightarrow> 's \<Rightarrow> exn + 's" where
  "record_outcome_guarded control run result cost day s =
     (case run of
        None \<Rightarrow> Inr s
      | Some rid \<Rightarrow> ctl_record_outcome control (Some rid) result cost day s)"

text \<open>Steps 8 and 9: the tripwire, then the verdict.\<close>

definition triage_payload ::
  "string \<Rightarrow> bounding_box option \<Rightarrow> rat option \<Rightarrow> moderation_label list \<Rightarrow> bool \<Rightarrow> (string \<times> json) list" where
  "triage_payload url best_bbox best_score labels degenerate =
     [(''image_url'', JStr url), (''best_face_bbox'', json_opt bbox_json best_bbox),
      (''face_match_score'', json_opt JNum best_score),
      (''moderation_labels'', JArr (map (\<lambda>l. JStr (ml_name l)) labels)),
      (''phash_degenerate'', JBool degenerate)]"

definition record_verdict_of ::
  "'i confirm_deps \<Rightarrow> 's confirm_store \<Rightarrow> uuid \<Rightarrow> string \<Rightarrow> int \<Rightarrow> rat option \<Rightarrow> bounding_box option
     \<Rightarrow> moderation_signal \<Rightarrow> 's \<Rightarrow> exn + 's" where
  "record_verdict_of deps store iid url new_phash best_score best_bbox moderation s =
     (let explicit = is_explicit (ms_labels moderation);
          severity = classify_severity explicit best_score (cd_face_match_threshold deps);
          triage = triage_payload url best_bbox best_score (ms_labels moderation) (phash_degenerate new_phash)
      in if csam_quarantine explicit (ms_min_age_low moderation) (cd_csam_age_low_threshold deps)
         then cs_record_quarantine store iid (Some new_phash) (ms_labels moderation)
                (ms_min_age_low moderation) s
         else if severity = AUTO_CONFIRM_SEVERITY
         then cs_record_auto_confirmed store iid (Some new_phash) best_score
                (Some (ms_labels moderation)) triage s
         else cs_record_triage store iid severity (Some new_phash) best_score
                (Some (ms_labels moderation)) triage s)"

section \<open>The message\<close>

text \<open>
  \<^verbatim>\<open>return True\<close> after a store call, or the outer \<^verbatim>\<open>except Exception\<close>: the answer is whether the
  message is deleted, and what was committed before an exception stays.
\<close>

definition done_or_retry :: "exn + 's \<Rightarrow> 's \<Rightarrow> bool \<times> 's" where
  "done_or_retry r s = (case r of Inl _ \<Rightarrow> (False, s) | Inr s' \<Rightarrow> (True, s'))"

text \<open>Steps 6 to 9, after a dispatch.\<close>

definition dispatch_bundle ::
  "'i confirm_deps \<Rightarrow> 's confirm_store \<Rightarrow> 's provider_control \<Rightarrow> datetime \<Rightarrow> confirm_context \<Rightarrow> string
     \<Rightarrow> int \<Rightarrow> money option \<Rightarrow> 'i \<Rightarrow> 's \<Rightarrow> bool \<times> 's" where
  "dispatch_bundle deps store control moment ctx url new_phash cost rek_bytes s =
     (case run_bundle deps (ctx_user_ref ctx) rek_bytes of
        Inl (Raised _) \<Rightarrow> (False, s)
      | Inl (Unavailable detail) \<Rightarrow>
          (case record_outcome_guarded control (ctx_run_id ctx)
                  (failed_result (cd_latency_ms deps) detail) cost (utc_spend_date moment) s of
             Inl _ \<Rightarrow> (False, s)
           | Inr s1 \<Rightarrow> (False, s1))
      | Inr (ranked, attributed, moderation) \<Rightarrow>
          let best = best_match None attributed; best_score = map_option fst best in
          (case record_outcome_guarded control (ctx_run_id ctx)
                  (ok_result (cd_latency_ms deps) (length ranked) best_score moderation)
                  cost (utc_spend_date moment) s of
             Inl _ \<Rightarrow> (False, s)
           | Inr s1 \<Rightarrow>
               done_or_retry (record_verdict_of deps store (ctx_infringement_id ctx) url new_phash
                 best_score (crop_bbox best ranked) moderation s1) s1))"

text \<open>Step 5, on an image that was hashed and is no duplicate.\<close>

definition gate_and_dispatch ::
  "'i confirm_deps \<Rightarrow> 's confirm_store \<Rightarrow> 's provider_control \<Rightarrow> datetime \<Rightarrow> confirm_context \<Rightarrow> string
     \<Rightarrow> int \<Rightarrow> 'i \<Rightarrow> 's \<Rightarrow> bool \<times> 's" where
  "gate_and_dispatch deps store control moment ctx url new_phash bytes s =
     (let (rts, s1) = ctl_runtimes control s;
          (decision, s2) = decide control REKOGNITION_CONFIRM_ID (rts REKOGNITION_CONFIRM_ID) moment s1
      in case decision of
           Skip _ reason detail \<Rightarrow>
             (case (case ctx_run_id ctx of
                      None \<Rightarrow> Inr s2
                    | Some rid \<Rightarrow> ctl_record_skip control (Some rid) REKOGNITION_CONFIRM_ID reason detail s2) of
                Inl _ \<Rightarrow> (False, s2)
              | Inr s3 \<Rightarrow>
                  (True, cs_record_skipped store (ctx_infringement_id ctx) (skip_reason_text reason) detail s3))
         | Dispatch _ cost probe \<Rightarrow>
             (case cd_to_rekognition_jpeg deps bytes of
                None \<Rightarrow>
                  done_or_retry (cs_record_unfetchable store (ctx_infringement_id ctx)
                    ''undecodable for rekognition'' s2) s2
              | Some rek_bytes \<Rightarrow>
                  dispatch_bundle deps store control moment ctx url new_phash cost rek_bytes s2))"

text \<open>Steps 3 and 4, for a hit with an image.\<close>

definition assess_image ::
  "'i confirm_deps \<Rightarrow> 's confirm_store \<Rightarrow> 's provider_control \<Rightarrow> datetime \<Rightarrow> confirm_context \<Rightarrow> string
     \<Rightarrow> 's \<Rightarrow> bool \<times> 's" where
  "assess_image deps store control moment ctx url s =
     (let unfetchable = (\<lambda>detail. done_or_retry (cs_record_unfetchable store (ctx_infringement_id ctx) detail s) s)
      in case cd_fetch deps url of
           Fetch_raised e \<Rightarrow> unfetchable (''fetch failed: '' @ e)
         | No_image \<Rightarrow> unfetchable ''fetcher returned no image''
         | Fetched bytes \<Rightarrow>
             (case dhash (cd_gray deps bytes) of
                None \<Rightarrow> unfetchable ''undecodable''
              | Some new_phash \<Rightarrow>
                  (case (if phash_degenerate new_phash then None
                         else find_duplicate new_phash (cs_decided_phashes store (ctx_user_ref ctx) s)
                                (cd_phash_hamming_max deps)) of
                     Some source \<Rightarrow>
                       done_or_retry (cs_record_duplicate store (ctx_infringement_id ctx) source new_phash s) s
                   | None \<Rightarrow>
                       gate_and_dispatch deps store control moment ctx url new_phash bytes s)))"

text \<open>Steps 1 and 2; a body that does not parse to a payload is \<open>None\<close>.\<close>

definition confirm_message ::
  "outbox_payload option \<Rightarrow> 'i confirm_deps \<Rightarrow> 's confirm_store \<Rightarrow> 's provider_control \<Rightarrow> datetime
     \<Rightarrow> 's \<Rightarrow> bool \<times> 's" where
  "confirm_message body deps store control moment s =
     (case body of
        None \<Rightarrow> (True, s)
      | Some p \<Rightarrow>
          if event p \<noteq> CONFIRM_REQUESTED_EVENT then (True, s)
          else
            (case cs_load_context store (payload_id p) s of
               None \<Rightarrow> (True, s)
             | Some ctx \<Rightarrow>
                 if ctx_confirm_state ctx \<noteq> Unconfirmed \<and> ctx_confirm_state ctx \<noteq> Machine_triaged
                 then (True, s)
                 else
                   (case ctx_image_url ctx of
                      None \<Rightarrow>
                        done_or_retry (cs_record_unfetchable store (ctx_infringement_id ctx)
                          ''no image_url recorded'' s) s
                    | Some url \<Rightarrow> assess_image deps store control moment ctx url s)))"

end
