(* ===== verification/Review_Store.thy ===== *)
theory Review_Store
  imports Triage Outbox Search_Store
begin

text \<open>
  The deciding half of \<^verbatim>\<open>src/imageshield/review/store.py\<close>: the queue a reviewer works from,
  the operator's decision and the subject's own.  Both decisions lock a row and are one step.
\<close>

definition REVIEW_DECIDED_ACTION :: string where
  "REVIEW_DECIDED_ACTION = ''review.decided''"

definition SUBJECT_DECIDED_ACTION :: string where
  "SUBJECT_DECIDED_ACTION = ''review.subject_decided''"

definition REVIEW_VERDICT_ACTION :: string where
  "REVIEW_VERDICT_ACTION = ''review.verdict_recorded''"

definition SEVERITIES :: "severity list" where
  "SEVERITIES = [Ncii_suspected, Explicit_unmatched, Unassessed, Benign_copy, Likely_not_subject]"

fun confirm_text :: "confirm_state \<Rightarrow> string" where
  "confirm_text Unconfirmed = ''unconfirmed''"
| "confirm_text Machine_triaged = ''machine_triaged''"
| "confirm_text Confirmed = ''confirmed''"
| "confirm_text Rejected = ''rejected''"
| "confirm_text Duplicate = ''duplicate''"
| "confirm_text Quarantined = ''quarantined''"

text \<open>The vocabulary of the \<^verbatim>\<open>confirm_state\<close> column, as its CHECK reads it.\<close>

definition parse_confirm_state :: "string \<Rightarrow> confirm_state option" where
  "parse_confirm_state s =
     map_of (map (\<lambda>c. (confirm_text c, c))
       [Unconfirmed, Machine_triaged, Confirmed, Rejected, Duplicate, Quarantined]) s"

lemma parse_confirm_text [simp]: "parse_confirm_state (confirm_text c) = Some c"
  by (cases c) (simp_all add: parse_confirm_state_def)

section \<open>The queue\<close>

record queued_task =
  qt_task_id :: uuid
  qt_infringement_id :: uuid
  qt_user_ref :: user_ref
  qt_severity :: severity
  qt_triage :: json
  qt_image_url :: "string option"
  qt_page_url :: string
  qt_face_match_score :: "rat option"
  qt_source_domain :: string

definition url_row_of :: "infringement \<Rightarrow> 'a db_scheme \<Rightarrow> content_url option" where
  "url_row_of i d = sql_first (\<lambda>c. cu_url_hash c = inf_url_hash i) (content_urls d)"

text \<open>The two joins: a task without its hit, or a hit without its page, gives no row.\<close>

definition queue_row :: "'a db_scheme \<Rightarrow> review_task \<Rightarrow> queued_task list" where
  "queue_row d t =
     (case sql_first (\<lambda>i. infringement_id i = task_infringement_id t) (infringements d) of
        None \<Rightarrow> []
      | Some i \<Rightarrow>
          (case url_row_of i d of
             None \<Rightarrow> []
           | Some c \<Rightarrow>
               [\<lparr>qt_task_id = task_id t, qt_infringement_id = task_infringement_id t,
                 qt_user_ref = task_user_ref t, qt_severity = task_severity t,
                 qt_triage = task_triage t, qt_image_url = image_url i, qt_page_url = page_url i,
                 qt_face_match_score = face_match_score i, qt_source_domain = cu_source_domain c\<rparr>]))"

definition queue_order :: "review_task \<Rightarrow> nat \<times> instant" where
  "queue_order t = (SEVERITY_RANK (task_severity t), task_created_at t)"

definition review_queue :: "'a db_scheme \<Rightarrow> queued_task list" where
  "review_queue d =
     concat (map (queue_row d) (sort_key queue_order (filter (\<lambda>t. task_status t = Pending) (review_tasks d))))"

definition next_task :: "'a db_scheme \<Rightarrow> queued_task option" where
  "next_task d = sql_first (\<lambda>_. True) (review_queue d)"

definition queue_depth :: "'a db_scheme \<Rightarrow> (severity \<times> nat) list" where
  "queue_depth d =
     map (\<lambda>s. (s, length (filter (\<lambda>t. task_status t = Pending \<and> task_severity t = s) (review_tasks d))))
       SEVERITIES"

section \<open>The operator's decision\<close>

record decision_outcome =
  do_infringement_id :: uuid
  do_user_ref :: user_ref
  do_decision :: string
  do_severity :: "severity option"

definition operator_audit :: "string \<Rightarrow> user_ref \<Rightarrow> uuid \<Rightarrow> json \<Rightarrow> 'a db_scheme \<Rightarrow> 'a db_scheme" where
  "operator_audit act user iid md d =
     insert_audit (audit_entry ''operator'' act (Some user) (Some iid) md d) d"

definition severity_json :: "severity option \<Rightarrow> json" where
  "severity_json = json_opt (\<lambda>s. JStr (severity_text s))"

definition decide_row ::
  "instant \<Rightarrow> confirm_state \<Rightarrow> string \<Rightarrow> severity option \<Rightarrow> infringement \<Rightarrow> infringement" where
  "decide_row now state operator override i =
     i\<lparr>confirm_state := state,
       inf_severity := (case override of None \<Rightarrow> inf_severity i | Some s \<Rightarrow> Some s),
       confirm_decided_by := Some operator, confirm_decided_at := Some now\<rparr>"

definition decided_task :: "instant \<Rightarrow> string \<Rightarrow> string \<Rightarrow> review_task \<Rightarrow> review_task" where
  "decided_task now decision operator t =
     t\<lparr>task_status := Decided, task_decision := Some decision, task_decided_by := Some operator,
       task_decided_at := Some now\<rparr>"

definition decide_task ::
  "uuid \<Rightarrow> string \<Rightarrow> string \<Rightarrow> severity option \<Rightarrow> 'a db_scheme
     \<Rightarrow> exn + decision_outcome option \<times> 'a db_scheme" where
  "decide_task tid decision operator override d =
     (case sql_first (\<lambda>t. task_id t = tid \<and> task_status t = Pending) (review_tasks d) of
        None \<Rightarrow> Inr (None, d)
      | Some t \<Rightarrow>
          let iid = task_infringement_id t; user = task_user_ref t in
          if decision = ''uncertain'' then
            Inr (Some \<lparr>do_infringement_id = iid, do_user_ref = user, do_decision = ''uncertain'',
                       do_severity = None\<rparr>,
                 operator_audit REVIEW_DECIDED_ACTION user iid
                   (JObj [(''decision'', JStr ''uncertain''), (''operator'', JStr operator)]) d)
          else if decision \<notin> {''confirmed'', ''rejected''}
          then Inl (CheckViolation ''review_tasks_decision_check'')
          else
            let state = (if decision = ''confirmed'' then Confirmed else Rejected);
                d1 = d\<lparr>review_tasks := sql_update (\<lambda>t. task_id t = tid)
                         (decided_task (db_now d) decision operator) (review_tasks d)\<rparr>
            in case update_infringements (\<lambda>i. infringement_id i = iid)
                      (decide_row (db_now d) state operator override) d1 of
                 Inl e \<Rightarrow> Inl e
               | Inr d2 \<Rightarrow>
                   (case sql_first (\<lambda>i. infringement_id i = iid) (infringements d2) of
                      None \<Rightarrow> Inl AssertionError
                    | Some i \<Rightarrow>
                        Inr (Some \<lparr>do_infringement_id = iid, do_user_ref = user, do_decision = decision,
                                   do_severity = inf_severity i\<rparr>,
                             operator_audit REVIEW_DECIDED_ACTION user iid
                               (JObj [(''decision'', JStr decision),
                                      (''severity'', severity_json (inf_severity i)),
                                      (''operator'', JStr operator)]) d2)))"

section \<open>The subject's decision\<close>

record subject_outcome =
  so_infringement_id :: uuid
  so_decision :: string
  so_severity :: "severity option"
  so_outcome :: string

definition SUBJECT :: string where
  "SUBJECT = ''subject''"

definition subject_row_decided :: "instant \<Rightarrow> confirm_state \<Rightarrow> infringement \<Rightarrow> infringement" where
  "subject_row_decided now state i =
     i\<lparr>confirm_state := state, confirm_decided_by := Some SUBJECT, confirm_decided_at := Some now,
       inf_status := (if state = Rejected then Dismissed_not_me
                      else if inf_status i = Dismissed_not_me then Status_new
                      else inf_status i)\<rparr>"

definition subject_may_set :: "uuid \<Rightarrow> review_task \<Rightarrow> bool" where
  "subject_may_set iid t \<longleftrightarrow>
     task_infringement_id t = iid \<and>
     (task_status t = Pending \<or> task_status t = Decided \<and> task_decided_by t = Some SUBJECT)"

definition subject_write ::
  "uuid \<Rightarrow> user_ref \<Rightarrow> string \<Rightarrow> string \<Rightarrow> 'a db_scheme \<Rightarrow> exn + subject_outcome option \<times> 'a db_scheme" where
  "subject_write iid user decision domain d =
     (case parse_confirm_state decision of
        None \<Rightarrow> Inl (CheckViolation ''infringements_confirm_state_check'')
      | Some state \<Rightarrow>
          (case update_infringements (\<lambda>i. infringement_id i = iid) (subject_row_decided (db_now d) state) d of
             Inl e \<Rightarrow> Inl e
           | Inr d1 \<Rightarrow>
               (case sql_first (\<lambda>i. infringement_id i = iid) (infringements d1) of
                  None \<Rightarrow> Inl AssertionError
                | Some i \<Rightarrow>
                    if decision \<notin> {''confirmed'', ''rejected''} \<and> list_ex (subject_may_set iid) (review_tasks d1)
                    then Inl (CheckViolation ''review_tasks_decision_check'')
                    else
                      let d2 = d1\<lparr>review_tasks := sql_update (subject_may_set iid)
                                 (decided_task (db_now d) decision SUBJECT) (review_tasks d1)\<rparr>
                      in Inr (Some \<lparr>so_infringement_id = iid, so_decision = decision,
                                    so_severity = inf_severity i, so_outcome = ''decided''\<rparr>,
                           insert_audit (audit_entry ''subject'' SUBJECT_DECIDED_ACTION (Some user) (Some iid)
                             (JObj [(''decision'', JStr decision),
                                    (''severity'', severity_json (inf_severity i)),
                                    (''source_domain'', JStr domain)]) d2) d2))))"

definition subject_decide ::
  "uuid \<Rightarrow> user_ref \<Rightarrow> string \<Rightarrow> 'a db_scheme \<Rightarrow> exn + subject_outcome option \<times> 'a db_scheme" where
  "subject_decide iid user decision d =
     (case sql_first (owned_by iid user) (infringements d) of
        None \<Rightarrow> Inr (None, d)
      | Some i \<Rightarrow>
          (case url_row_of i d of
             None \<Rightarrow> Inr (None, d)
           | Some c \<Rightarrow>
               if confirm_state i \<in> {Quarantined, Duplicate} then Inr (None, d)
               else if confirm_state i \<in> {Confirmed, Rejected} \<and> confirm_decided_by i \<noteq> Some SUBJECT
               then Inr (Some \<lparr>so_infringement_id = iid, so_decision = confirm_text (confirm_state i),
                               so_severity = inf_severity i, so_outcome = ''conflict''\<rparr>, d)
               else if confirm_state i \<in> {Confirmed, Rejected} \<and> confirm_text (confirm_state i) = decision
               then Inr (Some \<lparr>so_infringement_id = iid, so_decision = decision,
                               so_severity = inf_severity i, so_outcome = ''replay''\<rparr>, d)
               else subject_write iid user decision (cu_source_domain c) d))"

section \<open>The observer reads\<close>

definition json_get :: "string \<Rightarrow> json \<Rightarrow> json option" where
  "json_get k j = (case j of JObj kvs \<Rightarrow> map_of (rev kvs) k | _ \<Rightarrow> None)"

record decision_row =
  dr_occurred_at :: instant
  dr_user_ref :: "uuid option"
  dr_infringement_id :: "uuid option"
  dr_decision :: "json option"
  dr_severity :: "json option"
  dr_source_domain :: "json option"

definition subject_decisions :: "nat \<Rightarrow> 'a db_scheme \<Rightarrow> decision_row list" where
  "subject_decisions limit d =
     map (\<lambda>a. \<lparr>dr_occurred_at = occurred_at a, dr_user_ref = subject_ref a,
               dr_infringement_id = resource_id a, dr_decision = json_get ''decision'' (metadata a),
               dr_severity = json_get ''severity'' (metadata a),
               dr_source_domain = json_get ''source_domain'' (metadata a)\<rparr>)
       (take limit (sort_key (\<lambda>a. - occurred_at a)
          (filter (\<lambda>a. action a = SUBJECT_DECIDED_ACTION) (audit_log d))))"

record open_hit =
  oh_user_ref :: user_ref
  oh_infringement_id :: uuid
  oh_confirm_state :: confirm_state
  oh_severity :: "severity option"
  oh_source_domain :: string
  oh_first_seen_at :: instant

definition open_hits :: "nat \<Rightarrow> 'a db_scheme \<Rightarrow> open_hit list" where
  "open_hits limit d =
     take limit (concat (map (\<lambda>i. case url_row_of i d of
         None \<Rightarrow> []
       | Some c \<Rightarrow> [\<lparr>oh_user_ref = inf_user_ref i, oh_infringement_id = infringement_id i,
             oh_confirm_state = confirm_state i, oh_severity = inf_severity i,
             oh_source_domain = cu_source_domain c, oh_first_seen_at = first_seen_at i\<rparr>])
       (sort_key (\<lambda>i. - first_seen_at i)
         (filter (\<lambda>i. confirm_state i \<in> {Unconfirmed, Machine_triaged}) (infringements d)))))"

end
