(* ===== verification/Hit_Machine.thy ===== *)
theory Hit_Machine
  imports Confirm_Store Review_Store
begin

text \<open>
  The life of one hit, as the confirm and review stores promise it: what of the hit and of its
  review task decides who may still change it, and the moves between those states.  The theory
  \<open>Lifecycle\<close> shows that every operation of the stores is a move of this machine at one hit.
\<close>

record hit_view =
  hv_state :: confirm_state
  hv_severity :: "severity option"
  hv_by :: "string option"

record task_view =
  tv_status :: task_status
  tv_decision :: "string option"
  tv_by :: "string option"

type_synonym hit_machine_state = "hit_view option \<times> task_view option"

definition fresh_hit :: hit_view where
  "fresh_hit = \<lparr>hv_state = Unconfirmed, hv_severity = None, hv_by = None\<rparr>"

definition fresh_task :: "task_status \<Rightarrow> task_view" where
  "fresh_task s = \<lparr>tv_status = s, tv_decision = None, tv_by = None\<rparr>"

definition undecided :: "hit_view \<Rightarrow> bool" where
  "undecided h \<longleftrightarrow> hv_state h = Unconfirmed \<or> hv_state h = Machine_triaged"

text \<open>A task offered for review, held back by a quarantine, withdrawn by a duplicate.\<close>

definition offered :: "task_view option \<Rightarrow> task_view option" where
  "offered t = (case t of None \<Rightarrow> Some (fresh_task Pending) | Some v \<Rightarrow> Some v)"

definition held :: "task_view option \<Rightarrow> task_view option" where
  "held t =
     (case t of
        None \<Rightarrow> Some (fresh_task Task_quarantined)
      | Some v \<Rightarrow> if tv_status v = Pending then Some (v\<lparr>tv_status := Task_quarantined\<rparr>) else Some v)"

definition withdrawn :: "task_view option \<Rightarrow> task_view option" where
  "withdrawn t =
     (case t of None \<Rightarrow> None | Some v \<Rightarrow> if tv_status v = Pending then None else Some v)"

definition settled_by :: "string \<Rightarrow> confirm_state \<Rightarrow> task_view" where
  "settled_by who s = \<lparr>tv_status = Decided, tv_decision = Some (confirm_text s), tv_by = Some who\<rparr>"

text \<open>A subject's answer settles a pending task or one the subject settled before.\<close>

definition settled_by_subject :: "confirm_state \<Rightarrow> task_view option \<Rightarrow> task_view option" where
  "settled_by_subject s t =
     map_option (\<lambda>v. if tv_status v = Pending \<or> tv_status v = Decided \<and> tv_by v = Some SUBJECT
                     then settled_by SUBJECT s else v) t"

inductive hit_move :: "string set \<Rightarrow> hit_machine_state \<Rightarrow> hit_machine_state \<Rightarrow> bool" for ops where
  stay: "hit_move ops m m"
| appear: "hit_move ops (None, None) (Some fresh_hit, None)"
| triage: "undecided h \<Longrightarrow>
    hit_move ops (Some h, t) (Some (h\<lparr>hv_state := Machine_triaged, hv_severity := Some sev\<rparr>), offered t)"
| skip: "hit_move ops (Some h, t) (Some h, offered t)"
| auto_confirm: "undecided h \<Longrightarrow>
    hit_move ops (Some h, t)
      (Some \<lparr>hv_state = Confirmed, hv_severity = Some Ncii_suspected, hv_by = Some AUTO_CONFIRM_DECIDED_BY\<rparr>,
       offered t)"
| quarantine: "undecided h \<Longrightarrow> hit_move ops (Some h, t) (Some (h\<lparr>hv_state := Quarantined\<rparr>), held t)"
| duplicate: "undecided h \<Longrightarrow> hit_move ops (Some h, t) (Some (h\<lparr>hv_state := Duplicate\<rparr>), withdrawn t)"
| operator: "who \<in> ops \<Longrightarrow> tv_status v = Pending \<Longrightarrow> s = Confirmed \<or> s = Rejected \<Longrightarrow>
    hv_state h \<noteq> Duplicate \<Longrightarrow> sev = hv_severity h \<or> sev = Some override \<Longrightarrow>
    hit_move ops (Some h, Some v)
      (Some \<lparr>hv_state = s, hv_severity = sev, hv_by = Some who\<rparr>, Some (settled_by who s))"
| subject: "hv_state h \<noteq> Quarantined \<Longrightarrow> hv_state h \<noteq> Duplicate \<Longrightarrow>
    undecided h \<or> hv_by h = Some SUBJECT \<Longrightarrow> s = Confirmed \<or> s = Rejected \<Longrightarrow>
    hit_move ops (Some h, t) (Some (h\<lparr>hv_state := s, hv_by := Some SUBJECT\<rparr>), settled_by_subject s t)"

inductive_cases hit_moveE: "hit_move ops m m'"

abbreviation hit_moves :: "string set \<Rightarrow> hit_machine_state \<Rightarrow> hit_machine_state \<Rightarrow> bool" where
  "hit_moves ops \<equiv> (hit_move ops)\<^sup>*\<^sup>*"

section \<open>What holds in every state\<close>

text \<open>
  A decided hit names who decided it, and the machine's name stands only on a hit it was allowed
  to confirm; the task of an undecided hit is not settled; a settled task says what the hit says;
  an operator's decision settled the task; a quarantine holds its task.
\<close>

definition decider_ok :: "string set \<Rightarrow> hit_view \<Rightarrow> bool" where
  "decider_ok ops h \<longleftrightarrow>
     (case hv_by h of
        None \<Rightarrow> hv_state h \<noteq> Confirmed \<and> hv_state h \<noteq> Rejected
      | Some who \<Rightarrow>
          (hv_state h = Confirmed \<or> hv_state h = Rejected) \<and>
          (who = SUBJECT \<or> who \<in> ops \<or>
           who = AUTO_CONFIRM_DECIDED_BY \<and> hv_state h = Confirmed \<and> hv_severity h = Some Ncii_suspected))"

definition task_ok :: "hit_view \<Rightarrow> task_view option \<Rightarrow> bool" where
  "task_ok h t \<longleftrightarrow>
     (case t of
        None \<Rightarrow> hv_state h \<noteq> Quarantined
      | Some v \<Rightarrow>
          (tv_status v = Task_quarantined \<longleftrightarrow> hv_state h = Quarantined) \<and>
          (tv_status v = Decided \<longrightarrow>
             (hv_state h = Confirmed \<or> hv_state h = Rejected) \<and>
             tv_by v = hv_by h \<and> tv_decision v = Some (confirm_text (hv_state h))))"

definition operator_ok :: "string set \<Rightarrow> hit_view \<Rightarrow> task_view option \<Rightarrow> bool" where
  "operator_ok ops h t \<longleftrightarrow>
     (case hv_by h of None \<Rightarrow> True
      | Some who \<Rightarrow> who \<in> ops \<longrightarrow> t = Some (settled_by who (hv_state h)))"

definition machine_ok :: "string set \<Rightarrow> hit_machine_state \<Rightarrow> bool" where
  "machine_ok ops m \<longleftrightarrow>
     (case m of
        (None, t) \<Rightarrow> t = None
      | (Some h, t) \<Rightarrow> decider_ok ops h \<and> task_ok h t \<and> operator_ok ops h t)"

lemmas machine_ok_defs = machine_ok_def decider_ok_def task_ok_def operator_ok_def undecided_def

definition sane_operators :: "string set \<Rightarrow> bool" where
  "sane_operators ops \<longleftrightarrow> SUBJECT \<notin> ops \<and> AUTO_CONFIRM_DECIDED_BY \<notin> ops"

lemma auto_not_subject [simp]: "AUTO_CONFIRM_DECIDED_BY \<noteq> SUBJECT"
  by (simp add: AUTO_CONFIRM_DECIDED_BY_def SUBJECT_def)

lemma undecided_by: "undecided h \<Longrightarrow> decider_ok ops h \<Longrightarrow> hv_by h = None"
  by (auto simp: undecided_def decider_ok_def split: option.splits)

lemma undecided_task:
  "undecided h \<Longrightarrow> task_ok h t \<Longrightarrow> t = None \<or> (\<exists>v. t = Some v \<and> tv_status v = Pending)"
  by (cases t; cases "tv_status (the t)") (auto simp: undecided_def task_ok_def)

lemma move_keeps_ok:
  assumes move: "hit_move ops m m'" and ok: "machine_ok ops m" and sane: "sane_operators ops"
  shows "machine_ok ops m'"
  using move
proof cases
  case stay
  with ok show ?thesis by simp
next
  case appear
  then show ?thesis by (simp add: machine_ok_defs fresh_hit_def)
next
  case (triage h t sev)
  with ok have h: "hv_by h = None" "t = None \<or> (\<exists>v. t = Some v \<and> tv_status v = Pending)"
    using undecided_by undecided_task by (auto simp: machine_ok_def)
  with triage show ?thesis by (auto simp: machine_ok_defs offered_def fresh_task_def)
next
  case (skip h t)
  with ok show ?thesis
    by (cases t; cases "hv_by h") (auto simp: machine_ok_defs offered_def fresh_task_def)
next
  case (auto_confirm h t)
  with ok have h: "t = None \<or> (\<exists>v. t = Some v \<and> tv_status v = Pending)"
    using undecided_task by (auto simp: machine_ok_def)
  with auto_confirm sane show ?thesis
    by (auto simp: machine_ok_defs offered_def fresh_task_def sane_operators_def)
next
  case (quarantine h t)
  with ok have h: "hv_by h = None" "t = None \<or> (\<exists>v. t = Some v \<and> tv_status v = Pending)"
    using undecided_by undecided_task by (auto simp: machine_ok_def)
  with quarantine show ?thesis by (auto simp: machine_ok_defs held_def fresh_task_def)
next
  case (duplicate h t)
  with ok have h: "hv_by h = None" "t = None \<or> (\<exists>v. t = Some v \<and> tv_status v = Pending)"
    using undecided_by undecided_task by (auto simp: machine_ok_def)
  with duplicate show ?thesis by (auto simp: machine_ok_defs withdrawn_def)
next
  case (operator who v s h sev override)
  then show ?thesis by (auto simp: machine_ok_defs settled_by_def)
next
  case (subject h s t)
  with ok have task: "task_ok h t" and self: "hv_by h = None \<or> hv_by h = Some SUBJECT"
    using undecided_by by (auto simp: machine_ok_def)
  have "task_ok (h\<lparr>hv_state := s, hv_by := Some SUBJECT\<rparr>) (settled_by_subject s t)"
    using subject task self
    by (cases t; cases "tv_status (the t)") (auto simp: task_ok_def settled_by_subject_def settled_by_def undecided_def)
  with subject sane show ?thesis
    by (auto simp: machine_ok_def decider_ok_def operator_ok_def sane_operators_def)
qed

lemma moves_keep_ok:
  "hit_moves ops m m' \<Longrightarrow> machine_ok ops m \<Longrightarrow> sane_operators ops \<Longrightarrow> machine_ok ops m'"
  by (induction rule: rtranclp_induct) (auto intro: move_keeps_ok)

section \<open>States that are never left\<close>

lemma operator_move_final:
  assumes move: "hit_move ops (Some h, t) m'" and ok: "machine_ok ops (Some h, t)"
    and sane: "sane_operators ops" and who: "hv_by h = Some who" "who \<in> ops"
  shows "m' = (Some h, t)"
proof -
  have t: "t = Some (settled_by who (hv_state h))" and decided: "\<not> undecided h" and "who \<noteq> SUBJECT"
    using ok who sane undecided_by [of h ops]
    by (auto simp: machine_ok_def operator_ok_def sane_operators_def)
  with move who show ?thesis by cases (auto simp: offered_def settled_by_def)
qed

lemma operator_final:
  assumes "hit_moves ops (Some h, t) m'" "machine_ok ops (Some h, t)" "sane_operators ops"
    and "hv_by h = Some who" "who \<in> ops"
  shows "m' = (Some h, t)"
  using assms(1)
proof induction
  case (step y z)
  with operator_move_final [OF _ assms(2-)] show ?case by blast
qed simp

lemma quarantine_move_final:
  assumes move: "hit_move ops (Some h, t) m'" and ok: "machine_ok ops (Some h, t)"
    and q: "hv_state h = Quarantined"
  shows "m' = (Some h, t)"
proof -
  obtain v where t: "t = Some v" "tv_status v = Task_quarantined"
    using ok q by (cases t) (auto simp: machine_ok_def task_ok_def)
  with move q show ?thesis by cases (auto simp: undecided_def offered_def)
qed

lemma quarantine_final:
  assumes "hit_moves ops (Some h, t) m'" "machine_ok ops (Some h, t)" "hv_state h = Quarantined"
  shows "m' = (Some h, t)"
  using assms(1)
proof induction
  case (step y z)
  with quarantine_move_final [OF _ assms(2-)] show ?case by blast
qed simp

text \<open>The subject's answer is changed only by the subject or by an operator, never by the machine.\<close>

lemma subject_move:
  assumes move: "hit_move ops (Some h, t) (Some h', t')" and ok: "machine_ok ops (Some h, t)"
    and self: "hv_by h = Some SUBJECT"
  shows "(hv_by h' = Some SUBJECT \<or> (\<exists>who\<in>ops. hv_by h' = Some who)) \<and>
    (hv_state h' = Confirmed \<or> hv_state h' = Rejected)"
proof -
  have "hv_state h = Confirmed \<or> hv_state h = Rejected" "\<not> undecided h"
    using ok self undecided_by [of h ops] by (auto simp: machine_ok_def decider_ok_def)
  with move self show ?thesis by cases auto
qed

end
