(* ===== verification/Review_Feed.thy ===== *)
theory Review_Feed
  imports Review_Store Confirm_Store
begin

text \<open>
  The reviewer-feed half of \<^verbatim>\<open>src/imageshield/review/store.py\<close>: the keyset-paged list of
  hits, the labels reviewers put on them and the rates computed from the labels.  A label writes
  neither the hit nor its task.
\<close>

section \<open>One row of the feed\<close>

record feed_task =
  ft_task_id :: uuid
  ft_status :: task_status
  ft_decision :: "string option"
  ft_decided_by :: "string option"
  ft_decided_at :: "instant option"
  ft_severity :: severity

record feed_verdict =
  fv_verdict_id :: uuid
  fv_operator :: string
  fv_verdict :: string
  fv_note :: "string option"
  fv_created_at :: instant

record feed_hit =
  fh_infringement_id :: uuid
  fh_user_ref :: user_ref
  fh_source_domain :: string
  fh_page_url :: string
  fh_image_url :: "string option"
  fh_first_seen_at :: instant
  fh_last_seen_at :: instant
  fh_status :: hit_status
  fh_confirm_state :: confirm_state
  fh_severity :: "severity option"
  fh_confirm_decided_by :: "string option"
  fh_confirm_decided_at :: "instant option"
  fh_face_match_score :: "rat option"
  fh_moderation_labels :: "string list"
  fh_duplicate_of :: "uuid option"
  fh_preview_available :: bool
  fh_review_task :: "feed_task option"
  fh_subject_decision :: "(confirm_state \<times> instant option) option"
  fh_latest_verdict :: "feed_verdict option"
  fh_source_object_ref :: "string option"
  fh_seed_kind :: "string option"

text \<open>\<^verbatim>\<open>str(label["name"])\<close> for the labels that are objects with a name that is true in Python.\<close>

definition label_name :: "json \<Rightarrow> string list" where
  "label_name j =
     (case json_get ''name'' j of
        Some (JStr n) \<Rightarrow> if n = [] then [] else [n]
      | _ \<Rightarrow> [])"

definition label_names :: "json option \<Rightarrow> string list" where
  "label_names labels =
     (case labels of Some (JArr ls) \<Rightarrow> concat (map label_name ls) | _ \<Rightarrow> [])"

definition has_face_box :: "json \<Rightarrow> bool" where
  "has_face_box triage = (case json_get ''best_face_bbox'' triage of Some (JObj _) \<Rightarrow> True | _ \<Rightarrow> False)"

definition task_of :: "uuid \<Rightarrow> 'a db_scheme \<Rightarrow> review_task option" where
  "task_of iid d = sql_first (\<lambda>t. task_infringement_id t = iid) (review_tasks d)"

definition preview_available :: "infringement \<Rightarrow> review_task option \<Rightarrow> bool" where
  "preview_available i task \<longleftrightarrow>
     (preview_image_url i \<noteq> None \<or> image_url i \<noteq> None) \<and>
     (case task of None \<Rightarrow> False | Some t \<Rightarrow> has_face_box (task_triage t))"

text \<open>The latest label: by creation, then by id, both descending.\<close>

definition verdict_order :: "review_verdict \<Rightarrow> int \<times> int" where
  "verdict_order v = (- rv_created_at v, - int (verdict_id v))"

definition latest_verdict :: "uuid \<Rightarrow> 'a db_scheme \<Rightarrow> review_verdict option" where
  "latest_verdict iid d =
     sql_first (\<lambda>_. True)
       (sort_key verdict_order (filter (\<lambda>v. rv_infringement_id v = iid) (review_verdicts d)))"

definition seed_of_hit :: "uuid \<Rightarrow> 'a db_scheme \<Rightarrow> seed_row option" where
  "seed_of_hit iid d =
     (case representative iid d of
        None \<Rightarrow> None
      | Some a \<Rightarrow>
          (case last_run_id a of
             None \<Rightarrow> None
           | Some rid \<Rightarrow>
               (case sql_first (\<lambda>r. run_id r = rid) (search_runs d) of
                  None \<Rightarrow> None
                | Some r \<Rightarrow> sql_first (\<lambda>s. seed_id s = run_seed_id r) (search_seeds d))))"

definition hit_row :: "'a db_scheme \<Rightarrow> infringement \<Rightarrow> content_url \<Rightarrow> feed_hit" where
  "hit_row d i c =
     (let iid = infringement_id i; task = task_of iid d; lv = latest_verdict iid d; seed = seed_of_hit iid d in
      \<lparr>fh_infringement_id = iid, fh_user_ref = inf_user_ref i, fh_source_domain = cu_source_domain c,
       fh_page_url = page_url i, fh_image_url = image_url i, fh_first_seen_at = first_seen_at i,
       fh_last_seen_at = last_seen_at i, fh_status = inf_status i, fh_confirm_state = confirm_state i,
       fh_severity = inf_severity i, fh_confirm_decided_by = confirm_decided_by i,
       fh_confirm_decided_at = confirm_decided_at i, fh_face_match_score = face_match_score i,
       fh_moderation_labels = label_names (moderation_labels i), fh_duplicate_of = duplicate_of i,
       fh_preview_available = preview_available i task,
       fh_review_task = map_option (\<lambda>t. \<lparr>ft_task_id = task_id t, ft_status = task_status t,
           ft_decision = task_decision t, ft_decided_by = task_decided_by t,
           ft_decided_at = task_decided_at t, ft_severity = task_severity t\<rparr>) task,
       fh_subject_decision =
         (if confirm_decided_by i = Some SUBJECT then Some (confirm_state i, confirm_decided_at i) else None),
       fh_latest_verdict = map_option (\<lambda>v. \<lparr>fv_verdict_id = verdict_id v, fv_operator = rv_operator v,
           fv_verdict = rv_verdict v, fv_note = rv_note v, fv_created_at = rv_created_at v\<rparr>) lv,
       fh_source_object_ref = map_option source_object_ref seed,
       fh_seed_kind = map_option seed_kind seed\<rparr>)"

section \<open>The page\<close>

record feed_query =
  fq_severity :: "severity option"
  fq_confirm_state :: "confirm_state option"
  fq_user_ref :: "user_ref option"
  fq_since :: "instant option"
  fq_has_verdict :: "bool option"

definition asks :: "'a option \<Rightarrow> ('a \<Rightarrow> bool) \<Rightarrow> bool" where
  "asks v p = (case v of None \<Rightarrow> True | Some x \<Rightarrow> p x)"

definition in_feed :: "feed_query \<Rightarrow> 'a db_scheme \<Rightarrow> infringement \<Rightarrow> bool" where
  "in_feed q d i \<longleftrightarrow>
     confirm_state i \<noteq> Quarantined \<and>
     asks (fq_severity q) (\<lambda>s. inf_severity i = Some s) \<and>
     asks (fq_confirm_state q) (\<lambda>c. confirm_state i = c) \<and>
     asks (fq_user_ref q) (\<lambda>u. inf_user_ref i = u) \<and>
     asks (fq_since q) (\<lambda>t. t \<le> first_seen_at i) \<and>
     asks (fq_has_verdict q) (\<lambda>b. (latest_verdict (infringement_id i) d \<noteq> None) = b)"

definition feed_key :: "feed_hit \<Rightarrow> instant \<times> uuid" where
  "feed_key h = (fh_first_seen_at h, fh_infringement_id h)"

definition keyset_less :: "instant \<times> uuid \<Rightarrow> instant \<times> uuid \<Rightarrow> bool" where
  "keyset_less a b \<longleftrightarrow> fst a < fst b \<or> fst a = fst b \<and> snd a < snd b"

definition feed_rows :: "feed_query \<Rightarrow> 'a db_scheme \<Rightarrow> feed_hit list" where
  "feed_rows q d =
     concat (map (\<lambda>i. case url_row_of i d of None \<Rightarrow> [] | Some c \<Rightarrow> [hit_row d i c])
       (filter (in_feed q d) (infringements d)))"

definition newest_first :: "feed_hit \<Rightarrow> int \<times> int" where
  "newest_first h = (- fh_first_seen_at h, - int (fh_infringement_id h))"

record hits_page =
  hp_hits :: "feed_hit list"
  hp_has_more :: bool

definition list_hits ::
  "nat \<Rightarrow> (instant \<times> uuid) option \<Rightarrow> feed_query \<Rightarrow> 'a db_scheme \<Rightarrow> hits_page" where
  "list_hits limit cursor q d =
     (let rows = take (limit + 1) (sort_key newest_first
            (filter (\<lambda>h. asks cursor (keyset_less (feed_key h))) (feed_rows q d)))
      in \<lparr>hp_hits = take limit rows, hp_has_more = limit < length rows\<rparr>)"

section \<open>Labels\<close>

definition insert_verdict :: "review_verdict \<Rightarrow> 'a db_scheme \<Rightarrow> exn + 'a db_scheme" where
  "insert_verdict v d =
     (if rv_operator v = '''' then Inl (CheckViolation ''review_verdicts_operator_check'')
      else if rv_verdict v \<notin> {''true_positive'', ''false_positive'', ''unsure''}
      then Inl (CheckViolation ''review_verdicts_verdict_check'')
      else Inr (d\<lparr>db_fresh := Suc (db_fresh d), review_verdicts := review_verdicts d @ [v]\<rparr>))"

definition record_verdict ::
  "uuid \<Rightarrow> string \<Rightarrow> string \<Rightarrow> string option \<Rightarrow> 'a db_scheme \<Rightarrow> exn + review_verdict option \<times> 'a db_scheme" where
  "record_verdict iid operator label note d =
     (case hit_of iid d of
        None \<Rightarrow> Inr (None, d)
      | Some i \<Rightarrow>
          if confirm_state i = Quarantined then Inr (None, d)
          else
            let v = \<lparr>verdict_id = db_fresh d, rv_infringement_id = iid, rv_operator = operator,
                     rv_verdict = label, rv_note = note, machine_severity = inf_severity i,
                     rv_face_match_score = face_match_score i,
                     confirm_state_at_verdict = confirm_state i, rv_created_at = db_now d\<rparr>
            in case insert_verdict v d of
                 Inl e \<Rightarrow> Inl e
               | Inr d1 \<Rightarrow>
                   Inr (Some v,
                     operator_audit REVIEW_VERDICT_ACTION (inf_user_ref i) iid
                       (JObj [(''verdict'', JStr label), (''operator'', JStr operator),
                              (''machine_severity'', severity_json (inf_severity i)),
                              (''confirm_state'', JStr (confirm_text (confirm_state i)))]) d1))"

section \<open>Rates\<close>

record verdict_counts =
  vc_total :: nat
  vc_true_positive :: nat
  vc_false_positive :: nat
  vc_unsure :: nat

definition count_verdicts :: "review_verdict list \<Rightarrow> verdict_counts" where
  "count_verdicts vs =
     (let n = (\<lambda>w. length (filter (\<lambda>v. rv_verdict v = w) vs)) in
      \<lparr>vc_total = length vs, vc_true_positive = n ''true_positive'',
       vc_false_positive = n ''false_positive'', vc_unsure = n ''unsure''\<rparr>)"

text \<open>A rate over nothing is absent, not zero.\<close>

definition rate :: "nat \<Rightarrow> nat \<Rightarrow> rat option" where
  "rate k n = (if n = 0 then None else Some (of_nat k / of_nat n))"

definition false_positive_rate :: "verdict_counts \<Rightarrow> rat option" where
  "false_positive_rate c = rate (vc_false_positive c) (vc_true_positive c + vc_false_positive c)"

text \<open>\<^verbatim>\<open>DISTINCT ON (infringement_id)\<close> over the window, latest label first.\<close>

definition latest_in_window :: "instant \<Rightarrow> 'a db_scheme \<Rightarrow> review_verdict list" where
  "latest_in_window since d =
     (let vs = filter (\<lambda>v. since \<le> rv_created_at v) (review_verdicts d) in
      concat (map (\<lambda>iid. take 1 (sort_key verdict_order (filter (\<lambda>v. rv_infringement_id v = iid) vs)))
        (sort (remdups (map rv_infringement_id vs)))))"

text \<open>\<^verbatim>\<open>ORDER BY machine_severity\<close>: the text order of the vocabulary, \<^verbatim>\<open>NULL\<close> last.\<close>

definition SEVERITY_GROUPS :: "severity option list" where
  "SEVERITY_GROUPS = [Some Benign_copy, Some Explicit_unmatched, Some Likely_not_subject,
     Some Ncii_suspected, Some Unassessed, None]"

record verdict_stats =
  vs_by_severity :: "(severity option \<times> verdict_counts \<times> rat option) list"
  vs_compared :: nat
  vs_agreed :: nat
  vs_disagreed :: nat
  vs_agreement_rate :: "rat option"
  vs_by_operator :: "(string \<times> verdict_counts) list"

definition comparable :: "'a db_scheme \<Rightarrow> review_verdict \<Rightarrow> (infringement \<times> review_verdict) list" where
  "comparable d v =
     (case hit_of (rv_infringement_id v) d of
        None \<Rightarrow> []
      | Some i \<Rightarrow> if confirm_decided_by i = Some SUBJECT \<and> rv_verdict v \<noteq> ''unsure'' then [(i, v)] else [])"

definition agrees :: "infringement \<times> review_verdict \<Rightarrow> bool" where
  "agrees p \<longleftrightarrow>
     (confirm_state (fst p) = Confirmed \<and> rv_verdict (snd p) = ''true_positive'') \<or>
     (confirm_state (fst p) = Rejected \<and> rv_verdict (snd p) = ''false_positive'')"

definition verdict_stats :: "instant \<Rightarrow> 'a db_scheme \<Rightarrow> verdict_stats" where
  "verdict_stats since d =
     (let latest = latest_in_window since d;
          group = (\<lambda>s. filter (\<lambda>v. machine_severity v = s) latest);
          compared = concat (map (comparable d) latest);
          agreed = filter agrees compared;
          windowed = filter (\<lambda>v. since \<le> rv_created_at v) (review_verdicts d)
      in \<lparr>vs_by_severity =
            map (\<lambda>s. let c = count_verdicts (group s) in (s, c, false_positive_rate c))
              (filter (\<lambda>s. group s \<noteq> []) SEVERITY_GROUPS),
          vs_compared = length compared, vs_agreed = length agreed,
          vs_disagreed = length compared - length agreed,
          vs_agreement_rate = rate (length agreed) (length compared),
          vs_by_operator =
            map (\<lambda>who. (who, count_verdicts (filter (\<lambda>v. rv_operator v = who) windowed)))
              (sort (remdups (map rv_operator windowed)))\<rparr>)"

section \<open>Reading the feed page by page\<close>

text \<open>A console that follows the last row's key while there is more.\<close>

fun read_feed :: "nat \<Rightarrow> nat \<Rightarrow> (instant \<times> uuid) option \<Rightarrow> feed_query \<Rightarrow> 'a db_scheme \<Rightarrow> feed_hit list list" where
  "read_feed 0 limit cursor q d = []"
| "read_feed (Suc n) limit cursor q d =
     (let page = list_hits limit cursor q d in
      hp_hits page #
        (if hp_has_more page then read_feed n limit (Some (feed_key (last (hp_hits page)))) q d else []))"

lemma newest_first_less: "newest_first a < newest_first b \<longleftrightarrow> keyset_less (feed_key b) (feed_key a)"
  by (auto simp: newest_first_def keyset_less_def feed_key_def)

lemma newest_first_eq: "newest_first a = newest_first b \<longleftrightarrow> feed_key a = feed_key b"
  by (auto simp: newest_first_def feed_key_def)

lemma keyset_less_asym: "keyset_less a b \<Longrightarrow> \<not> keyset_less b a"
  by (auto simp: keyset_less_def)

lemma strictly_newest_first:
  assumes "distinct (map feed_key hs)"
  shows "sorted_wrt (\<lambda>a b. keyset_less (feed_key b) (feed_key a)) (sort_key newest_first hs)"
proof -
  have "distinct (map feed_key (sort_key newest_first hs))"
    using assms by (simp add: distinct_map)
  then have "distinct (map newest_first (sort_key newest_first hs))"
    unfolding distinct_map inj_on_def newest_first_eq by blast
  then have "sorted_wrt (<) (map newest_first (sort_key newest_first hs))"
    by (simp add: strict_sorted_iff)
  then show ?thesis by (simp add: sorted_wrt_map newest_first_less)
qed

lemma rest_after_last:
  assumes "sorted_wrt (\<lambda>a b. keyset_less (feed_key b) (feed_key a)) (pre @ rest)" "pre \<noteq> []"
  shows "filter (\<lambda>h. keyset_less (feed_key h) (feed_key (last pre))) (pre @ rest) = rest"
proof -
  obtain ps p where pre: "pre = ps @ [p]" using assms(2) by (cases pre rule: rev_exhaust) auto
  have "\<forall>h\<in>set ps. keyset_less (feed_key p) (feed_key h)"
    using assms(1) by (simp add: pre sorted_wrt_append)
  then have "\<forall>h\<in>set pre. \<not> keyset_less (feed_key h) (feed_key p)"
    using keyset_less_asym by (fastforce simp: pre keyset_less_def)
  moreover have "\<forall>h\<in>set rest. keyset_less (feed_key h) (feed_key p)"
    using assms(1) by (auto simp: pre sorted_wrt_append)
  ultimately show ?thesis by (simp add: pre filter_empty_conv filter_id_conv)
qed

lemma read_feed_rest:
  assumes "0 < limit" "length rest \<le> n"
    and "sorted_wrt (\<lambda>a b. keyset_less (feed_key b) (feed_key a)) (pre @ rest)"
    and "sort_key newest_first (feed_rows q d) = pre @ rest"
    and "filter (\<lambda>h. asks cursor (keyset_less (feed_key h))) (pre @ rest) = rest"
  shows "concat (read_feed (Suc n) limit cursor q d) = rest"
  using assms(2-)
proof (induction n arbitrary: pre rest cursor)
  case 0
  have "sort_key newest_first (filter (\<lambda>h. asks cursor (keyset_less (feed_key h))) (feed_rows q d)) = rest"
    by (metis "0.prems"(3,4) filter_sort)
  with 0 show ?case by (simp add: list_hits_def)
next
  case (Suc n)
  have rows: "sort_key newest_first (filter (\<lambda>h. asks cursor (keyset_less (feed_key h))) (feed_rows q d)) = rest"
    by (metis Suc.prems(3,4) filter_sort)
  then have page: "list_hits limit cursor q d = \<lparr>hp_hits = take limit rest, hp_has_more = limit < length rest\<rparr>"
    by (simp add: list_hits_def)
  show ?case
  proof (cases "limit < length rest")
    case False
    with page show ?thesis by (simp add: Let_def)
  next
    case True
    let ?pre = "pre @ take limit rest"
    have ne: "take limit rest \<noteq> []" using True assms(1) by auto
    have "concat (read_feed (Suc n) limit (Some (feed_key (last (take limit rest)))) q d) = drop limit rest"
    proof (rule Suc.IH)
      show "length (drop limit rest) \<le> n" using Suc.prems(1) assms(1) by simp
      show "sorted_wrt (\<lambda>a b. keyset_less (feed_key b) (feed_key a)) (?pre @ drop limit rest)"
        using Suc.prems(2) by simp
      show "sort_key newest_first (feed_rows q d) = ?pre @ drop limit rest"
        using Suc.prems(3) by simp
      show "filter (\<lambda>h. asks (Some (feed_key (last (take limit rest)))) (keyset_less (feed_key h)))
          (?pre @ drop limit rest) = drop limit rest"
        using rest_after_last [of ?pre "drop limit rest"] Suc.prems(2) ne
        by (simp add: asks_def)
    qed
    moreover have "read_feed (Suc (Suc n)) limit cursor q d =
        take limit rest # read_feed (Suc n) limit (Some (feed_key (last (take limit rest)))) q d"
      by (subst read_feed.simps(2)) (simp only: page Let_def hits_page.simps True if_True)
    ultimately show ?thesis by (simp del: read_feed.simps)
  qed
qed

lemma feed_rows_ids:
  "distinct (map infringement_id is') \<Longrightarrow>
   distinct (map fh_infringement_id (concat (map (\<lambda>i. case url_row_of i d of None \<Rightarrow> [] | Some c \<Rightarrow> [hit_row d i c]) is'))) \<and>
   set (map fh_infringement_id (concat (map (\<lambda>i. case url_row_of i d of None \<Rightarrow> [] | Some c \<Rightarrow> [hit_row d i c]) is')))
     \<subseteq> set (map infringement_id is')"
  by (induction is') (auto simp: hit_row_def Let_def split: option.splits)

text \<open>
  C35. Paging the feed loses and repeats nothing.  Following the last key of each page, with any
  page size and any filter, reads exactly the hits of the feed, each once, newest first; and no
  page ever holds a quarantined hit.
\<close>

theorem feed_pages_tile_the_feed:
  assumes "0 < limit" and "distinct (map infringement_id (infringements d))"
    and "length (feed_rows q d) \<le> n"
  shows "concat (read_feed (Suc n) limit None q d) = sort_key newest_first (feed_rows q d) \<and>
    distinct (concat (read_feed (Suc n) limit None q d)) \<and>
    (\<forall>h\<in>set (concat (read_feed (Suc n) limit None q d)). fh_confirm_state h \<noteq> Quarantined)"
proof -
  have "distinct (map infringement_id (filter (in_feed q d) (infringements d)))"
    using assms(2) by (simp add: distinct_map_filter)
  from feed_rows_ids [OF this, of d] have ids: "distinct (map fh_infringement_id (feed_rows q d))"
    by (simp add: feed_rows_def)
  then have keys: "distinct (map feed_key (feed_rows q d))" and rows: "distinct (feed_rows q d)"
    by (auto simp: distinct_map inj_on_def feed_key_def)
  have eq: "concat (read_feed (Suc n) limit None q d) = sort_key newest_first (feed_rows q d)"
    by (rule read_feed_rest [of _ _ _ "[]"])
      (use assms strictly_newest_first [OF keys] in \<open>simp_all add: asks_def\<close>)
  moreover have "\<forall>h\<in>set (feed_rows q d). fh_confirm_state h \<noteq> Quarantined"
    by (auto simp: feed_rows_def in_feed_def hit_row_def Let_def split: option.splits)
  ultimately show ?thesis using rows by (simp del: read_feed.simps)
qed

theorem feed_pages_tile_the_feed_witness:
  "map fh_infringement_id (concat (read_feed 3 1 None
      \<lparr>fq_severity = None, fq_confirm_state = None, fq_user_ref = None, fq_since = None,
       fq_has_verdict = None\<rparr> one_hit_db)) = [10]"
proof -
  let ?q = "\<lparr>fq_severity = None, fq_confirm_state = None, fq_user_ref = None, fq_since = None,
       fq_has_verdict = None\<rparr>"
  have hits: "map infringement_id (infringements one_hit_db) = [10]"
    and rows: "map fh_infringement_id (feed_rows ?q one_hit_db) = [10]"
    unfolding one_hit_db_def
    by (simp_all add: record_defs one_run_db_def empty_db_def hive_row_def numeric_6_4_three_quarters
        feed_rows_def in_feed_def asks_def url_row_of_def hit_row_def Let_def)
  from arg_cong [OF rows, of length] have len: "length (feed_rows ?q one_hit_db) \<le> 2" by simp
  have "concat (read_feed (Suc 2) 1 None ?q one_hit_db) = sort_key newest_first (feed_rows ?q one_hit_db)"
    using feed_pages_tile_the_feed [of 1 one_hit_db ?q 2] hits len by simp
  moreover obtain h where "feed_rows ?q one_hit_db = [h]" "fh_infringement_id h = 10"
    using rows by (auto simp: map_eq_Cons_conv)
  ultimately show ?thesis by (simp add: numeral_3_eq_3 del: read_feed.simps)
qed

section \<open>Labels and rates\<close>

lemma verdict_is_only_a_label_frame:
  "record_verdict iid operator label note d = Inr (r, d') \<Longrightarrow>
     infringements d' = infringements d \<and> review_tasks d' = review_tasks d"
  by (auto simp: record_verdict_def insert_verdict_def operator_audit_def Let_def
      split: option.splits if_splits)

text \<open>
  A label is only a label.  Labelling a hit that exists and is not quarantined appends one
  verdict, carrying the hit's severity, score and state of that moment, and one audit row; it
  leaves every hit, task and attestation as it was.  Any other hit is answered as absent and
  nothing at all is written.
\<close>

theorem verdict_is_only_a_label:
  assumes "record_verdict iid operator label note d = Inr (r, d')"
  shows "infringements d' = infringements d \<and> review_tasks d' = review_tasks d \<and>
    attestations d' = attestations d \<and>
    (case hit_of iid d of
       None \<Rightarrow> r = None \<and> d' = d
     | Some i \<Rightarrow>
         if confirm_state i = Quarantined then r = None \<and> d' = d
         else (\<exists>v. r = Some v \<and> review_verdicts d' = review_verdicts d @ [v] \<and>
           rv_infringement_id v = iid \<and> rv_verdict v = label \<and> rv_operator v = operator \<and>
           machine_severity v = inf_severity i \<and> rv_face_match_score v = face_match_score i \<and>
           confirm_state_at_verdict v = confirm_state i \<and> rv_created_at v = db_now d \<and>
           length (audit_log d') = Suc (length (audit_log d))))"
  using assms
  by (auto simp: record_verdict_def insert_verdict_def operator_audit_def Let_def
      split: option.splits if_splits)

lemma latest_one_each:
  "map rv_infringement_id (latest_in_window since d) =
   sort (remdups (map rv_infringement_id (filter (\<lambda>v. since \<le> rv_created_at v) (review_verdicts d))))"
proof -
  have one: "map rv_infringement_id (concat (map (\<lambda>iid. take 1 (sort_key verdict_order
            (filter (\<lambda>v. rv_infringement_id v = iid) vs))) ids)) = ids"
    if "set ids \<subseteq> rv_infringement_id ` set vs" for ids vs
    using that
  proof (induction ids)
    case (Cons iid ids)
    then obtain v where "v \<in> set vs" "rv_infringement_id v = iid" by auto
    then have "filter (\<lambda>v. rv_infringement_id v = iid) vs \<noteq> []" by (auto simp: filter_empty_conv)
    then have "sort_key verdict_order (filter (\<lambda>v. rv_infringement_id v = iid) vs) \<noteq> []"
      by (metis length_0_conv length_sort)
    then obtain w ws where w: "sort_key verdict_order (filter (\<lambda>v. rv_infringement_id v = iid) vs) = w # ws"
      by (meson neq_Nil_conv)
    from arg_cong [OF w, of set] have "rv_infringement_id w = iid" by auto
    with w Cons show ?case by simp
  qed simp
  show ?thesis unfolding latest_in_window_def Let_def by (rule one) simp
qed

lemma count_groups:
  assumes "distinct groups" "f ` set xs \<subseteq> set groups"
  shows "(\<Sum>s\<leftarrow>groups. length (filter (\<lambda>v. f v = s) xs)) = length xs"
  using assms(2)
proof (induction xs)
  case (Cons x xs)
  have "(\<Sum>s\<leftarrow>groups. length (filter (\<lambda>v. f v = s) (x # xs))) =
      (\<Sum>s\<leftarrow>groups. (if s = f x then 1 else 0) + length (filter (\<lambda>v. f v = s) xs))"
    by (intro arg_cong [of _ _ sum_list] map_cong) auto
  also have "\<dots> = (\<Sum>s\<leftarrow>groups. (if s = f x then 1 else 0)) + (\<Sum>s\<leftarrow>groups. length (filter (\<lambda>v. f v = s) xs))"
    by (simp add: sum_list_addf)
  also have "(\<Sum>s\<leftarrow>groups. (if s = f x then 1 else (0 :: nat))) = 1"
    using assms(1) Cons.prems by (simp add: sum_list_distinct_conv_sum_set)
  finally show ?case using Cons by simp
qed (simp add: sum_list_0)

lemma severity_groups_all: "distinct SEVERITY_GROUPS" "s \<in> set SEVERITY_GROUPS"
proof -
  show "distinct SEVERITY_GROUPS" by (simp add: SEVERITY_GROUPS_def)
  show "s \<in> set SEVERITY_GROUPS"
  proof (cases s)
    case (Some v)
    then show ?thesis by (cases v) (simp_all add: SEVERITY_GROUPS_def)
  qed (simp add: SEVERITY_GROUPS_def)
qed

lemma count_verdicts_total:
  assumes "\<forall>v\<in>set vs. rv_verdict v \<in> {''true_positive'', ''false_positive'', ''unsure''}"
  shows "vc_true_positive (count_verdicts vs) + vc_false_positive (count_verdicts vs) +
    vc_unsure (count_verdicts vs) = vc_total (count_verdicts vs)"
  using assms by (induction vs) (auto simp: count_verdicts_def Let_def)

lemma rate_range: "rate k (j + k) = Some x \<Longrightarrow> 0 \<le> x \<and> x \<le> 1"
  by (auto simp: rate_def divide_le_eq_1 split: if_splits)

text \<open>
  One hit, one vote.  In the rates by severity every hit labelled in the window counts once,
  under its latest label, however often it was labelled; the three kinds of label make up each
  total; a rate is absent exactly when nobody decided, and otherwise lies between 0 and 1; what was
  compared with the subject's answer either agreed or disagreed.
\<close>

theorem one_vote_per_hit:
  assumes "\<forall>v\<in>set (review_verdicts d). rv_verdict v \<in> {''true_positive'', ''false_positive'', ''unsure''}"
  shows "(\<Sum>(s, c, r)\<leftarrow>vs_by_severity (verdict_stats since d). vc_total c) =
      card (rv_infringement_id ` {v \<in> set (review_verdicts d). since \<le> rv_created_at v}) \<and>
    (\<forall>(s, c, r)\<in>set (vs_by_severity (verdict_stats since d)).
       vc_true_positive c + vc_false_positive c + vc_unsure c = vc_total c \<and>
       (r = None \<longleftrightarrow> vc_true_positive c + vc_false_positive c = 0) \<and>
       (\<forall>x. r = Some x \<longrightarrow> 0 \<le> x \<and> x \<le> 1)) \<and>
    vs_agreed (verdict_stats since d) + vs_disagreed (verdict_stats since d) =
      vs_compared (verdict_stats since d)"
proof -
  let ?latest = "latest_in_window since d"
  let ?group = "\<lambda>s. filter (\<lambda>v. machine_severity v = s) ?latest"
  have sev: "vs_by_severity (verdict_stats since d) =
      map (\<lambda>s. (s, count_verdicts (?group s), false_positive_rate (count_verdicts (?group s))))
        (filter (\<lambda>s. ?group s \<noteq> []) SEVERITY_GROUPS)"
    by (simp add: verdict_stats_def Let_def)
  have vocab: "\<forall>v\<in>set ?latest. rv_verdict v \<in> {''true_positive'', ''false_positive'', ''unsure''}"
    using assms unfolding latest_in_window_def Let_def by (auto dest!: in_set_takeD)
  have "(\<Sum>(s, c, r)\<leftarrow>vs_by_severity (verdict_stats since d). vc_total c) =
      (\<Sum>s\<leftarrow>filter (\<lambda>s. ?group s \<noteq> []) SEVERITY_GROUPS. length (?group s))"
    by (simp add: sev comp_def count_verdicts_def Let_def)
  also have "\<dots> = (\<Sum>s\<leftarrow>SEVERITY_GROUPS. length (?group s))"
    by (rule sum_list_map_filter) simp
  also have "\<dots> = length ?latest"
    by (rule count_groups) (auto simp: severity_groups_all)
  also have "\<dots> = length (map rv_infringement_id ?latest)" by simp
  also have "\<dots> = card (rv_infringement_id ` {v \<in> set (review_verdicts d). since \<le> rv_created_at v})"
    unfolding latest_one_each by (simp add: length_remdups_card_conv)
  finally have total: "(\<Sum>(s, c, r)\<leftarrow>vs_by_severity (verdict_stats since d). vc_total c) =
      card (rv_infringement_id ` {v \<in> set (review_verdicts d). since \<le> rv_created_at v})" .
  have "vc_true_positive c + vc_false_positive c + vc_unsure c = vc_total c \<and>
       (r = None \<longleftrightarrow> vc_true_positive c + vc_false_positive c = 0) \<and>
       (\<forall>x. r = Some x \<longrightarrow> 0 \<le> x \<and> x \<le> 1)"
    if "(s, c, r) \<in> set (vs_by_severity (verdict_stats since d))" for s c r
  proof -
    from that have c: "c = count_verdicts (?group s)" and r: "r = false_positive_rate c"
      by (auto simp: sev)
    have "vc_true_positive c + vc_false_positive c + vc_unsure c = vc_total c"
      unfolding c by (rule count_verdicts_total) (use vocab in auto)
    moreover have "r = None \<longleftrightarrow> vc_true_positive c + vc_false_positive c = 0"
      by (simp add: r false_positive_rate_def rate_def)
    ultimately show ?thesis using rate_range [of "vc_false_positive c" "vc_true_positive c"]
      by (simp add: r false_positive_rate_def)
  qed
  moreover have "vs_agreed (verdict_stats since d) + vs_disagreed (verdict_stats since d) =
      vs_compared (verdict_stats since d)"
    by (simp add: verdict_stats_def Let_def)
  ultimately show ?thesis using total by (auto simp: case_prod_beta)
qed

theorem one_vote_per_hit_witness:
  "\<exists>d :: db. map rv_verdict (review_verdicts d) = [''false_positive'', ''true_positive''] \<and>
     (\<Sum>(s, c, r)\<leftarrow>vs_by_severity (verdict_stats 0 d). vc_total c) = 1"
proof -
  let ?v = "\<lparr>verdict_id = 1, rv_infringement_id = 7, rv_operator = ''ann'', rv_verdict = ''false_positive'',
      rv_note = None, machine_severity = Some Benign_copy, rv_face_match_score = None,
      confirm_state_at_verdict = Machine_triaged, rv_created_at = 5\<rparr>"
  let ?d = "empty_db\<lparr>review_verdicts := [?v, ?v\<lparr>verdict_id := 2, rv_verdict := ''true_positive''\<rparr>]\<rparr>"
  have vs: "review_verdicts ?d = [?v, ?v\<lparr>verdict_id := 2, rv_verdict := ''true_positive''\<rparr>]" by simp
  have ids: "rv_infringement_id ` {v \<in> set (review_verdicts ?d). 0 \<le> rv_created_at v} = {7}"
    unfolding vs set_filter [symmetric] by simp
  have voc: "\<forall>v\<in>set (review_verdicts ?d). rv_verdict v \<in> {''true_positive'', ''false_positive'', ''unsure''}"
    by simp
  have "(\<Sum>(s, c, r)\<leftarrow>vs_by_severity (verdict_stats 0 ?d). vc_total c) = 1"
    by (simp only: one_vote_per_hit [OF voc, THEN conjunct1] ids) simp
  with vs show ?thesis by (intro exI [of _ ?d] conjI) simp
qed

theorem verdict_is_only_a_label_witness:
  "\<exists>v d'. record_verdict 10 ''ann'' ''unsure'' None one_hit_db = Inr (Some v, d') \<and>
     infringements d' = infringements one_hit_db \<and> review_verdicts d' = [v]"
proof -
  have none: "review_verdicts one_hit_db = []"
    and hit: "\<exists>i. hit_of 10 one_hit_db = Some i \<and> confirm_state i = Unconfirmed"
    unfolding one_hit_db_def
    by (simp_all add: record_defs one_run_db_def empty_db_def hive_row_def numeric_6_4_three_quarters
        hit_of_def Let_def)
  then obtain v d' where "record_verdict 10 ''ann'' ''unsure'' None one_hit_db = Inr (Some v, d')"
    by (auto simp: record_verdict_def insert_verdict_def Let_def)
  from verdict_is_only_a_label [OF this] this none hit show ?thesis by auto
qed

end
