(* ===== verification/Lifecycle.thy ===== *)
theory Lifecycle
  imports Hit_Machine Review_Feed
begin

text \<open>
  The stores that write hits and review tasks, put together: every one of their operations is a
  sequence of moves of \<open>Hit_Machine\<close> at each hit.  What the machine promises therefore holds of
  the tables after any interleaving of searches, confirm messages, feedback, and operator and
  subject decisions.
\<close>

section \<open>From the tables to the machine\<close>

definition hit_view_of :: "infringement \<Rightarrow> hit_view" where
  "hit_view_of i = \<lparr>hv_state = confirm_state i, hv_severity = inf_severity i, hv_by = confirm_decided_by i\<rparr>"

definition task_view_of :: "review_task \<Rightarrow> task_view" where
  "task_view_of t = \<lparr>tv_status = task_status t, tv_decision = task_decision t, tv_by = task_decided_by t\<rparr>"

definition abs_hit :: "uuid \<Rightarrow> 'a db_scheme \<Rightarrow> hit_machine_state" where
  "abs_hit iid d = (map_option hit_view_of (hit_of iid d), map_option task_view_of (task_of iid d))"

text \<open>What the schema keeps: keys are unique, ids come from one source, the CHECKs hold.\<close>

definition tables_ok :: "'a db_scheme \<Rightarrow> bool" where
  "tables_ok d \<longleftrightarrow>
     distinct (map infringement_id (infringements d)) \<and>
     distinct (map task_infringement_id (review_tasks d)) \<and>
     distinct (map task_id (review_tasks d)) \<and>
     (\<forall>i\<in>set (infringements d). infringement_id i < db_fresh d \<and> confirmed_needs_human i \<and>
        duplicate_needs_source i) \<and>
     (\<forall>t\<in>set (review_tasks d). task_infringement_id t < db_fresh d \<and> task_id t < db_fresh d)"

definition lawful :: "string set \<Rightarrow> 'a db_scheme \<Rightarrow> 'a db_scheme \<Rightarrow> bool" where
  "lawful ops d d' \<longleftrightarrow>
     (tables_ok d \<longrightarrow> tables_ok d' \<and> (\<forall>x. hit_moves ops (abs_hit x d) (abs_hit x d')))"

lemma lawful_refl [simp]: "lawful ops d d"
  by (simp add: lawful_def)

lemma lawful_trans: "lawful ops d d1 \<Longrightarrow> lawful ops d1 d2 \<Longrightarrow> lawful ops d d2"
  unfolding lawful_def by (meson rtranclp_trans)

lemma lawful_frame:
  assumes "infringements d' = infringements d" "review_tasks d' = review_tasks d" "db_fresh d \<le> db_fresh d'"
  shows "lawful ops d d'"
proof -
  have "abs_hit x d' = abs_hit x d" for x
    using assms by (simp add: abs_hit_def hit_of_def task_of_def)
  moreover have "tables_ok d \<Longrightarrow> tables_ok d'"
    using assms by (auto simp: tables_ok_def intro: less_le_trans)
  ultimately show ?thesis by (simp add: lawful_def)
qed

lemma distinct_hit:
  assumes "distinct (map infringement_id t)" "i \<in> set t"
  shows "sql_first (\<lambda>j. infringement_id j = infringement_id i) t = Some i"
  using assms by (induction t) (auto simp: image_iff)

lemma hit_ofD: "hit_of x d = Some i \<Longrightarrow> i \<in> set (infringements d) \<and> infringement_id i = x"
  by (auto simp: hit_of_def dest: sql_first_SomeD)

lemma tables_ok_hit:
  assumes "tables_ok d" "hit_of x d = Some i"
  shows "x < db_fresh d" "confirmed_needs_human i" "duplicate_needs_source i"
  using assms hit_ofD [OF assms(2)] by (auto simp: tables_ok_def)

text \<open>An update of rows that keeps the ids and writes rows the CHECKs accept.\<close>

lemma tables_ok_update:
  assumes "tables_ok d" "\<And>i. infringement_id (f i) = infringement_id i"
    and "\<And>i. i \<in> set (infringements d) \<Longrightarrow> p i \<Longrightarrow> confirmed_needs_human (f i) \<and> duplicate_needs_source (f i)"
  shows "tables_ok (d\<lparr>infringements := sql_update p f (infringements d)\<rparr>)"
  using assms by (auto simp: tables_ok_def map_sql_update in_sql_update)

lemma hit_of_update:
  assumes "\<And>i. infringement_id (f i) = infringement_id i"
  shows "hit_of x (d\<lparr>infringements := sql_update p f (infringements d)\<rparr>) =
    map_option (\<lambda>i. if p i then f i else i) (hit_of x d)"
  by (simp add: hit_of_def sql_first_update assms)

section \<open>Tasks\<close>

lemma task_of_upsert:
  "task_of x (upsert_task iid user sev triage status d) =
     (if x = iid
      then Some (case task_of iid d of
          None \<Rightarrow> \<lparr>task_id = db_fresh d, task_infringement_id = iid, task_user_ref = user,
                  task_severity = sev, task_triage = triage, task_status = status,
                  task_decision = None, task_decided_by = None, task_decided_at = None,
                  task_created_at = db_now d\<rparr>
        | Some t \<Rightarrow> if task_status t = Pending
                   then t\<lparr>task_severity := sev, task_triage := triage, task_status := status\<rparr> else t)
      else task_of x d)"
  using task_table.lookup_upsert [of x "\<lparr>task_id = db_fresh d, task_infringement_id = iid,
      task_user_ref = user, task_severity = sev, task_triage = triage, task_status = status,
      task_decision = None, task_decided_by = None, task_decided_at = None,
      task_created_at = db_now d\<rparr>" "review_tasks d"]
  by (auto simp: task_of_def upsert_task_def Let_def merge_task_def split: option.split)

lemma upsert_task_frame [simp]:
  "infringements (upsert_task iid user sev triage status d) = infringements d"
  "hit_of x (upsert_task iid user sev triage status d) = hit_of x d"
  "attestations (upsert_task iid user sev triage status d) = attestations d"
  "providers (upsert_task iid user sev triage status d) = providers d"
  "provider_calls (upsert_task iid user sev triage status d) = provider_calls d"
  "provider_spend (upsert_task iid user sev triage status d) = provider_spend d"
  "audit_log (upsert_task iid user sev triage status d) = audit_log d"
  by (simp_all add: upsert_task_def hit_of_def Let_def)

lemma tables_ok_upsert_task:
  assumes "tables_ok d" "iid < db_fresh d"
  shows "tables_ok (upsert_task iid user sev triage status d)"
proof -
  define new where "new = \<lparr>task_id = db_fresh d, task_infringement_id = iid, task_user_ref = user,
      task_severity = sev, task_triage = triage, task_status = status, task_decision = None,
      task_decided_by = None, task_decided_at = None, task_created_at = db_now d\<rparr>"
  let ?ts = "sql_upsert (\<lambda>t. task_infringement_id t = task_infringement_id new) (merge_task new) new (review_tasks d)"
  have up: "upsert_task iid user sev triage status d = d\<lparr>db_fresh := Suc (db_fresh d), review_tasks := ?ts\<rparr>"
    by (simp add: upsert_task_def new_def Let_def)
  have new: "task_id new = db_fresh d" "task_infringement_id new = iid" by (simp_all add: new_def)
  have keep: "task_id (merge_task new t) = task_id t" "task_infringement_id (merge_task new t) = task_infringement_id t" for t
    by (simp_all add: merge_task_def)
  have "distinct (map task_infringement_id ?ts)"
    using assms(1) task_table.distinct_upsert [of "review_tasks d" new] by (simp add: tables_ok_def)
  moreover have "distinct (map task_id ?ts)"
    using assms(1) by (auto simp: tables_ok_def sql_upsert_def map_sql_update keep new)
  moreover have "task_infringement_id t < Suc (db_fresh d) \<and> task_id t < Suc (db_fresh d)" if "t \<in> set ?ts" for t
  proof -
    from in_sql_upsert [OF that] show ?thesis
      using assms by (auto simp: tables_ok_def keep new intro: less_SucI)
  qed
  ultimately show ?thesis unfolding up using assms(1) by (auto simp: tables_ok_def intro: less_SucI)
qed

lemma abs_upsert_pending:
  assumes "hit_of iid d = Some i"
  shows "abs_hit x (upsert_task iid user sev triage Pending d) =
    (if x = iid then (Some (hit_view_of i), offered (snd (abs_hit iid d))) else abs_hit x d)"
  using assms
  by (auto simp: abs_hit_def task_of_upsert offered_def task_view_of_def fresh_task_def split: option.split)

lemma abs_upsert_held:
  assumes "hit_of iid d = Some i"
  shows "abs_hit x (upsert_task iid user sev triage Task_quarantined d) =
    (if x = iid then (Some (hit_view_of i), held (snd (abs_hit iid d))) else abs_hit x d)"
  using assms
  by (auto simp: abs_hit_def task_of_upsert held_def task_view_of_def fresh_task_def split: option.split)

section \<open>Confirm operations\<close>

lemma service_audit_frame [simp]:
  "infringements (service_audit act user iid md d) = infringements d"
  "review_tasks (service_audit act user iid md d) = review_tasks d"
  "db_fresh (service_audit act user iid md d) = db_fresh d"
  "abs_hit x (service_audit act user iid md d) = abs_hit x d"
  "tables_ok (service_audit act user iid md d) = tables_ok d"
  by (simp_all add: service_audit_def abs_hit_def hit_of_def task_of_def tables_ok_def)

lemma guarded_update_None: "guarded_update iid f d = Inr (None, d1) \<Longrightarrow> d1 = d"
  by (auto simp: guarded_update_def split: option.splits sum.splits)

lemma guarded_update_Some:
  assumes ok: "tables_ok d" and upd: "guarded_update iid f d = Inr (Some user, d1)"
    and ids: "\<And>i. infringement_id (f i) = infringement_id i"
  obtains i where "hit_of iid d = Some i" "open_to_machine i" "user = inf_user_ref i"
    "tables_ok d1" "hit_of iid d1 = Some (f i)" "undecided (hit_view_of i)"
    "\<And>x. x \<noteq> iid \<Longrightarrow> abs_hit x d1 = abs_hit x d" "\<And>x. task_of x d1 = task_of x d"
    "db_fresh d1 = db_fresh d" "\<And>x. snd (abs_hit x d1) = snd (abs_hit x d)"
    "fst (abs_hit iid d1) = Some (hit_view_of (f i))"
proof -
  let ?p = "\<lambda>i. infringement_id i = iid \<and> open_to_machine i"
  obtain i where first: "sql_first ?p (infringements d) = Some i" and user: "user = inf_user_ref i"
    and d1: "update_infringements ?p f d = Inr d1"
    using upd by (auto simp: guarded_update_def split: option.splits sum.splits)
  then have i: "i \<in> set (infringements d)" "infringement_id i = iid" "open_to_machine i"
    by (auto dest: sql_first_SomeD)
  have hit: "hit_of iid d = Some i"
    using ok i distinct_hit [of "infringements d" i] by (simp add: tables_ok_def hit_of_def)
  have d1': "d1 = d\<lparr>infringements := sql_update ?p f (infringements d)\<rparr>"
    and checks: "\<And>j. j \<in> set (infringements d) \<Longrightarrow> ?p j \<Longrightarrow> confirmed_needs_human (f j) \<and> duplicate_needs_source (f j)"
    using d1 by (auto simp: update_infringements_Inr list_all_iff)
  have hits: "hit_of x d1 = map_option (\<lambda>i. if ?p i then f i else i) (hit_of x d)" for x
    unfolding d1' by (rule hit_of_update) (rule ids)
  have same: "hit_of x d1 = hit_of x d" if "x \<noteq> iid" for x
    unfolding hits using that by (cases "hit_of x d") (auto dest: hit_ofD)
  have tasks: "task_of x d1 = task_of x d" for x by (simp add: d1' task_of_def)
  show thesis
  proof (rule that [OF hit i(3) user])
    show "tables_ok d1" unfolding d1' by (rule tables_ok_update [OF ok ids checks])
    show "hit_of iid d1 = Some (f i)" using i by (simp add: hits hit)
    show "undecided (hit_view_of i)"
      using i(3) by (auto simp: undecided_def hit_view_of_def open_to_machine_def)
    show "fst (abs_hit iid d1) = Some (hit_view_of (f i))" using i by (simp add: abs_hit_def hits hit)
    show "db_fresh d1 = db_fresh d" by (simp add: d1')
  qed (simp_all add: abs_hit_def same tasks)
qed

text \<open>A guarded update followed by an upsert of the hit's task is one move.\<close>

lemma lawful_guarded:
  assumes upd: "guarded_update iid f d = Inr (Some user, d1)"
    and ids: "\<And>i. infringement_id (f i) = infringement_id i"
    and d2: "\<And>x. abs_hit x d2 = (if x = iid then (fst (abs_hit iid d1), g (snd (abs_hit iid d1))) else abs_hit x d1)"
    and ok2: "tables_ok d1 \<Longrightarrow> iid < db_fresh d1 \<Longrightarrow> tables_ok d2"
    and move: "\<And>i t. undecided (hit_view_of i) \<Longrightarrow>
        hit_move ops (Some (hit_view_of i), t) (Some (hit_view_of (f i)), g t)"
  shows "lawful ops d d2"
  unfolding lawful_def
proof (intro impI conjI allI)
  assume ok: "tables_ok d"
  from guarded_update_Some [OF ok upd ids] obtain i where i: "hit_of iid d = Some i"
    "undecided (hit_view_of i)" "tables_ok d1" "db_fresh d1 = db_fresh d"
    "\<And>x. x \<noteq> iid \<Longrightarrow> abs_hit x d1 = abs_hit x d" "\<And>x. snd (abs_hit x d1) = snd (abs_hit x d)"
    "fst (abs_hit iid d1) = Some (hit_view_of (f i))" by metis
  show "tables_ok d2" using ok2 i(3,4) tables_ok_hit(1) [OF ok i(1)] by simp
  fix x
  show "hit_moves ops (abs_hit x d) (abs_hit x d2)"
  proof (cases "x = iid")
    case True
    have "abs_hit iid d = (Some (hit_view_of i), snd (abs_hit iid d))"
      using i(1) by (simp add: abs_hit_def)
    with move [OF i(2), of "snd (abs_hit iid d)"] d2 [of iid] i(6,7) True show ?thesis
      by (metis r_into_rtranclp)
  next
    case False
    with d2 i(5) show ?thesis by simp
  qed
qed

lemma abs_Some_fst: "fst (abs_hit x d) = map_option hit_view_of (hit_of x d)"
  by (simp add: abs_hit_def)

text \<open>The two tails of the guarded writes: the task offered for review, the task held back.\<close>

lemma lawful_offer:
  assumes "guarded_update iid f d = Inr (Some user, d1)"
    and "\<And>i. infringement_id (f i) = infringement_id i"
    and "\<And>i t. undecided (hit_view_of i) \<Longrightarrow>
        hit_move ops (Some (hit_view_of i), t) (Some (hit_view_of (f i)), offered t)"
  shows "lawful ops d (upsert_task iid user' sev triage Pending d1)"
proof (cases "tables_ok d")
  case True
  from guarded_update_Some [OF True assms(1,2)] obtain i where hit: "hit_of iid d1 = Some (f i)" by blast
  show ?thesis
    by (rule lawful_guarded [OF assms(1,2) _ _ assms(3)])
      (auto simp: abs_upsert_pending [OF hit] abs_Some_fst hit tables_ok_upsert_task)
qed (simp add: lawful_def)

lemma lawful_hold:
  assumes "guarded_update iid f d = Inr (Some user, d1)"
    and "\<And>i. infringement_id (f i) = infringement_id i"
    and "\<And>i t. undecided (hit_view_of i) \<Longrightarrow>
        hit_move ops (Some (hit_view_of i), t) (Some (hit_view_of (f i)), held t)"
  shows "lawful ops d (upsert_task iid user' sev triage Task_quarantined d1)"
proof (cases "tables_ok d")
  case True
  from guarded_update_Some [OF True assms(1,2)] obtain i where hit: "hit_of iid d1 = Some (f i)" by blast
  show ?thesis
    by (rule lawful_guarded [OF assms(1,2) _ _ assms(3)])
      (auto simp: abs_upsert_held [OF hit] abs_Some_fst hit tables_ok_upsert_task)
qed (simp add: lawful_def)

lemma lawful_audit: "lawful ops d d' \<Longrightarrow> lawful ops d (service_audit act user iid md d')"
  by (simp add: lawful_def)

lemma record_triage_lawful:
  "record_triage iid sev ph score labels triage d = Inr d' \<Longrightarrow> lawful ops d d'"
  by (auto simp: record_triage_def triaged_def hit_view_of_def split: sum.splits option.splits prod.splits
      intro!: lawful_offer hit_move.triage [of "hit_view_of _", unfolded hit_view_of_def, simplified])

lemma record_unfetchable_lawful:
  "record_unfetchable iid detail d = Inr d' \<Longrightarrow> lawful ops d d'"
  by (auto simp: record_unfetchable_def hit_view_of_def split: sum.splits option.splits prod.splits
      intro!: lawful_offer hit_move.triage [of "hit_view_of _", unfolded hit_view_of_def, simplified])

lemma record_auto_confirmed_lawful:
  "record_auto_confirmed iid ph score labels triage d = Inr d' \<Longrightarrow> lawful ops d d'"
  by (auto simp: record_auto_confirmed_def auto_confirmed_def AUTO_CONFIRM_SEVERITY_def hit_view_of_def
      split: sum.splits option.splits prod.splits
      intro!: lawful_audit lawful_offer hit_move.auto_confirm)

lemma record_quarantine_lawful:
  "record_quarantine iid ph labels age d = Inr d' \<Longrightarrow> lawful ops d d'"
  by (auto simp: record_quarantine_def hit_view_of_def split: sum.splits option.splits prod.splits
      intro!: lawful_audit lawful_hold
        hit_move.quarantine [of "hit_view_of _", unfolded hit_view_of_def, simplified])

lemma record_skipped_lawful: "lawful ops d (record_skipped iid reason detail d)"
proof (cases "hit_of iid d")
  case None
  then show ?thesis by (simp add: record_skipped_def)
next
  case (Some i)
  have "hit_move ops (abs_hit x d) (abs_hit x (record_skipped iid reason detail d))" for x
  proof (cases "x = iid")
    case True
    have "abs_hit iid d = (Some (hit_view_of i), snd (abs_hit iid d))" using Some by (simp add: abs_hit_def)
    with True Some show ?thesis
      by (simp add: record_skipped_def abs_upsert_pending) (metis hit_move.skip)
  next
    case False
    with Some show ?thesis by (simp add: record_skipped_def abs_upsert_pending hit_move.stay)
  qed
  moreover have "tables_ok d \<Longrightarrow> tables_ok (record_skipped iid reason detail d)"
    using Some tables_ok_hit(1) [OF _ Some] by (simp add: record_skipped_def tables_ok_upsert_task)
  ultimately show ?thesis by (auto simp: lawful_def)
qed

lemma task_of_delete:
  assumes "distinct (map task_infringement_id (review_tasks d))"
  shows "task_of x (d\<lparr>review_tasks := sql_delete (\<lambda>t. task_infringement_id t = iid \<and> task_status t = Pending)
            (review_tasks d)\<rparr>) =
    (if x = iid then (case task_of iid d of None \<Rightarrow> None | Some t \<Rightarrow> if task_status t = Pending then None else Some t)
     else task_of x d)"
proof -
  have "distinct (map task_infringement_id ts) \<Longrightarrow>
    sql_first (\<lambda>t. task_infringement_id t = x)
      (filter (\<lambda>t. task_infringement_id t = iid \<longrightarrow> task_status t \<noteq> Pending) ts) =
    (if x = iid then (case sql_first (\<lambda>t. task_infringement_id t = iid) ts of None \<Rightarrow> None
        | Some t \<Rightarrow> if task_status t = Pending then None else Some t)
     else sql_first (\<lambda>t. task_infringement_id t = x) ts)" for ts
  proof (induction ts)
    case (Cons t ts)
    show ?case
    proof (cases "x = iid \<and> task_infringement_id t = iid \<and> task_status t = Pending")
      case True
      then have "\<forall>u\<in>set ts. task_infringement_id u \<noteq> iid" using Cons.prems by (auto simp: image_iff)
      then have "sql_first (\<lambda>t. task_infringement_id t = iid)
          (filter (\<lambda>t. task_infringement_id t = iid \<longrightarrow> task_status t \<noteq> Pending) ts) = None"
        by (auto simp: sql_first_None_iff)
      with True show ?thesis by simp
    next
      case False
      with Cons show ?thesis by auto
    qed
  qed simp
  from this [OF assms] show ?thesis by (simp add: task_of_def sql_delete_def)
qed

lemma record_duplicate_lawful:
  assumes "record_duplicate iid source ph d = Inr d'"
  shows "lawful ops d d'"
proof (cases "tables_ok d")
  case True
  let ?f = "\<lambda>i::infringement. i\<lparr>confirm_state := Duplicate, duplicate_of := Some source, phash := Some ph\<rparr>"
  from assms consider "d' = d" | user d1 where "guarded_update iid ?f d = Inr (Some user, d1)"
    "d' = d1\<lparr>review_tasks := sql_delete (\<lambda>t. task_infringement_id t = iid \<and> task_status t = Pending) (review_tasks d1)\<rparr>"
    by (auto simp: record_duplicate_def split: sum.splits option.splits prod.splits if_splits)
  then show ?thesis
  proof cases
    case (2 user d1)
    have ids: "infringement_id (?f i) = infringement_id i" for i by simp
    from guarded_update_Some [OF True 2(1) ids] have ok1: "tables_ok d1" by blast
    then have "distinct (map task_infringement_id (review_tasks d1))" by (simp add: tables_ok_def)
    note tasks = task_of_delete [OF this, of _ iid]
    show ?thesis unfolding 2(2)
    proof (rule lawful_guarded [OF 2(1) ids])
      fix x
      show "abs_hit x (d1\<lparr>review_tasks := sql_delete (\<lambda>t. task_infringement_id t = iid \<and> task_status t = Pending) (review_tasks d1)\<rparr>) =
        (if x = iid then (fst (abs_hit iid d1), withdrawn (snd (abs_hit iid d1))) else abs_hit x d1)"
        by (simp add: abs_hit_def tasks hit_of_def) (simp add: withdrawn_def task_view_of_def split: option.split)
    next
      show "tables_ok (d1\<lparr>review_tasks := sql_delete (\<lambda>t. task_infringement_id t = iid \<and> task_status t = Pending) (review_tasks d1)\<rparr>)"
        using ok1 by (auto simp: tables_ok_def sql_delete_def distinct_map_filter)
    next
      fix i t
      assume "undecided (hit_view_of i)"
      from hit_move.duplicate [OF this] show "hit_move ops (Some (hit_view_of i), t) (Some (hit_view_of (?f i)), withdrawn t)"
        by (simp add: hit_view_of_def)
    qed
  qed simp
qed (simp add: lawful_def)

lemma tables_ok_relabel:
  assumes "\<And>i. infringement_id (f i) = infringement_id i \<and> hit_view_of (f i) = hit_view_of i \<and>
      confirm_decided_at (f i) = confirm_decided_at i \<and> duplicate_of (f i) = duplicate_of i"
  shows "lawful ops d (d\<lparr>infringements := sql_update p f (infringements d)\<rparr>)"
proof -
  have "tables_ok d \<Longrightarrow> tables_ok (d\<lparr>infringements := sql_update p f (infringements d)\<rparr>)"
  proof (rule tables_ok_update)
    fix i
    assume "tables_ok d" "i \<in> set (infringements d)" "p i"
    then have "confirmed_needs_human i" "duplicate_needs_source i" by (auto simp: tables_ok_def)
    with assms [of i] show "confirmed_needs_human (f i) \<and> duplicate_needs_source (f i)"
      by (simp add: confirmed_needs_human_def duplicate_needs_source_def hit_view_of_def)
  qed (use assms in auto)
  moreover have "abs_hit x (d\<lparr>infringements := sql_update p f (infringements d)\<rparr>) = abs_hit x d" for x
    using assms by (simp add: abs_hit_def hit_of_update task_of_def map_option.compositionality comp_def cong: map_option_cong)
      (simp add: if_distrib cong: if_cong)
  ultimately show ?thesis by (simp add: lawful_def)
qed

lemma record_preview_lawful: "lawful ops d (record_preview_image_url iid url d)"
  unfolding record_preview_image_url_def by (rule tables_ok_relabel) (simp add: hit_view_of_def)

lemma record_feedback_lawful:
  assumes "record_feedback iid user signal d = Inr (r, d')"
  shows "lawful ops d d'"
proof -
  have frame: "lawful ops d (d\<lparr>infringement_feedback := fb\<rparr>)" for fb by (rule lawful_frame) simp_all
  have "lawful ops d1 (d1\<lparr>infringements := sql_update (owned_by iid user) (\<lambda>i. i\<lparr>inf_status := st\<rparr>) (infringements d1)\<rparr>)" for st d1
    by (rule tables_ok_relabel) (simp add: hit_view_of_def)
  from lawful_trans [OF frame this] frame assms show ?thesis
    by (auto simp: record_feedback_def Let_def split: sum.splits option.splits)
qed

section \<open>Review operations\<close>

lemma task_of_update:
  assumes "\<And>t. task_infringement_id (f t) = task_infringement_id t"
  shows "task_of x (d\<lparr>review_tasks := sql_update p f (review_tasks d)\<rparr>) =
    map_option (\<lambda>t. if p t then f t else t) (task_of x d)"
  by (simp add: task_of_def sql_first_update assms)

lemma tables_ok_update_tasks:
  assumes "tables_ok d" "\<And>t. task_infringement_id (f t) = task_infringement_id t \<and> task_id (f t) = task_id t"
  shows "tables_ok (d\<lparr>review_tasks := sql_update p f (review_tasks d)\<rparr>)"
  using assms by (auto simp: tables_ok_def map_sql_update in_sql_update)

lemma pending_task:
  assumes ok: "tables_ok d" and first: "sql_first (\<lambda>t. task_id t = tid \<and> task_status t = Pending) (review_tasks d) = Some t"
  shows "task_of (task_infringement_id t) d = Some t" "task_status t = Pending" "task_id t = tid"
    "task_of x d = Some u \<Longrightarrow> task_id u = tid \<longleftrightarrow> x = task_infringement_id t"
proof -
  from first have t: "t \<in> set (review_tasks d)" "task_id t = tid" "task_status t = Pending"
    by (auto dest: sql_first_SomeD)
  then show "task_status t = Pending" "task_id t = tid" by simp_all
  have "sql_first (\<lambda>u. task_infringement_id u = task_infringement_id t) ts = Some t"
    if "distinct (map task_infringement_id ts)" "t \<in> set ts" for ts
    using that by (induction ts) (auto simp: image_iff)
  with ok t show task: "task_of (task_infringement_id t) d = Some t" by (simp add: tables_ok_def task_of_def)
  assume u: "task_of x d = Some u"
  then have "u \<in> set (review_tasks d)" "task_infringement_id u = x"
    by (auto simp: task_of_def dest: sql_first_SomeD)
  with ok t task u show "task_id u = tid \<longleftrightarrow> x = task_infringement_id t"
    by (auto simp: tables_ok_def distinct_map inj_on_def)
qed

lemma updated_hit:
  assumes ok: "tables_ok d" and upd: "update_infringements (\<lambda>i. infringement_id i = iid) f d = Inr d1"
    and hit: "hit_of iid d1 = Some j" and ids: "\<And>i. infringement_id (f i) = infringement_id i"
  obtains i where "hit_of iid d = Some i" "j = f i" "tables_ok d1" "confirmed_needs_human (f i)"
    "duplicate_needs_source (f i)" "\<And>x. x \<noteq> iid \<Longrightarrow> hit_of x d1 = hit_of x d"
    "d1 = d\<lparr>infringements := sql_update (\<lambda>i. infringement_id i = iid) f (infringements d)\<rparr>"
proof -
  let ?p = "\<lambda>i::infringement. infringement_id i = iid"
  have d1: "d1 = d\<lparr>infringements := sql_update ?p f (infringements d)\<rparr>"
    and checks: "\<And>i. i \<in> set (infringements d) \<Longrightarrow> ?p i \<Longrightarrow> confirmed_needs_human (f i) \<and> duplicate_needs_source (f i)"
    using upd by (auto simp: update_infringements_Inr list_all_iff)
  have hits: "hit_of x d1 = map_option (\<lambda>i. if ?p i then f i else i) (hit_of x d)" for x
    unfolding d1 by (rule hit_of_update) (rule ids)
  from hit obtain i where i: "hit_of iid d = Some i" and j': "j = (if ?p i then f i else i)"
    unfolding hits by auto
  from hit_ofD [OF i] j' have j: "j = f i" by simp
  have "hit_of x d1 = hit_of x d" if "x \<noteq> iid" for x
    unfolding hits using that by (cases "hit_of x d") (auto dest: hit_ofD)
  moreover have "tables_ok d1" unfolding d1 by (rule tables_ok_update [OF ok ids checks])
  moreover have "confirmed_needs_human (f i)" "duplicate_needs_source (f i)"
    using checks [of i] hit_ofD [OF i] by simp_all
  ultimately show thesis using that [OF i j] d1 by simp
qed

lemma operator_audit_frame [simp]:
  "infringements (operator_audit act user iid md d) = infringements d"
  "review_tasks (operator_audit act user iid md d) = review_tasks d"
  "attestations (operator_audit act user iid md d) = attestations d"
  "db_fresh (operator_audit act user iid md d) = db_fresh d"
  "abs_hit x (operator_audit act user iid md d) = abs_hit x d"
  "tables_ok (operator_audit act user iid md d) = tables_ok d"
  by (simp_all add: operator_audit_def abs_hit_def hit_of_def task_of_def tables_ok_def)

lemma decide_task_lawful:
  assumes dec: "decide_task tid decision who override d = Inr (r, d')" and who: "who \<in> ops"
  shows "lawful ops d d'"
proof (cases "tables_ok d")
  case ok: True
  show ?thesis
  proof (cases "sql_first (\<lambda>t. task_id t = tid \<and> task_status t = Pending) (review_tasks d)")
    case None
    with dec show ?thesis by (simp add: decide_task_def)
  next
    case (Some t)
    note t = pending_task [OF ok Some]
    define iid where "iid = task_infringement_id t"
    show ?thesis
    proof (cases "decision = ''uncertain''")
      case True
      with dec Some have "d' = operator_audit REVIEW_DECIDED_ACTION (task_user_ref t) iid
          (JObj [(''decision'', JStr ''uncertain''), (''operator'', JStr who)]) d"
        by (simp add: decide_task_def Let_def iid_def)
      then show ?thesis by (simp add: lawful_def)
    next
      case False
      define s where "s = (if decision = ''confirmed'' then Confirmed else Rejected)"
      define d1 where "d1 = d\<lparr>review_tasks := sql_update (\<lambda>t. task_id t = tid)
          (decided_task (db_now d) decision who) (review_tasks d)\<rparr>"
      have dc: "decision = ''confirmed'' \<or> decision = ''rejected''"
        using dec Some False by (auto simp: decide_task_def Let_def split: if_splits)
      have word: "decision = confirm_text s" using dc by (auto simp: s_def)
      obtain d2 j md where upd: "update_infringements (\<lambda>i. infringement_id i = iid)
            (decide_row (db_now d) s who override) d1 = Inr d2"
        and hit: "hit_of iid d2 = Some j"
        and d': "d' = operator_audit REVIEW_DECIDED_ACTION (task_user_ref t) iid md d2"
        using dec Some False dc
        by (auto simp: decide_task_def Let_def iid_def s_def d1_def hit_of_def split: sum.splits option.splits)
      have ok1: "tables_ok d1" unfolding d1_def
        by (rule tables_ok_update_tasks [OF ok]) (simp add: decided_task_def)
      have "infringement_id (decide_row (db_now d) s who override i) = infringement_id i" for i
        by (simp add: decide_row_def)
      from updated_hit [OF ok1 upd hit this] obtain i where i: "hit_of iid d1 = Some i"
        "j = decide_row (db_now d) s who override i" "tables_ok d2"
        "duplicate_needs_source (decide_row (db_now d) s who override i)"
        "\<And>x. x \<noteq> iid \<Longrightarrow> hit_of x d2 = hit_of x d1"
        and d2: "d2 = d1\<lparr>infringements := sql_update (\<lambda>i. infringement_id i = iid)
            (decide_row (db_now d) s who override) (infringements d1)\<rparr>" by metis
      have hits: "hit_of x d1 = hit_of x d" for x by (simp add: d1_def hit_of_def)
      have tasks: "task_of x d2 = map_option (\<lambda>t. if task_id t = tid then decided_task (db_now d) decision who t else t)
          (task_of x d)" for x
      proof -
        have "task_of x d2 = task_of x d1" by (simp add: d2 task_of_def)
        then show ?thesis unfolding d1_def by (simp add: task_of_update decided_task_def)
      qed
      have dup: "confirm_state i \<noteq> Duplicate"
        using i(4) tables_ok_hit(3) [OF ok1 i(1)]
        by (auto simp: duplicate_needs_source_def decide_row_def s_def split: if_splits)
      have "hit_move ops (abs_hit x d) (abs_hit x d2)" for x
      proof (cases "x = iid")
        case True
        have 1: "abs_hit x d = (Some (hit_view_of i), Some (task_view_of t))"
          using True i(1) t(1) by (simp add: abs_hit_def hits iid_def)
        define sev where "sev = (case override of None \<Rightarrow> inf_severity i | Some v \<Rightarrow> Some v)"
        have 2: "abs_hit x d2 = (Some \<lparr>hv_state = s, hv_severity = sev, hv_by = Some who\<rparr>, Some (settled_by who s))"
          using True hit i(2) t(1,3) word
          by (simp add: abs_hit_def tasks iid_def hit_view_of_def decide_row_def sev_def task_view_of_def
              decided_task_def settled_by_def)
        have "sev = hv_severity (hit_view_of i) \<or> sev = Some (the override)"
          by (cases override) (simp_all add: sev_def hit_view_of_def)
        with who t(2) dup show ?thesis unfolding 1 2
          by (intro hit_move.operator) (auto simp: task_view_of_def hit_view_of_def s_def)
      next
        case False
        have "task_of x d2 = task_of x d"
          unfolding tasks using t(4) [of x] False by (cases "task_of x d") (simp_all add: iid_def)
        with False i(5) show ?thesis by (simp add: abs_hit_def hits hit_move.stay)
      qed
      with i(3) show ?thesis unfolding d' by (auto simp: lawful_def)
    qed
  qed
qed (simp add: lawful_def)

lemma record_verdict_lawful:
  assumes "record_verdict iid who label note d = Inr (r, d')"
  shows "lawful ops d d'"
proof (rule lawful_frame)
  show "infringements d' = infringements d" "review_tasks d' = review_tasks d"
    using verdict_is_only_a_label_frame [OF assms] by simp_all
  show "db_fresh d \<le> db_fresh d'"
    using assms by (auto simp: record_verdict_def insert_verdict_def Let_def operator_audit_def
        split: option.splits if_splits)
qed

lemma complete_run_lawful:
  assumes "complete_run rid sid succ ret conf d = Inr (u, d')"
  shows "lawful ops d d'"
proof (rule lawful_frame)
  show "infringements d' = infringements d" "review_tasks d' = review_tasks d" "db_fresh d \<le> db_fresh d'"
    using assms by (auto simp: complete_run_def mark_completed_def update_cadence_def
        enqueue_confirm_hits_def Let_def split: sum.splits option.splits if_splits)
qed

lemma subject_write_lawful:
  assumes wr: "subject_write iid user decision domain d = Inr (r, d')"
    and vocab: "decision = ''confirmed'' \<or> decision = ''rejected''"
    and prior: "\<And>i. hit_of iid d = Some i \<Longrightarrow>
      confirm_state i \<noteq> Quarantined \<and> confirm_state i \<noteq> Duplicate \<and>
      (undecided (hit_view_of i) \<or> confirm_decided_by i = Some SUBJECT)"
  shows "lawful ops d d'"
proof (cases "tables_ok d")
  case ok: True
  define s where "s = (if decision = ''confirmed'' then Confirmed else Rejected)"
  have word: "decision = confirm_text s" and s: "s = Confirmed \<or> s = Rejected" using vocab by (auto simp: s_def)
  have parse: "parse_confirm_state decision = Some s" unfolding word by (rule parse_confirm_text)
  obtain d1 j a where upd: "update_infringements (\<lambda>i. infringement_id i = iid) (subject_row_decided (db_now d) s) d = Inr d1"
    and hit: "hit_of iid d1 = Some j"
    and d': "d' = insert_audit a (d1\<lparr>review_tasks := sql_update (subject_may_set iid)
        (decided_task (db_now d) decision SUBJECT) (review_tasks d1)\<rparr>)"
    using wr parse vocab
    by (auto simp: subject_write_def hit_of_def Let_def split: sum.splits option.splits if_splits)
  let ?d2 = "d1\<lparr>review_tasks := sql_update (subject_may_set iid)
        (decided_task (db_now d) decision SUBJECT) (review_tasks d1)\<rparr>"
  have "infringement_id (subject_row_decided (db_now d) s i) = infringement_id i" for i
    by (simp add: subject_row_decided_def)
  from updated_hit [OF ok upd hit this] obtain i where i: "hit_of iid d = Some i"
    "j = subject_row_decided (db_now d) s i" "tables_ok d1" "\<And>x. x \<noteq> iid \<Longrightarrow> hit_of x d1 = hit_of x d"
    and d1: "d1 = d\<lparr>infringements := sql_update (\<lambda>i. infringement_id i = iid)
            (subject_row_decided (db_now d) s) (infringements d)\<rparr>" by metis
  have tasks: "task_of x ?d2 = map_option (\<lambda>t. if subject_may_set iid t then decided_task (db_now d) decision SUBJECT t else t)
      (task_of x d)" for x
  proof -
    have "task_of x d1 = task_of x d" by (simp add: d1 task_of_def)
    moreover have "task_infringement_id (decided_task now dc who t) = task_infringement_id t" for now dc who t
      by (simp add: decided_task_def)
    ultimately show ?thesis by (simp add: task_of_update)
  qed
  have hits: "hit_of x ?d2 = hit_of x d1" for x by (simp add: hit_of_def)
  have "hit_move ops (abs_hit x d) (abs_hit x ?d2)" for x
  proof (cases "x = iid")
    case True
    have 1: "abs_hit x d = (Some (hit_view_of i), map_option task_view_of (task_of iid d))"
      using True i(1) by (simp add: abs_hit_def)
    have "map_option task_view_of (task_of iid ?d2) = settled_by_subject s (map_option task_view_of (task_of iid d))"
      unfolding tasks
      by (cases "task_of iid d")
        (auto simp: settled_by_subject_def subject_may_set_def task_view_of_def decided_task_def settled_by_def
          word task_of_def dest: sql_first_SomeD)
    then have 2: "abs_hit x ?d2 = (Some ((hit_view_of i)\<lparr>hv_state := s, hv_by := Some SUBJECT\<rparr>),
        settled_by_subject s (map_option task_view_of (task_of iid d)))"
      using True hit i(2) by (simp add: abs_hit_def hits hit_view_of_def subject_row_decided_def)
    show ?thesis unfolding 1 2 using prior [OF i(1)] s
      by (intro hit_move.subject) (auto simp: hit_view_of_def)
  next
    case False
    have "task_of x ?d2 = task_of x d"
      unfolding tasks using False
      by (cases "task_of x d") (auto simp: subject_may_set_def task_of_def dest: sql_first_SomeD)
    with False i(4) show ?thesis by (simp add: abs_hit_def hits hit_move.stay)
  qed
  moreover have "tables_ok ?d2"
    by (rule tables_ok_update_tasks [OF i(3)]) (simp add: decided_task_def)
  moreover have "abs_hit x d' = abs_hit x ?d2" "tables_ok d' = tables_ok ?d2" for x
    by (simp_all add: d' abs_hit_def hit_of_def task_of_def tables_ok_def)
  ultimately show ?thesis by (auto simp: lawful_def)
qed (simp add: lawful_def)

lemma subject_decide_lawful:
  assumes dec: "subject_decide iid user decision d = Inr (r, d')"
    and vocab: "decision = ''confirmed'' \<or> decision = ''rejected''"
  shows "lawful ops d d'"
proof (cases "tables_ok d")
  case ok: True
  obtain i where own: "d' = d \<or> sql_first (owned_by iid user) (infringements d) = Some i"
    using dec by (auto simp: subject_decide_def split: option.splits)
  show ?thesis
  proof (cases "d' = d")
    case False
    with own have i: "sql_first (owned_by iid user) (infringements d) = Some i" by simp
    obtain domain where
      prior: "confirm_state i \<noteq> Quarantined" "confirm_state i \<noteq> Duplicate"
        "confirm_state i = Confirmed \<or> confirm_state i = Rejected \<Longrightarrow> confirm_decided_by i = Some SUBJECT"
      and wr: "subject_write iid user decision domain d = Inr (r, d')"
      using dec False i by (auto simp: subject_decide_def split: option.splits if_splits)
    from i have "i \<in> set (infringements d)" "infringement_id i = iid"
      by (auto simp: owned_by_def dest: sql_first_SomeD)
    with ok distinct_hit [of "infringements d" i] have hit: "hit_of iid d = Some i"
      by (simp add: tables_ok_def hit_of_def)
    show ?thesis
    proof (rule subject_write_lawful [OF wr vocab])
      fix k
      assume "hit_of iid d = Some k"
      with hit prior show "confirm_state k \<noteq> Quarantined \<and> confirm_state k \<noteq> Duplicate \<and>
          (undecided (hit_view_of k) \<or> confirm_decided_by k = Some SUBJECT)"
        by (cases "confirm_state i") (simp_all add: undecided_def hit_view_of_def)
    qed
  qed simp
qed (simp add: lawful_def)

section \<open>Search operations\<close>

lemma record_key_lawful:
  assumes rec: "record_key lib rid user provider pol k d = Inr d'"
  shows "lawful ops d d'"
proof -
  define d0 where "d0 = upsert_url lib k d"
  define new where "new = new_infringement user k (db_fresh d0) (db_now d0)"
  define t where "t = sql_upsert (\<lambda>i. inf_key i = inf_key new) (seen_again (db_now d0)) new (infringements d0)"
  define d1 where "d1 = d0\<lparr>infringements := t, db_fresh := Suc (db_fresh d0)\<rparr>"
  have "snd (upsert_infringement user k d0) = d1"
    by (simp add: upsert_infringement_def Let_def d1_def t_def new_def split: option.split)
  then obtain iid where up: "upsert_infringement user k d0 = (iid, d1)"
    by (cases "upsert_infringement user k d0") simp
  obtain row d2 where at: "upsert_attestation row d1 = Inr d2"
    and d': "d' = set_band iid (roll_up (bands_of iid d2)) d2"
    using rec up unfolding record_key_def d0_def [symmetric] by (simp add: Let_def split: sum.splits)
  have d2: "infringements d2 = infringements d1" "review_tasks d2 = review_tasks d1" "db_fresh d2 = db_fresh d1"
    using at by (auto simp: upsert_attestation_def Let_def split: if_splits)
  have "lawful ops d d0" by (rule lawful_frame) (simp_all add: d0_def upsert_url_def Let_def)
  moreover have "lawful ops d0 d1"
    unfolding lawful_def
  proof (intro impI conjI allI)
    assume ok: "tables_ok d0"
    have new: "infringement_id new = db_fresh d0" "hit_view_of new = fresh_hit" "confirmed_needs_human new"
      "duplicate_needs_source new"
      by (simp_all add: new_def new_infringement_def hit_view_of_def fresh_hit_def confirmed_needs_human_def
          duplicate_needs_source_def)
    have seen: "infringement_id (seen_again now i) = infringement_id i" "hit_view_of (seen_again now i) = hit_view_of i"
      "confirmed_needs_human (seen_again now i) = confirmed_needs_human i"
      "duplicate_needs_source (seen_again now i) = duplicate_needs_source i" for now i
      by (simp_all add: seen_again_def hit_view_of_def confirmed_needs_human_def duplicate_needs_source_def)
    have fresh: "hit_of (db_fresh d0) d0 = None" "task_of (db_fresh d0) d0 = None"
      using ok by (auto simp: hit_of_def task_of_def tables_ok_def sql_first_None_iff)
    have "distinct (map infringement_id t)"
      using ok by (auto simp: t_def sql_upsert_def tables_ok_def map_sql_update seen new)
    moreover have "infringement_id i < Suc (db_fresh d0) \<and> confirmed_needs_human i \<and> duplicate_needs_source i" if "i \<in> set t" for i
      using in_sql_upsert [OF that [unfolded t_def]] ok by (auto simp: tables_ok_def seen new intro: less_SucI)
    ultimately show "tables_ok d1" using ok by (auto simp: tables_ok_def d1_def intro: less_SucI)
    fix x
    have tasks: "task_of x d1 = task_of x d0" by (simp add: d1_def task_of_def)
    show "hit_moves ops (abs_hit x d0) (abs_hit x d1)"
    proof (cases "list_ex (\<lambda>i. inf_key i = inf_key new) (infringements d0)")
      case True
      then have "hit_of x d1 = map_option (\<lambda>i. if inf_key i = inf_key new then seen_again (db_now d0) i else i) (hit_of x d0)"
        by (simp add: hit_of_def d1_def t_def sql_upsert_def sql_first_update seen)
      then have "map_option hit_view_of (hit_of x d1) = map_option hit_view_of (hit_of x d0)"
        by (cases "hit_of x d0") (simp_all add: seen)
      with tasks show ?thesis by (simp add: abs_hit_def)
    next
      case False
      then have "hit_of x d1 = (case hit_of x d0 of Some i \<Rightarrow> Some i | None \<Rightarrow> if x = db_fresh d0 then Some new else None)"
        by (auto simp: hit_of_def d1_def t_def sql_upsert_def sql_first_append new split: option.split)
      with tasks fresh new(2) show ?thesis
        by (cases "hit_of x d0") (auto simp: abs_hit_def intro: hit_move.appear)
    qed
  qed
  moreover have "lawful ops d1 d2" using d2 by (intro lawful_frame) simp_all
  moreover have "lawful ops d2 d'" unfolding d' set_band_def
    by (rule tables_ok_relabel) (simp add: hit_view_of_def)
  ultimately show ?thesis by (meson lawful_trans)
qed

lemma record_infringements_lawful:
  assumes "record_infringements lib rid user provider ms pol d = Inr (n, d')"
  shows "lawful ops d d'"
proof -
  have "record_keys lib rid user provider pol ks d = Inr d' \<Longrightarrow> lawful ops d d'" for ks
  proof (induction ks arbitrary: d)
    case (Cons k ks)
    then obtain d1 where "record_key lib rid user provider pol k d = Inr d1"
      "record_keys lib rid user provider pol ks d1 = Inr d'" by (auto split: sum.splits)
    with Cons.IH record_key_lawful show ?case by (meson lawful_trans)
  qed simp
  with assms show ?thesis by (auto simp: record_infringements_def Let_def split: sum.splits)
qed

end
