(* ===== verification/Hit_Safety.thy ===== *)
theory Hit_Safety
  imports Lifecycle
begin

text \<open>
  What the stores promise of a hit over any interleaving of the operations that write it: searches
  that find it again, confirm messages, feedback, verdicts, operator and subject decisions, time
  passing.  Each operation is a step; the properties follow from the machine of
  \<open>Hit_Machine\<close> through the refinement of \<open>Lifecycle\<close>.
\<close>

section \<open>The steps\<close>

inductive hit_step :: "string set \<Rightarrow> host_lib \<Rightarrow> 'a db_scheme \<Rightarrow> 'a db_scheme \<Rightarrow> bool" for ops lib where
  found: "record_infringements lib rid user provider ms pol d = Inr (n, d') \<Longrightarrow> hit_step ops lib d d'"
| completed: "complete_run rid sid succ ret conf d = Inr (u, d') \<Longrightarrow> hit_step ops lib d d'"
| feedback: "record_feedback iid user signal d = Inr (r, d') \<Longrightarrow> hit_step ops lib d d'"
| duplicate: "record_duplicate iid source ph d = Inr d' \<Longrightarrow> hit_step ops lib d d'"
| quarantine: "record_quarantine iid ph labels age d = Inr d' \<Longrightarrow> hit_step ops lib d d'"
| triage: "record_triage iid sev ph score labels trace d = Inr d' \<Longrightarrow> hit_step ops lib d d'"
| auto_confirm: "record_auto_confirmed iid ph score labels trace d = Inr d' \<Longrightarrow> hit_step ops lib d d'"
| unfetchable: "record_unfetchable iid detail d = Inr d' \<Longrightarrow> hit_step ops lib d d'"
| preview: "hit_step ops lib d (record_preview_image_url iid url d)"
| skipped: "hit_step ops lib d (record_skipped iid reason detail d)"
| operator: "who \<in> ops \<Longrightarrow> decide_task tid decision who override d = Inr (r, d') \<Longrightarrow> hit_step ops lib d d'"
| subject: "decision = ''confirmed'' \<or> decision = ''rejected'' \<Longrightarrow>
    subject_decide iid user decision d = Inr (r', d') \<Longrightarrow> hit_step ops lib d d'"
| verdict: "record_verdict iid who label note d = Inr (r'', d') \<Longrightarrow> hit_step ops lib d d'"
| clock: "db_now d \<le> now \<Longrightarrow> hit_step ops lib d (d\<lparr>db_now := now\<rparr>)"

inductive_cases hit_stepE: "hit_step ops lib d d'"

abbreviation hit_steps :: "string set \<Rightarrow> host_lib \<Rightarrow> 'a db_scheme \<Rightarrow> 'a db_scheme \<Rightarrow> bool" where
  "hit_steps ops lib \<equiv> (hit_step ops lib)\<^sup>*\<^sup>*"

lemmas store_lawful =
  record_infringements_lawful complete_run_lawful record_feedback_lawful record_duplicate_lawful
  record_quarantine_lawful record_triage_lawful record_auto_confirmed_lawful record_unfetchable_lawful
  record_preview_lawful record_skipped_lawful record_verdict_lawful

lemma hit_step_lawful: "hit_step ops lib d d' \<Longrightarrow> lawful ops d d'"
  by (induction rule: hit_step.induct)
    (rule record_preview_lawful record_skipped_lawful | erule (1) decide_task_lawful
      | erule (1) subject_decide_lawful | erule store_lawful | (rule lawful_frame; simp))+

lemma hit_steps_lawful: "hit_steps ops lib d d' \<Longrightarrow> lawful ops d d'"
  by (induction rule: rtranclp_induct) (auto intro: hit_step_lawful lawful_trans)

section \<open>The invariant of the tables\<close>

definition hits_consistent :: "string set \<Rightarrow> 'a db_scheme \<Rightarrow> bool" where
  "hits_consistent ops d \<longleftrightarrow> tables_ok d \<and> (\<forall>x. machine_ok ops (abs_hit x d))"

lemma hit_steps_keep:
  assumes "hit_steps ops lib d d'" "hits_consistent ops d" "sane_operators ops"
  shows "hits_consistent ops d'" "hit_moves ops (abs_hit x d) (abs_hit x d')"
  using hit_steps_lawful [OF assms(1)] assms(2,3)
  by (auto simp: hits_consistent_def lawful_def intro: moves_keep_ok)

text \<open>
  C1. The stores implement the machine: a step of any of them moves each hit and its review task
  along the machine's transitions (or leaves them alone), and keeps what the schema promises of the
  tables.
\<close>

theorem stores_refine_hit_machine:
  assumes "hit_step ops lib d d'" "tables_ok d"
  shows "tables_ok d' \<and> (\<forall>x. hit_moves ops (abs_hit x d) (abs_hit x d'))"
  using hit_step_lawful [OF assms(1)] assms(2) by (simp add: lawful_def)

lemma one_run_tables: "tables_ok one_run_db"
  by (simp add: tables_ok_def one_run_db_def empty_db_def)

lemma one_run_consistent: "hits_consistent ops one_run_db"
  using one_run_tables
  by (simp add: hits_consistent_def machine_ok_def abs_hit_def hit_of_def task_of_def one_run_db_def empty_db_def)

lemma find_step: "hit_step ops ascii_lib one_run_db one_hit_db"
  by (rule hit_step.found [OF record_first])

theorem stores_refine_hit_machine_witness:
  "tables_ok one_hit_db \<and> hit_moves {} (None, None) (abs_hit 10 one_hit_db)"
proof -
  have "abs_hit 10 one_run_db = (None, None)"
    by (simp add: abs_hit_def hit_of_def task_of_def one_run_db_def empty_db_def)
  then show ?thesis using stores_refine_hit_machine [OF find_step one_run_tables] by metis
qed

section \<open>What the tables say of a hit\<close>

text \<open>
  C20. After any sequence of steps: a hit is confirmed or rejected exactly when it names who decided
  it; the machine's name stands only on a confirmed hit of severity \<^verbatim>\<open>ncii_suspected\<close>; a
  decided review task says what its hit says, by the same decider; and a quarantined hit has a task
  held in quarantine.
\<close>

theorem hit_lifecycle_invariant:
  assumes "hit_steps ops lib d d'" "hits_consistent ops d" "sane_operators ops" "hit_of iid d' = Some i"
  shows "(confirm_state i \<in> {Confirmed, Rejected} \<longleftrightarrow> confirm_decided_by i \<noteq> None) \<and>
    (confirm_decided_by i = Some AUTO_CONFIRM_DECIDED_BY \<longrightarrow>
       confirm_state i = Confirmed \<and> inf_severity i = Some Ncii_suspected) \<and>
    (\<forall>t. task_of iid d' = Some t \<and> task_status t = Decided \<longrightarrow>
       task_decision t = Some (confirm_text (confirm_state i)) \<and>
       task_decided_by t = confirm_decided_by i) \<and>
    (confirm_state i = Quarantined \<longrightarrow>
       (\<exists>t. task_of iid d' = Some t \<and> task_status t = Task_quarantined))"
proof -
  from hit_steps_keep(1) [OF assms(1-3)]
  have "machine_ok ops (Some (hit_view_of i), map_option task_view_of (task_of iid d'))"
    using assms(4) by (auto simp: hits_consistent_def abs_hit_def dest: spec [of _ iid])
  with assms(3) show ?thesis
    by (cases "confirm_decided_by i"; cases "task_of iid d'")
      (auto simp: machine_ok_defs hit_view_of_def task_view_of_def sane_operators_def)
qed

text \<open>
  C2. What an operator decided is never changed: whatever search, confirm stage, subject or another
  operator does afterwards, the hit keeps its state, its severity and the operator's name.
\<close>

theorem operator_decision_is_final:
  assumes "hits_consistent ops d" "sane_operators ops" "hit_of iid d = Some i"
    and "confirm_decided_by i = Some who" "who \<in> ops" "hit_steps ops lib d d'"
  shows "\<exists>i'. hit_of iid d' = Some i' \<and> confirm_state i' = confirm_state i \<and>
    inf_severity i' = inf_severity i \<and> confirm_decided_by i' = Some who"
proof -
  let ?t = "map_option task_view_of (task_of iid d)"
  have abs: "abs_hit iid d = (Some (hit_view_of i), ?t)" using assms(3) by (simp add: abs_hit_def)
  then have "machine_ok ops (Some (hit_view_of i), ?t)"
    using assms(1) by (metis hits_consistent_def)
  with operator_final [OF hit_steps_keep(2) [OF assms(6,1,2), of iid, unfolded abs] _ assms(2)] assms(4,5)
  have "abs_hit iid d' = (Some (hit_view_of i), ?t)" by (simp add: hit_view_of_def)
  with assms(4) show ?thesis by (auto simp: abs_hit_def hit_view_of_def)
qed

lemma task_of_member:
  assumes "tables_ok d" "t \<in> set (review_tasks d)"
  shows "task_of (task_infringement_id t) d = Some t"
proof -
  have "distinct (map task_infringement_id ts) \<Longrightarrow> t \<in> set ts \<Longrightarrow>
      sql_first (\<lambda>u. task_infringement_id u = task_infringement_id t) ts = Some t" for ts
    by (induction ts) (auto simp: image_iff)
  with assms show ?thesis by (simp add: tables_ok_def task_of_def)
qed

lemma queue_is_pending:
  assumes "tables_ok d" "q \<in> set (review_queue d)"
  shows "\<exists>t. task_of (qt_infringement_id q) d = Some t \<and> task_status t = Pending"
proof -
  from assms(2) obtain t where "t \<in> set (review_tasks d)" "task_status t = Pending" "q \<in> set (queue_row d t)"
    by (auto simp: review_queue_def)
  moreover from this have "qt_infringement_id q = task_infringement_id t"
    by (auto simp: queue_row_def split: option.splits)
  ultimately show ?thesis using task_of_member [OF assms(1)] by metis
qed


text \<open>
  The other two reads of a subject do not look at the confirmation: the list of hits names a quarantined hit,
  and feedback on it is taken and sets its status.
\<close>

theorem quarantined_hit_still_listed:
  assumes "hits_ok d" "hit_of iid d = Some i" "confirm_state i = Quarantined" "status_for signal = Inr (Some st)"
  shows "iid \<in> ir_infringement_id ` set (list_infringements (inf_user_ref i) None d) \<and>
    (\<exists>d'. record_feedback iid (inf_user_ref i) signal d = Inr (Some st, d') \<and>
       hit_of iid d' = Some (i\<lparr>inf_status := st\<rparr>))"
proof -
  have i: "i \<in> set (infringements d)" "infringement_id i = iid"
    using assms(2) by (auto simp: hit_of_def dest: sql_first_SomeD)
  have dist: "distinct (map infringement_id (infringements d))" using assms(1) by (simp add: hits_ok_def)
  have "visible (inf_user_ref i) None i" by (simp add: visible_def)
  with i list_infringements_complete [OF assms(1), of "inf_user_ref i" None]
  have listed: "iid \<in> ir_infringement_id ` set (list_infringements (inf_user_ref i) None d)" by blast
  have own: "owned_by iid (inf_user_ref i) j \<longleftrightarrow> j = i" if "j \<in> set (infringements d)" for j
    using that i dist by (auto simp: owned_by_def distinct_map dest: inj_onD)
  have "sql_first (owned_by iid (inf_user_ref i)) (infringements d) = Some i"
  proof (cases "sql_first (owned_by iid (inf_user_ref i)) (infringements d)")
    case None
    then have "\<not> owned_by iid (inf_user_ref i) i" using i(1) unfolding sql_first_None_iff by blast
    with own [OF i(1)] show ?thesis by simp
  next
    case (Some k)
    with sql_first_SomeD [OF Some] own [of k] show ?thesis by simp
  qed
  then obtain d' where d': "record_feedback iid (inf_user_ref i) signal d = Inr (Some st, d')"
    "infringements d' = sql_update (owned_by iid (inf_user_ref i)) (\<lambda>i. i\<lparr>inf_status := st\<rparr>) (infringements d)"
    using assms(4) by (simp add: record_feedback_def Let_def)
  have "hit_of iid d' = map_option (\<lambda>r. if owned_by iid (inf_user_ref i) r then r\<lparr>inf_status := st\<rparr> else r) (hit_of iid d)"
    unfolding hit_of_def d'(2) by (rule sql_first_update) simp
  then have "hit_of iid d' = Some (i\<lparr>inf_status := st\<rparr>)" using assms(2) i(2) by (simp add: owned_by_def)
  with listed d'(1) show ?thesis by blast
qed

section \<open>The subject changes their mind\<close>

definition answers :: "uuid \<Rightarrow> user_ref \<Rightarrow> infringement \<Rightarrow> 'a db_scheme \<Rightarrow> bool" where
  "answers iid user i d \<longleftrightarrow>
     tables_ok d \<and> hit_of iid d = Some i \<and> inf_user_ref i = user \<and> url_row_of i d \<noteq> None"

lemma answers_owned: "answers iid user i d \<Longrightarrow> sql_first (owned_by iid user) (infringements d) = Some i"
proof -
  assume a: "answers iid user i d"
  have "distinct (map infringement_id is) \<Longrightarrow> i \<in> set is \<Longrightarrow> infringement_id i = iid \<Longrightarrow> inf_user_ref i = user \<Longrightarrow>
      sql_first (owned_by iid user) is = Some i" for "is"
    by (induction "is") (auto simp: owned_by_def image_iff)
  with a show ?thesis by (auto simp: answers_def tables_ok_def dest: hit_ofD)
qed

text \<open>An answer that differs from the last one is written, and the subject may answer again.\<close>

lemma subject_answer:
  assumes a: "answers iid user i d"
    and open_i: "undecided (hit_view_of i) \<or>
      confirm_decided_by i = Some SUBJECT \<and> (confirm_state i = Confirmed \<or> confirm_state i = Rejected) \<and>
      confirm_state i \<noteq> s"
    and s: "s = Confirmed \<or> s = Rejected"
  shows "\<exists>r d'. subject_decide iid user (confirm_text s) d = Inr (Some r, d') \<and>
    so_outcome r = ''decided'' \<and> answers iid user (subject_row_decided (db_now d) s i) d' \<and> db_now d' = db_now d"
proof -
  let ?f = "subject_row_decided (db_now d) s"
  let ?d1 = "d\<lparr>infringements := sql_update (\<lambda>i. infringement_id i = iid) ?f (infringements d)\<rparr>"
  have ok: "tables_ok d" and hit: "hit_of iid d = Some i" using a by (simp_all add: answers_def)
  have id: "infringement_id (?f j) = infringement_id j" for j by (simp add: subject_row_decided_def)
  have only: "j = i" if "j \<in> set (infringements d)" "infringement_id j = iid" for j
    using that ok hit distinct_hit [of "infringements d" j] by (simp add: tables_ok_def hit_of_def)
  have nd: "confirm_state i \<noteq> Duplicate" "confirm_state i \<noteq> Quarantined"
    using open_i by (auto simp: undecided_def hit_view_of_def)
  then have chk: "confirmed_needs_human (?f i) \<and> duplicate_needs_source (?f i)"
    using tables_ok_hit(3) [OF ok hit] s
    by (auto simp: subject_row_decided_def confirmed_needs_human_def duplicate_needs_source_def)
  have upd: "update_infringements (\<lambda>i. infringement_id i = iid) ?f d = Inr ?d1"
    using chk only by (auto simp: update_infringements_Inr list_all_iff)
  have hit1: "hit_of iid ?d1 = Some (?f i)"
    using hit by (simp add: hit_of_update [OF id] id) (metis hit_ofD hit)
  have ok1: "tables_ok ?d1" by (rule tables_ok_update [OF ok id]) (use chk only in blast)
  obtain c where c: "url_row_of i d = Some c" using a by (auto simp: answers_def)
  obtain r d' where wr: "subject_write iid user (confirm_text s) (cu_source_domain c) d = Inr (Some r, d')"
    and r: "so_outcome r = ''decided''"
    and d': "infringements d' = infringements ?d1" "content_urls d' = content_urls d" "db_now d' = db_now d"
      "db_fresh d' = db_fresh d"
      "review_tasks d' = sql_update (subject_may_set iid) (decided_task (db_now d) (confirm_text s) SUBJECT) (review_tasks d)"
    using upd hit1 s
    by (auto simp: subject_write_def hit_of_def Let_def insert_audit_def)
  have "subject_decide iid user (confirm_text s) d = subject_write iid user (confirm_text s) (cu_source_domain c) d"
    using answers_owned [OF a] c nd open_i s
    by (auto simp: subject_decide_def undecided_def hit_view_of_def)
  moreover have "tables_ok d'"
  proof -
    have "tables_ok (?d1\<lparr>review_tasks := review_tasks d'\<rparr>)" unfolding d'(5)
      using tables_ok_update_tasks [OF ok1, of "decided_task (db_now d) (confirm_text s) SUBJECT" "subject_may_set iid"]
      by (simp add: decided_task_def)
    then show ?thesis using d' by (simp add: tables_ok_def)
  qed
  moreover have "hit_of iid d' = Some (?f i)" using hit1 d'(1) by (simp add: hit_of_def)
  moreover have "url_row_of (?f i) d' \<noteq> None" using c d'(2) by (simp add: url_row_of_def subject_row_decided_def)
  ultimately show ?thesis using wr r d' a
    by (auto simp: answers_def subject_row_decided_def)
qed

text \<open>
  C37. A subject who rejects a hit and then confirms it does not end where a subject who confirms it
  at once does: the rejection overwrites whatever the feedback lane had set, and taking it back
  leaves \<^verbatim>\<open>new\<close>, so an \<^verbatim>\<open>authorised\<close>, \<^verbatim>\<open>acknowledged\<close> or \<^verbatim>\<open>user_resolved\<close> status
  is lost.
\<close>

theorem subject_reversal_loses_status:
  assumes "answers iid user i d" "undecided (hit_view_of i)"
    and "inf_status i = Authorised \<or> inf_status i = Acknowledged \<or> inf_status i = User_resolved"
  shows "\<exists>r1 d1 r2 d2 r3 d3 i1 i3.
    subject_decide iid user ''confirmed'' d = Inr (Some r1, d1) \<and> hit_of iid d1 = Some i1 \<and>
    subject_decide iid user ''rejected'' d = Inr (Some r2, d2) \<and>
    subject_decide iid user ''confirmed'' d2 = Inr (Some r3, d3) \<and> hit_of iid d3 = Some i3 \<and>
    confirm_state i1 = Confirmed \<and> confirm_state i3 = Confirmed \<and>
    inf_status i1 = inf_status i \<and> inf_status i3 = Status_new"
proof -
  from subject_answer [OF assms(1), of Confirmed] assms(2) obtain r1 d1
    where 1: "subject_decide iid user ''confirmed'' d = Inr (Some r1, d1)"
      "answers iid user (subject_row_decided (db_now d) Confirmed i) d1" by auto
  from subject_answer [OF assms(1), of Rejected] assms(2) obtain r2 d2
    where 2: "subject_decide iid user ''rejected'' d = Inr (Some r2, d2)"
      "answers iid user (subject_row_decided (db_now d) Rejected i) d2" by auto
  from subject_answer [OF 2(2), of Confirmed] obtain r3 d3
    where 3: "subject_decide iid user ''confirmed'' d2 = Inr (Some r3, d3)"
      "answers iid user (subject_row_decided (db_now d2) Confirmed (subject_row_decided (db_now d) Rejected i)) d3"
    by (auto simp: subject_row_decided_def)
  show ?thesis using 1 2(1) 3 assms(3)
    by (auto simp: answers_def subject_row_decided_def)
qed

section \<open>A skip after a duplicate\<close>

text \<open>
  C36. A confirm message that is skipped for a hit already marked as a duplicate puts the hit back
  into the review queue, as a task nobody can settle: confirming or rejecting it violates the CHECK
  that ties a source to the duplicate state, and the subject does not see the hit.
\<close>

theorem skipped_after_duplicate_blocks_queue:
  assumes "tables_ok d" "hit_of iid d = Some i" "confirm_state i = Duplicate" "task_of iid d = None"
    and "decision = ''confirmed'' \<or> decision = ''rejected''"
  shows "\<exists>t. task_of iid (record_skipped iid reason detail d) = Some t \<and> task_status t = Pending \<and>
    decide_task (task_id t) decision who override (record_skipped iid reason detail d) =
      Inl (CheckViolation ''infringements_duplicate_needs_source'') \<and>
    subject_decide iid user decision (record_skipped iid reason detail d) =
      Inr (None, record_skipped iid reason detail d)"
proof -
  let ?d = "record_skipped iid reason detail d"
  have ok: "tables_ok ?d" using record_skipped_lawful [of "{}" d iid reason detail] assms(1) by (simp add: lawful_def)
  obtain t where t: "task_of iid ?d = Some t" "task_status t = Pending"
    using assms(2,4) by (simp add: record_skipped_def task_of_upsert)
  have infs: "infringements ?d = infringements d" using assms(2) by (simp add: record_skipped_def)
  have iid: "task_infringement_id t = iid" "t \<in> set (review_tasks ?d)"
    using t(1) by (auto simp: task_of_def dest: sql_first_SomeD)
  have first: "sql_first (\<lambda>u. task_id u = task_id t \<and> task_status u = Pending) (review_tasks ?d) = Some t"
  proof -
    have "distinct (map task_id ts) \<Longrightarrow> t \<in> set ts \<Longrightarrow>
        sql_first (\<lambda>u. task_id u = task_id t \<and> task_status u = Pending) ts = Some t" for ts
      using t(2) by (induction ts) (auto simp: image_iff)
    with ok iid(2) show ?thesis by (simp add: tables_ok_def)
  qed
  have i: "i \<in> set (infringements d)" "infringement_id i = iid" using assms(2) by (auto dest: hit_ofD)
  have src: "duplicate_of i \<noteq> None"
    using tables_ok_hit(3) [OF assms(1,2)] assms(3) by (simp add: duplicate_needs_source_def)
  have fails: "update_infringements (\<lambda>i. infringement_id i = iid) (decide_row now s who override) d1 =
      Inl (CheckViolation ''infringements_duplicate_needs_source'')"
    if "infringements d1 = infringements d" "s \<noteq> Duplicate" for now s and d1 :: "'a db_scheme"
    using that i src
    by (auto simp: update_infringements_def Let_def list_all_iff confirmed_needs_human_def duplicate_needs_source_def
        decide_row_def)
  have "decide_task (task_id t) decision who override ?d =
      Inl (CheckViolation ''infringements_duplicate_needs_source'')"
    using assms(5) by (auto simp: decide_task_def first iid(1) infs fails Let_def)
  moreover have "subject_decide iid user decision ?d = Inr (None, ?d)"
  proof (cases "sql_first (owned_by iid user) (infringements d)")
    case (Some k)
    then have "k \<in> set (infringements d)" "infringement_id k = iid"
      by (auto simp: owned_by_def dest: sql_first_SomeD)
    with assms(1,2) distinct_hit [of "infringements d" k] have "k = i"
      by (simp add: tables_ok_def hit_of_def)
    with Some assms(3) show ?thesis by (simp add: subject_decide_def infs split: option.split)
  qed (simp add: subject_decide_def infs)
  ultimately show ?thesis using t by blast
qed

section \<open>One hit, end to end\<close>

lemmas demo_defs = one_hit_db_def record_defs one_run_db_def empty_db_def hive_row_def
  numeric_6_4_three_quarters hit_of_def task_of_def Let_def

lemma one_hit:
  obtains i where "hit_of 10 one_hit_db = Some i" "hit_view_of i = fresh_hit" "open_to_machine i"
    "inf_user_ref i = 7" "url_row_of i one_hit_db \<noteq> None" "duplicate_of i = None" "infringement_id i = 10"
    "infringements one_hit_db = [i]" "review_tasks one_hit_db = []"
proof -
  have "\<exists>i. hit_of 10 one_hit_db = Some i \<and> hit_view_of i = fresh_hit \<and> open_to_machine i \<and>
    inf_user_ref i = 7 \<and> url_row_of i one_hit_db \<noteq> None \<and> duplicate_of i = None \<and> infringement_id i = 10 \<and>
    infringements one_hit_db = [i] \<and> review_tasks one_hit_db = []"
    by (simp add: demo_defs hit_view_of_def fresh_hit_def open_to_machine_def url_row_of_def)
  with that show thesis by blast
qed

lemma one_hit_consistent: "sane_operators ops \<Longrightarrow> hits_consistent ops one_hit_db"
  using hit_steps_keep(1) [OF _ one_run_consistent] find_step by blast

definition ann_ops :: "string set" where
  "ann_ops = {''ann''}"

lemma ann_sane: "sane_operators ann_ops"
  by (simp add: sane_operators_def SUBJECT_def AUTO_CONFIRM_DECIDED_BY_def ann_ops_def)

lemmas hit_write_defs = record_auto_confirmed_def record_triage_def record_quarantine_def record_duplicate_def
  numeric_5_2_def guarded_update_def update_infringements_def auto_confirmed_def triaged_def
  confirmed_needs_human_def duplicate_needs_source_def open_to_machine_def Let_def
  service_audit_def insert_audit_def hit_of_def task_of_def sql_update_def sql_delete_def upsert_task_def
  sql_upsert_def

lemma one_hit_auto:
  "\<exists>d i. record_auto_confirmed 10 None None None [] one_hit_db = Inr d \<and> hit_of 10 d = Some i \<and>
     confirm_state i = Confirmed \<and> confirm_decided_by i = Some AUTO_CONFIRM_DECIDED_BY"
  by (rule one_hit) (simp add: hit_write_defs)

lemma one_hit_quarantined:
  "\<exists>d i. record_quarantine 10 None [] None one_hit_db = Inr d \<and> hit_of 10 d = Some i \<and>
     confirm_state i = Quarantined"
  by (rule one_hit) (simp add: hit_write_defs)

lemma one_hit_duplicate:
  "\<exists>d i. record_duplicate 10 10 0 one_hit_db = Inr d \<and> hit_of 10 d = Some i \<and>
     confirm_state i = Duplicate \<and> task_of 10 d = None"
  by (rule one_hit) (simp add: hit_write_defs)

lemma one_hit_operator:
  "\<exists>d1 d2 i tid r. record_triage 10 Benign_copy None None None [] one_hit_db = Inr d1 \<and>
     decide_task tid ''confirmed'' ''ann'' None d1 = Inr (r, d2) \<and> hit_of 10 d2 = Some i \<and>
     confirm_state i = Confirmed \<and> confirm_decided_by i = Some ''ann''"
proof (rule one_hit)
  fix i
  assume i: "open_to_machine i" "infringement_id i = 10" "infringements one_hit_db = [i]" "duplicate_of i = None"
    "review_tasks one_hit_db = []"
  let ?j = "triaged Benign_copy None None None i"
  let ?t = "\<lparr>task_id = db_fresh one_hit_db, task_infringement_id = 10, task_user_ref = inf_user_ref i,
      task_severity = Benign_copy, task_triage = JObj [], task_status = Pending, task_decision = None,
      task_decided_by = None, task_decided_at = None, task_created_at = db_now one_hit_db\<rparr>"
  obtain d1 where d1: "record_triage 10 Benign_copy None None None [] one_hit_db = Inr d1"
    "infringements d1 = [?j]" "review_tasks d1 = [?t]"
    using i by (simp add: hit_write_defs)
  moreover have "\<exists>r d2 k. decide_task (db_fresh one_hit_db) ''confirmed'' ''ann'' None d1 = Inr (r, d2) \<and>
      hit_of 10 d2 = Some k \<and> confirm_state k = Confirmed \<and> confirm_decided_by k = Some ''ann''"
    using d1(2,3) i
    by (simp add: decide_task_def Let_def update_infringements_def decide_row_def confirmed_needs_human_def
        duplicate_needs_source_def triaged_def sql_update_def hit_of_def operator_audit_def insert_audit_def)
  ultimately show ?thesis by blast
qed

theorem hit_lifecycle_invariant_witness:
  "\<exists>d i. record_auto_confirmed 10 None None None [] one_hit_db = Inr d \<and> hit_of 10 d = Some i \<and>
     confirm_state i = Confirmed \<and> inf_severity i = Some Ncii_suspected"
proof -
  obtain d i where d: "record_auto_confirmed 10 None None None [] one_hit_db = Inr d" "hit_of 10 d = Some i"
    "confirm_decided_by i = Some AUTO_CONFIRM_DECIDED_BY" using one_hit_auto by blast
  then have "hit_steps ann_ops ascii_lib one_hit_db d" by (blast intro: hit_step.auto_confirm)
  from hit_lifecycle_invariant [OF this one_hit_consistent [OF ann_sane] ann_sane d(2)] d show ?thesis by blast
qed

theorem operator_decision_is_final_witness:
  "\<exists>d i'. hit_steps ann_ops ascii_lib one_hit_db d \<and> hit_of 10 d = Some i' \<and>
     confirm_state i' = Confirmed \<and> confirm_decided_by i' = Some ''ann''"
proof -
  obtain d1 d2 i tid r where d: "record_triage 10 Benign_copy None None None [] one_hit_db = Inr d1"
    "decide_task tid ''confirmed'' ''ann'' None d1 = Inr (r, d2)" "hit_of 10 d2 = Some i"
    "confirm_state i = Confirmed" "confirm_decided_by i = Some ''ann''" using one_hit_operator by blast
  let ?d3 = "record_skipped 10 ''r'' ''d'' d2"
  from d(1) have "hit_step ann_ops ascii_lib one_hit_db d1" by (rule hit_step.triage)
  moreover from d(2) have "hit_step ann_ops ascii_lib d1 d2" by (rule hit_step.operator [rotated]) (simp add: ann_ops_def)
  ultimately have steps: "hit_steps ann_ops ascii_lib one_hit_db d2" by (meson rtranclp.simps)
  have more: "hit_steps ann_ops ascii_lib d2 ?d3" by (blast intro: hit_step.skipped)
  from operator_decision_is_final [OF hit_steps_keep(1) [OF steps one_hit_consistent [OF ann_sane] ann_sane]
      ann_sane d(3,5) _ more] d(4)
  have "\<exists>i'. hit_of 10 ?d3 = Some i' \<and> confirm_state i' = Confirmed \<and> confirm_decided_by i' = Some ''ann''"
    by (auto simp: ann_ops_def)
  with steps more show ?thesis by (meson rtranclp_trans)
qed


theorem quarantined_hit_still_listed_witness:
  "\<exists>d. record_quarantine 10 None [] None one_hit_db = Inr d \<and>
     10 \<in> ir_infringement_id ` set (list_infringements 7 None d)"
proof (rule one_hit)
  fix i
  assume i: "hit_of 10 one_hit_db = Some i" "open_to_machine i" "inf_user_ref i = 7" "infringement_id i = 10"
    "infringements one_hit_db = [i]" "duplicate_of i = None" "review_tasks one_hit_db = []"
  have ok: "hits_ok one_hit_db"
    using record_infringements_keeps_tables [OF one_run_hits_ok record_first] by blast
  have "\<exists>d j. record_quarantine 10 None [] None one_hit_db = Inr d \<and> infringements d = [j] \<and>
    confirm_state j = Quarantined \<and> inf_user_ref j = 7 \<and> infringement_id j = 10 \<and> inf_key j = inf_key i \<and>
    inf_band j = inf_band i \<and> band_reason j = band_reason i \<and>
    attestations d = attestations one_hit_db \<and> db_fresh one_hit_db \<le> db_fresh d"
    using i by (simp add: hit_write_defs inf_key_def)
  then obtain d j where d: "record_quarantine 10 None [] None one_hit_db = Inr d" "infringements d = [j]"
    "confirm_state j = Quarantined" "inf_user_ref j = 7" "infringement_id j = 10" "inf_key j = inf_key i"
    "inf_band j = inf_band i" "band_reason j = band_reason i"
    "attestations d = attestations one_hit_db" "db_fresh one_hit_db \<le> db_fresh d" by blast
  have "hits_ok d" using ok i(4,5) d(2-) by (simp add: hits_ok_def rolled_up_def bands_of_def)
  moreover have "hit_of 10 d = Some j" using d by (simp add: hit_of_def)
  ultimately have "10 \<in> ir_infringement_id ` set (list_infringements (inf_user_ref j) None d)"
    using quarantined_hit_still_listed [of d 10 j "''not_me''"] d(3) by (auto simp: status_for_def)
  with d(1,4) show ?thesis by auto
qed

theorem skipped_after_duplicate_blocks_queue_witness:
  "\<exists>d t. record_duplicate 10 10 0 one_hit_db = Inr d \<and>
     task_of 10 (record_skipped 10 ''r'' ''d'' d) = Some t \<and> task_status t = Pending"
proof -
  obtain d i where d: "record_duplicate 10 10 0 one_hit_db = Inr d" "hit_of 10 d = Some i"
    "confirm_state i = Duplicate" "task_of 10 d = None" using one_hit_duplicate by blast
  then have "tables_ok d"
    using record_duplicate_lawful [OF d(1), of ann_ops] one_hit_consistent [OF ann_sane]
    by (simp add: lawful_def hits_consistent_def)
  from skipped_after_duplicate_blocks_queue [OF this d(2-4), of "''confirmed''"] d(1) show ?thesis by blast
qed

lemma one_hit_authorised:
  "\<exists>d i. record_feedback 10 7 ''authorised'' one_hit_db = Inr (Some Authorised, d) \<and>
     answers 10 7 i d \<and> undecided (hit_view_of i) \<and> inf_status i = Authorised"
proof (rule one_hit)
  fix i
  assume i: "hit_view_of i = fresh_hit" "inf_user_ref i = 7" "infringement_id i = 10"
    "infringements one_hit_db = [i]" "url_row_of i one_hit_db \<noteq> None"
  obtain d where d: "record_feedback 10 7 ''authorised'' one_hit_db = Inr (Some Authorised, d)"
    "infringements d = [i\<lparr>inf_status := Authorised\<rparr>]" "content_urls d = content_urls one_hit_db"
    using i by (simp add: record_feedback_def status_for_def owned_by_def sql_update_def Let_def)
  moreover have "tables_ok d"
    using record_feedback_lawful [OF d(1), of ann_ops] one_hit_consistent [OF ann_sane]
    by (simp add: lawful_def hits_consistent_def)
  ultimately show ?thesis using i
    by (intro exI [of _ d] exI [of _ "i\<lparr>inf_status := Authorised\<rparr>"])
      (simp add: answers_def hit_of_def url_row_of_def undecided_def hit_view_of_def fresh_hit_def)
qed

theorem subject_reversal_loses_status_witness:
  "\<exists>d r2 d2 r3 d3 i3. record_feedback 10 7 ''authorised'' one_hit_db = Inr (Some Authorised, d) \<and>
     subject_decide 10 7 ''rejected'' d = Inr (Some r2, d2) \<and>
     subject_decide 10 7 ''confirmed'' d2 = Inr (Some r3, d3) \<and>
     hit_of 10 d3 = Some i3 \<and> inf_status i3 = Status_new"
proof -
  obtain d i where d: "record_feedback 10 7 ''authorised'' one_hit_db = Inr (Some Authorised, d)"
    "answers 10 7 i d" "undecided (hit_view_of i)" "inf_status i = Authorised"
    using one_hit_authorised by blast
  from subject_reversal_loses_status [OF d(2,3)] d(1,4) show ?thesis by blast
qed

end
