(* ===== verification/Confirm_Flow.thy ===== *)
theory Confirm_Flow
  imports Confirm_Worker Hit_Safety
begin

text \<open>
  What one message of the confirm queue does, whatever the image, the provider and the stores
  answer: proved once against the two protocols in the locale \<open>confirm_stores\<close>, then for the
  Postgres stores.
\<close>

section \<open>The writes of the confirm store\<close>

inductive confirm_write :: "'s confirm_store \<Rightarrow> uuid \<Rightarrow> 's \<Rightarrow> 's \<Rightarrow> bool" for cs iid where
  duplicate: "cs_record_duplicate cs iid source h s = Inr s' \<Longrightarrow> confirm_write cs iid s s'"
| quarantine: "cs_record_quarantine cs iid ph labels age s = Inr s' \<Longrightarrow> confirm_write cs iid s s'"
| triage: "cs_record_triage cs iid sev ph score ls trace s = Inr s' \<Longrightarrow> confirm_write cs iid s s'"
| auto_confirm: "cs_record_auto_confirmed cs iid ph score ls trace s = Inr s' \<Longrightarrow> confirm_write cs iid s s'"
| unfetchable: "cs_record_unfetchable cs iid detail s = Inr s' \<Longrightarrow> confirm_write cs iid s s'"
| skipped: "confirm_write cs iid s (cs_record_skipped cs iid reason detail s)"

inductive_cases confirm_writeE: "confirm_write cs iid s s'"

lemma record_verdict_write: "record_verdict_of deps cs iid url h best box m s = Inr s' \<Longrightarrow> confirm_write cs iid s s'"
  by (auto simp: record_verdict_of_def Let_def split: if_splits intro: confirm_write.intros)

lemma done_or_retry_write:
  assumes "done_or_retry r s = (b, s')" "\<And>t. r = Inr t \<Longrightarrow> confirm_write cs iid s t"
  shows "s' = s \<or> confirm_write cs iid s s'"
  using assms by (auto simp: done_or_retry_def split: sum.splits)

section \<open>What the worker needs of its stores\<close>

text \<open>
  The control store leaves alone whatever the view shows (the hits and their tasks); the confirm
  store leaves alone the calls, the spend and the breakers.
\<close>

locale confirm_stores = control_store store spend calls breaker
  for store :: "'s provider_control"
    and spend :: "provider_id \<Rightarrow> int \<Rightarrow> 's \<Rightarrow> money"
    and calls :: "'s \<Rightarrow> provider_call list"
    and breaker :: "provider_id \<Rightarrow> 's \<Rightarrow> (breaker_state \<times> int) option" +
  fixes confirm :: "'s confirm_store"
    and view :: "'s \<Rightarrow> 'v"
  assumes view_runtimes: "ctl_runtimes store s = (m, s') \<Longrightarrow> view s' = view s"
    and view_claim: "ctl_claim_half_open_probe store pid s = (b, s') \<Longrightarrow> view s' = view s"
    and view_skip: "ctl_record_skip store run pid reason detail s = Inr s' \<Longrightarrow> view s' = view s"
    and view_outcome: "ctl_record_outcome store run result cost day s = Inr s' \<Longrightarrow> view s' = view s"
    and write_frame: "confirm_write confirm iid s s' \<Longrightarrow>
      calls s' = calls s \<and> spend p day s' = spend p day s \<and> breaker p s' = breaker p s"
begin

text \<open>The part of a message that speaks to the provider: at most one call row, of this provider.\<close>

definition control_phase :: "uuid option \<Rightarrow> int \<Rightarrow> 's \<Rightarrow> 's \<Rightarrow> bool" where
  "control_phase run day s s' \<longleftrightarrow>
     view s' = view s \<and>
     (\<forall>p. p \<noteq> REKOGNITION_CONFIRM_ID \<longrightarrow> breaker p s' = breaker p s) \<and>
     (\<forall>p d. p \<noteq> REKOGNITION_CONFIRM_ID \<or> d \<noteq> day \<longrightarrow> spend p d s' = spend p d s) \<and>
     (calls s' = calls s \<and> spend REKOGNITION_CONFIRM_ID day s' = spend REKOGNITION_CONFIRM_ID day s \<or>
      (\<exists>c. calls s' = calls s @ [c] \<and> pc_provider_id c = REKOGNITION_CONFIRM_ID \<and> pc_run_id c = run \<and>
         run \<noteq> None \<and>
         spend REKOGNITION_CONFIRM_ID day s' = spend REKOGNITION_CONFIRM_ID day s +
           (case pc_cost_usd c of None \<Rightarrow> 0 | Some m \<Rightarrow> m)))"

lemma control_phase_refl: "control_phase run day s s"
  by (simp add: control_phase_def)

lemma gate_phase:
  assumes "ctl_runtimes store s = (rts, s1)"
    and "decide store REKOGNITION_CONFIRM_ID rt moment s1 = (dec, s2)"
  shows "view s2 = view s" "calls s2 = calls s" "spend p d s2 = spend p d s"
    "p \<noteq> REKOGNITION_CONFIRM_ID \<Longrightarrow> breaker p s2 = breaker p s"
proof -
  have "view s2 = view s1"
  proof (cases dec)
    case (Skip q reason detail)
    with assms(2) skip_changes_nothing have "s2 = s1" by blast
    then show ?thesis by simp
  next
    case (Dispatch q cost probe)
    with assms(2) dispatch_requires
    have "if probe then ctl_claim_half_open_probe store REKOGNITION_CONFIRM_ID s1 = (True, s2) else s2 = s1"
      by blast
    then show ?thesis using view_claim by (auto split: if_splits)
  qed
  with assms view_runtimes runtimes_only_reads decide_frame
  show "view s2 = view s" "calls s2 = calls s" "spend p d s2 = spend p d s"
    "p \<noteq> REKOGNITION_CONFIRM_ID \<Longrightarrow> breaker p s2 = breaker p s" by metis+
qed

lemma skip_phase:
  assumes "ctl_runtimes store s = (rts, s1)"
    and "decide store REKOGNITION_CONFIRM_ID rt moment s1 = (dec, s2)"
    and "ctl_record_skip store (Some rid) REKOGNITION_CONFIRM_ID reason detail s2 = Inr s3"
  shows "control_phase (Some rid) day s s3"
proof -
  obtain c where c: "calls s3 = calls s2 @ [c]" "pc_provider_id c = REKOGNITION_CONFIRM_ID"
    "pc_run_id c = Some rid" "pc_cost_usd c = None"
    using skip_recorded [OF assms(3)] by blast
  have "spend p d s3 = spend p d s2" "breaker p s3 = breaker p s2" for p d
    using skip_recorded [OF assms(3)] by blast+
  with c gate_phase [OF assms(1,2)] view_skip [OF assms(3)] show ?thesis
    by (auto simp: control_phase_def)
qed

lemma outcome_phase:
  assumes "ctl_runtimes store s = (rts, s1)"
    and "decide store REKOGNITION_CONFIRM_ID rt moment s1 = (dec, s2)"
    and "record_outcome_guarded store run result cost day s2 = Inr s3"
    and "res_provider_id result = REKOGNITION_CONFIRM_ID"
  shows "control_phase run day s s3"
proof (cases run)
  case None
  with assms(3) gate_phase [OF assms(1,2)] show ?thesis
    by (auto simp: control_phase_def record_outcome_guarded_def)
next
  case (Some rid)
  with assms(3) have rec: "ctl_record_outcome store (Some rid) result cost day s2 = Inr s3"
    by (simp add: record_outcome_guarded_def)
  obtain c where c: "calls s3 = calls s2 @ [c]" "pc_provider_id c = REKOGNITION_CONFIRM_ID"
    "pc_run_id c = Some rid" "pc_cost_usd c = cost"
    using outcome_recorded [OF rec] assms(4) by auto
  have "spend p d s3 = spend p d s2 + (if p = REKOGNITION_CONFIRM_ID \<and> d = day
      then (case cost of None \<Rightarrow> 0 | Some c \<Rightarrow> c) else 0)"
    "p \<noteq> REKOGNITION_CONFIRM_ID \<Longrightarrow> breaker p s3 = breaker p s2" for p d
    using outcome_recorded [OF rec] assms(4) by auto
  with c Some gate_phase [OF assms(1,2)] view_outcome [OF rec] show ?thesis
    by (auto simp: control_phase_def)
qed

lemma gate_only_phase:
  assumes "ctl_runtimes store s = (rts, s1)"
    and "decide store REKOGNITION_CONFIRM_ID rt moment s1 = (dec, s2)"
  shows "control_phase run day s s2"
  using gate_phase [OF assms] by (auto simp: control_phase_def)

definition one_write_after :: "uuid option \<Rightarrow> int \<Rightarrow> uuid \<Rightarrow> 's \<Rightarrow> 's \<Rightarrow> bool" where
  "one_write_after run day iid s s' \<longleftrightarrow>
     (\<exists>s1. control_phase run day s s1 \<and> (s' = s1 \<or> confirm_write confirm iid s1 s'))"

lemma phase_only: "control_phase run day s s' \<Longrightarrow> one_write_after run day iid s s'"
  by (auto simp: one_write_after_def)

lemma phase_then_write:
  assumes "control_phase run day s s1" "done_or_retry r s1 = (b, s')"
    and "\<And>t. r = Inr t \<Longrightarrow> confirm_write confirm iid s1 t"
  shows "one_write_after run day iid s s'"
  using assms(1) done_or_retry_write [OF assms(2,3)] by (auto simp: one_write_after_def)

lemma dispatch_bundle_shape:
  assumes "ctl_runtimes store s = (rts, s1)"
    and "decide store REKOGNITION_CONFIRM_ID rt moment s1 = (dec, s2)"
    and "dispatch_bundle deps confirm store moment ctx url h cost bytes s2 = (b, s')"
  shows "one_write_after (ctx_run_id ctx) (utc_spend_date moment) (ctx_infringement_id ctx) s s'"
proof -
  let ?day = "utc_spend_date moment"
  have phase: "control_phase (ctx_run_id ctx) ?day s s3"
    if "record_outcome_guarded store (ctx_run_id ctx) result cost ?day s2 = Inr s3"
      "res_provider_id result = REKOGNITION_CONFIRM_ID" for result s3
    using outcome_phase [OF assms(1,2) that] .
  have ids: "res_provider_id (failed_result l detail) = REKOGNITION_CONFIRM_ID"
    "res_provider_id (ok_result l n x m) = REKOGNITION_CONFIRM_ID" for l detail n x m
    by (simp_all add: failed_result_def ok_result_def)
  note gate = gate_only_phase [OF assms(1,2)]
  show ?thesis
  proof (cases "run_bundle deps (ctx_user_ref ctx) bytes")
    case (Inl e)
    with assms(3) have "s' = s2 \<or> (\<exists>detail. record_outcome_guarded store (ctx_run_id ctx)
        (failed_result (cd_latency_ms deps) detail) cost ?day s2 = Inr s')"
      by (cases e) (auto simp: dispatch_bundle_def split: sum.splits)
    then show ?thesis using phase [OF _ ids(1)] gate phase_only by blast
  next
    case (Inr r)
    obtain ranked attributed moderation where r: "r = (ranked, attributed, moderation)" by (cases r) auto
    define best where "best = best_match None attributed"
    let ?ok = "ok_result (cd_latency_ms deps) (length ranked) (map_option fst best) moderation"
    show ?thesis
    proof (cases "record_outcome_guarded store (ctx_run_id ctx) ?ok cost ?day s2")
      case (Inl e)
      with assms(3) Inr r have "s' = s2" by (auto simp: dispatch_bundle_def Let_def best_def)
      with phase_only [OF gate] show ?thesis by simp
    next
      case (Inr s3)
      with assms(3) \<open>run_bundle deps (ctx_user_ref ctx) bytes = Inr r\<close> r
      have "done_or_retry (record_verdict_of deps confirm (ctx_infringement_id ctx) url h (map_option fst best)
          (crop_bbox best ranked) moderation s3) s3 = (b, s')"
        by (simp add: dispatch_bundle_def Let_def best_def)
      from phase_then_write [OF phase [OF Inr ids(2)] this record_verdict_write] show ?thesis .
    qed
  qed
qed

lemma gate_and_dispatch_shape:
  assumes "gate_and_dispatch deps confirm store moment ctx url h bytes s = (b, s')"
  shows "one_write_after (ctx_run_id ctx) (utc_spend_date moment) (ctx_infringement_id ctx) s s'"
proof -
  let ?day = "utc_spend_date moment"
  obtain rts s1 where rts: "ctl_runtimes store s = (rts, s1)" by fastforce
  obtain dec s2 where dec: "decide store REKOGNITION_CONFIRM_ID (rts REKOGNITION_CONFIRM_ID) moment s1 = (dec, s2)"
    by fastforce
  note gate = gate_only_phase [OF rts dec]
  show ?thesis
  proof (cases dec)
    case (Skip q reason detail)
    show ?thesis
    proof (cases "ctx_run_id ctx")
      case None
      with assms rts dec Skip gate show ?thesis
        by (auto simp: gate_and_dispatch_def one_write_after_def intro: confirm_write.skipped)
    next
      case (Some rid)
      show ?thesis
      proof (cases "ctl_record_skip store (Some rid) REKOGNITION_CONFIRM_ID reason detail s2")
        case (Inl e)
        with assms rts dec Skip Some have "s' = s2" by (auto simp: gate_and_dispatch_def)
        with phase_only [OF gate] show ?thesis by simp
      next
        case (Inr s3)
        with assms rts dec Skip Some skip_phase [OF rts dec Inr] show ?thesis
          by (auto simp: gate_and_dispatch_def one_write_after_def intro: confirm_write.skipped)
      qed
    qed
  next
    case (Dispatch q cost probe)
    show ?thesis
    proof (cases "cd_to_rekognition_jpeg deps bytes")
      case None
      with assms rts dec Dispatch
      have "done_or_retry (cs_record_unfetchable confirm (ctx_infringement_id ctx) ''undecodable for rekognition'' s2) s2 = (b, s')"
        by (simp add: gate_and_dispatch_def)
      from phase_then_write [OF gate this confirm_write.unfetchable] show ?thesis .
    next
      case (Some rek)
      with assms rts dec Dispatch
      have "dispatch_bundle deps confirm store moment ctx url h cost rek s2 = (b, s')"
        by (simp add: gate_and_dispatch_def)
      from dispatch_bundle_shape [OF rts dec this] show ?thesis .
    qed
  qed
qed

lemma write_only: "done_or_retry r s = (b, s') \<Longrightarrow> (\<And>t. r = Inr t \<Longrightarrow> confirm_write confirm iid s t) \<Longrightarrow>
    one_write_after run day iid s s'"
  by (rule phase_then_write [OF control_phase_refl])

lemma assess_image_shape:
  assumes "assess_image deps confirm store moment ctx url s = (b, s')"
  shows "one_write_after (ctx_run_id ctx) (utc_spend_date moment) (ctx_infringement_id ctx) s s'"
proof -
  note unfetchable = write_only [OF _ confirm_write.unfetchable]
  show ?thesis
  proof (cases "cd_fetch deps url")
    case (Fetched bytes)
    show ?thesis
    proof (cases "dhash (cd_gray deps bytes)")
      case None
      with assms Fetched show ?thesis by (auto simp: assess_image_def intro: unfetchable)
    next
      case (Some h)
      show ?thesis
      proof (cases "if phash_degenerate h then None else find_duplicate h
          (cs_decided_phashes confirm (ctx_user_ref ctx) s) (cd_phash_hamming_max deps)")
        case None
        with assms Fetched Some have "gate_and_dispatch deps confirm store moment ctx url h bytes s = (b, s')"
          by (simp add: assess_image_def)
        then show ?thesis by (rule gate_and_dispatch_shape)
      next
        case (Some source)
        with assms Fetched \<open>dhash (cd_gray deps bytes) = Some h\<close>
        have "done_or_retry (cs_record_duplicate confirm (ctx_infringement_id ctx) source h s) s = (b, s')"
          by (simp add: assess_image_def)
        then show ?thesis by (rule write_only) (rule confirm_write.duplicate)
      qed
    qed
  qed (use assms in \<open>auto simp: assess_image_def intro: unfetchable\<close>)
qed

lemma confirm_message_shape:
  assumes "confirm_message body deps confirm store moment s = (b, s')"
  shows "s' = s \<or> (\<exists>p ctx. body = Some p \<and> event p = CONFIRM_REQUESTED_EVENT \<and>
    cs_load_context confirm (payload_id p) s = Some ctx \<and>
    ctx_confirm_state ctx \<in> {Unconfirmed, Machine_triaged} \<and>
    one_write_after (ctx_run_id ctx) (utc_spend_date moment) (ctx_infringement_id ctx) s s')"
proof (cases body)
  case (Some p)
  show ?thesis
  proof (cases "event p = CONFIRM_REQUESTED_EVENT \<and> (\<exists>ctx. cs_load_context confirm (payload_id p) s = Some ctx \<and>
      ctx_confirm_state ctx \<in> {Unconfirmed, Machine_triaged})")
    case True
    then obtain ctx where ctx: "event p = CONFIRM_REQUESTED_EVENT"
      "cs_load_context confirm (payload_id p) s = Some ctx"
      "ctx_confirm_state ctx \<in> {Unconfirmed, Machine_triaged}" by blast
    have "one_write_after (ctx_run_id ctx) (utc_spend_date moment) (ctx_infringement_id ctx) s s'"
    proof (cases "ctx_image_url ctx")
      case None
      with assms Some ctx have "done_or_retry (cs_record_unfetchable confirm (ctx_infringement_id ctx)
          ''no image_url recorded'' s) s = (b, s')" by (auto simp: confirm_message_def)
      then show ?thesis by (rule write_only) (rule confirm_write.unfetchable)
    next
      case (Some url)
      with assms \<open>body = Some p\<close> ctx have "assess_image deps confirm store moment ctx url s = (b, s')"
        by (auto simp: confirm_message_def)
      then show ?thesis by (rule assess_image_shape)
    qed
    with Some ctx show ?thesis by blast
  next
    case False
    with assms Some show ?thesis by (auto simp: confirm_message_def split: option.splits if_splits)
  qed
qed (use assms in \<open>simp add: confirm_message_def\<close>)

end

section \<open>The Postgres stores\<close>

definition hits_view :: "'a db_scheme \<Rightarrow> infringement list \<times> review_task list \<times> nat" where
  "hits_view d = (infringements d, review_tasks d, db_fresh d)"

text \<open>The rows of every other hit.\<close>

definition others :: "uuid \<Rightarrow> 'a db_scheme \<Rightarrow> infringement list \<times> review_task list" where
  "others iid d = (filter (\<lambda>i. infringement_id i \<noteq> iid) (infringements d),
     filter (\<lambda>t. task_infringement_id t \<noteq> iid) (review_tasks d))"

definition control_view ::
  "'a db_scheme \<Rightarrow> provider_call list \<times> daily_spend list \<times> provider_runtime list" where
  "control_view d = (provider_calls d, provider_spend d, providers d)"

lemma filter_sql_update:
  assumes "\<And>r. p r \<Longrightarrow> k r = x" "\<And>r. k (f r) = k r"
  shows "filter (\<lambda>r. k r \<noteq> x) (sql_update p f t) = filter (\<lambda>r. k r \<noteq> x) t"
  using assms by (induction t) auto

lemma guarded_update_others:
  assumes "guarded_update iid f d = Inr (u, d1)" "\<And>i. infringement_id (f i) = infringement_id i"
  shows "others iid d1 = others iid d" "control_view d1 = control_view d"
proof -
  from assms(1) have "d1 = d \<or> d1 = d\<lparr>infringements := sql_update
      (\<lambda>i. infringement_id i = iid \<and> open_to_machine i) f (infringements d)\<rparr>"
    by (auto simp: guarded_update_def update_infringements_Inr split: option.splits sum.splits)
  moreover have "filter (\<lambda>i. infringement_id i \<noteq> iid) (sql_update
      (\<lambda>i. infringement_id i = iid \<and> open_to_machine i) f is) = filter (\<lambda>i. infringement_id i \<noteq> iid) is" for "is"
    by (rule filter_sql_update) (simp_all add: assms(2))
  ultimately show "others iid d1 = others iid d" "control_view d1 = control_view d"
    by (auto simp: others_def control_view_def)
qed

lemma upsert_task_others:
  "others iid (upsert_task iid user sev triage status d) = others iid d"
  "control_view (upsert_task iid user sev triage status d) = control_view d"
proof -
  have "filter (\<lambda>t. task_infringement_id t \<noteq> iid)
      (sql_upsert (\<lambda>t. task_infringement_id t = iid) (merge_task new) new ts) =
      filter (\<lambda>t. task_infringement_id t \<noteq> iid) ts" if "task_infringement_id new = iid" for new ts
    using that by (simp add: sql_upsert_def filter_sql_update merge_task_def)
  then show "others iid (upsert_task iid user sev triage status d) = others iid d"
    "control_view (upsert_task iid user sev triage status d) = control_view d"
    by (simp_all add: upsert_task_def others_def control_view_def Let_def)
qed

lemma service_audit_others:
  "others iid (service_audit act user x md d) = others iid d"
  "control_view (service_audit act user x md d) = control_view d"
  by (simp_all add: service_audit_def insert_audit_def others_def control_view_def)

lemma duplicate_others:
  assumes "record_duplicate iid source h d = Inr d'"
  shows "others iid d' = others iid d \<and> control_view d' = control_view d"
proof -
  let ?f = "\<lambda>i::infringement. i\<lparr>confirm_state := Duplicate, duplicate_of := Some source, phash := Some h\<rparr>"
  from assms consider "d' = d" | user d1 where "guarded_update iid ?f d = Inr (Some user, d1)"
    "d' = d1\<lparr>review_tasks := sql_delete (\<lambda>t. task_infringement_id t = iid \<and> task_status t = Pending)
                   (review_tasks d1)\<rparr>"
    by (auto simp: record_duplicate_def split: sum.splits option.splits if_splits)
  then show ?thesis
  proof cases
    case 2
    have "filter (\<lambda>t. task_infringement_id t \<noteq> iid) (sql_delete (\<lambda>t. task_infringement_id t = iid \<and> task_status t = Pending) ts) =
        filter (\<lambda>t. task_infringement_id t \<noteq> iid) ts" for ts
      by (induction ts) (auto simp: sql_delete_def)
    with 2(2) have "others iid d' = others iid d1" "control_view d' = control_view d1"
      by (simp_all add: others_def control_view_def)
    with guarded_update_others [OF 2(1)] show ?thesis by simp
  qed simp
qed

lemma write_others:
  assumes "confirm_write pg_confirm iid d d'"
  shows "others iid d' = others iid d \<and> control_view d' = control_view d"
  using assms
proof (rule confirm_writeE)
  show "cs_record_duplicate pg_confirm iid source h d = Inr d' \<Longrightarrow> ?thesis" for source h
    using duplicate_others by (simp add: pg_confirm_def)
next
  show "cs_record_quarantine pg_confirm iid ph labels age d = Inr d' \<Longrightarrow> ?thesis" for ph labels age
    by (auto simp: pg_confirm_def record_quarantine_def upsert_task_others service_audit_others guarded_update_others
        split: sum.splits option.splits prod.splits)
next
  show "cs_record_triage pg_confirm iid sev ph score ls trace d = Inr d' \<Longrightarrow> ?thesis" for sev ph score ls trace
    by (auto simp: pg_confirm_def record_triage_def triaged_def upsert_task_others guarded_update_others
        split: sum.splits option.splits prod.splits)
next
  show "cs_record_auto_confirmed pg_confirm iid ph score ls trace d = Inr d' \<Longrightarrow> ?thesis" for ph score ls trace
    by (auto simp: pg_confirm_def record_auto_confirmed_def auto_confirmed_def upsert_task_others service_audit_others
        guarded_update_others split: sum.splits option.splits prod.splits)
next
  show "cs_record_unfetchable pg_confirm iid detail d = Inr d' \<Longrightarrow> ?thesis" for detail
    by (auto simp: pg_confirm_def record_unfetchable_def upsert_task_others guarded_update_others
        split: sum.splits option.splits prod.splits)
next
  show "d' = cs_record_skipped pg_confirm iid reason detail d \<Longrightarrow> ?thesis" for reason detail
    by (auto simp: pg_confirm_def record_skipped_def upsert_task_others split: option.splits)
qed

lemma write_is_hit_step:
  assumes "confirm_write pg_confirm iid d d'"
  shows "hit_step ops lib d d'"
  using assms by cases (auto simp: pg_confirm_def intro: hit_step.intros)

lemma control_keeps_hits:
  "runtimes cfg w = (m, w') \<Longrightarrow> hits_view w' = hits_view w"
  "claim_half_open_probe cfg pid w = (b, w') \<Longrightarrow> hits_view w' = hits_view w"
  "record_skip run pid reason detail intel w = Inr w' \<Longrightarrow> hits_view w' = hits_view w"
  "record_outcome cfg run result cost day intel w = Inr w' \<Longrightarrow> hits_view w' = hits_view w"
proof -
  show "runtimes cfg w = (m, w') \<Longrightarrow> hits_view w' = hits_view w"
    by (auto simp: runtimes_def hits_view_def split: option.splits if_splits)
  show "claim_half_open_probe cfg pid w = (b, w') \<Longrightarrow> hits_view w' = hits_view w"
    by (auto simp: claim_half_open_probe_def invalidate_def hits_view_def split: if_splits)
  show "record_skip run pid reason detail intel w = Inr w' \<Longrightarrow> hits_view w' = hits_view w"
    by (auto dest!: record_skip_providers simp: hits_view_def)
  show "record_outcome cfg run result cost day intel w = Inr w' \<Longrightarrow> hits_view w' = hits_view w"
    by (auto simp: record_outcome_def Let_def hits_view_def invalidate_def apply_breaker_def upsert_spend_def
        split: option.splits sum.splits dest!: insert_call_Inr)
qed

interpretation pgc: confirm_stores "pg_control cfg"
  "\<lambda>p day w. spend_or_zero (daily_spend p day w)" provider_calls breaker_of pg_confirm hits_view
proof unfold_locales
  fix s s' :: process and m pid b run reason detail result cost and day :: int
  show "ctl_runtimes (pg_control cfg) s = (m, s') \<Longrightarrow> hits_view s' = hits_view s"
    using control_keeps_hits(1) by (simp add: pg_control_def)
  show "ctl_claim_half_open_probe (pg_control cfg) pid s = (b, s') \<Longrightarrow> hits_view s' = hits_view s"
    using control_keeps_hits(2) by (simp add: pg_control_def)
  show "ctl_record_skip (pg_control cfg) run pid reason detail s = Inr s' \<Longrightarrow> hits_view s' = hits_view s"
    using control_keeps_hits(3) by (simp add: pg_control_def)
  show "ctl_record_outcome (pg_control cfg) run result cost day s = Inr s' \<Longrightarrow> hits_view s' = hits_view s"
    using control_keeps_hits(4) by (simp add: pg_control_def)
  fix iid p
  show "confirm_write pg_confirm iid s s' \<Longrightarrow> provider_calls s' = provider_calls s \<and>
      spend_or_zero (daily_spend p day s') = spend_or_zero (daily_spend p day s) \<and> breaker_of p s' = breaker_of p s"
    using write_others [of iid s s']
    by (simp add: control_view_def daily_spend_def breaker_of_def runtime_of_def)
qed

lemma load_context_id: "load_context iid d = Some ctx \<Longrightarrow> ctx_infringement_id ctx = iid"
  by (auto simp: load_context_def dest: hit_ofD)

lemma same_hits_lawful:
  assumes "hits_view d' = hits_view d"
  shows "lawful ops d d'"
  using assms by (intro lawful_frame) (simp_all add: hits_view_def)

text \<open>
  C4. One message of the confirm queue, whatever it says and whatever the provider and the image
  answer, concerns one hit and costs at most one call: every other hit and every other review task
  keeps its rows; the tables stay consistent and the hit only moves as its life cycle allows; the
  call log gains nothing or one row, of the confirm provider, whose cost is exactly what the day's
  spend grows by; no other provider's breaker or spend changes.
\<close>

theorem confirm_message_one_hit_one_call:
  assumes "confirm_message (Some p) deps pg_confirm (pg_control cfg) moment w = (b, w')"
  shows "others (payload_id p) w' = others (payload_id p) w \<and>
    (tables_ok w \<longrightarrow> tables_ok w' \<and> (\<forall>x. hit_moves ops (abs_hit x w) (abs_hit x w'))) \<and>
    (let spent = (\<lambda>v. spend_or_zero (daily_spend REKOGNITION_CONFIRM_ID (utc_spend_date moment) v)) in
      provider_calls w' = provider_calls w \<and> spent w' = spent w \<or>
      (\<exists>c. provider_calls w' = provider_calls w @ [c] \<and> pc_provider_id c = REKOGNITION_CONFIRM_ID \<and>
         spent w' = spent w + (case pc_cost_usd c of None \<Rightarrow> 0 | Some m \<Rightarrow> m))) \<and>
    (\<forall>q day. q \<noteq> REKOGNITION_CONFIRM_ID \<longrightarrow> breaker_of q w' = breaker_of q w \<and>
       spend_or_zero (daily_spend q day w') = spend_or_zero (daily_spend q day w))"
  (is "?rows \<and> ?law \<and> ?call \<and> ?rest")
proof -
  from pgc.confirm_message_shape [OF assms]
  consider "w' = w" | ctx where "load_context (payload_id p) w = Some ctx"
    "pgc.one_write_after (ctx_run_id ctx) (utc_spend_date moment) (ctx_infringement_id ctx) w w'"
    by (auto simp: pg_confirm_def)
  then show ?thesis
  proof cases
    case 1
    then show ?thesis by simp
  next
    case 2
    then obtain w1 where phase: "pgc.control_phase (ctx_run_id ctx) (utc_spend_date moment) w w1"
      and wr: "w' = w1 \<or> confirm_write pg_confirm (payload_id p) w1 w'"
      using load_context_id [OF 2(1)] unfolding pgc.one_write_after_def by auto
    have view: "hits_view w1 = hits_view w" using phase by (simp add: pgc.control_phase_def)
    have keep: "control_view w' = control_view w1" "others (payload_id p) w' = others (payload_id p) w1"
      using wr write_others by auto
    have "lawful ops w1 w'"
      using wr hit_step_lawful [OF write_is_hit_step [where lib = ascii_lib]] by auto
    then have law: "lawful ops w w'" using same_hits_lawful [OF view] lawful_trans by blast
    have same: "provider_calls w' = provider_calls w1" "daily_spend q day w' = daily_spend q day w1"
      "breaker_of q w' = breaker_of q w1" for q day
      using keep(1) by (simp_all add: control_view_def daily_spend_def breaker_of_def runtime_of_def)
    have ?rows using keep(2) view by (simp add: others_def hits_view_def)
    moreover have ?law using law by (simp add: lawful_def)
    moreover have ?call using phase by (auto simp: pgc.control_phase_def same Let_def)
    moreover have ?rest using phase by (auto simp: pgc.control_phase_def same)
    ultimately show ?thesis by blast
  qed
qed

section \<open>The verdict\<close>

text \<open>The message got as far as the Rekognition bundle: everything up to the dispatch went well.\<close>

definition bundle_reached ::
  "'i confirm_deps \<Rightarrow> control_cfg \<Rightarrow> datetime \<Rightarrow> outbox_payload \<Rightarrow> process \<Rightarrow> confirm_context \<Rightarrow> string
     \<Rightarrow> int \<Rightarrow> money option \<Rightarrow> bool \<Rightarrow> 'i \<Rightarrow> process \<Rightarrow> bool" where
  "bundle_reached deps cfg moment p w ctx url h cost probe rek w2 \<longleftrightarrow>
     event p = CONFIRM_REQUESTED_EVENT \<and> load_context (payload_id p) w = Some ctx \<and>
     ctx_confirm_state ctx \<in> {Unconfirmed, Machine_triaged} \<and> ctx_image_url ctx = Some url \<and>
     (case cd_fetch deps url of
        Fetched bytes \<Rightarrow>
          dhash (cd_gray deps bytes) = Some h \<and> cd_to_rekognition_jpeg deps bytes = Some rek
      | _ \<Rightarrow> False) \<and>
     (phash_degenerate h \<or>
      find_duplicate h (decided_phashes (ctx_user_ref ctx) w) (cd_phash_hamming_max deps) = None) \<and>
     (case runtimes cfg w of (rts, w1) \<Rightarrow>
        decide (pg_control cfg) REKOGNITION_CONFIRM_ID (rts REKOGNITION_CONFIRM_ID) moment w1 =
          (Dispatch REKOGNITION_CONFIRM_ID cost probe, w2))"

lemma reached_runs_bundle:
  assumes "bundle_reached deps cfg moment p w ctx url h cost probe rek w2"
  shows "confirm_message (Some p) deps pg_confirm (pg_control cfg) moment w =
    dispatch_bundle deps pg_confirm (pg_control cfg) moment ctx url h cost rek w2"
proof -
  obtain rts w1 where rts: "runtimes cfg w = (rts, w1)" by fastforce
  obtain bytes where bytes: "cd_fetch deps url = Fetched bytes"
    using assms by (auto simp: bundle_reached_def split: fetch_answer.splits)
  have "(if phash_degenerate h then None else find_duplicate h (decided_phashes (ctx_user_ref ctx) w)
      (cd_phash_hamming_max deps)) = None"
    using assms by (auto simp: bundle_reached_def)
  with assms rts bytes show ?thesis
    by (auto simp: bundle_reached_def confirm_message_def assess_image_def gate_and_dispatch_def
        pg_confirm_def pg_control_def Let_def)
qed

lemma reached_keeps_hits:
  assumes "bundle_reached deps cfg moment p w ctx url h cost probe rek w2"
  shows "hits_view w2 = hits_view w" "provider_calls w2 = provider_calls w"
proof -
  obtain rts w1 where rts: "runtimes cfg w = (rts, w1)" by fastforce
  with assms have "decide (pg_control cfg) REKOGNITION_CONFIRM_ID (rts REKOGNITION_CONFIRM_ID) moment w1 =
          (Dispatch REKOGNITION_CONFIRM_ID cost probe, w2)" by (simp add: bundle_reached_def)
  moreover have "ctl_runtimes (pg_control cfg) w = (rts, w1)" using rts by (simp add: pg_control_def)
  ultimately show "hits_view w2 = hits_view w" "provider_calls w2 = provider_calls w"
    using pgc.gate_phase by blast+
qed

lemma guarded_hit:
  assumes "tables_ok d" "hit_of iid d = Some i" "open_to_machine i"
    and "guarded_update iid f d = Inr (u, d1)" "\<And>i. infringement_id (f i) = infringement_id i"
  shows "u = Some (inf_user_ref i)" "hit_of iid d1 = Some (f i)"
proof -
  have "i \<in> set (infringements d)" "infringement_id i = iid" using hit_ofD [OF assms(2)] by simp_all
  with assms(3) have "list_ex (\<lambda>i. infringement_id i = iid \<and> open_to_machine i) (infringements d)"
    by (auto simp: list_ex_iff)
  then have "sql_first (\<lambda>i. infringement_id i = iid \<and> open_to_machine i) (infringements d) \<noteq> None"
    by (simp add: list_ex_sql_first)
  with assms(4) obtain user where "u = Some user"
    by (auto simp: guarded_update_def split: option.splits sum.splits)
  with guarded_update_Some [OF assms(1) _ assms(5), of iid user d1] assms(2,4)
  show "u = Some (inf_user_ref i)" "hit_of iid d1 = Some (f i)" by (metis option.inject)+
qed

text \<open>The row that the decision table asks for.\<close>

definition verdict_row ::
  "'i confirm_deps \<Rightarrow> int \<Rightarrow> rat option \<Rightarrow> moderation_signal \<Rightarrow> infringement \<Rightarrow> bool" where
  "verdict_row deps h score m i \<longleftrightarrow>
     phash i = Some h \<and> moderation_labels i = Some (labels_json (ms_labels m)) \<and>
     (if csam_quarantine (is_explicit (ms_labels m)) (ms_min_age_low m) (cd_csam_age_low_threshold deps)
      then confirm_state i = Quarantined
      else
        inf_severity i = Some (classify_severity (is_explicit (ms_labels m)) score (cd_face_match_threshold deps)) \<and>
        (if is_explicit (ms_labels m) \<and> (\<exists>s. score = Some s \<and> cd_face_match_threshold deps \<le> s)
         then confirm_state i = Confirmed \<and> confirm_decided_by i = Some AUTO_CONFIRM_DECIDED_BY
         else confirm_state i = Machine_triaged))"

lemma verdict_of_row:
  assumes ok: "tables_ok d" and hit: "hit_of iid d = Some i" "open_to_machine i"
    and rec: "record_verdict_of deps pg_confirm iid url h score box m d = Inr d'"
  shows "\<exists>i'. hit_of iid d' = Some i' \<and> verdict_row deps h score m i'"
proof -
  let ?explicit = "is_explicit (ms_labels m)"
  define sev where "sev = classify_severity ?explicit score (cd_face_match_threshold deps)"
  define trace where "trace = triage_payload url box score (ms_labels m) (phash_degenerate h)"
  have auto_sev: "sev = Ncii_suspected \<longleftrightarrow> ?explicit \<and> (\<exists>s. score = Some s \<and> cd_face_match_threshold deps \<le> s)"
    by (auto simp: sev_def classify_severity_def Let_def split: option.splits)
  consider (quarantine) "csam_quarantine ?explicit (ms_min_age_low m) (cd_csam_age_low_threshold deps)"
      "record_quarantine iid (Some h) (ms_labels m) (ms_min_age_low m) d = Inr d'"
    | (auto) "\<not> csam_quarantine ?explicit (ms_min_age_low m) (cd_csam_age_low_threshold deps)"
      "sev = Ncii_suspected" "record_auto_confirmed iid (Some h) score (Some (ms_labels m)) trace d = Inr d'"
    | (triage) "\<not> csam_quarantine ?explicit (ms_min_age_low m) (cd_csam_age_low_threshold deps)"
      "sev \<noteq> Ncii_suspected" "record_triage iid sev (Some h) score (Some (ms_labels m)) trace d = Inr d'"
    using rec by (auto simp: record_verdict_of_def Let_def pg_confirm_def sev_def trace_def AUTO_CONFIRM_SEVERITY_def
        split: if_splits)
  then show ?thesis
  proof cases
    case quarantine
    let ?f = "\<lambda>i::infringement. i\<lparr>confirm_state := Quarantined, phash := Some h,
                    moderation_labels := Some (labels_json (ms_labels m))\<rparr>"
    obtain u d1 where g: "guarded_update iid ?f d = Inr (u, d1)"
      using quarantine(2) by (auto simp: record_quarantine_def split: sum.splits)
    have "infringement_id (?f j) = infringement_id j" for j by simp
    from guarded_hit [OF ok hit g this] quarantine g show ?thesis
      by (auto simp: record_quarantine_def verdict_row_def hit_of_def service_audit_frame)
  next
    case auto
    obtain stored where stored: "numeric_5_2 score = Inr stored"
      using auto(3) by (auto simp: record_auto_confirmed_def split: sum.splits)
    let ?f = "auto_confirmed (db_now d) (Some h) stored (Some (ms_labels m))"
    obtain u d1 where g: "guarded_update iid ?f d = Inr (u, d1)"
      using auto(3) stored by (auto simp: record_auto_confirmed_def split: sum.splits)
    have "infringement_id (?f j) = infringement_id j" for j by (simp add: auto_confirmed_def)
    from guarded_hit [OF ok hit g this] auto g stored auto_sev show ?thesis
      by (auto simp: record_auto_confirmed_def verdict_row_def hit_of_def service_audit_frame auto_confirmed_def
          AUTO_CONFIRM_SEVERITY_def sev_def)
  next
    case triage
    obtain stored where stored: "numeric_5_2 score = Inr stored"
      using triage(3) by (auto simp: record_triage_def split: sum.splits)
    let ?f = "triaged sev (Some h) stored (Some (ms_labels m))"
    obtain u d1 where g: "guarded_update iid ?f d = Inr (u, d1)"
      using triage(3) stored by (auto simp: record_triage_def split: sum.splits)
    have "infringement_id (?f j) = infringement_id j" for j by (simp add: triaged_def)
    from guarded_hit [OF ok hit g this] triage g stored auto_sev show ?thesis
      by (auto simp: record_triage_def verdict_row_def hit_of_def triaged_def sev_def)
  qed
qed

lemma control_view_hits:
  "hits_view d' = hits_view d \<Longrightarrow> hit_of x d' = hit_of x d \<and> tables_ok d' = tables_ok d"
  by (simp add: hits_view_def hit_of_def tables_ok_def)

lemma context_hit:
  assumes "load_context iid d = Some ctx" "ctx_confirm_state ctx \<in> {Unconfirmed, Machine_triaged}"
  shows "\<exists>i. hit_of iid d = Some i \<and> open_to_machine i"
  using assms by (auto simp: load_context_def open_to_machine_def)

text \<open>
  C5. When the bundle answers and the message is done, the hit carries the verdict of the decision
  table: quarantined if the image is explicit and some face may be below the age threshold;
  otherwise the severity of its two questions (explicit, matched), confirmed by the machine exactly
  when both are answered yes, and handed to a human in every other case.
\<close>

theorem confirm_verdict_table:
  assumes "bundle_reached deps cfg moment p w ctx url h cost probe rek w2" "tables_ok w"
    and "run_bundle deps (ctx_user_ref ctx) rek = Inr (ranked, attributed, moderation)"
    and "confirm_message (Some p) deps pg_confirm (pg_control cfg) moment w = (True, w')"
  shows "\<exists>i. hit_of (payload_id p) w' = Some i \<and>
    verdict_row deps h (map_option fst (best_match None attributed)) moderation i"
proof -
  let ?score = "map_option fst (best_match None attributed)"
  let ?ok = "ok_result (cd_latency_ms deps) (length ranked) ?score moderation"
  have ctx: "load_context (payload_id p) w = Some ctx" "ctx_confirm_state ctx \<in> {Unconfirmed, Machine_triaged}"
    using assms(1) by (simp_all add: bundle_reached_def)
  from context_hit [OF this] obtain i where i: "hit_of (payload_id p) w = Some i" "open_to_machine i" by blast
  have "dispatch_bundle deps pg_confirm (pg_control cfg) moment ctx url h cost rek w2 = (True, w')"
    using assms(4) reached_runs_bundle [OF assms(1)] by simp
  with assms(3) obtain w3 where out: "record_outcome_guarded (pg_control cfg) (ctx_run_id ctx) ?ok cost
      (utc_spend_date moment) w2 = Inr w3"
    and rec: "record_verdict_of deps pg_confirm (ctx_infringement_id ctx) url h ?score
      (crop_bbox (best_match None attributed) ranked) moderation w3 = Inr w'"
    by (auto simp: dispatch_bundle_def Let_def done_or_retry_def split: sum.splits)
  have "hits_view w3 = hits_view w2"
    using out control_keeps_hits(4)
    by (auto simp: record_outcome_guarded_def pg_control_def split: option.splits)
  with reached_keeps_hits [OF assms(1)] have "hits_view w3 = hits_view w" by simp
  with control_view_hits i assms(2) have "hit_of (payload_id p) w3 = Some i" "tables_ok w3" by metis+
  with verdict_of_row [of w3 "payload_id p" i deps url h] i(2) rec load_context_id [OF ctx(1)] show ?thesis
    by metis
qed

section \<open>A probe that is never answered\<close>


section \<open>Two messages\<close>

definition confirm_row :: provider_runtime where
  "confirm_row = hive_row\<lparr>pr_provider_id := REKOGNITION_CONFIRM_ID\<rparr>"

definition probing_row :: provider_runtime where
  "probing_row = open_row\<lparr>pr_provider_id := REKOGNITION_CONFIRM_ID\<rparr>"

definition confirm_process :: "provider_runtime \<Rightarrow> process" where
  "confirm_process row = process_of (one_hit_db\<lparr>providers := [row], db_now := 400000000\<rparr>)"

definition explicit_label :: moderation_label where
  "explicit_label = \<lparr>ml_name = ''Explicit'', ml_parent_name = [], ml_confidence = 90\<rparr>"

definition demo_deps :: "bundle_failure + detected_face list \<Rightarrow> nat confirm_deps" where
  "demo_deps faces = \<lparr>cd_fetch = (\<lambda>_. Fetched 0), cd_gray = (\<lambda>_. Some (replicate 72 0)),
     cd_to_rekognition_jpeg = Some, cd_detect_faces = (\<lambda>_. faces),
     cd_search_face = (\<lambda>_ _. Inr [\<lparr>fm_external_image_id = show_uuid 7, fm_similarity = 95\<rparr>]),
     cd_assess = (\<lambda>_. Inr \<lparr>ms_labels = [explicit_label], ms_min_age_low = None\<rparr>),
     cd_float_mul = (*), cd_latency_ms = 1, cd_face_match_threshold = 90, cd_max_faces = 5,
     cd_phash_hamming_max = 4, cd_csam_age_low_threshold = 18\<rparr>"

definition confirm_request :: outbox_payload where
  "confirm_request = \<lparr>event = CONFIRM_REQUESTED_EVENT, payload_id = 10\<rparr>"

lemma flat_hash: "dhash (Some (replicate 72 0)) = Some 0"
proof -
  have "pixel_bits (replicate 72 0) = replicate 64 False"
    by code_simp
  moreover have "foldl shift_in 0 (replicate n False) = 0" for n
    by (induction n) (simp_all add: shift_in_def)
  ultimately show ?thesis by (simp add: dhash_def signed_64_def)
qed

lemma flat_degenerate: "phash_degenerate 0"
  by (simp add: phash_degenerate_def bit_population_def bit_count_64_def PHASH_DEGENERATE_LOW_BITS_def)

lemma confirm_ctx:
  "\<exists>ctx. load_context 10 (confirm_process row) = Some ctx \<and> ctx_confirm_state ctx = Unconfirmed \<and>
     ctx_image_url ctx = Some ''i'' \<and> ctx_user_ref ctx = 7 \<and> ctx_run_id ctx = Some 1 \<and> ctx_infringement_id ctx = 10"
  unfolding load_context_def confirm_process_def process_of_def
  by (simp add: demo_defs db.extend_def representative_def) (simp add: one_match_def)

lemma confirm_rows:
  "runtime_of REKOGNITION_CONFIRM_ID (confirm_process row) =
     (if pr_provider_id row = REKOGNITION_CONFIRM_ID then Some row else None)"
  "providers (confirm_process row) = [row]" "provider_spend (confirm_process row) = []"
  "db_now (confirm_process row) = 400000000" "cached (confirm_process row) = None"
  "search_runs (confirm_process row) = search_runs one_run_db"
  by (simp_all add: confirm_process_def process_of_def runtime_of_def has_provider_def demo_defs db.extend_def process.fields_def)

lemma confirm_closed:
  "(case runtimes demo_cfg (confirm_process confirm_row) of (rts, w1) \<Rightarrow>
     decide (pg_control demo_cfg) REKOGNITION_CONFIRM_ID (rts REKOGNITION_CONFIRM_ID) moment w1) =
     (Dispatch REKOGNITION_CONFIRM_ID (Some (1/100)) False, snd (runtimes demo_cfg (confirm_process confirm_row)))"
  by (simp add: runtimes_def confirm_rows load_runtimes_def decide_def pg_control_def Let_def daily_spend_def
      confirm_row_def hive_row_def verdict_def spend_or_zero_def)

lemma demo_reached:
  assumes "(case runtimes demo_cfg (confirm_process row) of (rts, w1) \<Rightarrow>
     decide (pg_control demo_cfg) REKOGNITION_CONFIRM_ID (rts REKOGNITION_CONFIRM_ID) moment w1) =
     (Dispatch REKOGNITION_CONFIRM_ID cost probe, w2)"
  shows "\<exists>ctx. bundle_reached (demo_deps faces) demo_cfg moment confirm_request (confirm_process row) ctx ''i'' 0
      cost probe 0 w2 \<and> ctx_user_ref ctx = 7 \<and> ctx_run_id ctx = Some 1 \<and> ctx_infringement_id ctx = 10"
proof -
  obtain ctx where "load_context 10 (confirm_process row) = Some ctx" "ctx_confirm_state ctx = Unconfirmed"
     "ctx_image_url ctx = Some ''i''" "ctx_user_ref ctx = 7" "ctx_run_id ctx = Some 1" "ctx_infringement_id ctx = 10"
    using confirm_ctx by blast
  with assms show ?thesis
    by (auto simp: bundle_reached_def confirm_request_def demo_deps_def flat_hash flat_degenerate split: prod.splits)
qed

lemma confirm_tables: "tables_ok (confirm_process row)"
proof -
  have "hits_view (confirm_process row) = hits_view one_hit_db"
    by (simp add: hits_view_def confirm_process_def process_of_def db.extend_def)
  then show ?thesis using control_view_hits one_hit_consistent [OF ann_sane] by (metis hits_consistent_def)
qed

lemma parse_seven: "parse_user_ref (show_uuid 7) = Some 7"
  using uuid_text_parses [of 7 "[]" "[]"] by simp

lemma demo_bundle:
  "\<exists>face. run_bundle (demo_deps (Inr [demo_face 0])) 7 0 = Inr ([demo_face 0], [face],
     \<lparr>ms_labels = [explicit_label], ms_min_age_low = None\<rparr>) \<and> fc_match_score face = Some 95"
  by (simp add: run_bundle_def demo_deps_def ranked_faces_def resolve_face_def as_candidate_def parse_seven
      detected_face.extend_def demo_face_def)


theorem confirm_message_one_hit_one_call_witness:
  "tables_ok (snd (confirm_message (Some confirm_request) (demo_deps (Inr [demo_face 0])) pg_confirm
     (pg_control demo_cfg) (utc_datetime 0) (confirm_process confirm_row)))"
proof -
  obtain b w' where run: "confirm_message (Some confirm_request) (demo_deps (Inr [demo_face 0])) pg_confirm
     (pg_control demo_cfg) (utc_datetime 0) (confirm_process confirm_row) = (b, w')" by fastforce
  from confirm_message_one_hit_one_call [OF run, of ann_ops] confirm_tables run show ?thesis by simp
qed

lemma record_outcome_ok:
  assumes "runtime_of (res_provider_id result) w = Some r" "rid \<in> run_id ` set (search_runs w)"
  shows "\<exists>w'. record_outcome cfg (Some rid) result cost day None w = Inr w'"
  using assms by (simp add: record_outcome_def insert_call_def result_call_def one_run_def Let_def)

lemma one_hit_auto_score:
  assumes "hits_view d = hits_view one_hit_db"
  shows "\<exists>d'. record_auto_confirmed 10 (Some 0) (Some 95) labels trace d = Inr d'"
proof (rule one_hit)
  fix i
  assume i: "open_to_machine i" "infringement_id i = 10" "infringements one_hit_db = [i]" "duplicate_of i = None"
    "review_tasks one_hit_db = []"
  with assms have d: "infringements d = [i]" "review_tasks d = []" by (simp_all add: hits_view_def)
  have num: "numeric_5_2 (Some 95) = Inr (Some 95)" by (simp add: numeric_5_2_def round_half_away_def Let_def floor_eq_iff)
  show ?thesis using i(1,2,4) d
    by (simp add: record_auto_confirmed_def num guarded_update_def update_infringements_def auto_confirmed_def
        confirmed_needs_human_def duplicate_needs_source_def open_to_machine_def Let_def)
qed

lemma demo_message_done:
  "\<exists>w' w2 ctx. bundle_reached (demo_deps (Inr [demo_face 0])) demo_cfg (utc_datetime 0) confirm_request
      (confirm_process confirm_row) ctx ''i'' 0 (Some (1/100)) False 0 w2 \<and> ctx_user_ref ctx = 7 \<and>
    confirm_message (Some confirm_request) (demo_deps (Inr [demo_face 0])) pg_confirm
     (pg_control demo_cfg) (utc_datetime 0) (confirm_process confirm_row) = (True, w')"
proof -
  let ?deps = "demo_deps (Inr [demo_face 0])"
  let ?w = "confirm_process confirm_row"
  let ?w2 = "snd (runtimes demo_cfg ?w)"
  from demo_reached [OF confirm_closed [of "utc_datetime 0"], of "Inr [demo_face 0]"] obtain ctx where
    ctx: "bundle_reached ?deps demo_cfg (utc_datetime 0) confirm_request ?w ctx ''i'' 0
      (Some (1/100)) False 0 ?w2" "ctx_user_ref ctx = 7" "ctx_run_id ctx = Some 1" "ctx_infringement_id ctx = 10"
    by blast
  have hits: "hits_view ?w2 = hits_view one_hit_db" using reached_keeps_hits(1) [OF ctx(1)]
    by (simp add: hits_view_def confirm_process_def process_of_def db.extend_def)
  have w2: "runtime_of REKOGNITION_CONFIRM_ID ?w2 = Some confirm_row" "1 \<in> run_id ` set (search_runs ?w2)"
    using confirm_rows(1,5,6) [of confirm_row]
    by (simp_all add: runtime_of_def confirm_row_def runtimes_def one_run_db_def)
  obtain face where face: "run_bundle ?deps 7 0 = Inr ([demo_face 0], [face],
     \<lparr>ms_labels = [explicit_label], ms_min_age_low = None\<rparr>)" "fc_match_score face = Some 95"
    using demo_bundle by blast
  let ?m = "\<lparr>ms_labels = [explicit_label], ms_min_age_low = None\<rparr>"
  have "res_provider_id (ok_result l n x m) = REKOGNITION_CONFIRM_ID" for l n x m by (simp add: ok_result_def)
  with record_outcome_ok [of "ok_result 1 1 (Some 95) ?m" ?w2] w2 obtain w3 where
    w3: "record_outcome demo_cfg (Some 1) (ok_result 1 1 (Some 95) ?m) (Some (1/100))
       (utc_spend_date (utc_datetime 0)) None ?w2 = Inr w3" by metis
  have "hits_view w3 = hits_view one_hit_db" using control_keeps_hits(4) [OF w3] hits by simp
  from one_hit_auto_score [OF this] obtain w' where
    "record_auto_confirmed 10 (Some 0) (Some 95) (Some [explicit_label])
       (triage_payload ''i'' (Some (fc_bbox face)) (Some 95) [explicit_label] (phash_degenerate 0)) w3 = Inr w'" by blast
  then have "record_verdict_of ?deps pg_confirm 10 ''i'' 0 (Some 95) (Some (fc_bbox face)) ?m w3 = Inr w'"
    by (simp add: record_verdict_of_def Let_def pg_confirm_def csam_quarantine_def AUTO_CONFIRM_SEVERITY_def
        classify_severity_def is_explicit_def explicit_label_def EXPLICIT_LABEL_PARENTS_def
        EXPLICIT_MIN_CONFIDENCE_def demo_deps_def)
  moreover have "cd_latency_ms ?deps = 1" by (simp add: demo_deps_def)
  ultimately have "dispatch_bundle ?deps pg_confirm (pg_control demo_cfg) (utc_datetime 0) ctx ''i'' 0 (Some (1/100)) 0 ?w2
      = (True, w')"
    using face ctx(2-4) w3
    by (simp add: dispatch_bundle_def record_outcome_guarded_def pg_control_def done_or_retry_def crop_bbox_def Let_def)
  then show ?thesis using ctx reached_runs_bundle [OF ctx(1)] by metis
qed

theorem confirm_verdict_table_witness:
  "\<exists>w' i. confirm_message (Some confirm_request) (demo_deps (Inr [demo_face 0])) pg_confirm
     (pg_control demo_cfg) (utc_datetime 0) (confirm_process confirm_row) = (True, w') \<and>
     hit_of 10 w' = Some i \<and> confirm_state i = Confirmed"
proof -
  obtain w' w2 ctx where ctx: "bundle_reached (demo_deps (Inr [demo_face 0])) demo_cfg (utc_datetime 0) confirm_request
      (confirm_process confirm_row) ctx ''i'' 0 (Some (1/100)) False 0 w2" "ctx_user_ref ctx = 7"
    and run: "confirm_message (Some confirm_request) (demo_deps (Inr [demo_face 0])) pg_confirm
     (pg_control demo_cfg) (utc_datetime 0) (confirm_process confirm_row) = (True, w')"
    using demo_message_done by blast
  obtain face where face: "run_bundle (demo_deps (Inr [demo_face 0])) (ctx_user_ref ctx) 0 = Inr ([demo_face 0], [face],
     \<lparr>ms_labels = [explicit_label], ms_min_age_low = None\<rparr>)" "fc_match_score face = Some 95"
    using demo_bundle ctx(2) by auto
  from confirm_verdict_table [OF ctx(1) confirm_tables face(1) run] obtain i where
    "hit_of (payload_id confirm_request) w' = Some i"
    "verdict_row (demo_deps (Inr [demo_face 0])) 0 (map_option fst (best_match None [face]))
       \<lparr>ms_labels = [explicit_label], ms_min_age_low = None\<rparr> i" by blast
  with face(2) run show ?thesis
    by (auto simp: verdict_row_def csam_quarantine_def is_explicit_def explicit_label_def EXPLICIT_LABEL_PARENTS_def
        EXPLICIT_MIN_CONFIDENCE_def demo_deps_def confirm_request_def)
qed

end
