(* ===== verification/Relay.thy ===== *)
theory Relay
  imports Outbox
begin

text \<open>
  The outbox relay of \<^verbatim>\<open>src/imageshield/relay.py\<close>: one poll is a loop over at most
  \<^verbatim>\<open>outbox_batch_size\<close> rows, each read, sent and marked in a transaction of its own; the
  reconnect loop runs polls until it is told to stop.

  What the relay does not control is an environment record: the monotonic clock at every
  iteration (a rational, its sum with a delay not rounded), the rows another relay holds locked
  (\<^verbatim>\<open>SKIP LOCKED\<close>), whether the connection is lost before the row is read, before
  the row's commit or after it, and the answer of the queue service, which may depend on
  everything sent before.  What was sent, with the answer, is a log in the state: it is what the
  claims about delivery speak of.
\<close>

section \<open>Configuration and environment\<close>

record relay_config =
  outbox_batch_size :: nat
  outbox_max_attempts :: nat
  outbox_poll_interval_seconds :: rat
  sqs_identity_index_url :: string
  sqs_search_runs_url :: string
  sqs_confirm_hits_url :: string

definition queue_url :: "relay_config \<Rightarrow> string \<Rightarrow> string option" where
  "queue_url cfg queue =
     (if queue = QUEUE_IDENTITY_INDEX then Some (sqs_identity_index_url cfg)
      else if queue = QUEUE_SEARCH_RUNS then Some (sqs_search_runs_url cfg)
      else if queue = QUEUE_CONFIRM_HITS then Some (sqs_confirm_hits_url cfg)
      else None)"

record send_event =
  sent_url :: string
  sent_body :: outbox_payload
  sent_error :: "string option"

datatype conn_fault = No_fault | Lost_at_select | Lost_before_commit | Lost_after_commit

record relay_env =
  env_monotonic :: "nat \<Rightarrow> rat"
  env_locked :: "nat \<Rightarrow> nat list"
  env_fault :: "nat \<Rightarrow> conn_fault"
  env_sqs :: "send_event list \<Rightarrow> string \<Rightarrow> outbox_payload \<Rightarrow> string option"

section \<open>Backoff\<close>

definition BACKOFF_BASE_SECONDS :: rat where
  "BACKOFF_BASE_SECONDS = 1"

definition BACKOFF_CAP_SECONDS :: rat where
  "BACKOFF_CAP_SECONDS = 300"

definition RECONNECT_BASE_SECONDS :: rat where
  "RECONNECT_BASE_SECONDS = 1"

definition RECONNECT_CAP_SECONDS :: rat where
  "RECONNECT_CAP_SECONDS = 30"

type_synonym backoff_tracker = "nat \<rightharpoonup> rat"

definition backoff_blocked :: "backoff_tracker \<Rightarrow> nat \<Rightarrow> rat \<Rightarrow> bool" where
  "backoff_blocked b oid moment =
     (case b oid of None \<Rightarrow> False | Some deadline \<Rightarrow> moment < deadline)"

definition backoff_delay :: "nat \<Rightarrow> rat" where
  "backoff_delay n = min (BACKOFF_BASE_SECONDS * 2 ^ n) BACKOFF_CAP_SECONDS"

definition backoff_record_failure ::
  "backoff_tracker \<Rightarrow> nat \<Rightarrow> nat \<Rightarrow> rat \<Rightarrow> backoff_tracker" where
  "backoff_record_failure b oid n moment = b(oid \<mapsto> moment + backoff_delay n)"

definition backoff_clear :: "backoff_tracker \<Rightarrow> nat \<Rightarrow> backoff_tracker" where
  "backoff_clear b oid = b(oid := None)"

section \<open>One row\<close>

record relay_state =
  rl_db :: db
  rl_backoff :: backoff_tracker
  rl_sent :: "send_event list"

definition eligible :: "nat \<Rightarrow> outbox_row \<Rightarrow> bool" where
  "eligible max_attempts r \<longleftrightarrow> published_at r = None \<and> attempts r < max_attempts"

definition select_next :: "nat \<Rightarrow> nat list \<Rightarrow> nat list \<Rightarrow> db \<Rightarrow> outbox_row option" where
  "select_next max_attempts skip_ids locked d =
     (case sort_key outbox_id
             (filter (\<lambda>r. eligible max_attempts r \<and> outbox_id r \<notin> set skip_ids \<and>
                          outbox_id r \<notin> set locked) (outbox d)) of
        [] \<Rightarrow> None | r # _ \<Rightarrow> Some r)"

definition mark_published :: "nat \<Rightarrow> db \<Rightarrow> db" where
  "mark_published oid d =
     d\<lparr>outbox := sql_update (\<lambda>r. outbox_id r = oid)
        (\<lambda>r. r\<lparr>published_at := Some (db_now d), last_error := None\<rparr>) (outbox d)\<rparr>"

definition mark_failed :: "nat \<Rightarrow> string \<Rightarrow> db \<Rightarrow> db" where
  "mark_failed oid err d =
     d\<lparr>outbox := sql_update (\<lambda>r. outbox_id r = oid)
        (\<lambda>r. r\<lparr>attempts := attempts r + 1, last_error := Some err\<rparr>) (outbox d)\<rparr>"

text \<open>
  The \<^verbatim>\<open>try\<close> body: an unknown queue raises before anything is sent.  The text quotes the name
  as \<^verbatim>\<open>repr\<close> does when it holds no quote, backslash or unprintable character.
\<close>

definition deliver ::
  "relay_config \<Rightarrow> relay_env \<Rightarrow> outbox_row \<Rightarrow> send_event list \<Rightarrow> string option \<times> send_event list" where
  "deliver cfg env row sent =
     (case queue_url cfg (queue_name row) of
        None \<Rightarrow> (Some (''unknown queue_name '' @ CHR 0x27 # queue_name row @ [CHR 0x27]), sent)
      | Some url \<Rightarrow>
          let answer = env_sqs env sent url (payload row)
          in (answer,
              sent @ [\<lparr>sent_url = url, sent_body = payload row, sent_error = answer\<rparr>]))"

datatype iteration =
  Nothing_left | Deferred nat | Row_published nat | Row_failed nat | Connection_lost

definition after_failure :: "relay_config \<Rightarrow> outbox_row \<Rightarrow> rat \<Rightarrow> backoff_tracker \<Rightarrow> backoff_tracker" where
  "after_failure cfg row moment b =
     (let n = attempts row + 1;
          recorded = backoff_record_failure b (outbox_id row) n moment
      in if n \<ge> outbox_max_attempts cfg then backoff_clear recorded (outbox_id row) else recorded)"

definition send_row ::
  "relay_config \<Rightarrow> relay_env \<Rightarrow> nat \<Rightarrow> outbox_row \<Rightarrow> relay_state \<Rightarrow> iteration \<times> relay_state" where
  "send_row cfg env i row s =
     (let oid = outbox_id row;
          (err, sent) = deliver cfg env row (rl_sent s);
          marked = (case err of None \<Rightarrow> mark_published oid (rl_db s)
                              | Some e \<Rightarrow> mark_failed oid e (rl_db s))
      in if env_fault env i = Lost_before_commit then (Connection_lost, s\<lparr>rl_sent := sent\<rparr>)
         else if env_fault env i = Lost_after_commit
         then (Connection_lost, s\<lparr>rl_db := marked, rl_sent := sent\<rparr>)
         else (case err of
                 None \<Rightarrow>
                   (Row_published oid,
                    s\<lparr>rl_db := marked, rl_sent := sent, rl_backoff := backoff_clear (rl_backoff s) oid\<rparr>)
               | Some e \<Rightarrow>
                   (Row_failed oid,
                    s\<lparr>rl_db := marked, rl_sent := sent,
                      rl_backoff := after_failure cfg row (env_monotonic env i) (rl_backoff s)\<rparr>)))"

definition relay_iteration ::
  "relay_config \<Rightarrow> relay_env \<Rightarrow> nat \<Rightarrow> nat list \<Rightarrow> relay_state \<Rightarrow> iteration \<times> relay_state" where
  "relay_iteration cfg env i skip_ids s =
     (if env_fault env i = Lost_at_select then (Connection_lost, s)
      else (case select_next (outbox_max_attempts cfg) skip_ids (env_locked env i) (rl_db s) of
              None \<Rightarrow> (Nothing_left, s)
            | Some row \<Rightarrow>
                if backoff_blocked (rl_backoff s) (outbox_id row) (env_monotonic env i)
                then (Deferred (outbox_id row), s)
                else send_row cfg env i row s))"

section \<open>One poll\<close>

record poll_stats =
  ps_published :: nat
  ps_failed :: nat
  ps_skipped_backoff :: nat

text \<open>
  The \<^verbatim>\<open>for\<close> loop: \<open>n\<close> iterations are left, \<open>i\<close> counts them for the environment.  A lost
  connection is the \<^verbatim>\<open>OperationalError\<close> that leaves \<^verbatim>\<open>poll_once\<close>: no statistics.
\<close>

fun poll_rows ::
  "relay_config \<Rightarrow> relay_env \<Rightarrow> nat \<Rightarrow> nat \<Rightarrow> nat list \<Rightarrow> poll_stats \<Rightarrow> relay_state
     \<Rightarrow> poll_stats option \<times> relay_state" where
  "poll_rows cfg env 0 i skip_ids stats s = (Some stats, s)"
| "poll_rows cfg env (Suc n) i skip_ids stats s =
     (case relay_iteration cfg env i skip_ids s of
        (Connection_lost, s') \<Rightarrow> (None, s')
      | (Nothing_left, s') \<Rightarrow> (Some stats, s')
      | (Deferred oid, s') \<Rightarrow>
          poll_rows cfg env n (Suc i) (skip_ids @ [oid])
            (stats\<lparr>ps_skipped_backoff := ps_skipped_backoff stats + 1\<rparr>) s'
      | (Row_published oid, s') \<Rightarrow>
          poll_rows cfg env n (Suc i) skip_ids (stats\<lparr>ps_published := ps_published stats + 1\<rparr>) s'
      | (Row_failed oid, s') \<Rightarrow>
          poll_rows cfg env n (Suc i) skip_ids (stats\<lparr>ps_failed := ps_failed stats + 1\<rparr>) s')"

definition no_stats :: poll_stats where
  "no_stats = \<lparr>ps_published = 0, ps_failed = 0, ps_skipped_backoff = 0\<rparr>"

definition poll_once ::
  "relay_config \<Rightarrow> relay_env \<Rightarrow> relay_state \<Rightarrow> poll_stats option \<times> relay_state" where
  "poll_once cfg env s = poll_rows cfg env (outbox_batch_size cfg) 0 [] no_stats s"

section \<open>The reconnect loop\<close>

text \<open>
  A round is one turn of either \<^verbatim>\<open>while\<close> loop: whether \<^verbatim>\<open>connect()\<close> succeeds, should a
  connection be needed, and the environment of the poll that follows.  Between polls the
  producers of the outbox run: \<open>round_before\<close> is what they did to the tables.  The list of rounds
  ends where \<^verbatim>\<open>stop_requested()\<close> is first true.  The result has every sleep in order.
\<close>

record relay_round =
  round_connects :: bool
  round_env :: relay_env
  round_before :: "db \<Rightarrow> db"

fun reconnect_and_poll ::
  "relay_config \<Rightarrow> relay_round list \<Rightarrow> bool \<Rightarrow> rat \<Rightarrow> relay_state \<Rightarrow> rat list \<times> relay_state" where
  "reconnect_and_poll cfg [] conn_open delay s = ([], s)"
| "reconnect_and_poll cfg (r # rs) conn_open delay s =
     (let s0 = s\<lparr>rl_db := round_before r (rl_db s)\<rparr>;
          lost = (\<lambda>s'. let (sleeps, s'') =
                        reconnect_and_poll cfg rs False (min (delay * 2) RECONNECT_CAP_SECONDS) s'
                      in (delay # sleeps, s''))
      in if \<not> conn_open \<and> \<not> round_connects r then lost s0
         else (case poll_once cfg (round_env r) s0 of
                 (None, s') \<Rightarrow> lost s'
               | (Some stats, s') \<Rightarrow>
                   let (sleeps, s'') = reconnect_and_poll cfg rs True RECONNECT_BASE_SECONDS s'
                   in (outbox_poll_interval_seconds cfg # sleeps, s'')))"

definition run_relay :: "relay_config \<Rightarrow> relay_round list \<Rightarrow> db \<Rightarrow> rat list \<times> relay_state" where
  "run_relay cfg rounds d =
     reconnect_and_poll cfg rounds False RECONNECT_BASE_SECONDS
       \<lparr>rl_db = d, rl_backoff = Map.empty, rl_sent = []\<rparr>"

section \<open>Steps of a relay\<close>

text \<open>
  What a relay, its environment and the producers can do to the tables and the log, whatever the
  clock, the backoff and the order: a row is sent and marked, sent and not marked, refused and
  counted, or new rows arrive.
\<close>

definition appended_rows :: "db \<Rightarrow> outbox_row list \<Rightarrow> bool" where
  "appended_rows d new \<longleftrightarrow>
     distinct (map outbox_id new) \<and>
     (\<forall>r\<in>set new. published_at r = None \<and> attempts r = 0 \<and> db_serial d \<le> outbox_id r)"

inductive relay_step ::
  "relay_config \<Rightarrow> db \<times> send_event list \<Rightarrow> db \<times> send_event list \<Rightarrow> bool" for cfg where
  sent_marked:
    "row \<in> set (outbox d) \<Longrightarrow> eligible (outbox_max_attempts cfg) row \<Longrightarrow>
     queue_url cfg (queue_name row) = Some url \<Longrightarrow>
     relay_step cfg (d, lg) (mark_published (outbox_id row) d,
       lg @ [\<lparr>sent_url = url, sent_body = payload row, sent_error = None\<rparr>])"
| sent_unmarked:
    "relay_step cfg (d, lg) (d, lg @ events)"
| refused_marked:
    "row \<in> set (outbox d) \<Longrightarrow> eligible (outbox_max_attempts cfg) row \<Longrightarrow>
     relay_step cfg (d, lg) (mark_failed (outbox_id row) err d, lg @ events)"
| produced:
    "appended_rows d new \<Longrightarrow> outbox d' = outbox d @ new \<Longrightarrow>
     db_serial d \<le> db_serial d' \<Longrightarrow> \<forall>r\<in>set new. outbox_id r < db_serial d' \<Longrightarrow>
     relay_step cfg (d, lg) (d', lg)"

definition candidate :: "nat \<Rightarrow> nat list \<Rightarrow> nat list \<Rightarrow> outbox_row \<Rightarrow> bool" where
  "candidate m skip locked r \<longleftrightarrow>
     eligible m r \<and> outbox_id r \<notin> set skip \<and> outbox_id r \<notin> set locked"

lemma select_next_candidates:
  "select_next m skip locked d =
     (case sort_key outbox_id (filter (candidate m skip locked) (outbox d)) of
        [] \<Rightarrow> None | r # _ \<Rightarrow> Some r)"
  by (simp add: select_next_def candidate_def [abs_def])

lemma select_next_Some:
  assumes "select_next m skip locked d = Some row"
  shows "row \<in> set (outbox d)" "candidate m skip locked row"
    "\<And>r. r \<in> set (outbox d) \<Longrightarrow> candidate m skip locked r \<Longrightarrow> outbox_id row \<le> outbox_id r"
proof -
  obtain rs where rs: "sort_key outbox_id (filter (candidate m skip locked) (outbox d)) = row # rs"
    using assms by (auto simp: select_next_candidates split: list.splits)
  then have "set (row # rs) = set (filter (candidate m skip locked) (outbox d))"
    by (metis set_sort)
  moreover have "sorted (map outbox_id (row # rs))"
    using rs by (metis sorted_sort_key)
  ultimately show "row \<in> set (outbox d)" "candidate m skip locked row"
    "\<And>r. r \<in> set (outbox d) \<Longrightarrow> candidate m skip locked r \<Longrightarrow> outbox_id row \<le> outbox_id r"
    by auto
qed

lemma select_next_None:
  assumes "select_next m skip locked d = None" "r \<in> set (outbox d)"
  shows "\<not> candidate m skip locked r"
proof -
  have "sort_key outbox_id (filter (candidate m skip locked) (outbox d)) = []"
    using assms(1) by (auto simp: select_next_candidates split: list.splits)
  then have "filter (candidate m skip locked) (outbox d) = []"
    by (metis length_0_conv length_sort)
  then show ?thesis
    using assms(2) by (simp add: filter_empty_conv)
qed

lemma send_row_step:
  assumes "row \<in> set (outbox (rl_db s))" "eligible (outbox_max_attempts cfg) row"
    and "send_row cfg env i row s = (it, s')"
  shows "relay_step cfg (rl_db s, rl_sent s) (rl_db s', rl_sent s')"
proof (cases "queue_url cfg (queue_name row)")
  case None
  then show ?thesis
    using assms sent_unmarked [of cfg "rl_db s" "rl_sent s" "[]"]
      refused_marked [of row "rl_db s" cfg "rl_sent s" _ "[]"]
    by (auto simp: send_row_def deliver_def Let_def split: if_splits)
next
  case (Some url)
  show ?thesis
  proof (cases "env_sqs env (rl_sent s) url (payload row)")
    case None
    then show ?thesis
      using assms Some by (auto simp: send_row_def deliver_def Let_def split: if_splits
          intro: sent_marked sent_unmarked)
  next
    case (Some e)
    then show ?thesis
      using assms \<open>queue_url cfg (queue_name row) = Some url\<close>
      by (auto simp: send_row_def deliver_def Let_def split: if_splits
          intro: refused_marked sent_unmarked)
  qed
qed

lemma relay_iteration_step:
  assumes "relay_iteration cfg env i skip s = (it, s')"
  shows "relay_step cfg (rl_db s, rl_sent s) (rl_db s', rl_sent s')"
proof -
  have same: "relay_step cfg (rl_db s, rl_sent s) (rl_db s, rl_sent s)"
    using sent_unmarked [of cfg "rl_db s" "rl_sent s" "[]"] by simp
  show ?thesis
  proof (cases "select_next (outbox_max_attempts cfg) skip (env_locked env i) (rl_db s)")
    case None
    then show ?thesis
      using assms same by (auto simp: relay_iteration_def split: if_splits)
  next
    case (Some row)
    note row = select_next_Some(1,2) [OF Some]
    show ?thesis
    proof (cases "s' = s")
      case True
      then show ?thesis using same by simp
    next
      case False
      then have "send_row cfg env i row s = (it, s')"
        using assms Some by (auto simp: relay_iteration_def split: if_splits)
      then show ?thesis
        using send_row_step row by (auto simp: candidate_def)
    qed
  qed
qed

lemma poll_rows_steps:
  "poll_rows cfg env n i skip stats s = (res, s') \<Longrightarrow>
   (relay_step cfg)\<^sup>*\<^sup>* (rl_db s, rl_sent s) (rl_db s', rl_sent s')"
proof (induction n arbitrary: i skip stats s)
  case 0
  then show ?case by simp
next
  case (Suc n)
  obtain it s1 where it: "relay_iteration cfg env i skip s = (it, s1)"
    by fastforce
  note step = relay_iteration_step [OF it]
  from Suc.prems it have
    "s' = s1 \<or> (\<exists>i' skip' stats'. poll_rows cfg env n i' skip' stats' s1 = (res, s'))"
    by (auto split: iteration.splits)
  then show ?case
    using step Suc.IH by (blast intro: converse_rtranclp_into_rtranclp)
qed

section \<open>The producers' interface\<close>

text \<open>
  All that the relay's guarantees need of the producers: they add fresh, unpublished rows with new
  ids and touch no other.  The enqueue functions of the outbox helper are such producers.
\<close>

definition only_appends :: "(db \<Rightarrow> db) \<Rightarrow> bool" where
  "only_appends f \<longleftrightarrow>
     (\<forall>d. \<exists>new. appended_rows d new \<and> outbox (f d) = outbox d @ new \<and>
        db_serial d \<le> db_serial (f d) \<and> (\<forall>r\<in>set new. outbox_id r < db_serial (f d)))"

locale outbox_producer =
  fixes produce :: "'a \<Rightarrow> db \<Rightarrow> db"
  assumes produce_appends:
    "\<exists>new. appended_rows d new \<and> outbox (produce x d) = outbox d @ new \<and>
       db_serial d \<le> db_serial (produce x d) \<and> (\<forall>r\<in>set new. outbox_id r < db_serial (produce x d))"
begin

lemma produce_only_appends: "only_appends (produce x)"
  using produce_appends by (auto simp: only_appends_def)

lemma produce_step: "relay_step cfg (d, lg) (produce x d, lg)"
  using produce_appends produced by metis

end

lemma insert_all_rows:
  "\<exists>new. outbox (insert_all q ps d) = outbox d @ new \<and>
     map outbox_id new = [db_serial d..<db_serial d + length ps] \<and>
     db_serial (insert_all q ps d) = db_serial d + length ps \<and>
     (\<forall>r\<in>set new. published_at r = None \<and> attempts r = 0)"
proof (induction ps arbitrary: d)
  case Nil
  then show ?case by (simp add: insert_all_def)
next
  case (Cons p ps)
  let ?d = "insert_outbox q p d"
  obtain new where new: "outbox (insert_all q ps ?d) = outbox ?d @ new"
    "map outbox_id new = [db_serial ?d..<db_serial ?d + length ps]"
    "db_serial (insert_all q ps ?d) = db_serial ?d + length ps"
    "\<forall>r\<in>set new. published_at r = None \<and> attempts r = 0"
    using Cons.IH by blast
  have "[db_serial d..<Suc (db_serial d + length ps)] =
      db_serial d # [Suc (db_serial d)..<Suc (db_serial d + length ps)]"
    by (rule upt_conv_Cons) simp
  then show ?case
    by (intro exI [of _ "last (outbox ?d) # new"])
      (use new in \<open>simp add: insert_all_def del: upt_Suc, simp add: insert_outbox_def del: upt_Suc\<close>)
qed

interpretation enqueued: outbox_producer "\<lambda>(q, ps). insert_all q ps"
proof
  fix d :: db and x :: "string \<times> outbox_payload list"
  obtain q ps where x: "x = (q, ps)" by fastforce
  obtain new where new: "outbox (insert_all q ps d) = outbox d @ new"
    "map outbox_id new = [db_serial d..<db_serial d + length ps]"
    "db_serial (insert_all q ps d) = db_serial d + length ps"
    "\<forall>r\<in>set new. published_at r = None \<and> attempts r = 0"
    using insert_all_rows by blast
  have ids: "outbox_id r \<in> {db_serial d..<db_serial d + length ps}" if "r \<in> set new" for r
    using that new(2) by (metis atLeastLessThan_upt image_eqI list.set_map)
  show "\<exists>new. appended_rows d new \<and>
       outbox ((case x of (q, ps) \<Rightarrow> insert_all q ps) d) = outbox d @ new \<and>
       db_serial d \<le> db_serial ((case x of (q, ps) \<Rightarrow> insert_all q ps) d) \<and>
       (\<forall>r\<in>set new. outbox_id r < db_serial ((case x of (q, ps) \<Rightarrow> insert_all q ps) d))"
    using new ids by (intro exI [of _ new]) (auto simp: x appended_rows_def)
qed

lemma reconnect_steps:
  assumes "\<forall>r\<in>set rounds. only_appends (round_before r)"
    and "reconnect_and_poll cfg rounds conn_open delay s = (sleeps, s')"
  shows "(relay_step cfg)\<^sup>*\<^sup>* (rl_db s, rl_sent s) (rl_db s', rl_sent s')"
  using assms
proof (induction rounds arbitrary: conn_open delay s sleeps)
  case Nil
  then show ?case by simp
next
  case (Cons r rs)
  let ?s0 = "s\<lparr>rl_db := round_before r (rl_db s)\<rparr>"
  have "only_appends (round_before r)" using Cons.prems by simp
  then have before: "relay_step cfg (rl_db s, rl_sent s) (rl_db ?s0, rl_sent ?s0)"
    by (auto simp: only_appends_def intro: produced)
  have rest: "(relay_step cfg)\<^sup>*\<^sup>* (rl_db s1, rl_sent s1) (rl_db s', rl_sent s')"
    if "reconnect_and_poll cfg rs c dl s1 = (sl, s')" for c dl s1 sl
    using Cons.IH Cons.prems(1) that by simp
  obtain res s1 where poll: "poll_once cfg (round_env r) ?s0 = (res, s1)"
    by fastforce
  have polled: "(relay_step cfg)\<^sup>*\<^sup>* (rl_db ?s0, rl_sent ?s0) (rl_db s1, rl_sent s1)"
    by (rule poll_rows_steps [OF poll [unfolded poll_once_def]])
  have "(\<exists>c dl sl. reconnect_and_poll cfg rs c dl ?s0 = (sl, s')) \<or>
        (\<exists>c dl sl. reconnect_and_poll cfg rs c dl s1 = (sl, s'))"
    using Cons.prems(2) poll
    by (auto simp: Let_def split: if_splits option.splits prod.splits)
  then have "(relay_step cfg)\<^sup>*\<^sup>* (rl_db ?s0, rl_sent ?s0) (rl_db s', rl_sent s')"
    using rest polled by (metis rtranclp_trans)
  then show ?case
    using before by (rule converse_rtranclp_into_rtranclp [rotated])
qed

section \<open>Nothing is lost, nothing is marked unsent\<close>

definition outbox_wf :: "db \<Rightarrow> bool" where
  "outbox_wf d \<longleftrightarrow>
     distinct (map outbox_id (outbox d)) \<and> (\<forall>r\<in>set (outbox d). outbox_id r < db_serial d)"

definition accepted :: "relay_config \<Rightarrow> send_event list \<Rightarrow> outbox_row \<Rightarrow> bool" where
  "accepted cfg lg r \<longleftrightarrow>
     (\<exists>e\<in>set lg. sent_error e = None \<and> sent_body e = payload r \<and>
        queue_url cfg (queue_name r) = Some (sent_url e))"

text \<open>How a row may change: until it is published or dead, and then never again.\<close>

definition row_evolves :: "nat \<Rightarrow> outbox_row \<Rightarrow> outbox_row \<Rightarrow> bool" where
  "row_evolves m q r \<longleftrightarrow>
     outbox_id r = outbox_id q \<and> queue_name r = queue_name q \<and> payload r = payload q \<and>
     ob_created_at r = ob_created_at q \<and> (\<not> eligible m q \<longrightarrow> r = q) \<and>
     attempts q \<le> attempts r \<and> attempts r \<le> max (attempts q) m"

lemma row_evolves_refl: "row_evolves m r r"
  by (simp add: row_evolves_def)

lemma row_evolves_trans: "row_evolves m p q \<Longrightarrow> row_evolves m q r \<Longrightarrow> row_evolves m p r"
  by (auto simp: row_evolves_def eligible_def)

lemma outbox_wf_row:
  "outbox_wf d \<Longrightarrow> q \<in> set (outbox d) \<Longrightarrow> r \<in> set (outbox d) \<Longrightarrow> outbox_id q = outbox_id r \<Longrightarrow> q = r"
  unfolding outbox_wf_def distinct_map inj_on_def by blast

lemma outbox_wf_mark [keeps]:
  "outbox_wf d \<Longrightarrow> outbox_wf (mark_published oid d)"
  "outbox_wf d \<Longrightarrow> outbox_wf (mark_failed oid err d)"
  by (auto simp: outbox_wf_def mark_published_def mark_failed_def map_sql_update in_sql_update)

lemma outbox_wf_appended:
  assumes "outbox_wf d" "appended_rows d new" "outbox d' = outbox d @ new"
    "db_serial d \<le> db_serial d'" "\<forall>r\<in>set new. outbox_id r < db_serial d'"
  shows "outbox_wf d'"
  using assms by (fastforce simp: outbox_wf_def appended_rows_def)

lemma relay_step_wf: "relay_step cfg a b \<Longrightarrow> outbox_wf (fst a) \<Longrightarrow> outbox_wf (fst b)"
  by (induction rule: relay_step.induct) (auto intro: keeps outbox_wf_appended)

lemma relay_steps_wf: "(relay_step cfg)\<^sup>*\<^sup>* a b \<Longrightarrow> outbox_wf (fst a) \<Longrightarrow> outbox_wf (fst b)"
  by (induction rule: rtranclp_induct) (auto intro: relay_step_wf)

lemma marked_rows:
  assumes "q \<in> set (outbox d)"
  shows "(if outbox_id q = oid then q\<lparr>published_at := Some (db_now d), last_error := None\<rparr> else q)
      \<in> set (outbox (mark_published oid d))"
    and "(if outbox_id q = oid then q\<lparr>attempts := attempts q + 1, last_error := Some err\<rparr> else q)
      \<in> set (outbox (mark_failed oid err d))"
  using assms by (auto simp: mark_published_def mark_failed_def in_sql_update)

lemma marked_row_evolves:
  assumes "outbox_wf d" "row \<in> set (outbox d)" "eligible m row" "q \<in> set (outbox d)"
  shows "\<exists>r\<in>set (outbox (mark_published (outbox_id row) d)). row_evolves m q r"
    and "\<exists>r\<in>set (outbox (mark_failed (outbox_id row) err d)). row_evolves m q r"
proof -
  have "q = row" if "outbox_id q = outbox_id row"
    using outbox_wf_row that assms by blast
  then have evolves: "row_evolves m q (if outbox_id q = outbox_id row
        then q\<lparr>published_at := Some (db_now d), last_error := None\<rparr> else q)"
    "row_evolves m q (if outbox_id q = outbox_id row
        then q\<lparr>attempts := attempts q + 1, last_error := Some err\<rparr> else q)"
    using assms(3) by (auto simp: row_evolves_def eligible_def)
  show "\<exists>r\<in>set (outbox (mark_published (outbox_id row) d)). row_evolves m q r"
    using evolves(1) marked_rows(1) [OF assms(4)] by blast
  show "\<exists>r\<in>set (outbox (mark_failed (outbox_id row) err d)). row_evolves m q r"
    using evolves(2) marked_rows(2) [OF assms(4)] by blast
qed

lemma relay_step_evolves:
  assumes "relay_step cfg a b" "outbox_wf (fst a)" "q \<in> set (outbox (fst a))"
  shows "\<exists>r\<in>set (outbox (fst b)). row_evolves (outbox_max_attempts cfg) q r"
  using assms
  by (induction rule: relay_step.induct)
    (auto simp: marked_row_evolves intro: row_evolves_refl)

lemma relay_steps_evolve:
  assumes "(relay_step cfg)\<^sup>*\<^sup>* a b" "outbox_wf (fst a)" "q \<in> set (outbox (fst a))"
  shows "\<exists>r\<in>set (outbox (fst b)). row_evolves (outbox_max_attempts cfg) q r"
  using assms
proof (induction rule: rtranclp_induct)
  case base
  then show ?case using row_evolves_refl by blast
next
  case (step b c)
  then obtain r where r: "r \<in> set (outbox (fst b))" "row_evolves (outbox_max_attempts cfg) q r"
    by blast
  have "outbox_wf (fst b)" using relay_steps_wf step by blast
  then obtain r' where "r' \<in> set (outbox (fst c))" "row_evolves (outbox_max_attempts cfg) r r'"
    using relay_step_evolves [OF step.hyps(2)] r(1) by blast
  then show ?case using r(2) row_evolves_trans by blast
qed

text \<open>A row that is published is one that was so at the start or one the service accepted.\<close>

definition accounted :: "relay_config \<Rightarrow> nat set \<Rightarrow> db \<times> send_event list \<Rightarrow> bool" where
  "accounted cfg before a \<longleftrightarrow>
     (\<forall>r\<in>set (outbox (fst a)). published_at r \<noteq> None \<longrightarrow>
        outbox_id r \<in> before \<or> accepted cfg (snd a) r)"

lemma accepted_mono: "accepted cfg lg r \<Longrightarrow> accepted cfg (lg @ lg2) r"
  by (auto simp: accepted_def)

lemma accepted_frame [simp]:
  "accepted cfg lg (r\<lparr>published_at := p, last_error := e\<rparr>) = accepted cfg lg r"
  "accepted cfg lg (r\<lparr>attempts := n, last_error := e\<rparr>) = accepted cfg lg r"
  by (simp_all add: accepted_def)

lemma accepted_sent:
  "queue_url cfg (queue_name r) = Some url \<Longrightarrow>
   accepted cfg (lg @ [\<lparr>sent_url = url, sent_body = payload r, sent_error = None\<rparr>]) r"
  by (simp add: accepted_def)

lemma relay_step_accounted:
  assumes "relay_step cfg a b" "outbox_wf (fst a)" "accounted cfg before a"
  shows "accounted cfg before b"
  using assms
proof (induction rule: relay_step.induct)
  case (sent_marked row d url lg)
  show ?case unfolding accounted_def
  proof (intro ballI impI)
    let ?lg = "lg @ [\<lparr>sent_url = url, sent_body = payload row, sent_error = None\<rparr>]"
    fix r assume r: "r \<in> set (outbox (fst (mark_published (outbox_id row) d, ?lg)))"
      "published_at r \<noteq> None"
    then obtain q where q: "q \<in> set (outbox d)"
      "r = (if outbox_id q = outbox_id row
            then q\<lparr>published_at := Some (db_now d), last_error := None\<rparr> else q)"
      by (auto simp: mark_published_def in_sql_update)
    show "outbox_id r \<in> before \<or> accepted cfg (snd (mark_published (outbox_id row) d, ?lg)) r"
    proof (cases "outbox_id q = outbox_id row")
      case True
      then have "q = row" using outbox_wf_row q(1) sent_marked by auto
      then show ?thesis using q(2) accepted_sent sent_marked(3) by simp
    next
      case False
      then show ?thesis
        using q r(2) sent_marked.prems(2) accepted_mono by (auto simp: accounted_def)
    qed
  qed
next
  case (sent_unmarked d lg events)
  then show ?case using accepted_mono by (fastforce simp: accounted_def)
next
  case (refused_marked row d lg err events)
  show ?case unfolding accounted_def
  proof (intro ballI impI)
    fix r assume r: "r \<in> set (outbox (fst (mark_failed (outbox_id row) err d, lg @ events)))"
      "published_at r \<noteq> None"
    then obtain q where q: "q \<in> set (outbox d)"
      "r = (if outbox_id q = outbox_id row
            then q\<lparr>attempts := attempts q + 1, last_error := Some err\<rparr> else q)"
      by (auto simp: mark_failed_def in_sql_update)
    then have "published_at q \<noteq> None" using r(2) by (simp split: if_splits)
    then have "outbox_id q \<in> before \<or> accepted cfg lg q"
      using q(1) refused_marked.prems(2) by (auto simp: accounted_def)
    then show "outbox_id r \<in> before \<or> accepted cfg (snd (mark_failed (outbox_id row) err d, lg @ events)) r"
      using q(2) accepted_mono by (auto split: if_splits)
  qed
next
  case (produced d new d' lg)
  then show ?case by (auto simp: accounted_def appended_rows_def)
qed

lemma relay_steps_accounted:
  assumes "(relay_step cfg)\<^sup>*\<^sup>* a b" "outbox_wf (fst a)" "accounted cfg before a"
  shows "accounted cfg before b"
  using assms
proof (induction rule: rtranclp_induct)
  case (step b c)
  then have "outbox_wf (fst b)" "accounted cfg before b"
    using relay_steps_wf by blast+
  then show ?case using relay_step_accounted step.hyps(2) by blast
qed

section \<open>How far a poll gets\<close>

lemma backoff_delay_bounds: "1 \<le> backoff_delay n" "backoff_delay n \<le> 300"
  by (simp_all add: backoff_delay_def BACKOFF_BASE_SECONDS_def BACKOFF_CAP_SECONDS_def)

lemma backoff_delay_first: "2 \<le> backoff_delay (Suc n)"
proof -
  have "(1 :: rat) \<le> 2 ^ n" by simp
  then show ?thesis by (simp add: backoff_delay_def BACKOFF_BASE_SECONDS_def BACKOFF_CAP_SECONDS_def)
qed

lemma sum_list_strict:
  fixes f g :: "'a \<Rightarrow> nat"
  assumes "\<And>x. x \<in> set xs \<Longrightarrow> f x \<le> g x" "y \<in> set xs" "f y < g y"
  shows "sum_list (map f xs) < sum_list (map g xs)"
  using assms
proof (induction xs)
  case Nil
  then show ?case by simp
next
  case (Cons x xs)
  have tail: "sum_list (map f xs) \<le> sum_list (map g xs)"
    using Cons.prems(1) by (intro sum_list_mono) simp
  show ?case
  proof (cases "y = x")
    case True
    then show ?thesis using tail Cons.prems(3) by simp
  next
    case False
    then have "sum_list (map f xs) < sum_list (map g xs)"
      using Cons by simp
    moreover have "f x \<le> g x" using Cons.prems(1) by simp
    ultimately show ?thesis by simp
  qed
qed

definition quiet :: "relay_env \<Rightarrow> bool" where
  "quiet env \<longleftrightarrow> (\<forall>i. env_fault env i = No_fault \<and> env_locked env i = [])"

text \<open>
  The iterations that rows before row \<open>oid\<close> may still take in a poll: one for a row that is in
  backoff all along, two for a row that may fail first and be met again in backoff.
\<close>

definition row_cost :: "relay_env \<Rightarrow> nat \<Rightarrow> nat \<Rightarrow> nat list \<Rightarrow> backoff_tracker \<Rightarrow> outbox_row \<Rightarrow> nat" where
  "row_cost env m oid skip b q =
     (if \<not> eligible m q \<or> oid \<le> outbox_id q \<or> outbox_id q \<in> set skip then 0
      else if \<forall>i. backoff_blocked b (outbox_id q) (env_monotonic env i) then 1 else 2)"

definition cost_before :: "relay_env \<Rightarrow> nat \<Rightarrow> nat \<Rightarrow> nat list \<Rightarrow> relay_state \<Rightarrow> nat" where
  "cost_before env m oid skip s = sum_list (map (row_cost env m oid skip (rl_backoff s)) (outbox (rl_db s)))"

lemma row_cost_le_2: "row_cost env m oid skip b q \<le> 2"
  by (simp add: row_cost_def)

definition ready :: "relay_env \<Rightarrow> nat \<Rightarrow> nat list \<Rightarrow> outbox_row \<Rightarrow> relay_state \<Rightarrow> bool" where
  "ready env m skip r s \<longleftrightarrow>
     outbox_wf (rl_db s) \<and> r \<in> set (outbox (rl_db s)) \<and> eligible m r \<and> outbox_id r \<notin> set skip \<and>
     (\<forall>i. \<not> backoff_blocked (rl_backoff s) (outbox_id r) (env_monotonic env i))"

definition attempted :: "outbox_row \<Rightarrow> relay_state \<Rightarrow> bool" where
  "attempted r s \<longleftrightarrow>
     (\<exists>q\<in>set (outbox (rl_db s)). outbox_id q = outbox_id r \<and> payload q = payload r \<and>
        (published_at q \<noteq> None \<or> attempts r < attempts q))"

lemma send_row_quiet:
  assumes "quiet env" "send_row cfg env i row s = (it, s')"
  shows "(it = Row_published (outbox_id row) \<and> rl_db s' = mark_published (outbox_id row) (rl_db s) \<and>
            rl_backoff s' = backoff_clear (rl_backoff s) (outbox_id row)) \<or>
         (it = Row_failed (outbox_id row) \<and>
            (\<exists>e. rl_db s' = mark_failed (outbox_id row) e (rl_db s)) \<and>
            rl_backoff s' = after_failure cfg row (env_monotonic env i) (rl_backoff s))"
  using assms by (auto simp: send_row_def quiet_def Let_def split: prod.splits option.splits)

lemma sent_row_attempted:
  assumes "quiet env" "send_row cfg env i r s = (it, s')" "r \<in> set (outbox (rl_db s))"
  shows "attempted r s'"
proof -
  note rows = marked_rows(1) [OF assms(3), of "outbox_id r"]
    marked_rows(2) [OF assms(3), of "outbox_id r"]
  show ?thesis
    using send_row_quiet [OF assms(1,2)]
  proof (elim disjE conjE exE)
    assume "rl_db s' = mark_published (outbox_id r) (rl_db s)"
    then show ?thesis
      using bexI [OF _ rows(1), of "\<lambda>q. outbox_id q = outbox_id r \<and> payload q = payload r \<and>
          (published_at q \<noteq> None \<or> attempts r < attempts q)"]
      by (simp add: attempted_def)
  next
    fix e assume "rl_db s' = mark_failed (outbox_id r) e (rl_db s)"
    then show ?thesis
      using bexI [OF _ rows(2), of "\<lambda>q. outbox_id q = outbox_id r \<and> payload q = payload r \<and>
          (published_at q \<noteq> None \<or> attempts r < attempts q)" e]
      by (simp add: attempted_def)
  qed
qed

lemma attempted_steps:
  assumes "(relay_step cfg)\<^sup>*\<^sup>* (rl_db s, rl_sent s) (rl_db s', rl_sent s')"
    and "outbox_wf (rl_db s)" "attempted r s"
  shows "attempted r s'"
proof -
  obtain q where q: "q \<in> set (outbox (rl_db s))" "outbox_id q = outbox_id r" "payload q = payload r"
    "published_at q \<noteq> None \<or> attempts r < attempts q"
    using assms(3) by (auto simp: attempted_def)
  obtain q' where q': "q' \<in> set (outbox (rl_db s'))" "row_evolves (outbox_max_attempts cfg) q q'"
    using relay_steps_evolve [OF assms(1)] assms(2) q(1) by auto
  have "q' = q \<or> attempts q \<le> attempts q' \<and> published_at q = None"
    using q'(2) by (auto simp: row_evolves_def eligible_def)
  then show ?thesis
    using q q' by (auto simp: attempted_def row_evolves_def)
qed

lemma deferred_costs_less:
  assumes "q \<in> set (outbox (rl_db s))" "eligible m q" "outbox_id q < oid" "outbox_id q \<notin> set skip"
  shows "cost_before env m oid (skip @ [outbox_id q]) s < cost_before env m oid skip s"
  unfolding cost_before_def
  by (rule sum_list_strict [OF _ assms(1)]) (use assms in \<open>auto simp: row_cost_def\<close>)

lemma after_failure_other:
  "x \<noteq> outbox_id row \<Longrightarrow> after_failure cfg row moment b x = b x"
  by (simp add: after_failure_def backoff_record_failure_def backoff_clear_def Let_def)

lemma after_failure_hot:
  assumes "attempts row + 1 < outbox_max_attempts cfg" "\<forall>i j. env_monotonic env j < env_monotonic env i + 2"
  shows "backoff_blocked (after_failure cfg row (env_monotonic env i) b) (outbox_id row) (env_monotonic env j)"
proof -
  have "env_monotonic env j < env_monotonic env i + 2" using assms(2) by blast
  also have "\<dots> \<le> env_monotonic env i + backoff_delay (attempts row + 1)"
    using backoff_delay_first by simp
  finally show ?thesis
    using assms(1) by (simp add: after_failure_def backoff_record_failure_def backoff_blocked_def Let_def)
qed

lemma row_cost_frame:
  "b' (outbox_id q) = b (outbox_id q) \<Longrightarrow> row_cost env m oid skip b' q = row_cost env m oid skip b q"
  by (simp add: row_cost_def backoff_blocked_def)

lemma row_cost_published:
  "row_cost env m oid skip b (q\<lparr>published_at := Some t, last_error := e\<rparr>) = 0"
  by (simp add: row_cost_def eligible_def)

lemma row_cost_failed:
  assumes "\<forall>i j. env_monotonic env j < env_monotonic env i + 2"
  shows "row_cost env (outbox_max_attempts cfg) oid skip
           (after_failure cfg q (env_monotonic env i) b) (q\<lparr>attempts := attempts q + 1, last_error := e\<rparr>) \<le> 1"
  using after_failure_hot [OF _ assms] by (auto simp: row_cost_def eligible_def)

text \<open>A row before \<open>oid\<close> that is sent, whatever the answer, costs at least one iteration less.\<close>

lemma sum_list_update:
  fixes h :: "'r \<Rightarrow> nat"
  assumes "\<And>x. x \<in> set t \<Longrightarrow> \<not> p x \<Longrightarrow> h' x = h x" "\<And>x. x \<in> set t \<Longrightarrow> p x \<Longrightarrow> h' (f x) < h x"
    and "y \<in> set t" "p y"
  shows "sum_list (map h' (sql_update p f t)) < sum_list (map h t)"
proof -
  have "map h' (sql_update p f t) = map (\<lambda>x. h' (if p x then f x else x)) t"
    by (simp add: sql_update_def)
  moreover have "sum_list (map (\<lambda>x. h' (if p x then f x else x)) t) < sum_list (map h t)"
    using assms by (intro sum_list_strict [OF _ assms(3)]) (auto simp: less_imp_le)
  ultimately show ?thesis by simp
qed

lemma sent_costs_less:
  assumes "quiet env" "\<forall>i j. env_monotonic env j < env_monotonic env i + 2"
    and "outbox_wf (rl_db s)" "row \<in> set (outbox (rl_db s))"
    and "eligible (outbox_max_attempts cfg) row" "outbox_id row < oid" "outbox_id row \<notin> set skip"
    and "\<not> backoff_blocked (rl_backoff s) (outbox_id row) (env_monotonic env i)"
    and "send_row cfg env i row s = (it, s')"
  shows "cost_before env (outbox_max_attempts cfg) oid skip s' < cost_before env (outbox_max_attempts cfg) oid skip s"
proof -
  let ?m = "outbox_max_attempts cfg"
  have same: "q = row" if "q \<in> set (outbox (rl_db s))" "outbox_id q = outbox_id row" for q
    using outbox_wf_row assms(3,4) that by blast
  have two: "row_cost env ?m oid skip (rl_backoff s) row = 2"
    using assms(5-8) by (auto simp: row_cost_def)
  show ?thesis
    using send_row_quiet [OF assms(1,9)]
  proof (elim disjE conjE exE)
    assume "rl_db s' = mark_published (outbox_id row) (rl_db s)"
      "rl_backoff s' = backoff_clear (rl_backoff s) (outbox_id row)"
    then show ?thesis unfolding cost_before_def
      by (simp add: mark_published_def, intro sum_list_update [OF _ _ assms(4)])
        (auto simp: backoff_clear_def row_cost_published two dest!: same intro!: row_cost_frame)
  next
    fix e assume e: "rl_db s' = mark_failed (outbox_id row) e (rl_db s)"
      "rl_backoff s' = after_failure cfg row (env_monotonic env i) (rl_backoff s)"
    have one: "row_cost env ?m oid skip (after_failure cfg row (env_monotonic env i) (rl_backoff s))
        (row\<lparr>attempts := Suc (attempts row), last_error := Some e\<rparr>) < 2"
      using row_cost_failed [OF assms(2), of cfg oid skip row i "rl_backoff s" "Some e"] by simp
    show ?thesis unfolding cost_before_def using e
      by (simp add: mark_failed_def, intro sum_list_update [OF _ _ assms(4)])
        (auto simp: after_failure_other two one dest!: same intro!: row_cost_frame)
  qed
qed

lemma sent_keeps_ready:
  assumes "quiet env" "ready env m skip r s" "row \<in> set (outbox (rl_db s))"
    and "outbox_id row < outbox_id r" "send_row cfg env i row s = (it, s')"
  shows "ready env m skip r s'"
proof -
  have wf: "outbox_wf (rl_db s')" and b: "rl_backoff s' (outbox_id r) = rl_backoff s (outbox_id r)"
    using send_row_quiet [OF assms(1,5)] assms(2,4) keeps
    by (auto simp: ready_def backoff_clear_def after_failure_other)
  have "r \<in> set (outbox (rl_db s'))"
    using send_row_quiet [OF assms(1,5)] assms(2,4)
      marked_rows [of r "rl_db s" "outbox_id row"]
    by (auto simp: ready_def split: if_splits)
  then show ?thesis
    using wf b assms(2) by (simp add: ready_def backoff_blocked_def)
qed

lemma poll_rows_attempts:
  assumes "quiet env" "\<forall>i j. env_monotonic env j < env_monotonic env i + 2"
    and "ready env (outbox_max_attempts cfg) skip r s"
    and "cost_before env (outbox_max_attempts cfg) (outbox_id r) skip s < n"
    and "poll_rows cfg env n i skip stats s = (res, s')"
  shows "attempted r s'"
  using assms(3-5)
proof (induction n arbitrary: i skip stats s)
  case 0
  then show ?case by simp
next
  case (Suc n)
  let ?m = "outbox_max_attempts cfg"
  have cand: "candidate ?m skip (env_locked env i) r" and rin: "r \<in> set (outbox (rl_db s))"
    and wf: "outbox_wf (rl_db s)"
    using Suc.prems(1) assms(1) by (auto simp: ready_def candidate_def quiet_def)
  obtain row where sel: "select_next ?m skip (env_locked env i) (rl_db s) = Some row"
    using select_next_None [OF _ rin] cand by fastforce
  note row = select_next_Some [OF sel]
  have le: "outbox_id row \<le> outbox_id r" using row(3) rin cand by blast
  have el: "eligible ?m row" "outbox_id row \<notin> set skip" using row(2) by (auto simp: candidate_def)
  have fault: "env_fault env i = No_fault" using assms(1) by (simp add: quiet_def)
  show ?case
  proof (cases "backoff_blocked (rl_backoff s) (outbox_id row) (env_monotonic env i)")
    case True
    then have less: "outbox_id row < outbox_id r"
      using le Suc.prems(1) by (metis le_neq_implies_less ready_def)
    have "poll_rows cfg env n (Suc i) (skip @ [outbox_id row])
        (stats\<lparr>ps_skipped_backoff := ps_skipped_backoff stats + 1\<rparr>) s = (res, s')"
      using Suc.prems(3) True sel fault by (simp add: relay_iteration_def)
    moreover have "ready env ?m (skip @ [outbox_id row]) r s"
      using Suc.prems(1) less by (simp add: ready_def)
    moreover have "cost_before env ?m (outbox_id r) (skip @ [outbox_id row]) s < n"
      using deferred_costs_less [OF row(1) el(1) less el(2), of env] Suc.prems(2) by linarith
    ultimately show ?thesis using Suc.IH by blast
  next
    case False
    obtain it s1 where sent: "send_row cfg env i row s = (it, s1)" by fastforce
    then have "it = Row_published (outbox_id row) \<or> it = Row_failed (outbox_id row)"
      using send_row_quiet [OF assms(1) sent] by blast
    then obtain stats' where rest: "poll_rows cfg env n (Suc i) skip stats' s1 = (res, s')"
      using Suc.prems(3) False sel fault sent by (auto simp: relay_iteration_def)
    have step: "relay_step cfg (rl_db s, rl_sent s) (rl_db s1, rl_sent s1)"
      using send_row_step row(1) el(1) sent by blast
    show ?thesis
    proof (cases "outbox_id row = outbox_id r")
      case True
      then have "row = r" using outbox_wf_row wf row(1) rin by blast
      then have "attempted r s1" using sent_row_attempted [OF assms(1) _ rin] sent by simp
      moreover have "outbox_wf (rl_db s1)" using relay_step_wf [OF step] wf by simp
      ultimately show ?thesis using attempted_steps poll_rows_steps [OF rest] by blast
    next
      case False
      then have less: "outbox_id row < outbox_id r" using le by simp
      have "cost_before env ?m (outbox_id r) skip s1 < cost_before env ?m (outbox_id r) skip s"
        by (rule sent_costs_less [OF assms(1,2) wf row(1) el(1) less el(2) _ sent])
          (use \<open>\<not> backoff_blocked (rl_backoff s) (outbox_id row) (env_monotonic env i)\<close> in simp)
      moreover have "ready env ?m skip r s1"
        by (rule sent_keeps_ready [OF assms(1) Suc.prems(1) row(1) less sent])
      moreover have "cost_before env ?m (outbox_id r) skip s1 < n"
        using calculation(1) Suc.prems(2) by linarith
      ultimately show ?thesis using Suc.IH rest by blast
    qed
  qed
qed

definition rows_before :: "relay_config \<Rightarrow> outbox_row \<Rightarrow> db \<Rightarrow> outbox_row list" where
  "rows_before cfg r d =
     filter (\<lambda>q. eligible (outbox_max_attempts cfg) q \<and> outbox_id q < outbox_id r) (outbox d)"

lemma cost_before_bound:
  "cost_before env (outbox_max_attempts cfg) (outbox_id r) skip s \<le> 2 * length (rows_before cfg r (rl_db s))"
proof -
  have "sum_list (map (row_cost env (outbox_max_attempts cfg) (outbox_id r) skip b) t) \<le>
      2 * length (filter (\<lambda>q. eligible (outbox_max_attempts cfg) q \<and> outbox_id q < outbox_id r) t)" for b t
    by (induction t) (auto simp: row_cost_def)
  then show ?thesis by (simp add: cost_before_def rows_before_def)
qed

text \<open>While every row before \<open>r\<close> is in backoff, an iteration defers the first of those left.\<close>

lemma poll_rows_starved:
  assumes "quiet env" "r \<in> set (outbox (rl_db s))"
    and "\<forall>q\<in>set (rows_before cfg r (rl_db s)). \<forall>i.
           backoff_blocked (rl_backoff s) (outbox_id q) (env_monotonic env i)"
    and "distinct (map outbox_id (rows_before cfg r (rl_db s)))"
    and "length skip + n \<le> length (rows_before cfg r (rl_db s))"
  shows "poll_rows cfg env n i skip stats s =
           (Some (stats\<lparr>ps_skipped_backoff := ps_skipped_backoff stats + n\<rparr>), s)"
  using assms(5)
proof (induction n arbitrary: i skip stats)
  case 0
  then show ?case by simp
next
  case (Suc n)
  let ?m = "outbox_max_attempts cfg"
  let ?B = "rows_before cfg r (rl_db s)"
  have "\<not> set (map outbox_id ?B) \<subseteq> set skip"
    using Suc.prems assms(4) card_mono [of "set skip" "set (map outbox_id ?B)"]
      distinct_card [OF assms(4)] card_length [of skip]
    by (metis List.finite_set add_Suc_right le_trans length_map not_less_eq_eq le_add1)
  then obtain q where q: "q \<in> set ?B" "outbox_id q \<notin> set skip" by auto
  then have cand: "candidate ?m skip (env_locked env i) q" "q \<in> set (outbox (rl_db s))"
    "outbox_id q < outbox_id r"
    using assms(1) by (auto simp: rows_before_def candidate_def quiet_def)
  obtain row where sel: "select_next ?m skip (env_locked env i) (rl_db s) = Some row"
    using select_next_None [OF _ cand(2)] cand(1) by fastforce
  note row = select_next_Some [OF sel]
  have "outbox_id row < outbox_id r" using row(3) [OF cand(2,1)] cand(3) by simp
  then have "row \<in> set ?B" using row(1,2) by (auto simp: rows_before_def candidate_def)
  then have "relay_iteration cfg env i skip s = (Deferred (outbox_id row), s)"
    using sel assms(1,3) by (simp add: relay_iteration_def quiet_def)
  moreover have "length (skip @ [outbox_id row]) + n \<le> length ?B" using Suc.prems by simp
  ultimately show ?case using Suc.IH by simp
qed

lemma reconnect_delay_step:
  "RECONNECT_BASE_SECONDS \<le> d \<Longrightarrow> d \<le> RECONNECT_CAP_SECONDS \<Longrightarrow>
   RECONNECT_BASE_SECONDS \<le> min (d * 2) RECONNECT_CAP_SECONDS \<and>
   min (d * 2) RECONNECT_CAP_SECONDS \<le> RECONNECT_CAP_SECONDS"
  by (simp add: RECONNECT_BASE_SECONDS_def RECONNECT_CAP_SECONDS_def)

lemma reconnect_sleeps:
  assumes "reconnect_and_poll cfg rounds conn_open delay s = (sleeps, s')"
    and "RECONNECT_BASE_SECONDS \<le> delay" "delay \<le> RECONNECT_CAP_SECONDS"
  shows "length sleeps = length rounds \<and>
    (\<forall>t\<in>set sleeps. t = outbox_poll_interval_seconds cfg \<or>
        RECONNECT_BASE_SECONDS \<le> t \<and> t \<le> RECONNECT_CAP_SECONDS)"
  using assms
proof (induction rounds arbitrary: conn_open delay s sleeps)
  case Nil
  then show ?case by simp
next
  case (Cons r rs)
  have base: "RECONNECT_BASE_SECONDS \<le> RECONNECT_BASE_SECONDS"
    "RECONNECT_BASE_SECONDS \<le> RECONNECT_CAP_SECONDS"
    by (simp_all add: RECONNECT_BASE_SECONDS_def RECONNECT_CAP_SECONDS_def)
  obtain t rest c d s1 where "sleeps = t # rest" "reconnect_and_poll cfg rs c d s1 = (rest, s')"
    "t = outbox_poll_interval_seconds cfg \<and> d = RECONNECT_BASE_SECONDS \<or>
     t = delay \<and> d = min (delay * 2) RECONNECT_CAP_SECONDS"
    using Cons.prems(1) by (auto simp: Let_def split: if_splits option.splits prod.splits)
  then show ?case
    using Cons.IH [of c d s1 rest] Cons.prems(2,3) reconnect_delay_step [OF Cons.prems(2,3)] base
    by auto
qed

section \<open>Claims\<close>

text \<open>
  C31. Published means accepted. However the relay runs (any sequence of polls, sends that fail, lost
  connections before or after a commit, reconnects, other relays holding rows, producers adding
  rows in between), every row that ends marked as published was marked before the run began, or the
  queue service accepted, in this run, its payload on the URL of its queue.
\<close>

theorem relay_publishes_only_accepted:
  assumes "outbox_wf d" "\<forall>r\<in>set rounds. only_appends (round_before r)"
    and "run_relay cfg rounds d = (sleeps, s')"
    and "r \<in> set (outbox (rl_db s'))" "published_at r \<noteq> None"
  shows "(\<exists>q\<in>set (outbox d). outbox_id q = outbox_id r \<and> published_at q \<noteq> None) \<or>
    accepted cfg (rl_sent s') r"
proof -
  let ?before = "outbox_id ` {q \<in> set (outbox d). published_at q \<noteq> None}"
  have steps: "(relay_step cfg)\<^sup>*\<^sup>* (d, []) (rl_db s', rl_sent s')"
    using reconnect_steps [OF assms(2) assms(3) [unfolded run_relay_def]] by simp
  have "accounted cfg ?before (rl_db s', rl_sent s')"
    by (rule relay_steps_accounted [OF steps]) (use assms(1) in \<open>auto simp: accounted_def\<close>)
  then show ?thesis using assms(4,5) by (fastforce simp: accounted_def)
qed

text \<open>
  C32. No row is lost or rewritten. Every row that is in the outbox when the relay starts is there at the
  end with its id, queue, payload and time of creation; a row that was published, or dead (its
  attempts at the maximum), is untouched; and the attempts of any other only grow and never pass the
  configured maximum.
\<close>

theorem relay_keeps_every_row:
  assumes "outbox_wf d" "\<forall>r\<in>set rounds. only_appends (round_before r)"
    and "run_relay cfg rounds d = (sleeps, s')" "q \<in> set (outbox d)"
  shows "\<exists>r\<in>set (outbox (rl_db s')).
    outbox_id r = outbox_id q \<and> queue_name r = queue_name q \<and> payload r = payload q \<and>
    ob_created_at r = ob_created_at q \<and>
    (published_at q \<noteq> None \<or> outbox_max_attempts cfg \<le> attempts q \<longrightarrow> r = q) \<and>
    attempts q \<le> attempts r \<and> attempts r \<le> max (attempts q) (outbox_max_attempts cfg)"
proof -
  have steps: "(relay_step cfg)\<^sup>*\<^sup>* (d, []) (rl_db s', rl_sent s')"
    using reconnect_steps [OF assms(2) assms(3) [unfolded run_relay_def]] by simp
  show ?thesis
    using relay_steps_evolve [OF steps] assms(1,4)
    by (auto simp: row_evolves_def eligible_def not_less)
qed

text \<open>
  A failing row does not stall the rows behind it, within a bound: in a poll on a healthy connection
  whose clock moves by less than two seconds (the shortest backoff), a row that may be sent and is in
  no backoff is attempted (published, or its failure counted) whenever twice the number of unpublished
  live rows before it is below the batch size. Twice, because a row that fails is met again, in
  backoff, in the next iteration.
\<close>

theorem relay_poll_attempts_ready_row:
  assumes "quiet env" "\<forall>i j. env_monotonic env j < env_monotonic env i + 2"
    and "outbox_wf (rl_db s)" "r \<in> set (outbox (rl_db s))"
    and "eligible (outbox_max_attempts cfg) r"
    and "\<forall>i. \<not> backoff_blocked (rl_backoff s) (outbox_id r) (env_monotonic env i)"
    and "2 * length (rows_before cfg r (rl_db s)) < outbox_batch_size cfg"
    and "poll_once cfg env s = (res, s')"
  shows "attempted r s'"
proof (rule poll_rows_attempts [OF assms(1,2) _ _ assms(8) [unfolded poll_once_def]])
  show "ready env (outbox_max_attempts cfg) [] r s"
    using assms(3-6) by (simp add: ready_def)
  show "cost_before env (outbox_max_attempts cfg) (outbox_id r) [] s < outbox_batch_size cfg"
    using cost_before_bound assms(7) by (rule le_less_trans)
qed

text \<open>
  Beyond that bound it does: rows waiting in backoff use up the batch. When at least a batch of live
  rows before \<open>r\<close> are in backoff, a poll sends nothing at all and leaves \<open>r\<close>, however ready it is,
  untouched. The module says that a row whose send fails does not stall the rest of the batch.
\<close>

theorem relay_backoff_rows_starve_the_rest:
  assumes "quiet env" "outbox_wf (rl_db s)" "r \<in> set (outbox (rl_db s))"
    and "\<forall>q\<in>set (rows_before cfg r (rl_db s)). \<forall>i.
           backoff_blocked (rl_backoff s) (outbox_id q) (env_monotonic env i)"
    and "outbox_batch_size cfg \<le> length (rows_before cfg r (rl_db s))"
  shows "poll_once cfg env s =
    (Some \<lparr>ps_published = 0, ps_failed = 0, ps_skipped_backoff = outbox_batch_size cfg\<rparr>, s)"
proof -
  have "distinct (map outbox_id (rows_before cfg r (rl_db s)))"
    using assms(2) by (simp add: outbox_wf_def rows_before_def distinct_map_filter)
  then show ?thesis
    using poll_rows_starved [OF assms(1,3,4), of "[]" "outbox_batch_size cfg" 0 no_stats] assms(5)
    by (simp add: poll_once_def no_stats_def)
qed

text \<open>
  The relay's waits are bounded: between two turns it sleeps the poll interval, or, after a lost
  connection, between one and thirty seconds; and it sleeps exactly once per turn, so it never spins.
\<close>

theorem relay_sleeps_bounded:
  assumes "run_relay cfg rounds d = (sleeps, s')"
  shows "length sleeps = length rounds \<and>
    (\<forall>t\<in>set sleeps. t = outbox_poll_interval_seconds cfg \<or> 1 \<le> t \<and> t \<le> 30)"
  using reconnect_sleeps [OF assms [unfolded run_relay_def]]
  by (simp add: RECONNECT_BASE_SECONDS_def RECONNECT_CAP_SECONDS_def)

section \<open>Witnesses\<close>

definition demo_outbox_row :: "nat \<Rightarrow> string \<Rightarrow> nat \<Rightarrow> outbox_row" where
  "demo_outbox_row oid q n =
     \<lparr>outbox_id = oid, queue_name = q, payload = \<lparr>event = ''search.requested'', payload_id = oid\<rparr>,
      ob_created_at = 0, published_at = None, attempts = n, last_error = None\<rparr>"

definition demo_outbox_db :: db where
  "demo_outbox_db = empty_db\<lparr>db_serial := 3,
     outbox := [demo_outbox_row 0 ''nowhere'' 0, demo_outbox_row 1 QUEUE_SEARCH_RUNS 0,
       demo_outbox_row 2 QUEUE_SEARCH_RUNS 8]\<rparr>"

definition demo_relay_config :: "nat \<Rightarrow> relay_config" where
  "demo_relay_config batch = \<lparr>outbox_batch_size = batch, outbox_max_attempts = 8,
     outbox_poll_interval_seconds = 1, sqs_identity_index_url = ''i'', sqs_search_runs_url = ''s'',
     sqs_confirm_hits_url = ''c''\<rparr>"

definition demo_relay_env :: relay_env where
  "demo_relay_env = \<lparr>env_monotonic = (\<lambda>_. 0), env_locked = (\<lambda>_. []), env_fault = (\<lambda>_. No_fault),
     env_sqs = (\<lambda>_ _ _. None)\<rparr>"

definition demo_rounds :: "relay_round list" where
  "demo_rounds = [\<lparr>round_connects = True, round_env = demo_relay_env,
     round_before = insert_all QUEUE_SEARCH_RUNS []\<rparr>]"

lemmas demo_relay_defs = demo_outbox_row_def demo_outbox_db_def demo_relay_config_def
  demo_relay_env_def demo_rounds_def empty_db_def QUEUE_IDENTITY_INDEX_def QUEUE_SEARCH_RUNS_def
  QUEUE_CONFIRM_HITS_def

lemma demo_outbox_wf: "outbox_wf demo_outbox_db"
  by (simp add: outbox_wf_def demo_relay_defs)

lemma demo_rounds_append: "\<forall>r\<in>set demo_rounds. only_appends (round_before r)"
  using enqueued.produce_only_appends [of "(QUEUE_SEARCH_RUNS, [])"] by (simp add: demo_rounds_def)

lemma demo_relay_quiet: "quiet demo_relay_env"
  by (simp add: quiet_def demo_relay_env_def)

lemmas relay_ops = run_relay_def poll_once_def relay_iteration_def select_next_def eligible_def
  backoff_blocked_def send_row_def deliver_def queue_url_def mark_failed_def mark_published_def
  after_failure_def backoff_record_failure_def backoff_clear_def backoff_delay_def
  BACKOFF_BASE_SECONDS_def BACKOFF_CAP_SECONDS_def no_stats_def insert_all_def eval_nat_numeral

lemma demo_relay_run:
  obtains s' r where "run_relay (demo_relay_config 4) demo_rounds demo_outbox_db = ([1], s')"
    "r \<in> set (outbox (rl_db s'))" "published_at r \<noteq> None"
proof
  let ?run = "run_relay (demo_relay_config 4) demo_rounds demo_outbox_db"
  show "?run = ([1], snd ?run)"
    by (simp add: relay_ops demo_relay_defs)
  show "(demo_outbox_row 1 QUEUE_SEARCH_RUNS 0)\<lparr>published_at := Some 0\<rparr>
      \<in> set (outbox (rl_db (snd ?run)))"
    by (simp add: relay_ops demo_relay_defs)
qed (simp add: demo_outbox_row_def)

theorem relay_publishes_only_accepted_witness:
  "\<exists>s' r. run_relay (demo_relay_config 4) demo_rounds demo_outbox_db = ([1], s') \<and>
     r \<in> set (outbox (rl_db s')) \<and> published_at r \<noteq> None \<and> accepted (demo_relay_config 4) (rl_sent s') r"
proof -
  obtain s' r where run: "run_relay (demo_relay_config 4) demo_rounds demo_outbox_db = ([1], s')"
    and r: "r \<in> set (outbox (rl_db s'))" "published_at r \<noteq> None"
    using demo_relay_run by blast
  have "\<not> (\<exists>q\<in>set (outbox demo_outbox_db). outbox_id q = outbox_id r \<and> published_at q \<noteq> None)"
    by (simp add: demo_relay_defs)
  then show ?thesis
    using relay_publishes_only_accepted [OF demo_outbox_wf demo_rounds_append run r] run r by blast
qed

theorem relay_keeps_every_row_witness:
  "\<exists>s'. run_relay (demo_relay_config 4) demo_rounds demo_outbox_db = ([1], s') \<and>
     demo_outbox_row 2 QUEUE_SEARCH_RUNS 8 \<in> set (outbox (rl_db s'))"
proof -
  obtain s' where run: "run_relay (demo_relay_config 4) demo_rounds demo_outbox_db = ([1], s')"
    using demo_relay_run by blast
  have "demo_outbox_row 2 QUEUE_SEARCH_RUNS 8 \<in> set (outbox demo_outbox_db)"
    "outbox_max_attempts (demo_relay_config 4) \<le> attempts (demo_outbox_row 2 QUEUE_SEARCH_RUNS 8)"
    by (simp_all add: demo_relay_defs)
  then show ?thesis
    using relay_keeps_every_row [OF demo_outbox_wf demo_rounds_append run] run by fastforce
qed

definition demo_relay_state :: "backoff_tracker \<Rightarrow> relay_state" where
  "demo_relay_state b = \<lparr>rl_db = demo_outbox_db, rl_backoff = b, rl_sent = []\<rparr>"

definition demo_ready_row :: outbox_row where
  "demo_ready_row = demo_outbox_row 1 QUEUE_SEARCH_RUNS 0"

lemma demo_rows_before:
  "rows_before (demo_relay_config n) demo_ready_row demo_outbox_db =
     [demo_outbox_row 0 ''nowhere'' 0]"
  by (simp add: rows_before_def eligible_def demo_outbox_db_def demo_ready_row_def)
    (simp add: demo_outbox_row_def demo_relay_config_def)

lemma demo_row_ready:
  "demo_ready_row \<in> set (outbox demo_outbox_db)"
  "eligible (outbox_max_attempts (demo_relay_config n)) demo_ready_row"
  "published_at demo_ready_row = None" "outbox_id demo_ready_row = 1"
  by (simp_all add: demo_ready_row_def demo_outbox_db_def eligible_def demo_outbox_row_def
      demo_relay_config_def)

theorem relay_poll_attempts_ready_row_witness:
  "attempted demo_ready_row
     (snd (poll_once (demo_relay_config 4) demo_relay_env (demo_relay_state Map.empty)))"
proof (rule relay_poll_attempts_ready_row [OF demo_relay_quiet])
  show "2 * length (rows_before (demo_relay_config 4) demo_ready_row
      (rl_db (demo_relay_state Map.empty))) < outbox_batch_size (demo_relay_config 4)"
    by (simp add: demo_relay_state_def demo_rows_before) (simp add: demo_relay_config_def)
  show "poll_once (demo_relay_config 4) demo_relay_env (demo_relay_state Map.empty) =
      (fst (poll_once (demo_relay_config 4) demo_relay_env (demo_relay_state Map.empty)),
       snd (poll_once (demo_relay_config 4) demo_relay_env (demo_relay_state Map.empty)))"
    by simp
qed (simp_all add: demo_relay_state_def demo_outbox_wf demo_row_ready backoff_blocked_def
      demo_relay_env_def)

theorem relay_backoff_rows_starve_the_rest_witness:
  "poll_once (demo_relay_config 1) demo_relay_env (demo_relay_state [0 \<mapsto> 5]) =
     (Some \<lparr>ps_published = 0, ps_failed = 0, ps_skipped_backoff = outbox_batch_size (demo_relay_config 1)\<rparr>,
      demo_relay_state [0 \<mapsto> 5])"
proof (rule relay_backoff_rows_starve_the_rest [OF demo_relay_quiet, of _ demo_ready_row])
  show "\<forall>q\<in>set (rows_before (demo_relay_config 1) demo_ready_row (rl_db (demo_relay_state [0 \<mapsto> 5]))).
      \<forall>i. backoff_blocked (rl_backoff (demo_relay_state [0 \<mapsto> 5])) (outbox_id q)
            (env_monotonic demo_relay_env i)"
    by (simp add: demo_relay_state_def demo_rows_before)
      (simp add: demo_outbox_row_def backoff_blocked_def demo_relay_env_def)
  show "outbox_batch_size (demo_relay_config 1) \<le>
      length (rows_before (demo_relay_config 1) demo_ready_row (rl_db (demo_relay_state [0 \<mapsto> 5])))"
    by (simp add: demo_relay_state_def demo_rows_before) (simp add: demo_relay_config_def)
qed (simp_all add: demo_relay_state_def demo_outbox_wf demo_row_ready)

theorem relay_sleeps_bounded_witness:
  "\<exists>s'. run_relay (demo_relay_config 4)
     (replicate 3 \<lparr>round_connects = False, round_env = demo_relay_env, round_before = (\<lambda>d. d)\<rparr>)
     demo_outbox_db = ([1, 2, 4], s') \<and> (\<forall>t\<in>{1, 2, 4 :: rat}. 1 \<le> t \<and> t \<le> 30)"
proof -
  let ?rounds = "replicate 3 \<lparr>round_connects = False, round_env = demo_relay_env, round_before = (\<lambda>d. d)\<rparr>"
  obtain s' where run: "run_relay (demo_relay_config 4) ?rounds demo_outbox_db = ([1, 2, 4], s')"
    by (simp add: run_relay_def eval_nat_numeral RECONNECT_BASE_SECONDS_def RECONNECT_CAP_SECONDS_def)
  then show ?thesis
    using relay_sleeps_bounded [OF run] by (auto simp: demo_relay_config_def)
qed

end
