(* ===== verification/Egress.thy ===== *)
theory Egress
  imports Urlhash Database
begin

text \<open>
  The egress guard of \<^verbatim>\<open>src/imageshield/recheck/ssrf.py\<close>, which the recheck loop and the
  fetcher put before every request, with the parts of the Python 3.11 library it rests on: the
  parser and the special-purpose tables of \<^verbatim>\<open>ipaddress\<close>, and \<^verbatim>\<open>urljoin\<close> for the
  \<^verbatim>\<open>Location\<close> of a redirect.
\<close>

section \<open>ipaddress\<close>

datatype ip = IPv4 nat | IPv6 nat

definition parse_octet :: "string \<Rightarrow> nat option" where
  "parse_octet s =
     (if s = [] \<or> \<not> list_all is_digit s \<or> length s > 3 \<or> (s \<noteq> ''0'' \<and> hd s = CHR ''0'')
      then None
      else let n = digits_value s in if n > 255 then None else Some n)"

fun all_some :: "'a option list \<Rightarrow> 'a list option" where
  "all_some [] = Some []"
| "all_some (x # xs) =
     (case x of None \<Rightarrow> None
      | Some v \<Rightarrow> (case all_some xs of None \<Rightarrow> None | Some vs \<Rightarrow> Some (v # vs)))"

definition from_digits :: "nat \<Rightarrow> nat list \<Rightarrow> nat" where
  "from_digits base ds = foldl (\<lambda>n d. base * n + d) 0 ds"

definition parse_ipv4 :: "string \<Rightarrow> nat option" where
  "parse_ipv4 s =
     (let octets = split_on CHR ''.'' s in
      if s = [] \<or> CHR ''/'' \<in> set s \<or> length octets \<noteq> 4 then None
      else map_option (from_digits 256) (all_some (map parse_octet octets)))"

definition parse_hextet :: "string \<Rightarrow> nat option" where
  "parse_hextet s =
     (case all_some (map hex_value s) of
        None \<Rightarrow> None
      | Some ds \<Rightarrow> if length s > 4 \<or> s = [] then None else Some (from_digits 16 ds))"

fun hex_text :: "nat \<Rightarrow> string" where
  "hex_text n = (if n < 16 then [hex_digit n] else hex_text (n div 16) @ [hex_digit (n mod 16)])"

declare hex_text.simps [simp del]

text \<open>An IPv4 suffix becomes two groups.\<close>

definition expand_ipv4_suffix :: "string list \<Rightarrow> string list option" where
  "expand_ipv4_suffix parts =
     (if CHR ''.'' \<in> set (last parts)
      then map_option (\<lambda>n. butlast parts @ [hex_text (n div 65536 mod 65536), hex_text (n mod 65536)])
             (parse_ipv4 (last parts))
      else Some parts)"

definition hextets :: "string list \<Rightarrow> nat \<Rightarrow> string list \<Rightarrow> nat option" where
  "hextets hi skipped lo =
     map_option (from_digits 65536) (all_some (map parse_hextet hi @ replicate skipped (Some 0) @ map parse_hextet lo))"

text \<open>The indices of the empty groups strictly inside the list: the places of \<^verbatim>\<open>::\<close>.\<close>

definition inner_empties :: "string list \<Rightarrow> nat list" where
  "inner_empties parts = filter (\<lambda>i. parts ! i = []) [1..<length parts - 1]"

definition groups_value :: "string list \<Rightarrow> nat option" where
  "groups_value parts =
     (case inner_empties parts of
        [] \<Rightarrow>
          if length parts \<noteq> 8 \<or> hd parts = [] \<or> last parts = [] then None
          else hextets parts 0 []
      | [i] \<Rightarrow>
          let hi = (if hd parts = [] then i - 1 else i);
              after_skip = length parts - i - 1;
              lo = (if last parts = [] then after_skip - 1 else after_skip)
          in if (hd parts = [] \<and> hi > 0) \<or> (last parts = [] \<and> lo > 0) \<or> hi + lo \<ge> 8 then None
             else hextets (take hi parts) (8 - (hi + lo)) (drop (length parts - lo) parts)
      | _ \<Rightarrow> None)"

definition parse_ipv6_groups :: "string \<Rightarrow> nat option" where
  "parse_ipv6_groups s =
     (let parts = split_on CHR '':'' s in
      if s = [] \<or> length parts < 3 then None
      else (case expand_ipv4_suffix parts of
              None \<Rightarrow> None
            | Some parts' \<Rightarrow> if length parts' > 9 then None else groups_value parts'))"

text \<open>A scope id is dropped; an empty one, or a second percent sign, is an error.\<close>

definition parse_ipv6 :: "string \<Rightarrow> nat option" where
  "parse_ipv6 s =
     (if CHR ''/'' \<in> set s then None
      else if CHR ''%'' \<in> set s
      then (let scope = after CHR ''%'' s in
            if scope = [] \<or> CHR ''%'' \<in> set scope then None else parse_ipv6_groups (before CHR ''%'' s))
      else parse_ipv6_groups s)"

definition ip_address :: "string \<Rightarrow> ip option" where
  "ip_address s =
     (case parse_ipv4 s of
        Some n \<Rightarrow> Some (IPv4 n)
      | None \<Rightarrow> map_option IPv6 (parse_ipv6 s))"

definition in_network :: "nat \<Rightarrow> nat \<Rightarrow> nat \<times> nat \<Rightarrow> bool" where
  "in_network width n = (\<lambda>(net, prefix). n div 2 ^ (width - prefix) = net div 2 ^ (width - prefix))"

definition v4 :: "nat \<Rightarrow> nat \<Rightarrow> nat \<Rightarrow> nat \<Rightarrow> nat" where
  "v4 a b c d = from_digits 256 [a, b, c, d]"

definition v4_private :: "(nat \<times> nat) list" where
  "v4_private = [(v4 0 0 0 0, 8), (v4 10 0 0 0, 8), (v4 127 0 0 0, 8), (v4 169 254 0 0, 16),
     (v4 172 16 0 0, 12), (v4 192 0 0 0, 24), (v4 192 0 0 170, 31), (v4 192 0 2 0, 24),
     (v4 192 168 0 0, 16), (v4 198 18 0 0, 15), (v4 198 51 100 0, 24), (v4 203 0 113 0, 24),
     (v4 240 0 0 0, 4), (v4 255 255 255 255, 32)]"

definition v4_exceptions :: "(nat \<times> nat) list" where
  "v4_exceptions = [(v4 192 0 0 9, 32), (v4 192 0 0 10, 32)]"

definition v6 :: "nat list \<Rightarrow> nat list \<Rightarrow> nat" where
  "v6 hi lo = from_digits 65536 (hi @ replicate (8 - (length hi + length lo)) 0 @ lo)"

definition v6_private :: "(nat \<times> nat) list" where
  "v6_private = [(v6 [] [1], 128), (v6 [] [], 128), (v6 [] [0xffff, 0, 0], 96),
     (v6 [0x64, 0xff9b, 1] [], 48), (v6 [0x100] [], 64), (v6 [0x2001] [], 23),
     (v6 [0x2001, 0xdb8] [], 32), (v6 [0x2002] [], 16), (v6 [0xfc00] [], 7), (v6 [0xfe80] [], 10)]"

definition v6_exceptions :: "(nat \<times> nat) list" where
  "v6_exceptions = [(v6 [0x2001, 1] [1], 128), (v6 [0x2001, 1] [2], 128), (v6 [0x2001, 3] [], 32),
     (v6 [0x2001, 4, 0x112] [], 48), (v6 [0x2001, 0x20] [], 28), (v6 [0x2001, 0x30] [], 28)]"

definition is_private_v4 :: "nat \<Rightarrow> bool" where
  "is_private_v4 n \<longleftrightarrow>
     list_ex (in_network 32 n) v4_private \<and> \<not> list_ex (in_network 32 n) v4_exceptions"

definition ipv4_mapped :: "nat \<Rightarrow> nat option" where
  "ipv4_mapped n = (if n div 2 ^ 32 = 0xffff then Some (n mod 2 ^ 32) else None)"

definition is_private_v6 :: "nat \<Rightarrow> bool" where
  "is_private_v6 n \<longleftrightarrow>
     (case ipv4_mapped n of
        Some m \<Rightarrow> is_private_v4 m
      | None \<Rightarrow>
          list_ex (in_network 128 n) v6_private \<and> \<not> list_ex (in_network 128 n) v6_exceptions)"

fun is_global :: "ip \<Rightarrow> bool" where
  "is_global (IPv4 n) \<longleftrightarrow> \<not> in_network 32 n (v4 100 64 0 0, 10) \<and> \<not> is_private_v4 n"
| "is_global (IPv6 n) \<longleftrightarrow> \<not> is_private_v6 n"

section \<open>The guard\<close>

definition host_of :: "host_lib \<Rightarrow> string \<Rightarrow> string option" where
  "host_of lib url =
     (case urlsplit lib url of
        None \<Rightarrow> None
      | Some parts \<Rightarrow>
          if py_lower (sr_scheme parts) \<notin> {''http'', ''https''} then None
          else map_option py_lower (sr_hostname parts))"

text \<open>
  What resolving a name does: addresses, \<^verbatim>\<open>OSError\<close>, or another exception (the IDNA codec
  raises \<^verbatim>\<open>UnicodeError\<close>).  The result is the exception, or the reason to refuse if there is one.
\<close>

datatype resolved = Addresses "string list" | OS_error | Resolve_raised exn

fun address_verdict :: "string list \<Rightarrow> string option" where
  "address_verdict [] = None"
| "address_verdict (a # rest) =
     (case ip_address a of
        None \<Rightarrow> Some ''unparseable_address''
      | Some p \<Rightarrow> if \<not> is_global p then Some ''private_address'' else address_verdict rest)"

definition address_refusal :: "host_lib \<Rightarrow> string \<Rightarrow> (string \<Rightarrow> resolved) \<Rightarrow> exn + string option" where
  "address_refusal lib url resolver =
     (case host_of lib url of
        None \<Rightarrow> Inr (Some ''not_an_http_url'')
      | Some host \<Rightarrow>
          (case resolver host of
             OS_error \<Rightarrow> Inr (Some ''dns_failure'')
           | Resolve_raised e \<Rightarrow> Inl e
           | Addresses addresses \<Rightarrow>
               if addresses = [] then Inr (Some ''dns_empty'') else Inr (address_verdict addresses)))"

definition refusal_reason ::
  "host_lib \<Rightarrow> string \<Rightarrow> string list \<Rightarrow> (string \<Rightarrow> resolved) \<Rightarrow> exn + string option" where
  "refusal_reason lib url allowed_domains resolver =
     (case host_of lib url of
        None \<Rightarrow> Inr (Some ''not_an_http_url'')
      | Some host \<Rightarrow>
          if host \<notin> set allowed_domains then Inr (Some ''domain_not_allowlisted'')
          else address_refusal lib url resolver)"

section \<open>urljoin\<close>

definition USES_RELATIVE :: "string list" where
  "USES_RELATIVE = [[], ''ftp'', ''http'', ''gopher'', ''nntp'', ''imap'', ''wais'', ''file'',
     ''https'', ''shttp'', ''mms'', ''prospero'', ''rtsp'', ''rtsps'', ''rtspu'', ''sftp'', ''svn'',
     ''svn+ssh'', ''ws'', ''wss'']"

definition USES_NETLOC :: "string list" where
  "USES_NETLOC = [[], ''ftp'', ''http'', ''gopher'', ''nntp'', ''telnet'', ''imap'', ''wais'',
     ''file'', ''mms'', ''https'', ''shttp'', ''snews'', ''prospero'', ''rtsp'', ''rtsps'', ''rtspu'',
     ''rsync'', ''svn'', ''svn+ssh'', ''sftp'', ''nfs'', ''git'', ''git+ssh'', ''ws'', ''wss'']"

definition USES_PARAMS :: "string list" where
  "USES_PARAMS = [[], ''ftp'', ''hdl'', ''prospero'', ''http'', ''imap'', ''https'', ''shttp'',
     ''rtsp'', ''rtsps'', ''rtspu'', ''sip'', ''sips'', ''mms'', ''sftp'', ''tel'']"

record parse_result =
  up_scheme :: string
  up_netloc :: string
  up_path :: string
  up_params :: string
  up_query :: string
  up_fragment :: string

definition url_fragment :: "string \<Rightarrow> string" where
  "url_fragment u =
     (let rest = snd (split_scheme (filter (\<lambda>c. \<not> unsafe_char c) (dropWhile c0_or_space u)));
          tail = (if starts_with ''//'' rest then dropWhile (\<lambda>c. \<not> netloc_end c) (drop 2 rest) else rest)
      in after CHR ''#'' tail)"

text \<open>\<^verbatim>\<open>_splitparams\<close>: the first semicolon after the last slash.\<close>

definition split_params :: "string \<Rightarrow> string \<times> string" where
  "split_params path =
     (let name = after_last CHR ''/'' path; dir = take (length path - length name) path
      in (dir @ before CHR '';'' name, after CHR '';'' name))"

definition urlparse :: "host_lib \<Rightarrow> string \<Rightarrow> string \<Rightarrow> parse_result option" where
  "urlparse lib default_scheme u =
     (case urlsplit lib u of
        None \<Rightarrow> None
      | Some parts \<Rightarrow>
          let scheme = (if sr_scheme parts = [] then default_scheme else sr_scheme parts);
              (path, params) = (if scheme \<in> set USES_PARAMS then split_params (sr_path parts)
                                else (sr_path parts, []))
          in Some \<lparr>up_scheme = scheme, up_netloc = sr_netloc parts, up_path = path,
                   up_params = params, up_query = sr_query parts, up_fragment = url_fragment u\<rparr>)"

definition urlunparse :: "parse_result \<Rightarrow> string" where
  "urlunparse p =
     (let path = (if up_params p = [] then up_path p else up_path p @ '';'' @ up_params p);
          u1 = (if up_netloc p \<noteq> [] \<or> (up_scheme p \<noteq> [] \<and> up_scheme p \<in> set USES_NETLOC) \<or>
                   starts_with ''//'' path
                then ''//'' @ up_netloc p @ (if path \<noteq> [] \<and> hd path \<noteq> CHR ''/'' then CHR ''/'' # path else path)
                else path);
          u2 = (if up_scheme p = [] then u1 else up_scheme p @ '':'' @ u1);
          u3 = (if up_query p = [] then u2 else u2 @ ''?'' @ up_query p)
      in if up_fragment p = [] then u3 else u3 @ ''#'' @ up_fragment p)"

definition join_step :: "string \<Rightarrow> string list \<Rightarrow> string list" where
  "join_step seg out =
     (if seg = ''..'' then butlast out else if seg = ''.'' then out else out @ [seg])"

definition joined_path :: "string \<Rightarrow> string \<Rightarrow> string" where
  "joined_path base_path path =
     (let parts = split_on CHR ''/'' base_path;
          base_parts = (if last parts \<noteq> [] then butlast parts else parts);
          together = base_parts @ split_on CHR ''/'' path;
          segments =
            (if starts_with ''/'' path then split_on CHR ''/'' path
             else if length together \<le> 2 then together
             else hd together # filter (\<lambda>s. s \<noteq> []) (butlast (tl together)) @ [last together]);
          out = fold join_step segments [];
          out' = (if last segments \<in> {''.'', ''..''} then out @ [[]] else out);
          text = join_with CHR ''/'' out'
      in if text = [] then ''/'' else text)"

text \<open>The option is \<^verbatim>\<open>ValueError\<close>.\<close>

definition urljoin :: "host_lib \<Rightarrow> string \<Rightarrow> string \<Rightarrow> string option" where
  "urljoin lib base url =
     (if base = [] then Some url
      else if url = [] then Some base
      else (case urlparse lib [] base of
              None \<Rightarrow> None
            | Some b \<Rightarrow>
                (case urlparse lib (up_scheme b) url of
                   None \<Rightarrow> None
                 | Some u \<Rightarrow>
                     if up_scheme u \<noteq> up_scheme b \<or> up_scheme u \<notin> set USES_RELATIVE then Some url
                     else if up_scheme u \<in> set USES_NETLOC \<and> up_netloc u \<noteq> [] then Some (urlunparse u)
                     else
                       let netloc = (if up_scheme u \<in> set USES_NETLOC then up_netloc b else up_netloc u) in
                       if up_path u = [] \<and> up_params u = []
                       then Some (urlunparse (u\<lparr>up_netloc := netloc, up_path := up_path b,
                              up_params := up_params b,
                              up_query := (if up_query u = [] then up_query b else up_query u)\<rparr>))
                       else Some (urlunparse (u\<lparr>up_netloc := netloc,
                              up_path := joined_path (up_path b) (up_path u)\<rparr>)))))"

end
