(* ===== verification/Recheck.thy ===== *)
theory Recheck
  imports Egress
begin

text \<open>
  The recheck loop of \<^verbatim>\<open>src/imageshield/recheck/\<close>: which status means what
  (\<^verbatim>\<open>policy.py\<close>), the prober that walks redirects by hand (\<^verbatim>\<open>client.py\<close>), the pacer
  (\<^verbatim>\<open>pacer.py\<close>), the store (\<^verbatim>\<open>store.py\<close>) and one pass over a batch (\<^verbatim>\<open>loop.py\<close>).

  The network is a record of two functions of the requests made so far: what a name resolves to,
  and how a host answers a \<^verbatim>\<open>HEAD\<close>.  Every request made is appended to a list, so the claims
  can speak of what left the process.
\<close>

section \<open>Policy\<close>

datatype liveness = Alive | Dead | Unchanged

definition DEAD_STATUSES :: "int list" where
  "DEAD_STATUSES = [404, 410]"

definition verdict_for_status :: "int \<Rightarrow> liveness" where
  "verdict_for_status status =
     (if status \<in> set DEAD_STATUSES then Dead
      else if 500 \<le> status \<and> status \<le> 599 then Unchanged
      else if status = 401 \<or> status = 403 then Alive
      else if 200 \<le> status \<and> status \<le> 399 then Alive
      else Unchanged)"

section \<open>The prober\<close>

record due_infringement =
  du_infringement_id :: uuid
  du_page_url :: string
  du_source_domain :: string

record check_result =
  ck_infringement_id :: uuid
  ck_verdict :: liveness
  ck_status_code :: "int option"
  ck_refused :: "string option"
  ck_redirects :: nat

record head_response =
  hr_status_code :: int
  hr_headers :: "string \<Rightarrow> string option"

text \<open>
  \<^verbatim>\<open>httpx.HTTPError\<close> is the transport error the prober handles; \<^verbatim>\<open>httpx.InvalidURL\<close> and
  anything else is not one.
\<close>

datatype head_answer = Head_response head_response | Transport_error string | Head_raised exn

record network =
  nw_resolve :: "string list \<Rightarrow> string \<Rightarrow> resolved"
  nw_head :: "string list \<Rightarrow> string \<Rightarrow> head_answer"

definition REDIRECT_STATUSES :: "int list" where
  "REDIRECT_STATUSES = [301, 302, 303, 307, 308]"

text \<open>\<^verbatim>\<open>headers.get("location") or headers.get("Location")\<close>; the empty string is falsy.\<close>

definition location_of :: "head_response \<Rightarrow> string" where
  "location_of r =
     (case hr_headers r ''location'' of
        Some (c # l) \<Rightarrow> c # l
      | _ \<Rightarrow> (case hr_headers r ''Location'' of None \<Rightarrow> [] | Some l \<Rightarrow> l))"

definition unchanged_result :: "uuid \<Rightarrow> int option \<Rightarrow> string option \<Rightarrow> nat \<Rightarrow> check_result" where
  "unchanged_result iid status refused hop =
     \<lparr>ck_infringement_id = iid, ck_verdict = Unchanged, ck_status_code = status,
      ck_refused = refused, ck_redirects = hop\<rparr>"

text \<open>
  The loop over the hops: \<open>left\<close> counts down from \<^verbatim>\<open>max_redirects + 1\<close>, \<open>hop\<close> up from 0;
  \<open>reqs\<close> are the requests so far.
\<close>

fun check_hops ::
  "host_lib \<Rightarrow> network \<Rightarrow> string list \<Rightarrow> uuid \<Rightarrow> nat \<Rightarrow> nat \<Rightarrow> nat \<Rightarrow> string \<Rightarrow> string list
     \<Rightarrow> (exn + check_result) \<times> string list" where
  "check_hops lib nw allowed_domains iid max_redirects 0 hop url reqs =
     (Inr (unchanged_result iid None None max_redirects), reqs)"
| "check_hops lib nw allowed_domains iid max_redirects (Suc left) hop url reqs =
     (case refusal_reason lib url allowed_domains (nw_resolve nw reqs) of
        Inl e \<Rightarrow> (Inl e, reqs)
      | Inr (Some refusal) \<Rightarrow> (Inr (unchanged_result iid None (Some refusal) hop), reqs)
      | Inr None \<Rightarrow>
          (case nw_head nw reqs url of
             Head_raised e \<Rightarrow> (Inl e, reqs @ [url])
           | Transport_error _ \<Rightarrow> (Inr (unchanged_result iid None None hop), reqs @ [url])
           | Head_response r \<Rightarrow>
               if hr_status_code r \<notin> set REDIRECT_STATUSES
               then (Inr \<lparr>ck_infringement_id = iid, ck_verdict = verdict_for_status (hr_status_code r),
                       ck_status_code = Some (hr_status_code r), ck_refused = None, ck_redirects = hop\<rparr>,
                     reqs @ [url])
               else if location_of r = []
               then (Inr (unchanged_result iid (Some (hr_status_code r)) None hop), reqs @ [url])
               else (case urljoin lib url (location_of r) of
                       None \<Rightarrow> (Inl (ValueError ''Invalid URL''), reqs @ [url])
                     | Some next_url \<Rightarrow>
                         check_hops lib nw allowed_domains iid max_redirects left (Suc hop) next_url (reqs @ [url]))))"

definition check_url ::
  "host_lib \<Rightarrow> network \<Rightarrow> nat \<Rightarrow> due_infringement \<Rightarrow> string list \<Rightarrow> string list
     \<Rightarrow> (exn + check_result) \<times> string list" where
  "check_url lib nw max_redirects item allowed_domains reqs =
     check_hops lib nw allowed_domains (du_infringement_id item) max_redirects (max_redirects + 1) 0
       (du_page_url item) reqs"

section \<open>The pacer\<close>

type_synonym pacer = "string \<rightharpoonup> rat"

text \<open>The wait taken and the pacer after it; the sleep ends at \<^verbatim>\<open>due_at\<close>.\<close>

definition pacer_wait :: "rat \<Rightarrow> rat \<Rightarrow> string \<Rightarrow> pacer \<Rightarrow> rat \<times> pacer" where
  "pacer_wait min_interval reading domain p =
     (case p domain of
        None \<Rightarrow> (0, p(domain \<mapsto> reading))
      | Some previous \<Rightarrow>
          let due_at = previous + min_interval in
          if due_at > reading then (due_at - reading, p(domain \<mapsto> due_at))
          else (0, p(domain \<mapsto> reading)))"

section \<open>The store\<close>

text \<open>\<^verbatim>\<open>ORDER BY last_attempted_at ASC NULLS FIRST, infringement_id\<close>.\<close>

definition attempt_key :: "infringement \<times> content_url \<Rightarrow> int list" where
  "attempt_key = (\<lambda>(i, _). (case last_attempted_at i of None \<Rightarrow> [0, 0] | Some t \<Rightarrow> [1, t])
      @ [int (infringement_id i)])"

definition due :: "int \<Rightarrow> 'a db_scheme \<Rightarrow> infringement \<Rightarrow> bool" where
  "due ivl_days d i \<longleftrightarrow>
     url_alive i \<and>
     (case last_checked_at i of None \<Rightarrow> True | Some t \<Rightarrow> t < db_now d - ivl_days * day_us)"

definition due_joined :: "int \<Rightarrow> 'a db_scheme \<Rightarrow> (infringement \<times> content_url) list" where
  "due_joined ivl_days d =
     [(i, c). i \<leftarrow> infringements d, due ivl_days d i, c \<leftarrow> content_urls d,
        cu_url_hash c = inf_url_hash i]"

definition due_batch :: "int \<Rightarrow> nat \<Rightarrow> 'a db_scheme \<Rightarrow> due_infringement list" where
  "due_batch ivl_days limit d =
     map (\<lambda>(i, c). \<lparr>du_infringement_id = infringement_id i, du_page_url = page_url i,
            du_source_domain = cu_source_domain c\<rparr>)
       (take limit (sort_key attempt_key (due_joined ivl_days d)))"

definition allowed_domains :: "'a db_scheme \<Rightarrow> string list" where
  "allowed_domains d = remdups (filter (\<lambda>s. s \<noteq> []) (map cu_source_domain (content_urls d)))"

definition recheck_write :: "liveness \<Rightarrow> instant \<Rightarrow> infringement \<Rightarrow> infringement" where
  "recheck_write v t i =
     (case v of
        Alive \<Rightarrow> i\<lparr>last_checked_at := Some t, last_attempted_at := Some t\<rparr>
      | Dead \<Rightarrow> i\<lparr>url_alive := False, last_checked_at := Some t, last_attempted_at := Some t\<rparr>
      | Unchanged \<Rightarrow> i\<lparr>last_attempted_at := Some t\<rparr>)"

definition recheck_record :: "uuid \<Rightarrow> liveness \<Rightarrow> 'a db_scheme \<Rightarrow> exn + 'a db_scheme" where
  "recheck_record iid v d =
     update_infringements (\<lambda>i. infringement_id i = iid) (recheck_write v (db_now d)) d"

section \<open>One pass\<close>

record recheck_config =
  rk_interval_days :: int
  rk_batch_size :: nat
  rk_max_redirects :: nat
  rk_min_interval :: rat

text \<open>The reading of the monotonic clock before each probe and \<^verbatim>\<open>now()\<close> of each transaction.\<close>

record recheck_clock =
  rk_reading :: "nat \<Rightarrow> rat"
  rk_now :: "nat \<Rightarrow> instant"

record recheck_state =
  rs_db :: db
  rs_pacer :: pacer
  rs_requests :: "string list"

fun probe_items ::
  "host_lib \<Rightarrow> network \<Rightarrow> recheck_config \<Rightarrow> recheck_clock \<Rightarrow> string list \<Rightarrow> nat \<Rightarrow> due_infringement list
     \<Rightarrow> recheck_state \<Rightarrow> (exn + check_result list) \<times> recheck_state" where
  "probe_items lib nw cfg ck allowed i [] s = (Inr [], s)"
| "probe_items lib nw cfg ck allowed i (item # items) s =
     (let p = snd (pacer_wait (rk_min_interval cfg) (rk_reading ck i) (du_source_domain item) (rs_pacer s));
          (answer, reqs) = check_url lib nw (rk_max_redirects cfg) item allowed (rs_requests s);
          s1 = s\<lparr>rs_pacer := p, rs_requests := reqs\<rparr>
      in case answer of
           Inl e \<Rightarrow> (Inl e, s1)
         | Inr result \<Rightarrow>
             (case recheck_record (ck_infringement_id result) (ck_verdict result)
                     ((rs_db s)\<lparr>db_now := rk_now ck i\<rparr>) of
                Inl e \<Rightarrow> (Inl e, s1)
              | Inr d \<Rightarrow>
                  (case probe_items lib nw cfg ck allowed (Suc i) items (s1\<lparr>rs_db := d\<rparr>) of
                     (Inl e, s') \<Rightarrow> (Inl e, s')
                   | (Inr results, s') \<Rightarrow> (Inr (result # results), s'))))"

definition recheck_once ::
  "host_lib \<Rightarrow> network \<Rightarrow> recheck_config \<Rightarrow> recheck_clock \<Rightarrow> recheck_state
     \<Rightarrow> (exn + check_result list) \<times> recheck_state" where
  "recheck_once lib nw cfg ck s =
     (let batch = due_batch (rk_interval_days cfg) (rk_batch_size cfg) (rs_db s) in
      if batch = [] then (Inr [], s)
      else probe_items lib nw cfg ck (allowed_domains (rs_db s)) 0 batch s)"

section \<open>What a probe may ask for\<close>

text \<open>
  A request passed the guard when its host is one of the recorded domains and every address its name
  resolved to at that moment is globally routable by the tables of \<^verbatim>\<open>ipaddress\<close>.
\<close>

definition guarded :: "host_lib \<Rightarrow> network \<Rightarrow> string list \<Rightarrow> string list \<Rightarrow> string \<Rightarrow> bool" where
  "guarded lib nw domains reqs url \<longleftrightarrow>
     (\<exists>host addresses. host_of lib url = Some host \<and> host \<in> set domains \<and>
        nw_resolve nw reqs host = Addresses addresses \<and> addresses \<noteq> [] \<and>
        (\<forall>a\<in>set addresses. \<exists>p. ip_address a = Some p \<and> is_global p))"

lemma address_verdict_None:
  "address_verdict as = None \<longleftrightarrow> (\<forall>a\<in>set as. \<exists>p. ip_address a = Some p \<and> is_global p)"
  by (induction as) (auto split: option.splits)

lemma refusal_None_guarded:
  "refusal_reason lib url domains (nw_resolve nw reqs) = Inr None \<longleftrightarrow> guarded lib nw domains reqs url"
  by (auto simp: refusal_reason_def address_refusal_def guarded_def address_verdict_None
      split: option.splits resolved.splits if_splits)

text \<open>Requests are only appended, each guarded against the ones before it.\<close>

definition all_guarded :: "host_lib \<Rightarrow> network \<Rightarrow> string list \<Rightarrow> nat \<Rightarrow> string list \<Rightarrow> bool" where
  "all_guarded lib nw domains from reqs \<longleftrightarrow>
     (\<forall>k. from \<le> k \<and> k < length reqs \<longrightarrow> guarded lib nw domains (take k reqs) (reqs ! k))"

lemma all_guarded_append:
  assumes "guarded lib nw domains reqs url" "all_guarded lib nw domains from reqs"
  shows "all_guarded lib nw domains from (reqs @ [url])"
  unfolding all_guarded_def
proof (intro allI impI)
  fix k assume k: "from \<le> k \<and> k < length (reqs @ [url])"
  show "guarded lib nw domains (take k (reqs @ [url])) ((reqs @ [url]) ! k)"
  proof (cases "k = length reqs")
    case True
    then show ?thesis using assms(1) by simp
  next
    case False
    then show ?thesis using assms(2) k by (auto simp: all_guarded_def nth_append)
  qed
qed

lemma check_hops_requests:
  assumes "check_hops lib nw domains iid mx left hop url reqs = (res, reqs')"
    and "all_guarded lib nw domains from reqs"
  shows "all_guarded lib nw domains from reqs' \<and> (\<exists>new. reqs' = reqs @ new \<and> length new \<le> left)"
  using assms
proof (induction left arbitrary: hop url reqs)
  case 0
  then show ?case by simp
next
  case (Suc left)
  show ?case
  proof (cases "refusal_reason lib url domains (nw_resolve nw reqs) = Inr None")
    case False
    then show ?thesis using Suc.prems by (auto split: sum.splits option.splits)
  next
    case True
    then have sent: "all_guarded lib nw domains from (reqs @ [url])"
      using Suc.prems(2) all_guarded_append refusal_None_guarded by blast
    show ?thesis
    proof (cases "reqs' = reqs @ [url]")
      case True
      then show ?thesis using sent by simp
    next
      case False
      then obtain next_url hop' where
        "check_hops lib nw domains iid mx left hop' next_url (reqs @ [url]) = (res, reqs')"
        using Suc.prems(1) True by (auto split: head_answer.splits if_splits option.splits)
      then show ?thesis using Suc.IH [OF _ sent] by fastforce
    qed
  qed
qed

lemma probe_items_requests:
  assumes "probe_items lib nw cfg ck domains i items s = (res, s')"
    and "all_guarded lib nw domains from (rs_requests s)"
  shows "all_guarded lib nw domains from (rs_requests s') \<and>
    (\<exists>new. rs_requests s' = rs_requests s @ new \<and> length new \<le> length items * (rk_max_redirects cfg + 1))"
  using assms
proof (induction items arbitrary: i s res)
  case Nil
  then show ?case by simp
next
  case (Cons item items)
  obtain answer reqs where chk: "check_url lib nw (rk_max_redirects cfg) item domains (rs_requests s) = (answer, reqs)"
    by fastforce
  obtain new where new: "all_guarded lib nw domains from reqs" "reqs = rs_requests s @ new"
    "length new \<le> rk_max_redirects cfg + 1"
    using check_hops_requests [OF chk [unfolded check_url_def] Cons.prems(2)] by auto
  show ?case
  proof (cases "rs_requests s' = reqs")
    case True
    then show ?thesis using new by auto
  next
    case False
    then obtain s1 res1 where rest: "probe_items lib nw cfg ck domains (Suc i) items s1 = (res1, s')"
      "rs_requests s1 = reqs"
      using Cons.prems(1) chk by (auto simp: Let_def split: sum.splits prod.splits)
    obtain new' where "all_guarded lib nw domains from (rs_requests s')" "rs_requests s' = reqs @ new'"
      "length new' \<le> length items * (rk_max_redirects cfg + 1)"
      using Cons.IH [OF rest(1)] new(1) rest(2) by auto
    then show ?thesis using new(2,3) by (intro conjI exI [of _ "new @ new'"]) auto
  qed
qed

section \<open>What a pass may write\<close>

definition evidence_of_removal :: "network \<Rightarrow> string list \<Rightarrow> nat \<Rightarrow> string \<Rightarrow> bool" where
  "evidence_of_removal nw reqs from_k url \<longleftrightarrow>
     (\<exists>j k r. from_k \<le> j \<and> j \<le> k \<and> k < length reqs \<and> reqs ! j = url \<and>
        nw_head nw (take k reqs) (reqs ! k) = Head_response r \<and> hr_status_code r \<in> {404, 410})"

lemma check_hops_id:
  "check_hops lib nw domains iid mx left hop url reqs = (Inr res, reqs') \<Longrightarrow> ck_infringement_id res = iid"
  by (induction left arbitrary: hop url reqs)
    (auto simp: unchanged_result_def split: sum.splits option.splits head_answer.splits if_splits)

lemma check_url_id:
  "check_url lib nw mx item domains reqs = (Inr res, reqs') \<Longrightarrow> ck_infringement_id res = du_infringement_id item"
  unfolding check_url_def by (rule check_hops_id)

lemma all_guarded_self: "all_guarded lib nw domains (length reqs) reqs"
  by (auto simp: all_guarded_def)

lemma check_url_grows: "check_url lib nw mx item domains reqs = (res, reqs') \<Longrightarrow> \<exists>new. reqs' = reqs @ new"
  using check_hops_requests [OF _ all_guarded_self] unfolding check_url_def by blast

lemma probe_items_grows:
  "probe_items lib nw cfg ck domains i items s = (res, s') \<Longrightarrow> \<exists>new. rs_requests s' = rs_requests s @ new"
  using probe_items_requests [OF _ all_guarded_self] by blast

lemma check_hops_dead:
  assumes "check_hops lib nw domains iid mx left hop url reqs = (Inr res, reqs')" "ck_verdict res = Dead"
  shows "ck_infringement_id res = iid \<and> reqs' ! length reqs = url \<and>
    (\<exists>k r. length reqs \<le> k \<and> k < length reqs' \<and>
       nw_head nw (take k reqs') (reqs' ! k) = Head_response r \<and> hr_status_code r \<in> {404, 410})"
  using assms
proof (induction left arbitrary: hop url reqs)
  case 0
  then show ?case by (auto simp: unchanged_result_def)
next
  case (Suc left)
  from Suc.prems have ok: "refusal_reason lib url domains (nw_resolve nw reqs) = Inr None"
    by (auto simp: unchanged_result_def split: sum.splits option.splits)
  from Suc.prems ok obtain r where head: "nw_head nw reqs url = Head_response r"
    by (auto simp: unchanged_result_def split: head_answer.splits)
  show ?case
  proof (cases "hr_status_code r \<in> set REDIRECT_STATUSES")
    case False
    then have "reqs' = reqs @ [url]" "ck_infringement_id res = iid"
      "verdict_for_status (hr_status_code r) = Dead"
      using Suc.prems ok head by auto
    moreover from this(3) have "hr_status_code r \<in> {404, 410}"
      by (auto simp: verdict_for_status_def DEAD_STATUSES_def split: if_splits)
    ultimately show ?thesis
      using head by (intro conjI exI [of _ "length reqs"] exI [of _ r]) auto
  next
    case True
    then obtain next_url where
      rest: "check_hops lib nw domains iid mx left (Suc hop) next_url (reqs @ [url]) = (Inr res, reqs')"
      using Suc.prems ok head by (auto simp: unchanged_result_def split: if_splits option.splits)
    have trivially: "all_guarded lib nw domains (length (reqs @ [url])) (reqs @ [url])"
      by (auto simp: all_guarded_def)
    obtain new where "reqs' = (reqs @ [url]) @ new"
      using check_hops_requests [OF rest trivially] by blast
    then have first: "reqs' ! length reqs = url" by (simp add: nth_append)
    obtain k r' where "length (reqs @ [url]) \<le> k" "k < length reqs'"
      "nw_head nw (take k reqs') (reqs' ! k) = Head_response r'" "hr_status_code r' \<in> {404, 410}"
      "ck_infringement_id res = iid"
      using Suc.IH [OF rest Suc.prems(2)] by blast
    then show ?thesis using first by (intro conjI exI [of _ k] exI [of _ r']) auto
  qed
qed

text \<open>What the pass may do to a row: move its clocks, and mark it dead on evidence.\<close>

definition rechecked :: "network \<Rightarrow> string list \<Rightarrow> nat \<Rightarrow> infringement \<Rightarrow> infringement \<Rightarrow> bool" where
  "rechecked nw reqs from_k i i' \<longleftrightarrow>
     (\<exists>alive c t. i' = i\<lparr>url_alive := alive, last_checked_at := c, last_attempted_at := t\<rparr>) \<and>
     (url_alive i' \<noteq> url_alive i \<longrightarrow>
        \<not> url_alive i' \<and> evidence_of_removal nw reqs from_k (page_url i))"

lemma rechecked_refl: "rechecked nw reqs from_k i i"
proof -
  have "i = i\<lparr>url_alive := url_alive i, last_checked_at := last_checked_at i,
      last_attempted_at := last_attempted_at i\<rparr>" by simp
  then show ?thesis unfolding rechecked_def by blast
qed

lemma rechecked_trans:
  assumes "rechecked nw reqs from_k p q" "rechecked nw reqs from_k q r"
  shows "rechecked nw reqs from_k p r"
proof -
  obtain a c t where q: "q = p\<lparr>url_alive := a, last_checked_at := c, last_attempted_at := t\<rparr>"
    using assms(1) by (auto simp: rechecked_def)
  moreover obtain a' c' t' where r: "r = q\<lparr>url_alive := a', last_checked_at := c', last_attempted_at := t'\<rparr>"
    using assms(2) by (auto simp: rechecked_def)
  ultimately have "r = p\<lparr>url_alive := a', last_checked_at := c', last_attempted_at := t'\<rparr>" by simp
  moreover have "page_url q = page_url p" using q by simp
  ultimately show ?thesis using assms unfolding rechecked_def by metis
qed

lemma evidence_mono:
  assumes "evidence_of_removal nw reqs from_k url"
  shows "evidence_of_removal nw (reqs @ new) from_k url"
proof -
  obtain j k r where "from_k \<le> j" "j \<le> k" "k < length reqs" "reqs ! j = url"
    "nw_head nw (take k reqs) (reqs ! k) = Head_response r" "hr_status_code r \<in> {404, 410}"
    using assms by (auto simp: evidence_of_removal_def)
  then show ?thesis unfolding evidence_of_removal_def
    by (intro exI [of _ j] exI [of _ k] exI [of _ r]) (auto simp: nth_append)
qed

lemma rechecked_mono: "rechecked nw reqs from_k i i' \<Longrightarrow> rechecked nw (reqs @ new) from_k i i'"
  by (auto simp: rechecked_def evidence_mono)

lemma recheck_record_list:
  assumes "recheck_record iid v d = Inr d'"
  shows "infringements d' = map (\<lambda>i. if infringement_id i = iid then recheck_write v (db_now d) i else i)
           (infringements d)"
  using assms by (auto simp: recheck_record_def update_infringements_Inr sql_update_def)

lemma recheck_write_columns:
  "\<exists>alive c t. recheck_write v u i = i\<lparr>url_alive := alive, last_checked_at := c, last_attempted_at := t\<rparr>"
proof (cases v)
  case Alive
  then show ?thesis by (intro exI [of _ "url_alive i"] exI) (simp add: recheck_write_def)
next
  case Dead
  then show ?thesis by (intro exI) (simp add: recheck_write_def)
next
  case Unchanged
  then show ?thesis
    by (intro exI [of _ "url_alive i"] exI [of _ "last_checked_at i"] exI) (simp add: recheck_write_def)
qed

lemma recheck_write_frame [simp]:
  "infringement_id (recheck_write v t i) = infringement_id i"
  "page_url (recheck_write v t i) = page_url i"
  "last_attempted_at (recheck_write v t i) = Some t"
  "inf_url_hash (recheck_write v t i) = inf_url_hash i"
  by (cases v; simp add: recheck_write_def)+

definition items_match :: "due_infringement list \<Rightarrow> infringement list \<Rightarrow> bool" where
  "items_match items rows \<longleftrightarrow>
     (\<forall>item\<in>set items. \<forall>i\<in>set rows.
        infringement_id i = du_infringement_id item \<longrightarrow> page_url i = du_page_url item)"

lemma list_all2_trans_rel:
  "(\<And>x y z. P x y \<Longrightarrow> P y z \<Longrightarrow> P x z) \<Longrightarrow> list_all2 P xs ys \<Longrightarrow> list_all2 P ys zs \<Longrightarrow> list_all2 P xs zs"
  by (rule list_all2_trans [of P P P])

lemma items_match_rechecked:
  assumes "items_match items rows" "list_all2 (rechecked nw reqs k) rows rows'"
  shows "items_match items rows'"
  unfolding items_match_def
proof (intro ballI impI)
  fix item i' assume item: "item \<in> set items" and i': "i' \<in> set rows'"
    and iid: "infringement_id i' = du_infringement_id item"
  obtain i where i: "i \<in> set rows" "rechecked nw reqs k i i'"
    using assms(2) i' by (metis in_set_conv_nth list_all2_conv_all_nth)
  then have "infringement_id i' = infringement_id i" "page_url i' = page_url i"
    by (auto simp: rechecked_def)
  then show "page_url i' = du_page_url item"
    using assms(1) item i(1) iid by (auto simp: items_match_def)
qed

lemma recorded_verdict_rechecked:
  assumes chk: "check_url lib nw mx item domains reqs = (Inr result, reqs')" and "k \<le> length reqs"
    and "recheck_record (ck_infringement_id result) (ck_verdict result) d = Inr d'"
    and "items_match [item] (infringements d)"
  shows "list_all2 (rechecked nw reqs' k) (infringements d) (infringements d')"
proof -
  note hops = chk [unfolded check_url_def]
  have iid: "ck_infringement_id result = du_infringement_id item"
    using check_hops_id [OF hops] .
  have "rechecked nw reqs' k i (recheck_write (ck_verdict result) (db_now d) i)"
    if i: "i \<in> set (infringements d)" "infringement_id i = du_infringement_id item" for i
  proof -
    have "evidence_of_removal nw reqs' k (page_url i)" if dead: "ck_verdict result = Dead"
    proof -
      have url: "page_url i = du_page_url item" using assms(4) i by (auto simp: items_match_def)
      show ?thesis
        using check_hops_dead [OF hops dead] assms(2) unfolding evidence_of_removal_def url
        by (blast intro: order.trans)
    qed
    then show ?thesis unfolding rechecked_def
      using recheck_write_columns [of "ck_verdict result" "db_now d" i]
      by (cases "ck_verdict result") (auto simp: recheck_write_def)
  qed
  then show ?thesis
    unfolding recheck_record_list [OF assms(3)] iid list.rel_map list_all2_same
    by (simp add: rechecked_refl)
qed

lemma probe_items_step:
  assumes "probe_items lib nw cfg ck domains i (item # items) s = (res, s')"
    and "check_url lib nw (rk_max_redirects cfg) item domains (rs_requests s) = (answer, reqs)"
  shows "(isl res \<and> rs_db s' = rs_db s \<and> rs_requests s' = reqs) \<or>
    (\<exists>result d s1 res1. answer = Inr result \<and>
       recheck_record (ck_infringement_id result) (ck_verdict result) ((rs_db s)\<lparr>db_now := rk_now ck i\<rparr>) = Inr d \<and>
       rs_db s1 = d \<and> rs_requests s1 = reqs \<and>
       probe_items lib nw cfg ck domains (Suc i) items s1 = (res1, s') \<and> isl res1 = isl res)"
proof (cases answer)
  case (Inl e)
  then show ?thesis using assms by (auto simp: Let_def)
next
  case (Inr result)
  show ?thesis
  proof (cases "recheck_record (ck_infringement_id result) (ck_verdict result) ((rs_db s)\<lparr>db_now := rk_now ck i\<rparr>)")
    case (Inl e)
    then show ?thesis using assms \<open>answer = Inr result\<close> by (auto simp: Let_def)
  next
    case (Inr d)
    let ?p = "snd (pacer_wait (rk_min_interval cfg) (rk_reading ck i) (du_source_domain item) (rs_pacer s))"
    let ?s1 = "s\<lparr>rs_pacer := ?p, rs_requests := reqs, rs_db := d\<rparr>"
    obtain res1 s2 where rest: "probe_items lib nw cfg ck domains (Suc i) items ?s1 = (res1, s2)"
      by fastforce
    then have "s2 = s' \<and> isl res1 = isl res"
      using assms \<open>answer = Inr result\<close> Inr by (auto simp: Let_def split: sum.splits)
    then show ?thesis
      using rest Inr \<open>answer = Inr result\<close>
      by (intro disjI2 exI [of _ result] exI [of _ d] exI [of _ ?s1] exI [of _ res1]) simp
  qed
qed

lemma probe_items_rows:
  assumes "probe_items lib nw cfg ck domains i items s = (res, s')" "k \<le> length (rs_requests s)"
    and "items_match items (infringements (rs_db s))"
  shows "list_all2 (rechecked nw (rs_requests s') k) (infringements (rs_db s)) (infringements (rs_db s'))"
  using assms
proof (induction items arbitrary: i s res)
  case Nil
  then show ?case by (simp add: list_all2_same rechecked_refl)
next
  case (Cons item items)
  obtain answer reqs where chk: "check_url lib nw (rk_max_redirects cfg) item domains (rs_requests s) = (answer, reqs)"
    by fastforce
  have grows: "\<exists>new. reqs = rs_requests s @ new"
    by (rule check_url_grows [OF chk])
  show ?case
  proof (cases "rs_db s' = rs_db s")
    case True
    then show ?thesis by (simp add: list_all2_same rechecked_refl)
  next
    case False
    let ?d = "(rs_db s)\<lparr>db_now := rk_now ck i\<rparr>"
    obtain result d s1 res1 where result: "answer = Inr result"
      and rec: "recheck_record (ck_infringement_id result) (ck_verdict result) ?d = Inr d"
      and s1: "rs_db s1 = d" "rs_requests s1 = reqs"
      and rest: "probe_items lib nw cfg ck domains (Suc i) items s1 = (res1, s')"
      using probe_items_step [OF Cons.prems(1) chk] False by blast
    have "items_match [item] (infringements ?d)" "items_match items (infringements (rs_db s))"
      using Cons.prems(3) by (auto simp: items_match_def)
    then have one: "list_all2 (rechecked nw reqs k) (infringements (rs_db s)) (infringements (rs_db s1))"
      and match: "items_match items (infringements (rs_db s))"
      using recorded_verdict_rechecked [OF chk [unfolded result] Cons.prems(2) rec] s1(1) by simp_all
    have "list_all2 (rechecked nw (rs_requests s') k) (infringements (rs_db s1)) (infringements (rs_db s'))"
      using Cons.IH [OF rest] Cons.prems(2) grows s1(2) items_match_rechecked [OF match one] by auto
    moreover obtain new where "rs_requests s' = reqs @ new"
      using probe_items_grows [OF rest] s1(2) by auto
    then have "list_all2 (rechecked nw (rs_requests s') k) (infringements (rs_db s)) (infringements (rs_db s1))"
      using one rechecked_mono by (auto elim: list_all2_mono)
    ultimately show ?thesis using rechecked_trans by (blast intro: list_all2_trans_rel)
  qed
qed

lemma due_batch_matches:
  assumes "distinct (map infringement_id (infringements d))"
  shows "items_match (due_batch n limit d) (infringements d)"
proof -
  have "i = j" if "i \<in> set (infringements d)" "j \<in> set (infringements d)" "infringement_id i = infringement_id j" for i j
    using assms that unfolding distinct_map inj_on_def by blast
  moreover have "fst x \<in> set (infringements d)" if "x \<in> set (take limit (sort_key attempt_key (due_joined n d)))" for x
  proof -
    have "x \<in> set (due_joined n d)" using that by (metis in_set_takeD set_sort)
    then show ?thesis by (auto simp: due_joined_def split: if_splits)
  qed
  ultimately have "page_url j = page_url (fst x)"
    if "x \<in> set (take limit (sort_key attempt_key (due_joined n d)))" "j \<in> set (infringements d)"
      "infringement_id j = infringement_id (fst x)" for x j
    using that by blast
  then show ?thesis
    unfolding items_match_def due_batch_def by (auto simp: split_beta)
qed

section \<open>The worker's loop\<close>

text \<open>
  \<^verbatim>\<open>run_forever\<close> of \<^verbatim>\<open>worker.py\<close>: pass after pass, an exception of a pass logged and dropped.
  Each pass starts at its own \<^verbatim>\<open>now()\<close>; the list ends where the process is stopped.
\<close>

fun recheck_passes ::
  "host_lib \<Rightarrow> network \<Rightarrow> recheck_config \<Rightarrow> (instant \<times> recheck_clock) list \<Rightarrow> recheck_state \<Rightarrow> recheck_state" where
  "recheck_passes lib nw cfg [] s = s"
| "recheck_passes lib nw cfg ((t, ck) # passes) s =
     recheck_passes lib nw cfg passes (snd (recheck_once lib nw cfg ck (s\<lparr>rs_db := (rs_db s)\<lparr>db_now := t\<rparr>\<rparr>)))"

lemma pacer_wait_spaced:
  assumes "pacer_wait min_interval reading domain p = (waited, p')" "p domain = Some previous"
  shows "\<exists>released. p' domain = Some released \<and> previous + min_interval \<le> released \<and>
    released = reading + waited \<and> (\<forall>other. other \<noteq> domain \<longrightarrow> p' other = p other)"
  using assms by (auto simp: pacer_wait_def Let_def split: if_splits)

section \<open>The guard's tables\<close>

lemma in_network_bounds:
  assumes "prefix \<le> width" "net mod 2 ^ (width - prefix) = 0"
  shows "in_network width n (net, prefix) \<longleftrightarrow> net \<le> n \<and> n < net + 2 ^ (width - prefix)"
proof -
  let ?m = "2 ^ (width - prefix) :: nat"
  have m: "0 < ?m" by simp
  obtain q where q: "net = q * ?m" using assms(2) by (metis dvd_def mod_0_imp_dvd mult.commute)
  have "n div ?m = q \<longleftrightarrow> q * ?m \<le> n \<and> n < q * ?m + ?m"
    using m by (metis add.commute div_nat_eqI dividend_less_div_times div_mult_self_is_m
        mult.commute mult_Suc order_refl times_div_less_eq_dividend)
  moreover have "net div ?m = q" using q by simp
  ultimately show ?thesis unfolding in_network_def using q by (simp add: split_def)
qed

lemma in_network_coarser:
  assumes "in_network w n (net, p)" "k \<le> p" "p \<le> w"
  shows "n div 2 ^ (w - k) = net div 2 ^ (w - k)"
proof -
  have "(2 :: nat) ^ (w - k) = 2 ^ (w - p) * 2 ^ (p - k)"
    using assms(2,3) by (simp add: power_add [symmetric])
  then show ?thesis using assms(1) by (simp add: in_network_def div_mult2_eq)
qed

text \<open>
  The networks a request must never reach: this host, private and shared ones, link-local; an IPv4 address
  written as IPv6 is the address it stands for.
\<close>

definition internal_v4 :: "(nat \<times> nat) list" where
  "internal_v4 = [(v4 0 0 0 0, 8), (v4 10 0 0 0, 8), (v4 127 0 0 0, 8), (v4 169 254 0 0, 16),
     (v4 172 16 0 0, 12), (v4 192 168 0 0, 16)]"

definition internal_v6 :: "(nat \<times> nat) list" where
  "internal_v6 = [(v6 [] [1], 128), (v6 [] [], 128), (v6 [0xfc00] [], 7), (v6 [0xfe80] [], 10)]"

definition shared_v4 :: "nat \<times> nat" where
  "shared_v4 = (v4 100 64 0 0, 10)"

fun internal_address :: "ip \<Rightarrow> bool" where
  "internal_address (IPv4 n) \<longleftrightarrow> list_ex (in_network 32 n) (shared_v4 # internal_v4)"
| "internal_address (IPv6 n) \<longleftrightarrow>
     (case ipv4_mapped n of
        Some m \<Rightarrow> list_ex (in_network 32 m) (shared_v4 # internal_v4)
      | None \<Rightarrow> list_ex (in_network 128 n) internal_v6)"

text \<open>A shared IPv4 address written as IPv6: the one form \<^verbatim>\<open>is_global\<close> gets wrong.\<close>

fun mapped_shared :: "ip \<Rightarrow> bool" where
  "mapped_shared (IPv4 n) \<longleftrightarrow> False"
| "mapped_shared (IPv6 n) \<longleftrightarrow> (case ipv4_mapped n of None \<Rightarrow> False | Some m \<Rightarrow> in_network 32 m shared_v4)"

lemma internal_v4_private: "list_ex (in_network 32 n) internal_v4 \<Longrightarrow> is_private_v4 n"
proof -
  assume i: "list_ex (in_network 32 n) internal_v4"
  then have "list_ex (in_network 32 n) v4_private"
    by (auto simp: internal_v4_def v4_private_def)
  moreover have "\<not> list_ex (in_network 32 n) v4_exceptions"
  proof
    assume "list_ex (in_network 32 n) v4_exceptions"
    then have "n = v4 192 0 0 9 \<or> n = v4 192 0 0 10"
      by (simp add: v4_exceptions_def in_network_def)
    then show False
      using i by (auto simp: internal_v4_def in_network_def v4_def from_digits_def)
  qed
  ultimately show ?thesis by (simp add: is_private_v4_def)
qed

lemma zeros: "replicate (numeral k) x = x # replicate (pred_numeral k) x"
  by (simp add: numeral_eq_Suc)

lemma v6_exceptions_top:
  assumes "list_ex (in_network 128 n) v6_exceptions" "k \<le> 16"
  shows "n div 2 ^ (128 - k) = (0x2001 * 2 ^ 112) div 2 ^ (128 - k)"
proof -
  obtain net p where net: "in_network 128 n (net, p)" "16 \<le> p" "p \<le> 128"
    "net div 2 ^ 112 = (0x2001 :: nat)"
    using assms(1) by (auto simp: v6_exceptions_def v6_def from_digits_def zeros)
  have "n div 2 ^ 112 = 0x2001"
    using in_network_coarser [OF net(1,2,3)] net(4) by simp
  moreover have "(2 :: nat) ^ (128 - k) = 2 ^ 112 * 2 ^ (16 - k)"
    unfolding power_add [symmetric] using assms(2) by simp
  ultimately show ?thesis by (simp add: div_mult2_eq)
qed

lemma internal_v6_private:
  assumes "ipv4_mapped n = None" "list_ex (in_network 128 n) internal_v6"
  shows "is_private_v6 n"
proof -
  have "list_ex (in_network 128 n) v6_private"
    using assms(2) by (auto simp: internal_v6_def v6_private_def)
  moreover have "\<not> list_ex (in_network 128 n) v6_exceptions"
  proof
    assume e: "list_ex (in_network 128 n) v6_exceptions"
    show False
      using v6_exceptions_top [OF e, of 7] v6_exceptions_top [OF e, of 10]
        v6_exceptions_top [OF e, of 16] assms(2)
      by (auto simp: internal_v6_def in_network_def v6_def from_digits_def zeros)
  qed
  ultimately show ?thesis using assms(1) by (simp add: is_private_v6_def)
qed

lemma internal_not_global: "internal_address p \<Longrightarrow> is_global p \<Longrightarrow> mapped_shared p"
proof (cases p)
  case (IPv4 n)
  then show "internal_address p \<Longrightarrow> is_global p \<Longrightarrow> ?thesis"
    using internal_v4_private by (auto simp: shared_v4_def)
next
  case (IPv6 n)
  then show "internal_address p \<Longrightarrow> is_global p \<Longrightarrow> ?thesis"
    using internal_v4_private internal_v6_private
    by (cases "ipv4_mapped n") (auto simp: is_private_v6_def)
qed

text \<open>224.0.0.0/4 is in none of the tables.\<close>

lemma multicast_v4_global:
  assumes "in_network 32 n (v4 224 0 0 0, 4)"
  shows "is_global (IPv4 n)"
proof -
  have top: "n div 2 ^ 28 = 14"
    using assms by (simp add: in_network_def v4_def from_digits_def)
  have "\<not> in_network 32 n (net, p)" if "4 \<le> p" "p \<le> 32" "net div 2 ^ 28 \<noteq> 14" for net p
    using in_network_coarser [of 32 n net p 4] that top by auto
  then show ?thesis
    by (simp add: is_private_v4_def v4_private_def v4_def from_digits_def)
qed

section \<open>Rotation\<close>

lemma recheck_record_others:
  assumes "recheck_record iid v d = Inr d'" "x \<in> set (infringements d)" "infringement_id x \<noteq> iid"
  shows "x \<in> set (infringements d')"
  using assms(2,3) unfolding recheck_record_list [OF assms(1)] by force

lemma probe_items_others:
  assumes "probe_items lib nw cfg ck domains i items s = (res, s')"
    and "x \<in> set (infringements (rs_db s))" "infringement_id x \<notin> du_infringement_id ` set items"
  shows "x \<in> set (infringements (rs_db s'))"
  using assms
proof (induction items arbitrary: i s res)
  case Nil
  then show ?case by simp
next
  case (Cons item items)
  obtain answer reqs where chk: "check_url lib nw (rk_max_redirects cfg) item domains (rs_requests s) = (answer, reqs)"
    by fastforce
  show ?case
    using probe_items_step [OF Cons.prems(1) chk]
  proof (elim disjE exE conjE)
    assume "rs_db s' = rs_db s"
    then show ?thesis using Cons.prems(2) by simp
  next
    fix result d s1 res1
    assume result: "answer = Inr result"
      and rec: "recheck_record (ck_infringement_id result) (ck_verdict result)
        ((rs_db s)\<lparr>db_now := rk_now ck i\<rparr>) = Inr d"
      and s1: "rs_db s1 = d" and rest: "probe_items lib nw cfg ck domains (Suc i) items s1 = (res1, s')"
    have "ck_infringement_id result = du_infringement_id item"
      by (rule check_url_id [OF chk [unfolded result]])
    then have "x \<in> set (infringements (rs_db s1))"
      using recheck_record_others [OF rec, of x] s1 Cons.prems(2,3) by simp
    then show ?thesis using Cons.IH [OF rest] Cons.prems(3) by simp
  qed
qed

lemma recheck_record_row:
  assumes "recheck_record iid v d = Inr d'" "x' \<in> set (infringements d')"
  obtains x where "x \<in> set (infringements d)" "infringement_id x' = infringement_id x"
    "x' = (if infringement_id x = iid then recheck_write v (db_now d) x else x)"
proof -
  obtain x where "x \<in> set (infringements d)"
    "x' = (if infringement_id x = iid then recheck_write v (db_now d) x else x)"
    using assms(2) unfolding recheck_record_list [OF assms(1)] by fastforce
  then show ?thesis using that by (cases "infringement_id x = iid") simp_all
qed

lemma recheck_record_attempted:
  assumes "recheck_record iid v d = Inr d'" "x' \<in> set (infringements d')" "infringement_id x' = iid"
  shows "last_attempted_at x' = Some (db_now d)"
  using recheck_record_row [OF assms(1,2)] assms(3) by (metis recheck_write_frame(3))

lemma recheck_record_attempted_keeps:
  assumes "recheck_record iid v d = Inr d'" "x' \<in> set (infringements d')"
    and "\<forall>x\<in>set (infringements d). infringement_id x = w \<longrightarrow> (\<exists>t. P t \<and> last_attempted_at x = Some t)"
    and "P (db_now d)" "infringement_id x' = w"
  shows "\<exists>t. P t \<and> last_attempted_at x' = Some t"
proof -
  obtain x where x: "x \<in> set (infringements d)" "infringement_id x' = infringement_id x"
    "x' = (if infringement_id x = iid then recheck_write v (db_now d) x else x)"
    using recheck_record_row [OF assms(1,2)] .
  show ?thesis
  proof (cases "infringement_id x = iid")
    case True
    then show ?thesis using x(3) assms(4) by simp
  next
    case False
    then show ?thesis using x assms(3,5) by simp
  qed
qed

text \<open>When a pass completes, every row of its batch carries an attempt time of the pass.\<close>

lemma probe_items_attempted:
  assumes "probe_items lib nw cfg ck domains i items s = (Inr results, s')" "\<forall>j. P (rk_now ck j)"
    and "x' \<in> set (infringements (rs_db s'))"
    and "infringement_id x' \<in> du_infringement_id ` set items \<or>
      (\<forall>x\<in>set (infringements (rs_db s)). infringement_id x = infringement_id x' \<longrightarrow>
         (\<exists>t. P t \<and> last_attempted_at x = Some t))"
  shows "\<exists>t. P t \<and> last_attempted_at x' = Some t"
  using assms(1,4)
proof (induction items arbitrary: i s results)
  case Nil
  then show ?case using assms(3) by auto
next
  case (Cons item items)
  obtain answer reqs where chk: "check_url lib nw (rk_max_redirects cfg) item domains (rs_requests s) = (answer, reqs)"
    by fastforce
  let ?d = "(rs_db s)\<lparr>db_now := rk_now ck i\<rparr>"
  obtain result d s1 res1 where result: "answer = Inr result"
    and rec: "recheck_record (ck_infringement_id result) (ck_verdict result) ?d = Inr d"
    and s1: "rs_db s1 = d" and rest: "probe_items lib nw cfg ck domains (Suc i) items s1 = (Inr res1, s')"
    using probe_items_step [OF Cons.prems(1) chk] by (metis isl_def sum.exhaust sum.distinct(1))
  have iid: "ck_infringement_id result = du_infringement_id item"
    by (rule check_url_id [OF chk [unfolded result]])
  have now: "P (db_now ?d)" using assms(2) by simp
  show ?case
  proof (rule Cons.IH [OF rest], cases "infringement_id x' \<in> du_infringement_id ` set items")
    case False
    show "infringement_id x' \<in> du_infringement_id ` set items \<or>
      (\<forall>x\<in>set (infringements (rs_db s1)). infringement_id x = infringement_id x' \<longrightarrow>
         (\<exists>t. P t \<and> last_attempted_at x = Some t))"
    proof (intro disjI2 ballI impI)
      fix x assume x: "x \<in> set (infringements (rs_db s1))" "infringement_id x = infringement_id x'"
      show "\<exists>t. P t \<and> last_attempted_at x = Some t"
      proof (cases "infringement_id x' = du_infringement_id item")
        case True
        then show ?thesis
          using recheck_record_attempted [OF rec] x s1 iid now by auto
      next
        case other: False
        then have "\<forall>x\<in>set (infringements ?d). infringement_id x = infringement_id x' \<longrightarrow>
            (\<exists>t. P t \<and> last_attempted_at x = Some t)"
          using Cons.prems(2) False by auto
        then show ?thesis
          using recheck_record_attempted_keeps [OF rec, where P = P] now x s1 by blast
      qed
    qed
  qed simp
qed

section \<open>Claims\<close>


text \<open>
  C24. "This came down" is only said on evidence. A pass, completed or interrupted by an exception, keeps
  every hit, changes nothing of it but the two clocks and the liveness flag, never brings a dead one
  back, and marks one dead only if in this pass, from a request to its page URL on, some response
  carried the status 404 or 410.
\<close>

theorem recheck_dead_needs_evidence:
  assumes "recheck_once lib nw cfg ck s = (res, s')"
    and "distinct (map infringement_id (infringements (rs_db s)))"
  shows "list_all2 (rechecked nw (rs_requests s') (length (rs_requests s)))
    (infringements (rs_db s)) (infringements (rs_db s'))"
proof (cases "due_batch (rk_interval_days cfg) (rk_batch_size cfg) (rs_db s) = []")
  case True
  then show ?thesis
    using assms(1) by (auto simp: recheck_once_def list_all2_same rechecked_refl)
next
  case False
  then show ?thesis
    using assms(1) probe_items_rows [OF _ order.refl due_batch_matches [OF assms(2)]]
    by (simp add: recheck_once_def)
qed

text \<open>
  No due row waits behind the rows of one pass. After a pass that completes, every row it probed, alive,
  dead or unreachable, stands in the order of the next passes behind every row it did not probe, so an
  unreachable host cannot hold the front of the queue.
\<close>

theorem recheck_pass_rotates:
  assumes "recheck_once lib nw cfg ck s = (Inr results, s')"
    and "\<forall>i\<in>set (infringements (rs_db s)). \<forall>t j. last_attempted_at i = Some t \<longrightarrow> t < rk_now ck j"
    and "a \<in> set (infringements (rs_db s'))" "b \<in> set (infringements (rs_db s))"
    and "infringement_id a \<in> du_infringement_id ` set (due_batch (rk_interval_days cfg) (rk_batch_size cfg) (rs_db s))"
    and "infringement_id b \<notin> du_infringement_id ` set (due_batch (rk_interval_days cfg) (rk_batch_size cfg) (rs_db s))"
  shows "b \<in> set (infringements (rs_db s')) \<and> attempt_key (b, c) < attempt_key (a, c')"
proof -
  let ?batch = "due_batch (rk_interval_days cfg) (rk_batch_size cfg) (rs_db s)"
  have run: "probe_items lib nw cfg ck (allowed_domains (rs_db s)) 0 ?batch s = (Inr results, s')"
    using assms(1,5) by (auto simp: recheck_once_def Let_def split: if_splits)
  have kept: "b \<in> set (infringements (rs_db s'))"
    using probe_items_others [OF run assms(4,6)] .
  show ?thesis
  proof (cases "last_attempted_at b")
    case None
    obtain t where "last_attempted_at a = Some t"
      using probe_items_attempted [OF run, of "\<lambda>_. True" a] assms(3,5) by blast
    then show ?thesis using kept None by (simp add: attempt_key_def)
  next
    case (Some t0)
    then have "\<forall>j. t0 < rk_now ck j" using assms(2,4) by blast
    then obtain t where "t0 < t" "last_attempted_at a = Some t"
      using probe_items_attempted [OF run, of "\<lambda>t. t0 < t" a] assms(3,5) by blast
    then show ?thesis using kept Some by (simp add: attempt_key_def)
  qed
qed

lemma allowed_domains_now [simp]: "allowed_domains (d\<lparr>db_now := t\<rparr>) = allowed_domains d"
  by (simp add: allowed_domains_def)

text \<open>A host that answers \<open>url\<close> with a redirect whose location does not parse.\<close>

definition breaks_redirects :: "host_lib \<Rightarrow> network \<Rightarrow> string \<Rightarrow> bool" where
  "breaks_redirects lib nw url \<longleftrightarrow>
     (\<forall>reqs. \<exists>r. nw_head nw reqs url = Head_response r \<and> hr_status_code r \<in> set REDIRECT_STATUSES \<and>
        location_of r \<noteq> [] \<and> urljoin lib url (location_of r) = None)"

lemma broken_redirect_raises:
  assumes "breaks_redirects lib nw (du_page_url item)" "guarded lib nw domains reqs (du_page_url item)"
  shows "check_url lib nw mx item domains reqs = (Inl (ValueError ''Invalid URL''), reqs @ [du_page_url item])"
proof -
  obtain r where "nw_head nw reqs (du_page_url item) = Head_response r"
    "hr_status_code r \<in> set REDIRECT_STATUSES" "location_of r \<noteq> []"
    "urljoin lib (du_page_url item) (location_of r) = None"
    using assms(1) by (auto simp: breaks_redirects_def)
  moreover have "refusal_reason lib (du_page_url item) domains (nw_resolve nw reqs) = Inr None"
    using assms(2) refusal_None_guarded by blast
  ultimately show ?thesis by (simp add: check_url_def)
qed

lemma stalled_pass:
  assumes "breaks_redirects lib nw (du_page_url item)"
    and "\<forall>reqs. guarded lib nw (allowed_domains d) reqs (du_page_url item)"
    and "\<exists>rest. due_batch (rk_interval_days cfg) (rk_batch_size cfg) (d\<lparr>db_now := t\<rparr>) = item # rest"
    and "rs_db s = d\<lparr>db_now := t\<rparr>"
  shows "fst (recheck_once lib nw cfg ck s) = Inl (ValueError ''Invalid URL'') \<and>
    rs_db (snd (recheck_once lib nw cfg ck s)) = rs_db s"
proof -
  obtain rest where batch: "due_batch (rk_interval_days cfg) (rk_batch_size cfg) (rs_db s) = item # rest"
    using assms(3,4) by auto
  have "check_url lib nw (rk_max_redirects cfg) item (allowed_domains (rs_db s)) (rs_requests s) =
      (Inl (ValueError ''Invalid URL''), rs_requests s @ [du_page_url item])"
    using broken_redirect_raises [OF assms(1)] assms(2,4) by simp
  then show ?thesis using batch by (simp add: recheck_once_def Let_def)
qed

text \<open>The row with the least attempt clock heads every batch once it is due.\<close>

lemma sort_key_least:
  assumes "x \<in> set xs" "\<forall>y\<in>set xs. y \<noteq> x \<longrightarrow> f x < f y"
  shows "\<exists>rest. sort_key f xs = x # rest"
proof (cases "sort_key f xs")
  case Nil
  then have "set xs = {}" by (metis set_sort set_empty)
  then show ?thesis using assms(1) by simp
next
  case (Cons h rest)
  have x: "x \<in> set (h # rest)" using assms(1) Cons set_sort [of f xs] by simp
  have "sorted (map f (h # rest))" using sorted_sort_key [of f xs] Cons by simp
  then have "f h \<le> f x" using x by auto
  moreover have "h \<in> set xs" using Cons set_sort [of f xs] by auto
  ultimately have "h = x" using assms(2) by (meson leD)
  then show ?thesis using Cons by simp
qed

lemma due_later: "due ivl d i \<Longrightarrow> db_now d \<le> t \<Longrightarrow> due ivl (d\<lparr>db_now := t\<rparr>) i"
  by (auto simp: due_def split: option.splits)

lemma head_of_queue:
  assumes row: "i \<in> set (infringements d)" "c \<in> set (content_urls d)" "cu_url_hash c = inf_url_hash i"
    and urls: "distinct (map cu_url_hash (content_urls d))" and due: "due ivl d i" "db_now d \<le> t" and "0 < limit"
    and least: "\<forall>j\<in>set (infringements d). j \<noteq> i \<longrightarrow> url_alive j \<longrightarrow> attempt_key (i, c) < attempt_key (j, c)"
  shows "\<exists>rest. due_batch ivl limit (d\<lparr>db_now := t\<rparr>) =
    \<lparr>du_infringement_id = infringement_id i, du_page_url = page_url i, du_source_domain = cu_source_domain c\<rparr> # rest"
proof -
  let ?d = "d\<lparr>db_now := t\<rparr>"
  have mem: "(i, c) \<in> set (due_joined ivl ?d)" using row due_later [OF due] by (auto simp: due_joined_def)
  have first: "\<forall>y\<in>set (due_joined ivl ?d). y \<noteq> (i, c) \<longrightarrow> attempt_key (i, c) < attempt_key y"
  proof (intro ballI impI)
    fix y assume y: "y \<in> set (due_joined ivl ?d)" "y \<noteq> (i, c)"
    then obtain j e where j: "y = (j, e)" "j \<in> set (infringements d)" "e \<in> set (content_urls d)"
      "cu_url_hash e = inf_url_hash j" "url_alive j" by (auto simp: due_joined_def due_def)
    have "j \<noteq> i"
    proof
      assume "j = i"
      then have "cu_url_hash e = cu_url_hash c" using j(4) row(3) by simp
      then have "e = c" using urls j(3) row(2) by (auto simp: distinct_map dest: inj_onD)
      then show False using y(2) j(1) \<open>j = i\<close> by simp
    qed
    then have "attempt_key (i, c) < attempt_key (j, c)" using least j(2,5) by blast
    then show "attempt_key (i, c) < attempt_key y" by (simp add: j(1) attempt_key_def)
  qed
  from sort_key_least [OF mem first]
  obtain rest where "sort_key attempt_key (due_joined ivl ?d) = (i, c) # rest" by (elim exE)
  then show ?thesis using assms(7) by (cases limit) (simp_all add: due_batch_def)
qed

lemma stalled_passes:
  assumes "breaks_redirects lib nw (du_page_url item)"
    and "\<forall>reqs. guarded lib nw (allowed_domains d) reqs (du_page_url item)"
    and "\<forall>t\<ge>t1. \<exists>rest. due_batch (rk_interval_days cfg) (rk_batch_size cfg) (d\<lparr>db_now := t\<rparr>) = item # rest"
    and "\<forall>p\<in>set passes. t1 \<le> fst p"
    and "rs_db s = d\<lparr>db_now := t0\<rparr>"
  shows "\<exists>t. rs_db (recheck_passes lib nw cfg passes s) = d\<lparr>db_now := t\<rparr>"
  using assms(4,5)
proof (induction passes arbitrary: s t0)
  case Nil
  then show ?case by auto
next
  case (Cons p passes)
  obtain t ck where p: "p = (t, ck)" by fastforce
  let ?s = "s\<lparr>rs_db := (rs_db s)\<lparr>db_now := t\<rparr>\<rparr>"
  have t: "t1 \<le> t" using Cons.prems(1) p by simp
  have "rs_db ?s = d\<lparr>db_now := t\<rparr>" using Cons.prems(2) by simp
  then have "rs_db (snd (recheck_once lib nw cfg ck ?s)) = d\<lparr>db_now := t\<rparr>"
    using stalled_pass [OF assms(1,2), of cfg t ?s ck] assms(3) t by auto
  then show ?case using Cons.IH [of _ t] Cons.prems(1) p by simp
qed


text \<open>
  The guard lets multicast through. A host whose name resolves to addresses of 224.0.0.0/4 is not
  refused: \<^verbatim>\<open>is_global\<close> is true of them, although the guard's comment lists multicast among the
  ranges it excludes.
\<close>

theorem multicast_passes_guard:
  assumes "host_of lib url = Some host" "resolver host = Addresses (a # as)"
    and "\<forall>x\<in>set (a # as). \<exists>n. ip_address x = Some (IPv4 n) \<and> in_network 32 n (v4 224 0 0 0, 4)"
  shows "address_refusal lib url resolver = Inr None"
proof -
  have "address_verdict (a # as) = None"
    unfolding address_verdict_None using assms(3) multicast_v4_global by blast
  then show ?thesis using assms(1,2) by (simp add: address_refusal_def)
qed

text \<open>
  The guard lets the carrier's shared network through in one spelling: 100.64.0.0/10 is refused as IPv4, and
  passes written as IPv6, whose \<^verbatim>\<open>is_global\<close> asks only whether the IPv4 address is private.
\<close>

theorem mapped_shared_passes_guard:
  assumes "host_of lib url = Some host" "resolver host = Addresses [a]" "ip_address a = Some p" "mapped_shared p"
  shows "address_refusal lib url resolver = Inr None \<and> internal_address p"
proof -
  obtain n m where p: "p = IPv6 n" "ipv4_mapped n = Some m" "in_network 32 m shared_v4"
    using assms(4) by (cases p) (auto split: option.splits)
  have top: "m div 2 ^ 22 = 401" using p(3) by (simp add: shared_v4_def in_network_def v4_def from_digits_def)
  have "\<not> in_network 32 m (net, q)" if "q \<le> 32" "10 \<le> q" "net div 2 ^ 22 \<noteq> 401" for net q
    using in_network_coarser [of 32 m net q 10] that top by auto
  moreover have "\<not> in_network 32 m (net, 8)" if "net div 2 ^ 24 \<noteq> 100" for net
    using top that by (auto simp: in_network_def)
  moreover have "\<not> in_network 32 m (net, 4)" if "net div 2 ^ 28 \<noteq> 6" for net
    using top that by (auto simp: in_network_def)
  ultimately have "\<not> is_private_v4 m"
    by (simp add: is_private_v4_def v4_private_def v4_def from_digits_def)
  then have "is_global p" using p by (simp add: is_private_v6_def)
  then have "address_verdict [a] = None" unfolding address_verdict_None using assms(3) by simp
  then show ?thesis using assms(1,2) p by (simp add: address_refusal_def)
qed

section \<open>Witnesses\<close>

definition demo_page :: string where
  "demo_page = ''https://a.example/x''"

definition demo_network :: "head_response \<Rightarrow> network" where
  "demo_network r = \<lparr>nw_resolve = (\<lambda>_ _. Addresses [''8.8.8.8'']), nw_head = (\<lambda>_ _. Head_response r)\<rparr>"

definition gone :: head_response where
  "gone = \<lparr>hr_status_code = 404, hr_headers = Map.empty\<rparr>"

definition hostile :: head_response where
  "hostile = \<lparr>hr_status_code = 302, hr_headers = [''location'' \<mapsto> ''http://['']\<rparr>"

lemma demo_page_host: "host_of ascii_lib demo_page = Some ''a.example''"
  by code_simp

lemma demo_address_global: "\<exists>p. ip_address ''8.8.8.8'' = Some p \<and> is_global p"
proof -
  have "ip_address ''8.8.8.8'' = Some (IPv4 134744072)"
    by (simp add: ip_address_def parse_ipv4_def parse_octet_def from_digits_def digits_value_def is_digit_def)
  moreover have "is_global (IPv4 134744072)"
    by (simp add: is_private_v4_def v4_private_def in_network_def v4_def from_digits_def)
  ultimately show ?thesis by blast
qed

lemma demo_hostile_location: "urljoin ascii_lib demo_page ''http://['' = None"
  by code_simp

definition demo_hit :: infringement where
  "demo_hit = \<lparr>infringement_id = 7, inf_user_ref = 1, inf_url_hash = ''h'', page_url = demo_page,
     image_url = None, keyed_on = Page_url, first_seen_at = 0, last_seen_at = 0, seen_count = 1,
     url_alive = True, last_checked_at = None, last_attempted_at = None, inf_band = ''review'',
     band_reason = None, inf_status = Status_new, confirm_state = Unconfirmed, inf_severity = None,
     confirm_decided_by = None, confirm_decided_at = None, duplicate_of = None, phash = None,
     face_match_score = None, moderation_labels = None, preview_image_url = None\<rparr>"

definition demo_url_row :: content_url where
  "demo_url_row = \<lparr>cu_url_hash = ''h'', cu_url = demo_page, cu_source_domain = ''a.example'',
     cu_canonical_url = demo_page, cu_normalisation_version = ''v1'', cu_first_seen_at = 0,
     cu_last_seen_at = 0\<rparr>"

definition demo_recheck_state :: recheck_state where
  "demo_recheck_state = \<lparr>rs_db = empty_db\<lparr>infringements := [demo_hit, demo_hit\<lparr>infringement_id := 8\<rparr>],
     content_urls := [demo_url_row]\<rparr>, rs_pacer = Map.empty, rs_requests = []\<rparr>"

definition demo_recheck_config :: recheck_config where
  "demo_recheck_config = \<lparr>rk_interval_days = 7, rk_batch_size = 1, rk_max_redirects = 5, rk_min_interval = 2\<rparr>"

definition demo_recheck_clock :: recheck_clock where
  "demo_recheck_clock = \<lparr>rk_reading = (\<lambda>_. 0), rk_now = (\<lambda>_. 9)\<rparr>"

definition demo_item :: due_infringement where
  "demo_item = \<lparr>du_infringement_id = 7, du_page_url = demo_page, du_source_domain = ''a.example''\<rparr>"

lemma demo_batch: "due_batch 7 1 ((rs_db demo_recheck_state)\<lparr>db_now := t\<rparr>) = [demo_item]"
  by (simp add: due_batch_def due_joined_def due_def demo_recheck_state_def demo_hit_def demo_url_row_def
      attempt_key_def demo_item_def)

lemma demo_batch_now: "due_batch 7 1 (rs_db demo_recheck_state) = [demo_item]"
  using demo_batch [of "db_now (rs_db demo_recheck_state)"] by simp

lemma demo_config_batch:
  "due_batch (rk_interval_days demo_recheck_config) (rk_batch_size demo_recheck_config)
     (rs_db demo_recheck_state) = [demo_item]"
  using demo_batch_now by (simp add: demo_recheck_config_def)

lemma demo_domains: "allowed_domains (rs_db demo_recheck_state) = [''a.example'']"
  by (simp add: allowed_domains_def demo_recheck_state_def demo_url_row_def)

lemma demo_guarded: "guarded ascii_lib (demo_network r) [''a.example''] reqs demo_page"
  using demo_page_host demo_address_global by (auto simp: guarded_def demo_network_def)

lemma demo_distinct: "distinct (map infringement_id (infringements (rs_db demo_recheck_state)))"
  by (simp add: demo_recheck_state_def demo_hit_def)

lemma check_url_direct:
  assumes "guarded lib nw domains reqs (du_page_url item)"
    and "nw_head nw reqs (du_page_url item) = Head_response r" "hr_status_code r \<notin> set REDIRECT_STATUSES"
  shows "check_url lib nw mx item domains reqs =
    (Inr \<lparr>ck_infringement_id = du_infringement_id item, ck_verdict = verdict_for_status (hr_status_code r),
       ck_status_code = Some (hr_status_code r), ck_refused = None, ck_redirects = 0\<rparr>,
     reqs @ [du_page_url item])"
  using assms refusal_None_guarded [of lib "du_page_url item" domains nw reqs] by (simp add: check_url_def)

lemma demo_pass:
  obtains s' where "recheck_once ascii_lib (demo_network gone) demo_recheck_config demo_recheck_clock
      demo_recheck_state = (Inr [\<lparr>ck_infringement_id = 7, ck_verdict = Dead, ck_status_code = Some 404,
        ck_refused = None, ck_redirects = 0\<rparr>], s')"
    "rs_requests s' = [demo_page]"
    "infringements (rs_db s') = [demo_hit\<lparr>url_alive := False, last_checked_at := Some 9,
       last_attempted_at := Some 9\<rparr>, demo_hit\<lparr>infringement_id := 8\<rparr>]"
proof -
  have "hr_status_code gone = 404" "404 \<notin> set REDIRECT_STATUSES" "verdict_for_status 404 = Dead"
    by (simp_all add: gone_def REDIRECT_STATUSES_def verdict_for_status_def DEAD_STATUSES_def)
  then have "check_url ascii_lib (demo_network gone) 5 demo_item [''a.example''] [] =
      (Inr \<lparr>ck_infringement_id = 7, ck_verdict = Dead, ck_status_code = Some 404,
        ck_refused = None, ck_redirects = 0\<rparr>, [demo_page])"
    using check_url_direct [of ascii_lib "demo_network gone" "[''a.example'']" "[]" demo_item gone 5] demo_guarded
    by (simp add: demo_item_def) (simp add: demo_network_def)
  moreover have "rs_requests demo_recheck_state = []" by (simp add: demo_recheck_state_def)
  moreover have "recheck_record 7 Dead ((rs_db demo_recheck_state)\<lparr>db_now := 9\<rparr>) =
      Inr ((rs_db demo_recheck_state)\<lparr>db_now := 9, infringements := [demo_hit\<lparr>url_alive := False,
        last_checked_at := Some 9, last_attempted_at := Some 9\<rparr>, demo_hit\<lparr>infringement_id := 8\<rparr>]\<rparr>)"
    by (simp add: recheck_record_def update_infringements_def demo_recheck_state_def demo_hit_def
        confirmed_needs_human_def duplicate_needs_source_def recheck_write_def)
  moreover have "rk_max_redirects demo_recheck_config = 5" "rk_now demo_recheck_clock 0 = 9"
    by (simp_all add: demo_recheck_config_def demo_recheck_clock_def)
  ultimately have "\<exists>s'. recheck_once ascii_lib (demo_network gone) demo_recheck_config demo_recheck_clock
      demo_recheck_state = (Inr [\<lparr>ck_infringement_id = 7, ck_verdict = Dead, ck_status_code = Some 404,
        ck_refused = None, ck_redirects = 0\<rparr>], s') \<and> rs_requests s' = [demo_page] \<and>
      infringements (rs_db s') = [demo_hit\<lparr>url_alive := False, last_checked_at := Some 9,
       last_attempted_at := Some 9\<rparr>, demo_hit\<lparr>infringement_id := 8\<rparr>]"
    by (simp add: recheck_once_def demo_config_batch demo_domains Let_def)
  then show ?thesis using that by blast
qed


theorem recheck_dead_needs_evidence_witness:
  "rechecked (demo_network gone) [demo_page] 0 demo_hit
     (demo_hit\<lparr>url_alive := False, last_checked_at := Some 9, last_attempted_at := Some 9\<rparr>)"
proof -
  obtain s' where run: "recheck_once ascii_lib (demo_network gone) demo_recheck_config demo_recheck_clock
      demo_recheck_state = (Inr [\<lparr>ck_infringement_id = 7, ck_verdict = Dead, ck_status_code = Some 404,
        ck_refused = None, ck_redirects = 0\<rparr>], s')" "rs_requests s' = [demo_page]"
      "infringements (rs_db s') = [demo_hit\<lparr>url_alive := False, last_checked_at := Some 9,
         last_attempted_at := Some 9\<rparr>, demo_hit\<lparr>infringement_id := 8\<rparr>]"
    using demo_pass by blast
  have "rs_requests demo_recheck_state = []"
    "infringements (rs_db demo_recheck_state) = [demo_hit, demo_hit\<lparr>infringement_id := 8\<rparr>]"
    by (simp_all add: demo_recheck_state_def)
  then show ?thesis
    using recheck_dead_needs_evidence [OF run(1) demo_distinct] run(2,3) by simp
qed

theorem recheck_pass_rotates_witness:
  "attempt_key (demo_hit\<lparr>infringement_id := 8\<rparr>, demo_url_row) <
   attempt_key (demo_hit\<lparr>url_alive := False, last_checked_at := Some 9, last_attempted_at := Some 9\<rparr>, demo_url_row)"
proof -
  obtain s' where run: "recheck_once ascii_lib (demo_network gone) demo_recheck_config demo_recheck_clock
      demo_recheck_state = (Inr [\<lparr>ck_infringement_id = 7, ck_verdict = Dead, ck_status_code = Some 404,
        ck_refused = None, ck_redirects = 0\<rparr>], s')"
      "infringements (rs_db s') = [demo_hit\<lparr>url_alive := False, last_checked_at := Some 9,
         last_attempted_at := Some 9\<rparr>, demo_hit\<lparr>infringement_id := 8\<rparr>]"
    using demo_pass by blast
  show ?thesis
  proof (rule conjunct2 [OF recheck_pass_rotates [OF run(1)]])
    show "infringement_id (demo_hit\<lparr>url_alive := False, last_checked_at := Some 9, last_attempted_at := Some 9\<rparr>)
        \<in> du_infringement_id ` set (due_batch (rk_interval_days demo_recheck_config)
            (rk_batch_size demo_recheck_config) (rs_db demo_recheck_state))"
      "infringement_id (demo_hit\<lparr>infringement_id := 8\<rparr>)
        \<notin> du_infringement_id ` set (due_batch (rk_interval_days demo_recheck_config)
            (rk_batch_size demo_recheck_config) (rs_db demo_recheck_state))"
      unfolding demo_config_batch by (simp_all add: demo_item_def demo_hit_def)
  qed (simp_all add: run(2) demo_recheck_state_def, simp_all add: demo_hit_def)
qed


theorem multicast_passes_guard_witness:
  "address_refusal ascii_lib demo_page (\<lambda>_. Addresses [''224.0.0.1'']) = Inr None"
proof (rule multicast_passes_guard [OF demo_page_host, of _ "''224.0.0.1''" "[]"])
  have "ip_address ''224.0.0.1'' = Some (IPv4 3758096385)"
    by (simp add: ip_address_def parse_ipv4_def parse_octet_def from_digits_def digits_value_def is_digit_def)
  then show "\<forall>x\<in>set [''224.0.0.1'']. \<exists>n. ip_address x = Some (IPv4 n) \<and> in_network 32 n (v4 224 0 0 0, 4)"
    by (simp add: in_network_def v4_def from_digits_def)
qed simp

theorem mapped_shared_passes_guard_witness:
  "address_refusal ascii_lib demo_page (\<lambda>_. Addresses [''::ffff:100.64.0.1'']) = Inr None"
proof -
  have parts: "split_on CHR '':'' ''::ffff:100.64.0.1'' = [[], [], ''ffff'', ''100.64.0.1'']"
    "split_on CHR ''.'' ''::ffff:100.64.0.1'' = [''::ffff:100'', ''64'', ''0'', ''1'']" by code_simp+
  have v4: "parse_ipv4 ''100.64.0.1'' = Some 1681915905" "parse_ipv4 ''::ffff:100.64.0.1'' = None"
    by (simp_all add: parse_ipv4_def parse_octet_def from_digits_def digits_value_def is_digit_def)
  have "hex_text 25664 = ''6440''" "hex_text 1 = ''1''"
    by (simp_all add: hex_text.simps hex_digit_def char_of_def bit_iff_odd)
  then have "expand_ipv4_suffix [[], [], ''ffff'', ''100.64.0.1''] = Some [[], [], ''ffff'', ''6440'', ''1'']"
    by (simp add: expand_ipv4_suffix_def v4(1))
  moreover have "groups_value [[], [], ''ffff'', ''6440'', ''1''] = Some 281472363659265"
  proof -
    have "inner_empties [[], [], ''ffff'', ''6440'', ''1''] = [1]" by (simp add: inner_empties_def upt_rec)
    moreover have "parse_hextet ''ffff'' = Some 65535" "parse_hextet ''6440'' = Some 25664" "parse_hextet ''1'' = Some 1"
      by (simp_all add: parse_hextet_def hex_value_def from_digits_def Let_def)
    moreover from calculation(1) have "groups_value [[], [], ''ffff'', ''6440'', ''1''] = hextets [] 5 [''ffff'', ''6440'', ''1'']"
      by (simp add: groups_value_def Let_def)
    ultimately show ?thesis by (simp add: hextets_def from_digits_def zeros)
  qed
  ultimately have "parse_ipv6 ''::ffff:100.64.0.1'' = Some 281472363659265"
    by (simp add: parse_ipv6_def parse_ipv6_groups_def parts(1))
  then have "ip_address ''::ffff:100.64.0.1'' = Some (IPv6 281472363659265)"
    by (simp add: ip_address_def v4(2))
  moreover have "mapped_shared (IPv6 281472363659265)"
    by (simp add: ipv4_mapped_def shared_v4_def in_network_def v4_def from_digits_def)
  ultimately obtain p where "ip_address ''::ffff:100.64.0.1'' = Some p" "mapped_shared p" by blast
  with mapped_shared_passes_guard [OF demo_page_host, of "\<lambda>_. Addresses [''::ffff:100.64.0.1'']"] show ?thesis by simp
qed

end
