(* ===== verification/Identity_Store.thy ===== *)
theory Identity_Store
  imports Search_Store Identifiers
begin

text \<open>
  Identity: the liveness sessions (\<^verbatim>\<open>liveness/store.py\<close>, \<^verbatim>\<open>liveness/models.py\<close>), the
  enrolments (\<^verbatim>\<open>enrolment/store.py\<close>, \<^verbatim>\<open>enrolment/models.py\<close>), the collision gate
  (\<^verbatim>\<open>enrolment/collision.py\<close>) and the subjects (\<^verbatim>\<open>subjects/store.py\<close>,
  \<^verbatim>\<open>subjects/eligibility.py\<close>), as transactions over the tables of
  \<^verbatim>\<open>migrations/0001\<close>, \<^verbatim>\<open>0003\<close>, \<^verbatim>\<open>0008\<close>, \<^verbatim>\<open>0010\<close> and
  \<^verbatim>\<open>0036\<close>, with their constraints.
\<close>

section \<open>Rows\<close>

datatype liveness_status = Ls_created | Ls_pending | Ls_passed | Ls_failed | Ls_expired | Ls_consumed

record liveness_session =
  ls_session_id :: uuid
  ls_user_ref :: user_ref
  ls_provider_session_id :: string
  ls_status :: liveness_status
  ls_confidence :: "rat option"
  ls_failure_reason :: "string option"
  ls_attempt_number :: nat
  ls_reference_image_uri :: "string option"
  ls_audit_image_uris :: "string list option"
  ls_created_at :: instant
  ls_completed_at :: "instant option"
  ls_expires_at :: instant
  ls_consumed_at :: "instant option"
  ls_idempotency_key :: "string option"

record enrolment =
  en_enrolment_id :: uuid
  en_session_id :: uuid
  en_user_ref :: user_ref
  en_collection_id :: string
  en_external_face_id :: string
  en_quality_score :: "rat option"
  en_model_id :: string
  en_source_object_uri :: string
  en_active :: bool
  en_created_at :: instant
  en_deleted_at :: "instant option"
  en_consent_ref :: uuid
  en_consent_document_sha256 :: string
  en_consent_signed_at :: instant

record enrolment_conflict =
  ec_conflict_id :: uuid
  ec_session_id :: uuid
  ec_attempted_user_ref :: user_ref
  ec_matched_user_ref :: user_ref
  ec_similarity :: rat
  ec_threshold_used :: rat
  ec_model_id :: string
  ec_collection_id :: string
  ec_occurred_at :: instant

record identity_db = db +
  liveness_sessions :: "liveness_session list"
  enrolments :: "enrolment list"
  enrolment_conflicts :: "enrolment_conflict list"

definition QUALITY_REJECTED_REASON :: string where
  "QUALITY_REJECTED_REASON = ''quality_rejected''"

definition IDENTITY_CONFLICT_REASON :: string where
  "IDENTITY_CONFLICT_REASON = ''identity_conflict''"

definition SENTINEL_CONSENT_REF :: uuid where
  "SENTINEL_CONSENT_REF = 0"

section \<open>Subjects\<close>

record eligibility =
  el_discovery_eligible :: bool
  el_eligibility_reason :: string

definition eligibility_for :: "bool \<Rightarrow> eligibility" where
  "eligibility_for subject_is_adult =
     (if subject_is_adult
      then \<lparr>el_discovery_eligible = True, el_eligibility_reason = ''adult''\<rparr>
      else \<lparr>el_discovery_eligible = False, el_eligibility_reason = ''minor_discovery_deferred''\<rparr>)"

text \<open>0008: \<^verbatim>\<open>subjects_reason_matches_flag\<close>.\<close>

definition reason_matches_flag :: "bool \<Rightarrow> string \<Rightarrow> bool" where
  "reason_matches_flag eligible reason \<longleftrightarrow>
     (eligible \<and> reason = ''adult'') \<or> (\<not> eligible \<and> reason = ''minor_discovery_deferred'')"

definition new_subject :: "user_ref \<Rightarrow> eligibility \<Rightarrow> instant \<Rightarrow> subject_row" where
  "new_subject user e t =
     \<lparr>sj_user_ref = user, sj_discovery_eligible = el_discovery_eligible e,
      sj_eligibility_reason = el_eligibility_reason e, sj_created_at = t, sj_updated_at = t\<rparr>"

text \<open>The \<^verbatim>\<open>WHERE\<close> of the upsert: a re-assertion of the same flag writes nothing.\<close>

definition merge_subject :: "eligibility \<times> instant \<Rightarrow> subject_row \<Rightarrow> subject_row" where
  "merge_subject = (\<lambda>(e, t) s.
     if sj_discovery_eligible s \<noteq> el_discovery_eligible e
     then s\<lparr>sj_discovery_eligible := el_discovery_eligible e,
            sj_eligibility_reason := el_eligibility_reason e, sj_updated_at := t\<rparr>
     else s)"

definition upsert_subject :: "user_ref \<Rightarrow> eligibility \<Rightarrow> 'a db_scheme \<Rightarrow> exn + 'a db_scheme" where
  "upsert_subject user e d =
     (if \<not> reason_matches_flag (el_discovery_eligible e) (el_eligibility_reason e)
      then Inl (CheckViolation ''subjects_reason_matches_flag'')
      else Inr (d\<lparr>subjects := sql_upsert (\<lambda>s. sj_user_ref s = user) (merge_subject (e, db_now d))
                    (new_subject user e (db_now d)) (subjects d)\<rparr>))"

definition get_subject :: "user_ref \<Rightarrow> 'a db_scheme \<Rightarrow> subject_row option" where
  "get_subject user d = sql_first (\<lambda>s. sj_user_ref s = user) (subjects d)"

definition record_discovery_refusal ::
  "user_ref \<Rightarrow> string \<Rightarrow> (string \<times> json) list \<Rightarrow> 'a db_scheme \<Rightarrow> 'a db_scheme" where
  "record_discovery_refusal user outcome md d =
     insert_audit (audit_entry ''service'' DISCOVERY_REFUSED_ACTION (Some user) None
       (JObj ((''outcome'', JStr outcome) # md)) d) d"

section \<open>The collision gate\<close>

record face_hit =
  fh_external_image_id :: string
  fh_similarity :: rat
  fh_face_id :: string

record face_search_result =
  fs_hits :: "face_hit list"
  fs_model_id :: string

record collision =
  co_matched_user_ref :: user_ref
  co_similarity :: rat
  co_model_id :: string
  co_threshold_used :: rat

text \<open>Whose face a hit is, when that can refuse: a reference that parses, of somebody else, of the household.\<close>

definition colliding_ref :: "user_ref \<Rightarrow> user_ref set option \<Rightarrow> face_hit \<Rightarrow> user_ref option" where
  "colliding_ref own_ref candidates h =
     (case parse_user_ref (fh_external_image_id h) of
        None \<Rightarrow> None
      | Some ref \<Rightarrow>
          if ref = own_ref then None
          else (case candidates of
                  None \<Rightarrow> Some ref
                | Some cs \<Rightarrow> if ref \<in> cs then Some ref else None))"

fun strongest_hit ::
  "user_ref \<Rightarrow> user_ref set option \<Rightarrow> (rat \<times> user_ref) option \<Rightarrow> face_hit list \<Rightarrow> (rat \<times> user_ref) option" where
  "strongest_hit own_ref candidates best [] = best"
| "strongest_hit own_ref candidates best (h # hs) =
     strongest_hit own_ref candidates
       (case colliding_ref own_ref candidates h of
          None \<Rightarrow> best
        | Some ref \<Rightarrow>
            (case best of
               None \<Rightarrow> Some (fh_similarity h, ref)
             | Some (s, _) \<Rightarrow> if s < fh_similarity h then Some (fh_similarity h, ref) else best)) hs"

definition collision_check ::
  "rat \<Rightarrow> user_ref \<Rightarrow> user_ref set option \<Rightarrow> face_search_result \<Rightarrow> collision option" where
  "collision_check threshold own_ref candidates found =
     (case strongest_hit own_ref candidates None (fs_hits found) of
        None \<Rightarrow> None
      | Some (similarity, matched) \<Rightarrow>
          Some \<lparr>co_matched_user_ref = matched, co_similarity = similarity,
                co_model_id = fs_model_id found, co_threshold_used = threshold\<rparr>)"

section \<open>Creating a session\<close>

datatype create_rejection = Passed_unconsumed | Attempts_exceeded

definition created_within_day :: "user_ref \<Rightarrow> 'a identity_db_scheme \<Rightarrow> nat" where
  "created_within_day user d =
     length (filter (\<lambda>s. ls_user_ref s = user \<and> db_now d - day_us < ls_created_at s) (liveness_sessions d))"

definition check_create_allowed ::
  "user_ref \<Rightarrow> nat \<Rightarrow> 'a identity_db_scheme \<Rightarrow> create_rejection option" where
  "check_create_allowed user max_attempts_24h d =
     (if list_ex (\<lambda>s. ls_user_ref s = user \<and> ls_status s = Ls_passed \<and> ls_consumed_at s = None)
           (liveness_sessions d)
      then Some Passed_unconsumed
      else if created_within_day user d \<ge> max_attempts_24h then Some Attempts_exceeded
      else None)"

definition new_session :: "uuid \<Rightarrow> user_ref \<Rightarrow> string \<Rightarrow> nat \<Rightarrow> int \<Rightarrow> instant \<Rightarrow> liveness_session" where
  "new_session sid user provider_session attempt ttl_seconds t =
     \<lparr>ls_session_id = sid, ls_user_ref = user, ls_provider_session_id = provider_session,
      ls_status = Ls_created, ls_confidence = None, ls_failure_reason = None,
      ls_attempt_number = attempt, ls_reference_image_uri = None, ls_audit_image_uris = None,
      ls_created_at = t, ls_completed_at = None, ls_expires_at = t + ttl_seconds * second_us,
      ls_consumed_at = None, ls_idempotency_key = None\<rparr>"

definition create_session ::
  "user_ref \<Rightarrow> string \<Rightarrow> int \<Rightarrow> nat \<Rightarrow> 'a identity_db_scheme
     \<Rightarrow> exn + (create_rejection + liveness_session) \<times> 'a identity_db_scheme" where
  "create_session user provider_session ttl_seconds max_attempts_24h d =
     (case check_create_allowed user max_attempts_24h d of
        Some rejection \<Rightarrow> Inr (Inl rejection, d)
      | None \<Rightarrow>
          if list_ex (\<lambda>s. ls_provider_session_id s = provider_session) (liveness_sessions d)
          then Inl (UniqueViolation ''liveness_sessions_provider_session_id_key'')
          else
            let attempts = length (filter (\<lambda>s. ls_user_ref s = user) (liveness_sessions d));
                row = new_session (db_fresh d) user provider_session (attempts + 1) ttl_seconds (db_now d)
            in Inr (Inr row, d\<lparr>liveness_sessions := liveness_sessions d @ [row],
                              db_fresh := Suc (db_fresh d)\<rparr>))"

section \<open>Reading and finishing a session\<close>

definition get_session :: "uuid \<Rightarrow> 'a identity_db_scheme \<Rightarrow> liveness_session option" where
  "get_session sid d = sql_first (\<lambda>s. ls_session_id s = sid) (liveness_sessions d)"

definition has_enrolment :: "uuid \<Rightarrow> 'a identity_db_scheme \<Rightarrow> bool" where
  "has_enrolment sid d \<longleftrightarrow> list_ex (\<lambda>e. en_session_id e = sid) (enrolments d)"

text \<open>
  An \<^verbatim>\<open>UPDATE liveness_sessions .. RETURNING\<close> of one session that passes a guard.  0003: an
  enrolment references its session with the status \<^verbatim>\<open>consumed\<close>, so the status of an enrolled
  session cannot change.
\<close>

definition update_session ::
  "uuid \<Rightarrow> (liveness_session \<Rightarrow> bool) \<Rightarrow> (liveness_session \<Rightarrow> liveness_session) \<Rightarrow> 'a identity_db_scheme
     \<Rightarrow> exn + liveness_session option \<times> 'a identity_db_scheme" where
  "update_session sid guard f d =
     (case sql_first (\<lambda>s. ls_session_id s = sid \<and> guard s) (liveness_sessions d) of
        None \<Rightarrow> Inr (None, d)
      | Some s \<Rightarrow>
          if has_enrolment sid d \<and> ls_status (f s) \<noteq> Ls_consumed
          then Inl (ForeignKeyViolation ''enrolments_session_consumed_fk'')
          else Inr (Some (f s),
                 d\<lparr>liveness_sessions := sql_update (\<lambda>s. ls_session_id s = sid \<and> guard s) f (liveness_sessions d)\<rparr>))"

definition not_completed :: "liveness_session \<Rightarrow> bool" where
  "not_completed s \<longleftrightarrow> ls_completed_at s = None"

definition claim_result :: "uuid \<Rightarrow> string \<Rightarrow> 'a identity_db_scheme \<Rightarrow> 'a identity_db_scheme" where
  "claim_result sid key d =
     d\<lparr>liveness_sessions := sql_update (\<lambda>s. ls_session_id s = sid \<and> not_completed s)
        (\<lambda>s. s\<lparr>ls_idempotency_key := Some key\<rparr>) (liveness_sessions d)\<rparr>"

definition finalize_result ::
  "uuid \<Rightarrow> liveness_status \<Rightarrow> rat option \<Rightarrow> string option \<Rightarrow> string option \<Rightarrow> string list option
     \<Rightarrow> 'a identity_db_scheme \<Rightarrow> exn + liveness_session \<times> 'a identity_db_scheme" where
  "finalize_result sid status confidence failure reference audits d =
     (case numeric_5_2 confidence of
        Inl e \<Rightarrow> Inl e
      | Inr c \<Rightarrow>
          (case update_session sid (\<lambda>_. True)
                  (\<lambda>s. s\<lparr>ls_status := status, ls_confidence := c, ls_failure_reason := failure,
                         ls_reference_image_uri := reference, ls_audit_image_uris := audits,
                         ls_completed_at := Some (db_now d)\<rparr>) d of
             Inl e \<Rightarrow> Inl e
           | Inr (None, _) \<Rightarrow> Inl (LookupError ''liveness session'')
           | Inr (Some s, d') \<Rightarrow> Inr (s, d')))"

definition mark_expired :: "uuid \<Rightarrow> 'a identity_db_scheme \<Rightarrow> exn + liveness_session \<times> 'a identity_db_scheme" where
  "mark_expired sid d =
     (case update_session sid not_completed (\<lambda>s. s\<lparr>ls_status := Ls_expired\<rparr>) d of
        Inl e \<Rightarrow> Inl e
      | Inr (Some s, d') \<Rightarrow> Inr (s, d')
      | Inr (None, _) \<Rightarrow>
          (case get_session sid d of
             None \<Rightarrow> Inl (LookupError ''liveness session'')
           | Some s \<Rightarrow> Inr (s, d)))"

definition consume_session ::
  "uuid \<Rightarrow> rat option \<Rightarrow> string option \<Rightarrow> string \<Rightarrow> string list \<Rightarrow> 'a identity_db_scheme
     \<Rightarrow> exn + liveness_session option \<times> 'a identity_db_scheme" where
  "consume_session sid confidence failure reference audits d =
     (case numeric_5_2 confidence of
        Inl e \<Rightarrow> Inl e
      | Inr c \<Rightarrow>
          update_session sid not_completed
            (\<lambda>s. s\<lparr>ls_status := Ls_consumed, ls_confidence := c, ls_failure_reason := failure,
                   ls_reference_image_uri := Some reference, ls_audit_image_uris := Some audits,
                   ls_completed_at := Some (db_now d), ls_consumed_at := Some (db_now d)\<rparr>) d)"

record new_enrolment =
  ne_user_ref :: user_ref
  ne_collection_id :: string
  ne_external_face_id :: string
  ne_quality_score :: "rat option"
  ne_model_id :: string
  ne_source_object_uri :: string
  ne_consent_ref :: uuid
  ne_consent_document_sha256 :: string
  ne_consent_signed_at :: instant

text \<open>
  The insert with its constraints: one enrolment per session, one row per face of a collection, no
  sentinel consent (0010), and the session consumed (0003).
\<close>

definition insert_enrolment ::
  "uuid \<Rightarrow> new_enrolment \<Rightarrow> 'a identity_db_scheme \<Rightarrow> exn + enrolment \<times> 'a identity_db_scheme" where
  "insert_enrolment sid e d =
     (case numeric_5_2 (ne_quality_score e) of
        Inl err \<Rightarrow> Inl err
      | Inr q \<Rightarrow>
          if ne_consent_ref e = SENTINEL_CONSENT_REF
          then Inl (CheckViolation ''enrolments_consent_not_sentinel'')
          else if has_enrolment sid d then Inl (UniqueViolation ''enrolments_session_id_key'')
          else if list_ex (\<lambda>r. en_collection_id r = ne_collection_id e \<and>
                                en_external_face_id r = ne_external_face_id e) (enrolments d)
          then Inl (UniqueViolation ''enrolments_face_uniq'')
          else if \<not> list_ex (\<lambda>s. ls_session_id s = sid \<and> ls_status s = Ls_consumed) (liveness_sessions d)
          then Inl (ForeignKeyViolation ''enrolments_session_consumed_fk'')
          else
            let row = \<lparr>en_enrolment_id = db_fresh d, en_session_id = sid, en_user_ref = ne_user_ref e,
                  en_collection_id = ne_collection_id e, en_external_face_id = ne_external_face_id e,
                  en_quality_score = q, en_model_id = ne_model_id e,
                  en_source_object_uri = ne_source_object_uri e, en_active = True,
                  en_created_at = db_now d, en_deleted_at = None, en_consent_ref = ne_consent_ref e,
                  en_consent_document_sha256 = ne_consent_document_sha256 e,
                  en_consent_signed_at = ne_consent_signed_at e\<rparr>
            in Inr (row, d\<lparr>enrolments := enrolments d @ [row], db_fresh := Suc (db_fresh d)\<rparr>))"

text \<open>\<^verbatim>\<open>pg_notify\<close> reaches listeners only; it leaves no row.\<close>

definition finalize_enrolled ::
  "uuid \<Rightarrow> rat option \<Rightarrow> string \<Rightarrow> string list \<Rightarrow> new_enrolment \<Rightarrow> eligibility \<Rightarrow> 'a identity_db_scheme
     \<Rightarrow> exn + (liveness_session \<times> enrolment) option \<times> 'a identity_db_scheme" where
  "finalize_enrolled sid confidence reference audits e el d =
     (case consume_session sid confidence None reference audits d of
        Inl err \<Rightarrow> Inl err
      | Inr (None, _) \<Rightarrow> Inr (None, d)
      | Inr (Some s, d1) \<Rightarrow>
          (case upsert_subject (ne_user_ref e) el d1 of
             Inl err \<Rightarrow> Inl err
           | Inr d2 \<Rightarrow>
               (case insert_enrolment sid e d2 of
                  Inl err \<Rightarrow> Inl err
                | Inr (row, d3) \<Rightarrow> Inr (Some (s, row), d3))))"

definition finalize_quality_rejected ::
  "uuid \<Rightarrow> rat option \<Rightarrow> string \<Rightarrow> string list \<Rightarrow> 'a identity_db_scheme
     \<Rightarrow> exn + liveness_session option \<times> 'a identity_db_scheme" where
  "finalize_quality_rejected sid confidence reference audits d =
     consume_session sid confidence (Some QUALITY_REJECTED_REASON) reference audits d"

text \<open>0036: one conflict per session.\<close>

definition finalize_conflict ::
  "uuid \<Rightarrow> rat option \<Rightarrow> string \<Rightarrow> string list \<Rightarrow> string \<Rightarrow> collision \<Rightarrow> 'a identity_db_scheme
     \<Rightarrow> exn + (liveness_session \<times> enrolment_conflict) option \<times> 'a identity_db_scheme" where
  "finalize_conflict sid confidence reference audits collection c d =
     (case consume_session sid confidence (Some IDENTITY_CONFLICT_REASON) reference audits d of
        Inl err \<Rightarrow> Inl err
      | Inr (None, _) \<Rightarrow> Inr (None, d)
      | Inr (Some s, d1) \<Rightarrow>
          (case (numeric_5_2 (Some (co_similarity c)), numeric_5_2 (Some (co_threshold_used c))) of
             (Inr (Some sim), Inr (Some thr)) \<Rightarrow>
               if list_ex (\<lambda>r. ec_session_id r = sid) (enrolment_conflicts d1)
               then Inl (UniqueViolation ''enrolment_conflicts_session_id_key'')
               else
                 let row = \<lparr>ec_conflict_id = db_fresh d1, ec_session_id = sid,
                       ec_attempted_user_ref = ls_user_ref s, ec_matched_user_ref = co_matched_user_ref c,
                       ec_similarity = sim, ec_threshold_used = thr, ec_model_id = co_model_id c,
                       ec_collection_id = collection, ec_occurred_at = db_now d1\<rparr>;
                     d2 = d1\<lparr>enrolment_conflicts := enrolment_conflicts d1 @ [row], db_fresh := Suc (db_fresh d1)\<rparr>
                 in Inr (Some (s, row),
                      insert_audit (audit_entry ''service'' ''enrolment.identity_conflict'' (Some (ls_user_ref s))
                        (Some (ec_conflict_id row))
                        (JObj [(''similarity'', JNum (co_similarity c)), (''threshold'', JNum (co_threshold_used c))])
                        d2) d2)
           | _ \<Rightarrow> Inl NumericValueOutOfRange))"

definition get_conflict :: "uuid \<Rightarrow> 'a identity_db_scheme \<Rightarrow> enrolment_conflict option" where
  "get_conflict sid d = sql_first (\<lambda>c. ec_session_id c = sid) (enrolment_conflicts d)"

definition get_enrolment_consent_ref :: "uuid \<Rightarrow> 'a identity_db_scheme \<Rightarrow> uuid option" where
  "get_enrolment_consent_ref sid d =
     map_option en_consent_ref (sql_first (\<lambda>e. en_session_id e = sid) (enrolments d))"

section \<open>The enrolment store\<close>

definition active_of :: "user_ref \<Rightarrow> enrolment \<Rightarrow> bool" where
  "active_of user e \<longleftrightarrow> en_user_ref e = user \<and> en_active e"

definition get_active_enrolments :: "user_ref \<Rightarrow> 'a identity_db_scheme \<Rightarrow> enrolment list" where
  "get_active_enrolments user d = sort_key en_created_at (filter (active_of user) (enrolments d))"

text \<open>
  0010: \<^verbatim>\<open>enrolments_consent_not_sentinel\<close> is \<^verbatim>\<open>NOT VALID\<close>, which exempts the rows that were
  there from the check of the migration, not from the check of a later \<^verbatim>\<open>UPDATE\<close>.
\<close>

definition tombstone_enrolments :: "user_ref \<Rightarrow> 'a identity_db_scheme \<Rightarrow> exn + nat \<times> 'a identity_db_scheme" where
  "tombstone_enrolments user d =
     (if list_ex (\<lambda>e. active_of user e \<and> en_consent_ref e = SENTINEL_CONSENT_REF) (enrolments d)
      then Inl (CheckViolation ''enrolments_consent_not_sentinel'')
      else Inr (length (filter (active_of user) (enrolments d)),
             d\<lparr>enrolments := sql_update (active_of user)
                 (\<lambda>e. e\<lparr>en_active := False, en_deleted_at := Some (db_now d)\<rparr>) (enrolments d)\<rparr>))"

end
