(* ===== verification/Enrolment_Route.thy ===== *)
theory Enrolment_Route
  imports Identity_Store
begin

text \<open>
  The handler of \<^verbatim>\<open>POST /v1/liveness/{session_id}/result\<close> (\<^verbatim>\<open>http/routes/liveness.py\<close>),
  which turns a passed liveness check into an enrolment, and the deletion route
  (\<^verbatim>\<open>http/routes/enrolments.py\<close>).

  Calls run concurrently, so a call is a program counter that advances by one action at a time: one
  transaction of the store or one answer of an external service (\<open>advance\<close>).  What lies between two
  awaits of the code is one action here.  The face collection, which the service fills and empties
  through \<^verbatim>\<open>IndexFaces\<close> and \<^verbatim>\<open>DeleteFaces\<close>, is the list of its faces.
\<close>

section \<open>Requests and responses\<close>

record result_request =
  rr_session_id :: uuid
  rr_idempotency_key :: "string option"
  rr_reference_put_url :: "string option"
  rr_audit_put_urls :: "string list option"
  rr_subject_is_adult :: "bool option"
  rr_consent_ref :: "uuid option"
  rr_consent_document_sha256 :: "string option"
  rr_consent_signed_at :: "instant option"
  rr_collision_candidates :: "user_ref list option"

datatype result_response =
  Result_ok string "rat option" bool "string option"
| Service_error nat string bool "uuid option"
| Unhandled exn

record liveness_config =
  lc_session_ttl_seconds :: int
  lc_max_attempts_24h :: nat
  lc_min_confidence :: rat
  lc_identity_collection :: string
  lc_collision_threshold :: rat

text \<open>
  The validators of the request body (a naive timestamp is read as UTC when the request is parsed);
  a body that fails one is answered 422 before the handler runs.
\<close>

definition request_valid :: "instant \<Rightarrow> result_request \<Rightarrow> bool" where
  "request_valid clock q \<longleftrightarrow>
     rr_consent_ref q \<noteq> Some SENTINEL_CONSENT_REF \<and>
     (case rr_consent_document_sha256 q of None \<Rightarrow> True | Some h \<Rightarrow> py_strip h \<noteq> []) \<and>
     (case rr_consent_signed_at q of None \<Rightarrow> True | Some t \<Rightarrow> t \<le> clock)"

text \<open>What the request is once the checks at the top of the handler have passed.\<close>

record result_params =
  rp_session_id :: uuid
  rp_key :: string
  rp_reference_put_url :: string
  rp_audit_put_urls :: "string list"
  rp_adult :: bool
  rp_consent_ref :: uuid
  rp_consent_sha :: string
  rp_consent_signed_at :: instant
  rp_candidates :: "user_ref set option"

text \<open>\<^verbatim>\<open>_require_presigned\<close>; \<^verbatim>\<open>urlsplit\<close> may raise.\<close>

definition require_presigned :: "host_lib \<Rightarrow> string \<Rightarrow> result_response option" where
  "require_presigned lib url =
     (case urlsplit lib url of
        None \<Rightarrow> Some (Unhandled (ValueError ''Invalid URL''))
      | Some parts \<Rightarrow>
          if sr_scheme parts \<notin> {''http'', ''https''} \<or> sr_netloc parts = []
          then Some (Service_error 400 ''presigned_urls_invalid'' False None)
          else None)"

fun first_refusal :: "host_lib \<Rightarrow> string list \<Rightarrow> result_response option" where
  "first_refusal lib [] = None"
| "first_refusal lib (u # us) =
     (case require_presigned lib u of None \<Rightarrow> first_refusal lib us | Some r \<Rightarrow> Some r)"

definition strip_query :: "host_lib \<Rightarrow> string \<Rightarrow> string" where
  "strip_query lib url =
     (case urlsplit lib url of
        None \<Rightarrow> []
      | Some p \<Rightarrow> sr_scheme p @ ''://'' @ sr_netloc p @
          (if sr_path p \<noteq> [] \<and> hd (sr_path p) \<noteq> CHR ''/'' then CHR ''/'' # sr_path p else sr_path p))"

definition checked_params :: "host_lib \<Rightarrow> result_request \<Rightarrow> result_response + result_params" where
  "checked_params lib q =
     (case rr_idempotency_key q of
        None \<Rightarrow> Inl (Service_error 400 ''idempotency_key_missing'' False None)
      | Some key \<Rightarrow>
          (case (rr_reference_put_url q, rr_audit_put_urls q) of
             (Some reference, Some audits) \<Rightarrow>
               (case rr_subject_is_adult q of
                  None \<Rightarrow> Inl (Service_error 400 ''subject_eligibility_required'' False None)
                | Some adult \<Rightarrow>
                    (case (rr_consent_ref q, rr_consent_document_sha256 q, rr_consent_signed_at q) of
                       (Some consent, Some doc_sha, Some signed_at) \<Rightarrow>
                         (case first_refusal lib (reference # audits) of
                            Some r \<Rightarrow> Inl r
                          | None \<Rightarrow>
                              Inr \<lparr>rp_session_id = rr_session_id q, rp_key = key,
                                rp_reference_put_url = reference, rp_audit_put_urls = audits,
                                rp_adult = adult, rp_consent_ref = consent, rp_consent_sha = doc_sha,
                                rp_consent_signed_at = signed_at,
                                rp_candidates = map_option set (rr_collision_candidates q)\<rparr>)
                     | _ \<Rightarrow> Inl (Service_error 400 ''consent_required'' False None)))
           | _ \<Rightarrow> Inl (Service_error 400 ''presigned_urls_missing'' False None)))"

section \<open>External answers\<close>

datatype provider_status = Pv_created | Pv_in_progress | Pv_succeeded | Pv_failed | Pv_expired

record provider_answer =
  pv_status :: provider_status
  pv_confidence :: "rat option"
  pv_has_reference :: bool
  pv_audit_images :: nat

record indexed_face =
  if_face_id :: string
  if_quality_score :: "rat option"
  if_model_id :: string

text \<open>
  One constructor per call and outcome: the provider's result, the presigned uploads, the search, the
  indexing, the deletion and the listing.  \<open>Ext_raised\<close> is any exception the handler does not catch.
\<close>

datatype ext_answer =
  Ext_result provider_answer
| Ext_no_session
| Ext_uploaded
| Ext_upload_failed
| Ext_searched face_search_result
| Ext_indexed indexed_face
| Ext_rejected
| Ext_deleted "string list"
| Ext_listed
| Ext_unavailable
| Ext_raised exn

section \<open>The handler\<close>

datatype pc =
  Pc_read
| Pc_claim liveness_session
| Pc_result liveness_session
| Pc_expire result_response
| Pc_fail liveness_session "rat option" string
| Pc_upload liveness_session provider_answer
| Pc_search liveness_session provider_answer
| Pc_conflict liveness_session provider_answer collision
| Pc_index liveness_session provider_answer
| Pc_reject liveness_session provider_answer
| Pc_enrol liveness_session provider_answer indexed_face
| Pc_cleanup indexed_face
| Pc_late
| Pc_replay_conflict liveness_session
| Pc_done result_response

definition enrolled :: "liveness_session \<Rightarrow> bool" where
  "enrolled s \<longleftrightarrow> ls_consumed_at s \<noteq> None \<and> ls_failure_reason s = None"

definition result_response_of :: "liveness_session \<Rightarrow> result_response" where
  "result_response_of s =
     (let reason = (if ls_failure_reason s = Some QUALITY_REJECTED_REASON then Some ''quality_rejected'' else None)
      in case ls_status s of
           Ls_consumed \<Rightarrow> Result_ok ''passed'' (ls_confidence s) (enrolled s) reason
         | Ls_passed \<Rightarrow> Result_ok ''passed'' (ls_confidence s) (enrolled s) reason
         | Ls_failed \<Rightarrow> Result_ok ''failed'' (ls_confidence s) (enrolled s) reason
         | _ \<Rightarrow> Service_error 502 ''liveness_result_inconsistent'' True None)"

definition conflict_error :: "enrolment_conflict \<Rightarrow> result_response" where
  "conflict_error c = Service_error 409 ''identity_conflict'' False (Some (ec_conflict_id c))"

text \<open>\<^verbatim>\<open>_replay\<close>: a conflicted session has one more row to read.\<close>

definition replay_pc :: "liveness_session \<Rightarrow> pc" where
  "replay_pc s =
     (if ls_failure_reason s = Some IDENTITY_CONFLICT_REASON then Pc_replay_conflict s
      else Pc_done (result_response_of s))"

definition session_expired :: "liveness_session \<Rightarrow> instant \<Rightarrow> bool" where
  "session_expired s now \<longleftrightarrow> ls_completed_at s = None \<and> ls_expires_at s \<le> now"

definition consumed_error :: result_response where
  "consumed_error = Service_error 410 ''liveness_consumed'' False None"

definition expired_error :: result_response where
  "expired_error = Service_error 410 ''liveness_expired'' False None"

definition after_read :: "string \<Rightarrow> instant \<Rightarrow> liveness_session option \<Rightarrow> pc" where
  "after_read key now row =
     (case row of
        None \<Rightarrow> Pc_done (Service_error 404 ''session_not_found'' False None)
      | Some s \<Rightarrow>
          if ls_completed_at s \<noteq> None
          then (if ls_idempotency_key s = Some key then replay_pc s else Pc_done consumed_error)
          else if ls_consumed_at s \<noteq> None then Pc_done consumed_error
          else if session_expired s now then Pc_expire expired_error
          else Pc_claim s)"

definition after_result :: "liveness_config \<Rightarrow> liveness_session \<Rightarrow> provider_answer \<Rightarrow> pc" where
  "after_result cfg s r =
     (case pv_status r of
        Pv_created \<Rightarrow> Pc_done (Service_error 409 ''liveness_result_not_ready'' True None)
      | Pv_in_progress \<Rightarrow> Pc_done (Service_error 409 ''liveness_result_not_ready'' True None)
      | Pv_expired \<Rightarrow> Pc_expire expired_error
      | Pv_failed \<Rightarrow> Pc_fail s (pv_confidence r) ''provider_reported_failure''
      | Pv_succeeded \<Rightarrow>
          if pv_confidence r = None \<or> the (pv_confidence r) < lc_min_confidence cfg
          then Pc_fail s (pv_confidence r) ''confidence_below_threshold''
          else if \<not> pv_has_reference r
          then Pc_done (Service_error 502 ''provider_reference_missing'' True None)
          else Pc_upload s r)"

record collection_face =
  cf_collection_id :: string
  cf_face_id :: string
  cf_external_image_id :: string

record identity_world =
  iw_db :: identity_db
  iw_faces :: "collection_face list"

definition stored_audit_uris :: "host_lib \<Rightarrow> result_params \<Rightarrow> provider_answer \<Rightarrow> string list" where
  "stored_audit_uris lib p r = map (strip_query lib) (take (pv_audit_images r) (rp_audit_put_urls p))"

definition enrolment_of ::
  "host_lib \<Rightarrow> liveness_config \<Rightarrow> result_params \<Rightarrow> liveness_session \<Rightarrow> indexed_face \<Rightarrow> new_enrolment" where
  "enrolment_of lib cfg p s f =
     \<lparr>ne_user_ref = ls_user_ref s, ne_collection_id = lc_identity_collection cfg,
      ne_external_face_id = if_face_id f, ne_quality_score = if_quality_score f,
      ne_model_id = if_model_id f, ne_source_object_uri = strip_query lib (rp_reference_put_url p),
      ne_consent_ref = rp_consent_ref p, ne_consent_document_sha256 = rp_consent_sha p,
      ne_consent_signed_at = rp_consent_signed_at p\<rparr>"

definition face_unavailable :: result_response where
  "face_unavailable = Service_error 503 ''face_index_unavailable'' True None"

text \<open>
  The actions on the tables: the next program counter and the tables after.  A store exception leaves
  the handler.  \<open>clock\<close> is the application's clock, which the expiry check reads.
\<close>

fun store_action ::
  "host_lib \<Rightarrow> liveness_config \<Rightarrow> result_params \<Rightarrow> instant \<Rightarrow> pc \<Rightarrow> identity_db \<Rightarrow> pc \<times> identity_db" where
  "store_action lib cfg p clock Pc_read d = (after_read (rp_key p) clock (get_session (rp_session_id p) d), d)"
| "store_action lib cfg p clock (Pc_claim s) d = (Pc_result s, claim_result (rp_session_id p) (rp_key p) d)"
| "store_action lib cfg p clock (Pc_expire r) d =
     (case mark_expired (rp_session_id p) d of
        Inl e \<Rightarrow> (Pc_done (Unhandled e), d)
      | Inr (_, d') \<Rightarrow> (Pc_done r, d'))"
| "store_action lib cfg p clock (Pc_fail s confidence reason) d =
     (case finalize_result (rp_session_id p) Ls_failed confidence (Some reason) None None d of
        Inl e \<Rightarrow> (Pc_done (Unhandled e), d)
      | Inr (s', d') \<Rightarrow> (Pc_done (result_response_of s'), d'))"
| "store_action lib cfg p clock (Pc_conflict s r c) d =
     (case finalize_conflict (rp_session_id p) (pv_confidence r) (strip_query lib (rp_reference_put_url p))
             (stored_audit_uris lib p r) (lc_identity_collection cfg) c d of
        Inl e \<Rightarrow> (Pc_done (Unhandled e), d)
      | Inr (None, d') \<Rightarrow> (Pc_late, d')
      | Inr (Some (_, row), d') \<Rightarrow> (Pc_done (conflict_error row), d'))"
| "store_action lib cfg p clock (Pc_reject s r) d =
     (case finalize_quality_rejected (rp_session_id p) (pv_confidence r)
             (strip_query lib (rp_reference_put_url p)) (stored_audit_uris lib p r) d of
        Inl e \<Rightarrow> (Pc_done (Unhandled e), d)
      | Inr (None, d') \<Rightarrow> (Pc_late, d')
      | Inr (Some s', d') \<Rightarrow> (Pc_done (result_response_of s'), d'))"
| "store_action lib cfg p clock (Pc_enrol s r f) d =
     (case finalize_enrolled (rp_session_id p) (pv_confidence r) (strip_query lib (rp_reference_put_url p))
             (stored_audit_uris lib p r) (enrolment_of lib cfg p s f) (eligibility_for (rp_adult p)) d of
        Inl e \<Rightarrow> (Pc_done (Unhandled e), d)
      | Inr (None, d') \<Rightarrow> (Pc_cleanup f, d')
      | Inr (Some (s', _), d') \<Rightarrow> (Pc_done (result_response_of s'), d'))"
| "store_action lib cfg p clock Pc_late d =
     (case get_session (rp_session_id p) d of
        Some s \<Rightarrow> (if ls_idempotency_key s = Some (rp_key p) then replay_pc s else Pc_done consumed_error, d)
      | None \<Rightarrow> (Pc_done consumed_error, d))"
| "store_action lib cfg p clock (Pc_replay_conflict s) d =
     (case get_conflict (rp_session_id p) d of
        Some c \<Rightarrow> (Pc_done (conflict_error c), d)
      | None \<Rightarrow> (Pc_done (result_response_of s), d))"
| "store_action lib cfg p clock pc d = (pc, d)"

text \<open>The answers of the services, and what they did to the collection.\<close>

definition after_search :: "liveness_config \<Rightarrow> result_params \<Rightarrow> liveness_session \<Rightarrow> provider_answer \<Rightarrow> face_search_result \<Rightarrow> pc" where
  "after_search cfg p s r found =
     (case collision_check (lc_collision_threshold cfg) (ls_user_ref s) (rp_candidates p) found of
        Some c \<Rightarrow> Pc_conflict s r c
      | None \<Rightarrow> Pc_index s r)"

definition face_of :: "liveness_config \<Rightarrow> liveness_session \<Rightarrow> indexed_face \<Rightarrow> collection_face" where
  "face_of cfg s f =
     \<lparr>cf_collection_id = lc_identity_collection cfg, cf_face_id = if_face_id f,
      cf_external_image_id = show_uuid (ls_user_ref s)\<rparr>"

text \<open>
  \<^verbatim>\<open>DeleteFaces\<close>: the service reports the faces it did not delete, and the adapter does not
  look at the report, so the answer names the faces that stay.
\<close>

definition without_faces :: "string \<Rightarrow> string list \<Rightarrow> string list \<Rightarrow> collection_face list \<Rightarrow> collection_face list" where
  "without_faces collection ids kept fs =
     filter (\<lambda>c. \<not> (cf_collection_id c = collection \<and> cf_face_id c \<in> set ids \<and> cf_face_id c \<notin> set kept)) fs"

text \<open>An answer that does not belong to the awaited call leaves the call waiting.\<close>

definition external_action ::
  "liveness_config \<Rightarrow> result_params \<Rightarrow> pc \<Rightarrow> ext_answer \<Rightarrow> collection_face list \<Rightarrow> pc \<times> collection_face list" where
  "external_action cfg p pc ans fs =
     (case ans of
        Ext_raised e \<Rightarrow> (Pc_done (Unhandled e), fs)
      | _ \<Rightarrow>
       (case pc of
          Pc_result s \<Rightarrow>
            (case ans of
               Ext_result r \<Rightarrow> (after_result cfg s r, fs)
             | Ext_no_session \<Rightarrow> (Pc_expire expired_error, fs)
             | _ \<Rightarrow> (pc, fs))
        | Pc_upload s r \<Rightarrow>
            (case ans of
               Ext_uploaded \<Rightarrow> (Pc_search s r, fs)
             | Ext_upload_failed \<Rightarrow> (Pc_done (Service_error 502 ''presigned_put_failed'' True None), fs)
             | _ \<Rightarrow> (pc, fs))
        | Pc_search s r \<Rightarrow>
            (case ans of
               Ext_searched found \<Rightarrow> (after_search cfg p s r found, fs)
             | Ext_unavailable \<Rightarrow> (Pc_done face_unavailable, fs)
             | _ \<Rightarrow> (pc, fs))
        | Pc_index s r \<Rightarrow>
            (case ans of
               Ext_indexed f \<Rightarrow> (Pc_enrol s r f, fs @ [face_of cfg s f])
             | Ext_rejected \<Rightarrow> (Pc_reject s r, fs)
             | Ext_unavailable \<Rightarrow> (Pc_done face_unavailable, fs)
             | _ \<Rightarrow> (pc, fs))
        | Pc_cleanup f \<Rightarrow>
            (case ans of
               Ext_deleted kept \<Rightarrow> (Pc_late, without_faces (lc_identity_collection cfg) [if_face_id f] kept fs)
             | _ \<Rightarrow> (pc, fs))
        | _ \<Rightarrow> (pc, fs)))"

definition awaits_service :: "pc \<Rightarrow> bool" where
  "awaits_service pc \<longleftrightarrow>
     (case pc of Pc_result _ \<Rightarrow> True | Pc_upload _ _ \<Rightarrow> True | Pc_search _ _ \<Rightarrow> True
      | Pc_index _ _ \<Rightarrow> True | Pc_cleanup _ \<Rightarrow> True | _ \<Rightarrow> False)"

definition advance ::
  "host_lib \<Rightarrow> liveness_config \<Rightarrow> result_params \<Rightarrow> instant \<Rightarrow> pc \<Rightarrow> ext_answer \<Rightarrow> identity_world \<Rightarrow> pc \<times> identity_world" where
  "advance lib cfg p clock pc ans w =
     (if awaits_service pc
      then (let (pc', fs) = external_action cfg p pc ans (iw_faces w) in (pc', w\<lparr>iw_faces := fs\<rparr>))
      else (let (pc', d) = store_action lib cfg p clock pc (iw_db w) in (pc', w\<lparr>iw_db := d\<rparr>)))"

section \<open>Deleting a user's enrolments\<close>

datatype delete_response =
  No_content
| Delete_error nat string bool
| Delete_raised exn

datatype delete_pc =
  Dp_read
| Dp_delete string "string list" "(string \<times> string list) list"
| Dp_verify string "string list" "(string \<times> string list) list"
| Dp_tombstone
| Dp_done delete_response

fun add_face :: "string \<times> string \<Rightarrow> (string \<times> string list) list \<Rightarrow> (string \<times> string list) list" where
  "add_face (c, f) [] = [(c, [f])]"
| "add_face (c, f) ((c', fs) # rest) =
     (if c' = c then (c', fs @ [f]) # rest else (c', fs) # add_face (c, f) rest)"

definition by_collection :: "enrolment list \<Rightarrow> (string \<times> string list) list" where
  "by_collection es = fold add_face (map (\<lambda>e. (en_collection_id e, en_external_face_id e)) es) []"

fun next_delete :: "(string \<times> string list) list \<Rightarrow> delete_pc" where
  "next_delete [] = Dp_tombstone"
| "next_delete ((c, fs) # rest) = Dp_delete c fs rest"

text \<open>\<^verbatim>\<open>ListFaces\<close>, all pages of it.\<close>

definition listed_faces :: "string \<Rightarrow> string list \<Rightarrow> collection_face list \<Rightarrow> string list" where
  "listed_faces collection ids fs =
     map cf_face_id (filter (\<lambda>c. cf_collection_id c = collection \<and> cf_face_id c \<in> set ids) fs)"

definition delete_unavailable :: delete_response where
  "delete_unavailable = Delete_error 503 ''face_index_unavailable'' True"

definition delete_external :: "delete_pc \<Rightarrow> ext_answer \<Rightarrow> collection_face list \<Rightarrow> delete_pc \<times> collection_face list" where
  "delete_external pc ans fs =
     (case ans of
        Ext_raised e \<Rightarrow> (Dp_done (Delete_raised e), fs)
      | Ext_unavailable \<Rightarrow> (Dp_done delete_unavailable, fs)
      | _ \<Rightarrow>
       (case pc of
          Dp_delete c ids rest \<Rightarrow>
            (case ans of
               Ext_deleted kept \<Rightarrow> (Dp_verify c ids rest, without_faces c ids kept fs)
             | _ \<Rightarrow> (pc, fs))
        | Dp_verify c ids rest \<Rightarrow>
            (case ans of
               Ext_listed \<Rightarrow>
                 (if listed_faces c ids fs = [] then next_delete rest
                  else Dp_done (Delete_error 502 ''face_deletion_unverified'' True), fs)
             | _ \<Rightarrow> (pc, fs))
        | _ \<Rightarrow> (pc, fs)))"

fun delete_store :: "user_ref \<Rightarrow> delete_pc \<Rightarrow> identity_db \<Rightarrow> delete_pc \<times> identity_db" where
  "delete_store user Dp_read d =
     (case get_active_enrolments user d of
        [] \<Rightarrow> (Dp_done No_content, d)
      | es \<Rightarrow> (next_delete (by_collection es), d))"
| "delete_store user Dp_tombstone d =
     (case tombstone_enrolments user d of
        Inl e \<Rightarrow> (Dp_done (Delete_raised e), d)
      | Inr (_, d') \<Rightarrow> (Dp_done No_content, d'))"
| "delete_store user pc d = (pc, d)"

definition delete_awaits :: "delete_pc \<Rightarrow> bool" where
  "delete_awaits pc \<longleftrightarrow> (case pc of Dp_delete _ _ _ \<Rightarrow> True | Dp_verify _ _ _ \<Rightarrow> True | _ \<Rightarrow> False)"

definition delete_advance :: "user_ref \<Rightarrow> delete_pc \<Rightarrow> ext_answer \<Rightarrow> identity_world \<Rightarrow> delete_pc \<times> identity_world" where
  "delete_advance user pc ans w =
     (if delete_awaits pc
      then (let (pc', fs) = delete_external pc ans (iw_faces w) in (pc', w\<lparr>iw_faces := fs\<rparr>))
      else (let (pc', d) = delete_store user pc (iw_db w) in (pc', w\<lparr>iw_db := d\<rparr>)))"

section \<open>Creating a session, and reading one\<close>

definition rejection_error :: "create_rejection \<Rightarrow> result_response" where
  "rejection_error r =
     (case r of
        Passed_unconsumed \<Rightarrow> Service_error 409 ''liveness_already_passed'' False None
      | Attempts_exceeded \<Rightarrow> Service_error 429 ''liveness_attempts_exceeded'' False None)"

text \<open>The provider session is created between the two checks of the attempt limit.\<close>

definition create_first_check :: "liveness_config \<Rightarrow> string option \<Rightarrow> user_ref \<Rightarrow> identity_db \<Rightarrow> result_response option" where
  "create_first_check cfg key user d =
     (if key \<noteq> None then Some (Service_error 400 ''idempotency_key_not_allowed'' False None)
      else map_option rejection_error (check_create_allowed user (lc_max_attempts_24h cfg) d))"

definition create_insert ::
  "liveness_config \<Rightarrow> user_ref \<Rightarrow> string \<Rightarrow> identity_db \<Rightarrow> (result_response + liveness_session) \<times> identity_db" where
  "create_insert cfg user provider_session d =
     (case create_session user provider_session (lc_session_ttl_seconds cfg) (lc_max_attempts_24h cfg) d of
        Inl e \<Rightarrow> (Inl (Unhandled e), d)
      | Inr (Inl r, d') \<Rightarrow> (Inl (rejection_error r), d')
      | Inr (Inr s, d') \<Rightarrow> (Inr s, d'))"

record liveness_view =
  lv_status :: liveness_status
  lv_confidence :: "rat option"
  lv_enrolled :: bool
  lv_consent_ref :: "uuid option"

definition effective_status :: "liveness_session \<Rightarrow> instant \<Rightarrow> liveness_status" where
  "effective_status s clock =
     (if ls_consumed_at s \<noteq> None then Ls_consumed
      else if session_expired s clock then Ls_expired
      else ls_status s)"

definition get_liveness_session :: "uuid \<Rightarrow> instant \<Rightarrow> identity_db \<Rightarrow> liveness_view option" where
  "get_liveness_session sid clock d =
     map_option (\<lambda>s. \<lparr>lv_status = effective_status s clock, lv_confidence = ls_confidence s,
        lv_enrolled = enrolled s,
        lv_consent_ref = (if enrolled s then get_enrolment_consent_ref sid d else None)\<rparr>)
      (get_session sid d)"

end
