(* ===== verification/Enrolment_Calls.thy ===== *)
theory Enrolment_Calls
  imports Enrolment_Route "HOL-Library.Multiset"
begin

text \<open>
  The identity calls together: any number of result calls and deletions, each advancing one action at
  a time in any order, with sessions being created, time passing and processes dying in between.
  What holds of the tables and of the face collection in every reachable state, and what a crash or
  a race leaves behind.
\<close>

section \<open>Interleavings\<close>

record identity_run =
  ir_world :: identity_world
  ir_calls :: "(result_params \<times> pc) list"
  ir_deletions :: "(user_ref \<times> delete_pc) list"

abbreviation run_db :: "identity_run \<Rightarrow> identity_db" where
  "run_db st \<equiv> iw_db (ir_world st)"

abbreviation run_faces :: "identity_run \<Rightarrow> collection_face list" where
  "run_faces st \<equiv> iw_faces (ir_world st)"

datatype identity_event =
  Ev_create user_ref string
| Ev_call instant result_request
| Ev_advance nat instant ext_answer
| Ev_delete user_ref
| Ev_delete_advance nat ext_answer
| Ev_time nat
| Ev_crash

definition with_db :: "identity_run \<Rightarrow> identity_db \<Rightarrow> identity_run" where
  "with_db st d = st\<lparr>ir_world := (ir_world st)\<lparr>iw_db := d\<rparr>\<rparr>"

fun apply_event :: "host_lib \<Rightarrow> liveness_config \<Rightarrow> identity_event \<Rightarrow> identity_run \<Rightarrow> identity_run" where
  "apply_event lib cfg (Ev_create user provider_session) st =
     with_db st (snd (create_insert cfg user provider_session (run_db st)))"
| "apply_event lib cfg (Ev_call clock q) st =
     (if request_valid clock q
      then (case checked_params lib q of
              Inl _ \<Rightarrow> st
            | Inr p \<Rightarrow> st\<lparr>ir_calls := ir_calls st @ [(p, Pc_read)]\<rparr>)
      else st)"
| "apply_event lib cfg (Ev_advance i clock ans) st =
     (if i < length (ir_calls st)
      then (let (p, pc) = ir_calls st ! i; (pc', w) = advance lib cfg p clock pc ans (ir_world st)
            in st\<lparr>ir_world := w, ir_calls := (ir_calls st)[i := (p, pc')]\<rparr>)
      else st)"
| "apply_event lib cfg (Ev_delete user) st = st\<lparr>ir_deletions := ir_deletions st @ [(user, Dp_read)]\<rparr>"
| "apply_event lib cfg (Ev_delete_advance i ans) st =
     (if i < length (ir_deletions st)
      then (let (u, pc) = ir_deletions st ! i; (pc', w) = delete_advance u pc ans (ir_world st)
            in st\<lparr>ir_world := w, ir_deletions := (ir_deletions st)[i := (u, pc')]\<rparr>)
      else st)"
| "apply_event lib cfg (Ev_time n) st = with_db st ((run_db st)\<lparr>db_now := db_now (run_db st) + int n\<rparr>)"
| "apply_event lib cfg Ev_crash st = st\<lparr>ir_calls := [], ir_deletions := []\<rparr>"

text \<open>\<^verbatim>\<open>IndexFaces\<close> answers with a face id it has never given out before.\<close>

fun pc_face :: "pc \<Rightarrow> string option" where
  "pc_face (Pc_enrol s r f) = Some (if_face_id f)"
| "pc_face (Pc_cleanup f) = Some (if_face_id f)"
| "pc_face _ = None"

definition known_faces :: "identity_run \<Rightarrow> string set" where
  "known_faces st = cf_face_id ` set (run_faces st) \<union> en_external_face_id ` set (enrolments (run_db st))
     \<union> (\<Union>c\<in>set (ir_calls st). set_option (pc_face (snd c)))"

fun fresh_answer :: "identity_run \<Rightarrow> identity_event \<Rightarrow> bool" where
  "fresh_answer st (Ev_advance i clock (Ext_indexed f)) \<longleftrightarrow> if_face_id f \<notin> known_faces st"
| "fresh_answer st _ \<longleftrightarrow> True"

definition identity_start :: "identity_run \<Rightarrow> bool" where
  "identity_start st \<longleftrightarrow>
     run_faces st = [] \<and> liveness_sessions (run_db st) = [] \<and> enrolments (run_db st) = [] \<and>
     enrolment_conflicts (run_db st) = [] \<and> ir_calls st = [] \<and> ir_deletions st = []"

text \<open>\<open>may\<close> restricts the events: it is how a statement excludes crashes or races.\<close>

inductive reached ::
  "host_lib \<Rightarrow> liveness_config \<Rightarrow> (identity_run \<Rightarrow> identity_event \<Rightarrow> bool) \<Rightarrow> identity_run \<Rightarrow> bool"
  for lib cfg may where
  start: "identity_start st \<Longrightarrow> reached lib cfg may st"
| event: "reached lib cfg may st \<Longrightarrow> fresh_answer st ev \<Longrightarrow> may st ev \<Longrightarrow>
    reached lib cfg may (apply_event lib cfg ev st)"

inductive_cases reachedE: "reached lib cfg may st"

section \<open>What the tables keep\<close>

definition session_keys :: "identity_db \<Rightarrow> (uuid \<times> user_ref) list" where
  "session_keys d = map (\<lambda>s. (ls_session_id s, ls_user_ref s)) (liveness_sessions d)"

text \<open>An enrolment stands on a consumed, passed session of its user, a subject and a consent.\<close>

definition backed :: "liveness_config \<Rightarrow> identity_db \<Rightarrow> enrolment \<Rightarrow> bool" where
  "backed cfg d e \<longleftrightarrow>
     en_consent_ref e \<noteq> SENTINEL_CONSENT_REF \<and>
     list_ex (\<lambda>sj. sj_user_ref sj = en_user_ref e) (subjects d) \<and>
     (\<exists>s\<in>set (liveness_sessions d).
        ls_session_id s = en_session_id e \<and> ls_user_ref s = en_user_ref e \<and>
        ls_status s = Ls_consumed \<and> ls_consumed_at s \<noteq> None \<and> ls_completed_at s \<noteq> None \<and>
        ls_failure_reason s = None \<and>
        (\<exists>c\<ge>lc_min_confidence cfg. numeric_5_2 (Some c) = Inr (ls_confidence s)))"

definition identity_db_ok :: "liveness_config \<Rightarrow> identity_db \<Rightarrow> bool" where
  "identity_db_ok cfg d \<longleftrightarrow>
     distinct (map ls_session_id (liveness_sessions d)) \<and>
     (\<forall>s\<in>set (liveness_sessions d). ls_session_id s < db_fresh d) \<and>
     distinct (map en_session_id (enrolments d)) \<and>
     (\<forall>e\<in>set (enrolments d). backed cfg d e)"

lemma session_keys_update:
  assumes "\<And>s. ls_session_id (f s) = ls_session_id s" "\<And>s. ls_user_ref (f s) = ls_user_ref s"
  shows "session_keys (d\<lparr>liveness_sessions := sql_update p f (liveness_sessions d)\<rparr>) = session_keys d"
  by (simp add: session_keys_def map_sql_update assms)

lemma update_session_Inr:
  assumes "update_session sid g f d = Inr (r, d')"
  shows "(r = None \<and> d' = d \<and> (\<forall>s\<in>set (liveness_sessions d). ls_session_id s = sid \<longrightarrow> \<not> g s)) \<or>
    (\<exists>s\<in>set (liveness_sessions d). ls_session_id s = sid \<and> g s \<and> r = Some (f s) \<and>
       (has_enrolment sid d \<longrightarrow> ls_status (f s) = Ls_consumed) \<and>
       d' = d\<lparr>liveness_sessions := sql_update (\<lambda>s. ls_session_id s = sid \<and> g s) f (liveness_sessions d)\<rparr>)"
  using assms
  by (auto simp: update_session_def sql_first_None_iff dest: sql_first_SomeD split: option.splits if_splits)

text \<open>An update that cannot touch an enrolled session keeps the invariant.\<close>

lemma identity_db_ok_update:
  assumes ok: "identity_db_ok cfg d"
    and f: "\<And>s. ls_session_id (f s) = ls_session_id s" "\<And>s. ls_user_ref (f s) = ls_user_ref s"
    and free: "\<And>s. s \<in> set (liveness_sessions d) \<Longrightarrow> p s \<Longrightarrow> \<not> has_enrolment (ls_session_id s) d"
  shows "identity_db_ok cfg (d\<lparr>liveness_sessions := sql_update p f (liveness_sessions d)\<rparr>)"
proof -
  let ?t = "sql_update p f (liveness_sessions d)"
  have ids: "map ls_session_id ?t = map ls_session_id (liveness_sessions d)"
    by (simp add: map_sql_update f)
  have "backed cfg (d\<lparr>liveness_sessions := ?t\<rparr>) e" if e: "e \<in> set (enrolments d)" for e
  proof -
    from ok e have "backed cfg d e" by (simp add: identity_db_ok_def)
    then obtain s where s: "s \<in> set (liveness_sessions d)" "ls_session_id s = en_session_id e"
      "ls_user_ref s = en_user_ref e" "ls_status s = Ls_consumed" "ls_consumed_at s \<noteq> None"
      "ls_completed_at s \<noteq> None" "ls_failure_reason s = None"
      "\<exists>c\<ge>lc_min_confidence cfg. numeric_5_2 (Some c) = Inr (ls_confidence s)"
      and rest: "en_consent_ref e \<noteq> SENTINEL_CONSENT_REF"
        "list_ex (\<lambda>sj. sj_user_ref sj = en_user_ref e) (subjects d)"
      unfolding backed_def by blast
    have "has_enrolment (ls_session_id s) d"
      using e s(2) by (auto simp: has_enrolment_def list_ex_iff)
    with free s(1) have "\<not> p s" by blast
    with s(1) have "s \<in> set ?t" using in_sql_updateI [of s "liveness_sessions d" p f] by simp
    with s rest show ?thesis unfolding backed_def by auto
  qed
  moreover have "\<forall>s\<in>set ?t. ls_session_id s < db_fresh d"
    using ok by (auto simp: identity_db_ok_def in_sql_update f)
  ultimately show ?thesis using ok by (simp add: identity_db_ok_def ids)
qed

lemma same_session:
  assumes "distinct (map ls_session_id t)" "s \<in> set t" "s' \<in> set t" "ls_session_id s = ls_session_id s'"
  shows "s = s'"
  using assms by (simp add: distinct_map inj_on_def)

lemma not_completed_unenrolled:
  assumes ok: "identity_db_ok cfg d" and s: "s \<in> set (liveness_sessions d)" "not_completed s"
  shows "\<not> has_enrolment (ls_session_id s) d"
proof
  assume "has_enrolment (ls_session_id s) d"
  then obtain e where "e \<in> set (enrolments d)" "en_session_id e = ls_session_id s"
    by (auto simp: has_enrolment_def list_ex_iff)
  with ok obtain s' where s': "s' \<in> set (liveness_sessions d)" "ls_session_id s' = ls_session_id s"
    "ls_completed_at s' \<noteq> None"
    unfolding identity_db_ok_def backed_def by metis
  have "s' = s" using ok same_session s' s unfolding identity_db_ok_def by blast
  with s s' show False by (simp add: not_completed_def)
qed

text \<open>What every action on the tables does, seen by the other calls.\<close>

definition keeps_tables :: "liveness_config \<Rightarrow> identity_db \<Rightarrow> identity_db \<Rightarrow> bool" where
  "keeps_tables cfg d d' \<longleftrightarrow>
     (identity_db_ok cfg d \<longrightarrow> identity_db_ok cfg d') \<and> set (session_keys d) \<subseteq> set (session_keys d')"

lemma keeps_tables_refl [simp]: "keeps_tables cfg d d"
  by (simp add: keeps_tables_def)

lemma update_session_keeps:
  assumes "update_session sid g f d = Inr (r, d')"
    and f: "\<And>s. ls_session_id (f s) = ls_session_id s" "\<And>s. ls_user_ref (f s) = ls_user_ref s"
    and g: "\<And>s. g s \<Longrightarrow> not_completed s \<or> ls_status (f s) \<noteq> Ls_consumed"
  shows "keeps_tables cfg d d' \<and> enrolments d' = enrolments d"
proof -
  from update_session_Inr [OF assms(1)] consider "d' = d"
    | s where "s \<in> set (liveness_sessions d)" "ls_session_id s = sid" "g s"
      "has_enrolment sid d \<longrightarrow> ls_status (f s) = Ls_consumed"
      "d' = d\<lparr>liveness_sessions := sql_update (\<lambda>s. ls_session_id s = sid \<and> g s) f (liveness_sessions d)\<rparr>"
    by blast
  then show ?thesis
  proof cases
    case (2 s)
    have "identity_db_ok cfg d'" if ok: "identity_db_ok cfg d"
      unfolding 2(5)
    proof (rule identity_db_ok_update [OF ok f])
      fix s' assume s': "s' \<in> set (liveness_sessions d)" "ls_session_id s' = sid \<and> g s'"
      then have "s' = s" using ok 2 same_session unfolding identity_db_ok_def by blast
      then show "\<not> has_enrolment (ls_session_id s') d"
        using not_completed_unenrolled [OF ok 2(1)] g [OF 2(3)] 2(2,4) by blast
    qed
    then show ?thesis using 2(5) by (simp add: keeps_tables_def session_keys_update f)
  qed simp
qed

lemma claim_result_keeps: "keeps_tables cfg d (claim_result sid key d)"
proof -
  have "identity_db_ok cfg d \<Longrightarrow> identity_db_ok cfg (claim_result sid key d)"
    unfolding claim_result_def
    by (rule identity_db_ok_update) (auto dest: not_completed_unenrolled)
  then show ?thesis by (simp add: keeps_tables_def claim_result_def session_keys_update)
qed

lemma finalize_result_keeps:
  assumes "finalize_result sid status c fl rf au d = Inr (s, d')" "status \<noteq> Ls_consumed"
  shows "keeps_tables cfg d d' \<and> enrolments d' = enrolments d"
proof -
  from assms(1) obtain r f where "update_session sid (\<lambda>_. True) f d = Inr (r, d')"
    "\<And>s. ls_session_id (f s) = ls_session_id s \<and> ls_user_ref (f s) = ls_user_ref s \<and> ls_status (f s) = status"
    unfolding finalize_result_def
    by (force split: sum.splits option.splits prod.splits)
  with assms(2) show ?thesis by (intro update_session_keeps [of sid "\<lambda>_. True" f]) auto
qed

lemma mark_expired_keeps:
  assumes "mark_expired sid d = Inr (s, d')"
  shows "keeps_tables cfg d d' \<and> enrolments d' = enrolments d"
proof (cases "update_session sid not_completed (\<lambda>s. s\<lparr>ls_status := Ls_expired\<rparr>) d")
  case (Inr x)
  then have "keeps_tables cfg d (snd x) \<and> enrolments (snd x) = enrolments d"
    by (intro update_session_keeps [of sid not_completed "ls_status_update (\<lambda>_. Ls_expired)" d "fst x"]) auto
  with Inr assms show ?thesis
    by (auto simp: mark_expired_def split: option.splits prod.splits)
qed (use assms in \<open>simp add: mark_expired_def\<close>)

lemma consume_session_Inr:
  assumes "consume_session sid c fl rf au d = Inr (r, d')"
  shows "(r = None \<and> d' = d) \<or>
    (\<exists>s\<in>set (liveness_sessions d). \<exists>conf. ls_session_id s = sid \<and> not_completed s \<and>
      numeric_5_2 c = Inr conf \<and>
      (let f = \<lambda>s. s\<lparr>ls_status := Ls_consumed, ls_confidence := conf, ls_failure_reason := fl,
                   ls_reference_image_uri := Some rf, ls_audit_image_uris := Some au,
                   ls_completed_at := Some (db_now d), ls_consumed_at := Some (db_now d)\<rparr>
       in r = Some (f s) \<and>
          d' = d\<lparr>liveness_sessions := sql_update (\<lambda>s. ls_session_id s = sid \<and> not_completed s) f
                   (liveness_sessions d)\<rparr>))"
  using assms update_session_Inr
  by (fastforce simp: consume_session_def Let_def split: sum.splits)

lemma consume_session_keeps:
  assumes "consume_session sid c fl rf au d = Inr (r, d')"
  shows "keeps_tables cfg d d' \<and> enrolments d' = enrolments d"
proof -
  from assms obtain f where "update_session sid not_completed f d = Inr (r, d')"
    "\<And>s. ls_session_id (f s) = ls_session_id s \<and> ls_user_ref (f s) = ls_user_ref s"
    unfolding consume_session_def by (force split: sum.splits)
  then show ?thesis by (intro update_session_keeps [of sid not_completed f]) auto
qed

lemma finalize_conflict_keeps:
  assumes "finalize_conflict sid c rf au coll co d = Inr (r, d')"
  shows "keeps_tables cfg d d' \<and> enrolments d' = enrolments d"
proof (cases "consume_session sid c (Some IDENTITY_CONFLICT_REASON) rf au d")
  case (Inr x)
  obtain r1 d1 where x: "x = (r1, d1)" by force
  from consume_session_keeps [OF Inr [unfolded x]]
  have k: "keeps_tables cfg d d1" "enrolments d1 = enrolments d" by auto
  show ?thesis
  proof (cases r1)
    case None
    then show ?thesis using assms Inr x by (auto simp: finalize_conflict_def)
  next
    case (Some s)
    then have d': "liveness_sessions d' = liveness_sessions d1" "enrolments d' = enrolments d1"
      "subjects d' = subjects d1" "db_fresh d1 \<le> db_fresh d'"
      using assms Inr x
      by (auto simp: finalize_conflict_def Let_def insert_audit_def split: sum.splits option.splits if_splits)
    have "identity_db_ok cfg d1 \<Longrightarrow> identity_db_ok cfg d'"
      using d' by (fastforce simp: identity_db_ok_def backed_def)
    with k d' show ?thesis by (auto simp: keeps_tables_def session_keys_def)
  qed
qed (use assms in \<open>simp add: finalize_conflict_def\<close>)

lemma upsert_subject_Inr:
  assumes "upsert_subject user el d = Inr d'"
  shows "list_ex (\<lambda>s. sj_user_ref s = user) (subjects d') \<and>
    (\<forall>u. list_ex (\<lambda>s. sj_user_ref s = u) (subjects d) \<longrightarrow> list_ex (\<lambda>s. sj_user_ref s = u) (subjects d')) \<and>
    (\<exists>t. d' = d\<lparr>subjects := t\<rparr>)"
proof -
  let ?m = "merge_subject (el, db_now d)"
  have m: "sj_user_ref (?m s) = sj_user_ref s" for s
    by (simp add: merge_subject_def)
  have ex: "list_ex (\<lambda>s. sj_user_ref s = u) (sql_update p ?m t) \<longleftrightarrow> list_ex (\<lambda>s. sj_user_ref s = u) t" for u p t
    by (induction t) (auto simp: m)
  from assms have d': "d' = d\<lparr>subjects := sql_upsert (\<lambda>s. sj_user_ref s = user) ?m
      (new_subject user el (db_now d)) (subjects d)\<rparr>"
    by (auto simp: upsert_subject_def split: if_splits)
  show ?thesis
    unfolding d' by (auto simp: sql_upsert_def ex new_subject_def)
qed

lemma insert_enrolment_Inr:
  assumes "insert_enrolment sid e d = Inr (row, d')"
  shows "en_session_id row = sid \<and> en_user_ref row = ne_user_ref e \<and>
    en_collection_id row = ne_collection_id e \<and> en_external_face_id row = ne_external_face_id e \<and>
    en_consent_ref row = ne_consent_ref e \<and> ne_consent_ref e \<noteq> SENTINEL_CONSENT_REF \<and>
    en_active row \<and> \<not> has_enrolment sid d \<and>
    d' = d\<lparr>enrolments := enrolments d @ [row], db_fresh := Suc (db_fresh d)\<rparr>"
  using assms by (auto simp: insert_enrolment_def Let_def split: sum.splits if_splits)

text \<open>The transaction that enrols: everything an enrolment stands on is written with it.\<close>

lemma finalize_enrolled_Some:
  assumes fin: "finalize_enrolled sid (Some c) rf au e el d = Inr (Some (s, row), d')"
    and ok: "identity_db_ok cfg d" and key: "(sid, ne_user_ref e) \<in> set (session_keys d)"
    and c: "lc_min_confidence cfg \<le> c"
  shows "identity_db_ok cfg d' \<and> set (session_keys d) \<subseteq> set (session_keys d')"
proof -
  from fin obtain d1 d2 where cons: "consume_session sid (Some c) None rf au d = Inr (Some s, d1)"
    and ups: "upsert_subject (ne_user_ref e) el d1 = Inr d2"
    and ins: "insert_enrolment sid e d2 = Inr (row, d')"
    by (auto simp: finalize_enrolled_def split: sum.splits option.splits)
  from consume_session_keeps [OF cons] have k1: "keeps_tables cfg d d1" by blast
  then have ok1: "identity_db_ok cfg d1" using ok by (simp add: keeps_tables_def)
  note ups = upsert_subject_Inr [OF ups]
  then obtain t where d2: "d2 = d1\<lparr>subjects := t\<rparr>" by blast
  note ins = insert_enrolment_Inr [OF ins]
  have carry: "backed cfg d1 r \<Longrightarrow> backed cfg d' r" for r
    using ups ins unfolding backed_def d2 by fastforce
  from consume_session_Inr [OF cons] obtain s0 conf where s0: "s0 \<in> set (liveness_sessions d)"
    "ls_session_id s0 = sid" "not_completed s0" "numeric_5_2 (Some c) = Inr conf"
    and s: "s = s0\<lparr>ls_status := Ls_consumed, ls_confidence := conf, ls_failure_reason := None,
                   ls_reference_image_uri := Some rf, ls_audit_image_uris := Some au,
                   ls_completed_at := Some (db_now d), ls_consumed_at := Some (db_now d)\<rparr>"
    and d1: "d1 = d\<lparr>liveness_sessions := sql_update (\<lambda>s. ls_session_id s = sid \<and> not_completed s)
          (\<lambda>s. s\<lparr>ls_status := Ls_consumed, ls_confidence := conf, ls_failure_reason := None,
                   ls_reference_image_uri := Some rf, ls_audit_image_uris := Some au,
                   ls_completed_at := Some (db_now d), ls_consumed_at := Some (db_now d)\<rparr>)
          (liveness_sessions d)\<rparr>"
    by (auto simp: Let_def)
  from key obtain s1 where "s1 \<in> set (liveness_sessions d)" "ls_session_id s1 = sid" "ls_user_ref s1 = ne_user_ref e"
    by (auto simp: session_keys_def)
  then have user: "ls_user_ref s0 = ne_user_ref e"
    using ok s0 same_session unfolding identity_db_ok_def by blast
  have "s \<in> set (liveness_sessions d1)"
    unfolding d1 s using s0 by (auto simp: in_sql_update intro!: bexI [of _ s0])
  then have mem: "s \<in> set (liveness_sessions d')" using ins d2 by simp
  have "backed cfg d' row"
    unfolding backed_def
  proof (intro conjI bexI [OF _ mem])
    show "list_ex (\<lambda>sj. sj_user_ref sj = en_user_ref row) (subjects d')"
      using ups ins d2 by simp
    show "\<exists>c'\<ge>lc_min_confidence cfg. numeric_5_2 (Some c') = Inr (ls_confidence s)"
      using c s0(4) s by auto
  qed (use ins user s s0(2) in auto)
  moreover have "\<forall>r\<in>set (enrolments d2). backed cfg d' r"
    using ok1 carry d2 by (simp add: identity_db_ok_def)
  moreover have "sid \<notin> en_session_id ` set (enrolments d2)"
    using ins by (auto simp: has_enrolment_def list_ex_iff)
  ultimately have "identity_db_ok cfg d'"
    using ins ok1 d2 by (auto simp: identity_db_ok_def less_Suc_eq)
  moreover have "session_keys d' = session_keys d1"
    using ins d2 by (simp add: session_keys_def)
  ultimately show ?thesis using k1 by (simp add: keeps_tables_def)
qed

section \<open>What every call knows\<close>

text \<open>The session a call has read, and, past the threshold, the confidence that passed it.\<close>

fun pc_session :: "pc \<Rightarrow> liveness_session option" where
  "pc_session (Pc_claim s) = Some s"
| "pc_session (Pc_result s) = Some s"
| "pc_session (Pc_upload s r) = Some s"
| "pc_session (Pc_search s r) = Some s"
| "pc_session (Pc_index s r) = Some s"
| "pc_session (Pc_enrol s r f) = Some s"
| "pc_session _ = None"

fun pc_passed :: "pc \<Rightarrow> provider_answer option" where
  "pc_passed (Pc_upload s r) = Some r"
| "pc_passed (Pc_search s r) = Some r"
| "pc_passed (Pc_index s r) = Some r"
| "pc_passed (Pc_enrol s r f) = Some r"
| "pc_passed _ = None"

definition call_ok :: "liveness_config \<Rightarrow> identity_db \<Rightarrow> result_params \<times> pc \<Rightarrow> bool" where
  "call_ok cfg d = (\<lambda>(p, pc).
     (\<forall>s. pc_session pc = Some s \<longrightarrow> (rp_session_id p, ls_user_ref s) \<in> set (session_keys d)) \<and>
     (\<forall>r. pc_passed pc = Some r \<longrightarrow> (\<exists>c\<ge>lc_min_confidence cfg. pv_confidence r = Some c)))"

definition identity_ok :: "liveness_config \<Rightarrow> identity_run \<Rightarrow> bool" where
  "identity_ok cfg st \<longleftrightarrow>
     identity_db_ok cfg (run_db st) \<and> (\<forall>c\<in>set (ir_calls st). call_ok cfg (run_db st) c)"

lemma call_ok_mono:
  "call_ok cfg d c \<Longrightarrow> set (session_keys d) \<subseteq> set (session_keys d') \<Longrightarrow> call_ok cfg d' c"
  by (auto simp: call_ok_def split: prod.splits)

lemma call_ok_none: "pc_session pc = None \<Longrightarrow> pc_passed pc = None \<Longrightarrow> call_ok cfg d (p, pc)"
  by (simp add: call_ok_def)

lemma replay_pc_none [simp]: "pc_session (replay_pc s) = None" "pc_passed (replay_pc s) = None"
  by (simp_all add: replay_pc_def)

lemma get_session_key:
  "get_session sid d = Some s \<Longrightarrow> (sid, ls_user_ref s) \<in> set (session_keys d)"
  by (auto simp: get_session_def session_keys_def dest: sql_first_SomeD)

lemma after_read_ok: "call_ok cfg d (p, after_read key clock (get_session (rp_session_id p) d))"
proof -
  have "pc_session (after_read key clock row) = Some s \<Longrightarrow> row = Some s" for row s
    by (auto simp: after_read_def split: option.splits if_splits)
  moreover have "pc_passed (after_read key clock row) = None" for row
    by (auto simp: after_read_def split: option.splits)
  ultimately show ?thesis using get_session_key by (auto simp: call_ok_def)
qed

lemma store_action_ok:
  assumes ok: "identity_db_ok cfg d" and call: "call_ok cfg d (p, pc)"
    and act: "store_action lib cfg p clock pc d = (pc', d')"
  shows "identity_db_ok cfg d' \<and> set (session_keys d) \<subseteq> set (session_keys d') \<and> call_ok cfg d' (p, pc')"
proof (cases pc)
  case Pc_read
  with ok act after_read_ok show ?thesis by auto
next
  case (Pc_claim s)
  have "keeps_tables cfg d d'" using act Pc_claim claim_result_keeps by auto
  moreover have "call_ok cfg d (p, pc')" using act Pc_claim call by (auto simp: call_ok_def)
  ultimately show ?thesis using ok call_ok_mono by (auto simp: keeps_tables_def)
next
  case (Pc_expire r)
  then have "keeps_tables cfg d d'"
    using act mark_expired_keeps by (auto split: sum.splits prod.splits)
  moreover have "call_ok cfg d' (p, pc')"
    using act Pc_expire by (intro call_ok_none) (auto split: sum.splits prod.splits)
  ultimately show ?thesis using ok by (auto simp: keeps_tables_def)
next
  case (Pc_fail s c reason)
  then have "keeps_tables cfg d d'"
    using act finalize_result_keeps [where status = Ls_failed] by (auto split: sum.splits prod.splits)
  moreover have "call_ok cfg d' (p, pc')"
    using act Pc_fail by (intro call_ok_none) (auto split: sum.splits prod.splits)
  ultimately show ?thesis using ok by (auto simp: keeps_tables_def)
next
  case (Pc_conflict s r co)
  then have "keeps_tables cfg d d'"
    using act finalize_conflict_keeps by (auto split: sum.splits prod.splits option.splits)
  moreover have "call_ok cfg d' (p, pc')"
    using act Pc_conflict by (intro call_ok_none) (auto split: sum.splits prod.splits option.splits)
  ultimately show ?thesis using ok by (auto simp: keeps_tables_def)
next
  case (Pc_reject s r)
  then have "keeps_tables cfg d d'"
    using act consume_session_keeps
    by (auto simp: finalize_quality_rejected_def split: sum.splits prod.splits option.splits)
  moreover have "call_ok cfg d' (p, pc')"
    using act Pc_reject by (intro call_ok_none) (auto split: sum.splits prod.splits option.splits)
  ultimately show ?thesis using ok by (auto simp: keeps_tables_def)
next
  case (Pc_enrol s r f)
  from call Pc_enrol have key: "(rp_session_id p, ls_user_ref s) \<in> set (session_keys d)"
    and "\<exists>c\<ge>lc_min_confidence cfg. pv_confidence r = Some c" by (auto simp: call_ok_def)
  then obtain c where c: "pv_confidence r = Some c" "lc_min_confidence cfg \<le> c" by blast
  have "call_ok cfg d' (p, pc')"
    using act Pc_enrol by (intro call_ok_none) (auto split: sum.splits prod.splits option.splits)
  moreover have "identity_db_ok cfg d' \<and> set (session_keys d) \<subseteq> set (session_keys d')"
  proof (cases "d' = d")
    case False
    then obtain s' row where "finalize_enrolled (rp_session_id p) (Some c)
        (strip_query lib (rp_reference_put_url p)) (stored_audit_uris lib p r)
        (enrolment_of lib cfg p s f) (eligibility_for (rp_adult p)) d = Inr (Some (s', row), d')"
      using act Pc_enrol c by (auto simp: finalize_enrolled_def split: sum.splits prod.splits option.splits)
    then show ?thesis
      using finalize_enrolled_Some ok key c(2) by (simp add: enrolment_of_def)
  qed (use ok in simp)
  ultimately show ?thesis by blast
next
  case Pc_late
  then show ?thesis
    using act ok by (auto intro!: call_ok_none split: option.splits if_splits)
next
  case (Pc_replay_conflict s)
  then show ?thesis
    using act ok by (auto intro!: call_ok_none split: option.splits)
qed (use act ok call in auto)

lemma after_result_ok:
  assumes "(rp_session_id p, ls_user_ref s) \<in> set (session_keys d)"
  shows "call_ok cfg d (p, after_result cfg s r)"
  using assms by (auto simp: call_ok_def after_result_def not_less split: provider_status.splits)

lemma external_action_ok:
  assumes "call_ok cfg d (p, pc)" "external_action cfg p pc ans fs = (pc', fs')"
  shows "call_ok cfg d (p, pc')"
proof (cases pc)
  case (Pc_result s)
  then have "(rp_session_id p, ls_user_ref s) \<in> set (session_keys d)" using assms(1) by (simp add: call_ok_def)
  note after_result_ok [OF this]
  then show ?thesis
    using assms Pc_result by (cases ans) (auto simp: external_action_def call_ok_none)
next
  case (Pc_search s r)
  then show ?thesis
    using assms by (cases ans) (auto simp: external_action_def after_search_def call_ok_def split: option.splits)
qed (use assms in \<open>cases ans; force simp: external_action_def call_ok_def\<close>)+

section \<open>Every reachable state\<close>

lemma create_insert_ok:
  assumes "identity_db_ok cfg d" "create_insert lc user ps d = (r, d')"
  shows "identity_db_ok cfg d' \<and> set (session_keys d) \<subseteq> set (session_keys d')"
proof -
  from assms(2) consider "d' = d"
    | n ttl where "d' = d\<lparr>liveness_sessions := liveness_sessions d @ [new_session (db_fresh d) user ps n ttl (db_now d)],
        db_fresh := Suc (db_fresh d)\<rparr>"
    by (auto simp: create_insert_def create_session_def Let_def split: sum.splits option.splits if_splits)
  then show ?thesis
  proof cases
    case 2
    have "identity_db_ok cfg d'"
      using assms(1) unfolding 2
      by (fastforce simp: identity_db_ok_def backed_def new_session_def less_Suc_eq)
    then show ?thesis unfolding 2 by (auto simp: session_keys_def)
  qed (use assms(1) in simp)
qed

lemma tombstone_ok:
  assumes "tombstone_enrolments user d = Inr (n, d')" "identity_db_ok cfg d"
  shows "identity_db_ok cfg d' \<and> session_keys d' = session_keys d"
proof -
  let ?f = "\<lambda>e. e\<lparr>en_active := False, en_deleted_at := Some (db_now d)\<rparr>"
  from assms(1) have d': "d' = d\<lparr>enrolments := sql_update (active_of user) ?f (enrolments d)\<rparr>"
    by (auto simp: tombstone_enrolments_def split: if_splits)
  have "backed cfg d' (?f e) = backed cfg d e" "backed cfg d' e = backed cfg d e" for e
    unfolding d' backed_def by simp_all
  moreover have "map en_session_id (enrolments d') = map en_session_id (enrolments d)"
    unfolding d' by (simp add: map_sql_update)
  ultimately show ?thesis
    using assms(2) unfolding identity_db_ok_def
    by (auto simp: d' in_sql_update session_keys_def)
qed

lemma delete_store_ok:
  assumes "delete_store user pc d = (pc', d')" "identity_db_ok cfg d"
  shows "identity_db_ok cfg d' \<and> session_keys d' = session_keys d"
  using assms tombstone_ok
  by (cases pc) (auto split: list.splits sum.splits prod.splits)

lemma call_ok_update:
  assumes "\<forall>c\<in>set cs. call_ok cfg d c" "call_ok cfg d c'"
  shows "\<forall>c\<in>set (cs[i := c']). call_ok cfg d c"
  using assms set_update_subset_insert by fastforce

lemma advance_cases:
  assumes "advance lib cfg p clock pc ans w = (pc', w')"
  shows "(awaits_service pc \<and> (\<exists>fs. external_action cfg p pc ans (iw_faces w) = (pc', fs) \<and> w' = w\<lparr>iw_faces := fs\<rparr>)) \<or>
    (\<not> awaits_service pc \<and> (\<exists>d. store_action lib cfg p clock pc (iw_db w) = (pc', d) \<and> w' = w\<lparr>iw_db := d\<rparr>))"
  using assms by (auto simp: advance_def split: if_splits prod.splits)

lemma delete_advance_cases:
  assumes "delete_advance u pc ans w = (pc', w')"
  shows "(delete_awaits pc \<and> (\<exists>fs. delete_external pc ans (iw_faces w) = (pc', fs) \<and> w' = w\<lparr>iw_faces := fs\<rparr>)) \<or>
    (\<not> delete_awaits pc \<and> (\<exists>d. delete_store u pc (iw_db w) = (pc', d) \<and> w' = w\<lparr>iw_db := d\<rparr>))"
  using assms by (auto simp: delete_advance_def split: if_splits prod.splits)

lemma advance_ok:
  assumes "advance lib cfg p clock pc ans w = (pc', w')"
    and db: "identity_db_ok cfg (iw_db w)" and call: "call_ok cfg (iw_db w) (p, pc)"
  shows "identity_db_ok cfg (iw_db w') \<and>
    set (session_keys (iw_db w)) \<subseteq> set (session_keys (iw_db w')) \<and> call_ok cfg (iw_db w') (p, pc')"
  using advance_cases [OF assms(1)]
proof (elim disjE conjE exE)
  fix fs assume "external_action cfg p pc ans (iw_faces w) = (pc', fs)" "w' = w\<lparr>iw_faces := fs\<rparr>"
  with db external_action_ok [OF call] show ?thesis by simp
next
  fix d assume "store_action lib cfg p clock pc (iw_db w) = (pc', d)" "w' = w\<lparr>iw_db := d\<rparr>"
  with store_action_ok [OF db call] show ?thesis by simp
qed

lemma calls_ok_mono:
  "\<forall>c\<in>set cs. call_ok cfg d c \<Longrightarrow> set (session_keys d) \<subseteq> set (session_keys d') \<Longrightarrow> \<forall>c\<in>set cs. call_ok cfg d' c"
  using call_ok_mono by blast

lemma apply_event_ok:
  assumes ok: "identity_ok cfg st"
  shows "identity_ok cfg (apply_event lib cfg ev st)"
proof (cases ev)
  case (Ev_create user ps)
  obtain r d' where d': "create_insert cfg user ps (run_db st) = (r, d')" by force
  have "identity_db_ok cfg d' \<and> set (session_keys (run_db st)) \<subseteq> set (session_keys d')"
    by (rule create_insert_ok [OF _ d']) (use ok in \<open>simp add: identity_ok_def\<close>)
  with ok calls_ok_mono [of "ir_calls st" cfg "run_db st" d'] show ?thesis
    by (simp add: Ev_create d' identity_ok_def with_db_def)
next
  case (Ev_call clock q)
  with ok show ?thesis by (auto simp: identity_ok_def call_ok_none split: sum.splits)
next
  case (Ev_advance i clock ans)
  show ?thesis
  proof (cases "i < length (ir_calls st)")
    case True
    obtain p pc where c: "ir_calls st ! i = (p, pc)" by force
    obtain pc' w where a: "advance lib cfg p clock pc ans (ir_world st) = (pc', w)" by force
    have mem: "(p, pc) \<in> set (ir_calls st)" using True c by (metis nth_mem)
    have db: "identity_db_ok cfg (run_db st)" and call: "call_ok cfg (run_db st) (p, pc)"
      using ok mem by (auto simp: identity_ok_def)
    note w = advance_ok [OF a db call]
    have "\<forall>c\<in>set ((ir_calls st)[i := (p, pc')]). call_ok cfg (iw_db w) c"
      by (rule call_ok_update [OF calls_ok_mono [of _ _ "run_db st"]]) (use ok w in \<open>simp_all add: identity_ok_def\<close>)
    with w show ?thesis by (simp add: Ev_advance True c a identity_ok_def)
  qed (use ok Ev_advance in simp)
next
  case (Ev_delete_advance i ans)
  show ?thesis
  proof (cases "i < length (ir_deletions st)")
    case True
    obtain u pc where c: "ir_deletions st ! i = (u, pc)" by force
    obtain pc' w where a: "delete_advance u pc ans (ir_world st) = (pc', w)" by force
    have "identity_db_ok cfg (run_db st)" using ok by (simp add: identity_ok_def)
    with delete_advance_cases [OF a] delete_store_ok
    have "identity_db_ok cfg (iw_db w) \<and> session_keys (iw_db w) = session_keys (run_db st)"
      by (elim disjE conjE exE) auto
    with ok calls_ok_mono [of "ir_calls st" cfg "run_db st" "iw_db w"] show ?thesis
      by (simp add: Ev_delete_advance True c a identity_ok_def)
  qed (use ok Ev_delete_advance in simp)
next
  case (Ev_time n)
  have "identity_db_ok cfg (run_db st\<lparr>db_now := t\<rparr>)" "session_keys (run_db st\<lparr>db_now := t\<rparr>) = session_keys (run_db st)" for t
    using ok by (auto simp: identity_ok_def identity_db_ok_def backed_def session_keys_def)
  with ok show ?thesis by (auto simp: Ev_time identity_ok_def with_db_def call_ok_def)
qed (use ok in \<open>auto simp: identity_ok_def\<close>)

lemma reached_identity_ok: "reached lib cfg may st \<Longrightarrow> identity_ok cfg st"
proof (induction rule: reached.induct)
  case (start st)
  then show ?case by (simp add: identity_start_def identity_ok_def identity_db_ok_def)
qed (rule apply_event_ok)

section \<open>One face per enrolment\<close>

text \<open>
  The runs in which nothing fails between \<^verbatim>\<open>IndexFaces\<close> and the commit, no user is deleted,
  and the services answer within their documented ranges: scores of 0 to 100, a deletion that deletes.
\<close>

definition score_range :: "rat option \<Rightarrow> bool" where
  "score_range x \<longleftrightarrow> (case x of None \<Rightarrow> True | Some c \<Rightarrow> 0 \<le> c \<and> c \<le> 100)"

definition orderly_answer :: "pc \<Rightarrow> ext_answer \<Rightarrow> bool" where
  "orderly_answer pc ans \<longleftrightarrow>
     (case ans of
        Ext_result r \<Rightarrow> score_range (pv_confidence r)
      | Ext_indexed f \<Rightarrow> score_range (if_quality_score f)
      | Ext_deleted kept \<Rightarrow> kept = []
      | Ext_raised e \<Rightarrow> (case pc of Pc_cleanup f \<Rightarrow> False | _ \<Rightarrow> True)
      | _ \<Rightarrow> True)"

fun orderly :: "identity_run \<Rightarrow> identity_event \<Rightarrow> bool" where
  "orderly st Ev_crash \<longleftrightarrow> False"
| "orderly st (Ev_delete user) \<longleftrightarrow> False"
| "orderly st (Ev_advance i clock ans) \<longleftrightarrow>
     i < length (ir_calls st) \<longrightarrow> orderly_answer (snd (ir_calls st ! i)) ans"
| "orderly st _ \<longleftrightarrow> True"

definition face_mset :: "pc \<Rightarrow> string multiset" where
  "face_mset pc = (case pc_face pc of None \<Rightarrow> {#} | Some x \<Rightarrow> {#x#})"

definition in_flight :: "(result_params \<times> pc) list \<Rightarrow> string multiset" where
  "in_flight cs = sum_list (map (face_mset \<circ> snd) cs)"

definition face_ids :: "identity_world \<Rightarrow> string multiset" where
  "face_ids w = mset (map cf_face_id (iw_faces w))"

definition enrolled_ids :: "identity_world \<Rightarrow> string multiset" where
  "enrolled_ids w = mset (map en_external_face_id (enrolments (iw_db w)))"

definition tidy_world :: "liveness_config \<Rightarrow> identity_world \<Rightarrow> bool" where
  "tidy_world cfg w \<longleftrightarrow>
     distinct (map cf_face_id (iw_faces w)) \<and>
     (\<forall>c\<in>set (iw_faces w). cf_collection_id c = lc_identity_collection cfg) \<and>
     (\<forall>e\<in>set (enrolments (iw_db w)). en_active e \<and> en_collection_id e = lc_identity_collection cfg \<and>
        (\<forall>c\<in>set (iw_faces w). cf_face_id c = en_external_face_id e \<longrightarrow>
           cf_external_image_id c = show_uuid (en_user_ref e)))"

definition tidy_call :: "identity_world \<Rightarrow> result_params \<times> pc \<Rightarrow> bool" where
  "tidy_call w = (\<lambda>(p, pc).
     rp_consent_ref p \<noteq> SENTINEL_CONSENT_REF \<and>
     (\<forall>r. pc_passed pc = Some r \<longrightarrow> score_range (pv_confidence r)) \<and>
     (\<forall>s r f. pc = Pc_enrol s r f \<longrightarrow> score_range (if_quality_score f) \<and>
        (\<forall>c\<in>set (iw_faces w). cf_face_id c = if_face_id f \<longrightarrow>
           cf_external_image_id c = show_uuid (ls_user_ref s))))"

definition tidy :: "liveness_config \<Rightarrow> identity_run \<Rightarrow> bool" where
  "tidy cfg st \<longleftrightarrow>
     ir_deletions st = [] \<and> tidy_world cfg (ir_world st) \<and>
     (\<forall>c\<in>set (ir_calls st). tidy_call (ir_world st) c) \<and>
     face_ids (ir_world st) = enrolled_ids (ir_world st) + in_flight (ir_calls st)"

lemma sum_list_update_add:
  fixes h :: "'a \<Rightarrow> 'b::comm_monoid_add"
  assumes "i < length xs"
  shows "sum_list (map h (xs[i := x])) + h (xs ! i) = sum_list (map h xs) + h x"
  using assms
proof (induction xs arbitrary: i)
  case (Cons y ys)
  show ?case
  proof (cases i)
    case (Suc j)
    with Cons have "sum_list (map h (ys[j := x])) + h (ys ! j) = sum_list (map h ys) + h x" by simp
    then show ?thesis by (simp add: Suc add.assoc)
  qed (simp add: ac_simps)
qed simp

lemma mset_remove_key:
  assumes "distinct (map k xs)" "x \<in> k ` set xs"
  shows "mset (map k xs) = mset (map k (filter (\<lambda>c. k c \<noteq> x) xs)) + {#x#}"
  using assms
proof (induction xs)
  case (Cons y ys)
  show ?case
  proof (cases "k y = x")
    case True
    with Cons.prems have "filter (\<lambda>c. k c \<noteq> x) ys = ys" by (auto simp: filter_id_conv image_iff)
    with True show ?thesis by simp
  qed (use Cons in auto)
qed simp

lemma score_range_numeric: "score_range x \<Longrightarrow> \<exists>c. numeric_5_2 x = Inr c"
proof (cases x)
  case (Some c)
  assume "score_range x"
  then have "\<bar>round_half_away (c * 100)\<bar> < 100000"
    unfolding Some score_range_def round_half_away_def by simp
  then show ?thesis by (simp add: numeric_5_2_def Some Let_def)
qed (simp add: numeric_5_2_def)

text \<open>Under these conditions the enrolling transaction cannot raise.\<close>

lemma finalize_enrolled_total:
  assumes ok: "identity_db_ok cfg d" and s: "score_range c" "score_range (ne_quality_score e)"
    and con: "ne_consent_ref e \<noteq> SENTINEL_CONSENT_REF"
    and new: "\<And>r. r \<in> set (enrolments d) \<Longrightarrow> en_external_face_id r \<noteq> ne_external_face_id e"
  shows "\<exists>x d'. finalize_enrolled sid c rf au e (eligibility_for adult) d = Inr (x, d') \<and>
    (x = None \<longrightarrow> d' = d) \<and>
    (\<forall>s row. x = Some (s, row) \<longrightarrow> enrolments d' = enrolments d @ [row] \<and> en_active row \<and>
       en_collection_id row = ne_collection_id e \<and> en_external_face_id row = ne_external_face_id e \<and>
       en_user_ref row = ne_user_ref e)"
proof -
  obtain conf where conf: "numeric_5_2 c = Inr conf" using score_range_numeric s(1) by blast
  obtain q where q: "numeric_5_2 (ne_quality_score e) = Inr q" using score_range_numeric s(2) by blast
  let ?f = "\<lambda>s. s\<lparr>ls_status := Ls_consumed, ls_confidence := conf, ls_failure_reason := None,
     ls_reference_image_uri := Some rf, ls_audit_image_uris := Some au,
     ls_completed_at := Some (db_now d), ls_consumed_at := Some (db_now d)\<rparr>"
  have cs: "consume_session sid c None rf au d = update_session sid not_completed ?f d"
    by (simp add: consume_session_def conf)
  show ?thesis
  proof (cases "sql_first (\<lambda>s. ls_session_id s = sid \<and> not_completed s) (liveness_sessions d)")
    case None
    then show ?thesis by (simp add: finalize_enrolled_def cs update_session_def)
  next
    case (Some s0)
    then have s0: "s0 \<in> set (liveness_sessions d)" "ls_session_id s0 = sid" "not_completed s0"
      by (auto dest: sql_first_SomeD)
    from not_completed_unenrolled [OF ok s0(1,3)] s0(2) have free: "\<not> has_enrolment sid d" by simp
    let ?d1 = "d\<lparr>liveness_sessions := sql_update (\<lambda>s. ls_session_id s = sid \<and> not_completed s) ?f (liveness_sessions d)\<rparr>"
    have c1: "consume_session sid c None rf au d = Inr (Some (?f s0), ?d1)"
      by (simp add: cs update_session_def Some free)
    obtain d2 where ups: "upsert_subject (ne_user_ref e) (eligibility_for adult) ?d1 = Inr d2"
      by (cases adult) (simp_all add: upsert_subject_def reason_matches_flag_def eligibility_for_def)
    from upsert_subject_Inr [OF ups] obtain t where d2: "d2 = ?d1\<lparr>subjects := t\<rparr>" by blast
    have "?f s0 \<in> set (liveness_sessions d2)"
      unfolding d2 using s0 by (auto simp: in_sql_update intro!: bexI [of _ s0])
    then have "list_ex (\<lambda>s. ls_session_id s = sid \<and> ls_status s = Ls_consumed) (liveness_sessions d2)"
      unfolding list_ex_iff by (rule bexI [rotated]) (simp add: s0(2))
    moreover have "\<not> has_enrolment sid d2" "\<not> list_ex (\<lambda>r. en_collection_id r = ne_collection_id e \<and>
        en_external_face_id r = ne_external_face_id e) (enrolments d2)"
      using free new by (auto simp: d2 has_enrolment_def list_ex_iff)
    ultimately obtain row d3 where ins: "insert_enrolment sid e d2 = Inr (row, d3)"
      using con q by (simp add: insert_enrolment_def Let_def)
    have "finalize_enrolled sid c rf au e (eligibility_for adult) d = Inr (Some (?f s0, row), d3)"
      unfolding finalize_enrolled_def c1 by (simp add: ups ins)
    then show ?thesis using insert_enrolment_Inr [OF ins] d2 by simp
  qed
qed

lemma without_faces_all:
  assumes "\<forall>c\<in>set fs. cf_collection_id c = coll"
  shows "without_faces coll [x] [] fs = filter (\<lambda>c. cf_face_id c \<noteq> x) fs"
  using assms by (auto simp: without_faces_def intro: filter_cong)

lemma replay_pc_face [simp]: "pc_face (replay_pc s) = None"
  by (simp add: replay_pc_def)

lemma after_read_face [simp]: "pc_face (after_read key clock row) = None"
  by (simp add: after_read_def split: option.splits)

lemma after_result_face [simp]: "pc_face (after_result cfg s r) = None"
  by (simp add: after_result_def split: provider_status.splits)

lemma external_faces:
  assumes act: "external_action cfg p pc ans fs = (pc', fs')"
    and d: "distinct (map cf_face_id fs)" and coll: "\<forall>c\<in>set fs. cf_collection_id c = lc_identity_collection cfg"
    and ord: "orderly_answer pc ans" and mine: "\<And>x. pc_face pc = Some x \<Longrightarrow> x \<in> cf_face_id ` set fs"
    and pc: "awaits_service pc"
  shows "mset (map cf_face_id fs') + face_mset pc = mset (map cf_face_id fs) + face_mset pc' \<and>
    (fs' = fs \<or> (\<exists>x. fs' = filter (\<lambda>c. cf_face_id c \<noteq> x) fs) \<or>
      (\<exists>s r f. ans = Ext_indexed f \<and> pc' = Pc_enrol s r f \<and> fs' = fs @ [face_of cfg s f]))"
proof (cases pc)
  case (Pc_cleanup f)
  then have "if_face_id f \<in> cf_face_id ` set fs" using mine by simp
  from mset_remove_key [OF d this] show ?thesis
    using act ord Pc_cleanup
    by (cases ans)
      (auto simp: external_action_def face_mset_def orderly_answer_def without_faces_all [OF coll])
next
  case (Pc_index s r)
  then show ?thesis
    using act by (cases ans) (auto simp: external_action_def face_mset_def face_of_def)
qed (use act pc in \<open>(cases ans; force simp: external_action_def face_mset_def awaits_service_def after_search_def
       split: option.splits)\<close>)+

lemma store_faces:
  assumes act: "store_action lib cfg p clock pc d = (pc', d')"
    and ok: "identity_db_ok cfg d" and call: "tidy_call w (p, pc)"
    and new: "\<forall>x. pc_face pc = Some x \<longrightarrow> x \<notin> en_external_face_id ` set (enrolments d)"
    and pc: "\<not> awaits_service pc"
  shows "(enrolments d' = enrolments d \<and> face_mset pc' = face_mset pc \<and> (\<forall>s r f. pc' \<noteq> Pc_enrol s r f)) \<or>
    (\<exists>s r f row. pc = Pc_enrol s r f \<and> pc_face pc' = None \<and> enrolments d' = enrolments d @ [row] \<and>
       en_active row \<and> en_collection_id row = lc_identity_collection cfg \<and>
       en_external_face_id row = if_face_id f \<and> en_user_ref row = ls_user_ref s)"
proof (cases pc)
  case Pc_read
  then show ?thesis using act after_read_face by (auto simp: face_mset_def) (metis after_read_face option.distinct(1) pc_face.simps(1))
next
  case (Pc_claim s)
  then show ?thesis using act by (auto simp: face_mset_def claim_result_def)
next
  case (Pc_expire r)
  then show ?thesis using act mark_expired_keeps [where cfg = cfg] by (auto simp: face_mset_def split: sum.splits)
next
  case (Pc_fail s c reason)
  then show ?thesis
    using act finalize_result_keeps [where status = Ls_failed and cfg = cfg]
    by (auto simp: face_mset_def split: sum.splits)
next
  case (Pc_conflict s r co)
  then show ?thesis
    using act finalize_conflict_keeps [where cfg = cfg] by (auto simp: face_mset_def split: sum.splits option.splits)
next
  case (Pc_reject s r)
  then show ?thesis
    using act consume_session_keeps [where cfg = cfg]
    by (auto simp: face_mset_def finalize_quality_rejected_def split: sum.splits option.splits)
next
  case (Pc_enrol s r f)
  let ?e = "enrolment_of lib cfg p s f"
  have "\<exists>x d''. finalize_enrolled (rp_session_id p) (pv_confidence r) (strip_query lib (rp_reference_put_url p))
      (stored_audit_uris lib p r) ?e (eligibility_for (rp_adult p)) d = Inr (x, d'') \<and>
      (x = None \<longrightarrow> d'' = d) \<and>
      (\<forall>s row. x = Some (s, row) \<longrightarrow> enrolments d'' = enrolments d @ [row] \<and> en_active row \<and>
         en_collection_id row = ne_collection_id ?e \<and> en_external_face_id row = ne_external_face_id ?e \<and>
         en_user_ref row = ne_user_ref ?e)"
    by (rule finalize_enrolled_total [OF ok])
      (use call new Pc_enrol in \<open>auto simp: tidy_call_def enrolment_of_def image_iff\<close>)
  then show ?thesis
    using act Pc_enrol by (auto simp: enrolment_of_def face_mset_def split: option.splits)
next
  case Pc_late
  then show ?thesis
    using act by (auto simp: face_mset_def replay_pc_def split: option.splits if_splits)
next
  case (Pc_replay_conflict s)
  then show ?thesis using act by (auto simp: face_mset_def split: option.splits)
qed (use act pc in \<open>auto simp: face_mset_def awaits_service_def\<close>)

lemma in_flight_update:
  assumes "i < length cs" "cs ! i = (p, pc)"
  shows "in_flight (cs[i := (p, pc')]) + face_mset pc = in_flight cs + face_mset pc'"
  using sum_list_update_add [OF assms(1), of "face_mset \<circ> snd" "(p, pc')"] assms(2) by (simp add: in_flight_def)

lemma in_flight_mem: "(p, pc) \<in> set cs \<Longrightarrow> face_mset pc \<subseteq># in_flight cs"
  by (induction cs) (auto simp: in_flight_def intro: subset_mset.add_increasing subset_mset.add_increasing2)

text \<open>A face in flight is in the collection and belongs to no enrolment.\<close>

lemma tidy_in_flight:
  assumes t: "tidy cfg st" and c: "(p, pc) \<in> set (ir_calls st)" "pc_face pc = Some x"
  shows "x \<in> cf_face_id ` set (run_faces st)" "x \<notin> en_external_face_id ` set (enrolments (run_db st))"
proof -
  have sub: "{#x#} \<subseteq># in_flight (ir_calls st)"
    using in_flight_mem [OF c(1)] c(2) by (simp add: face_mset_def)
  have acc: "face_ids (ir_world st) = enrolled_ids (ir_world st) + in_flight (ir_calls st)"
    using t by (simp add: tidy_def)
  have "count (face_ids (ir_world st)) x \<le> 1"
    using t by (auto simp: face_ids_def tidy_def tidy_world_def distinct_count_atmost_1)
  moreover have "1 \<le> count (in_flight (ir_calls st)) x"
    using sub mset_subset_eq_count by fastforce
  moreover have "count (face_ids (ir_world st)) x =
      count (enrolled_ids (ir_world st)) x + count (in_flight (ir_calls st)) x"
    by (simp only: acc count_union)
  ultimately have "count (face_ids (ir_world st)) x = 1" "count (enrolled_ids (ir_world st)) x = 0"
    by linarith+
  then have "x \<in># face_ids (ir_world st)" "x \<notin># enrolled_ids (ir_world st)"
    by (simp_all add: not_in_iff flip: count_greater_zero_iff)
  then show "x \<in> cf_face_id ` set (run_faces st)" "x \<notin> en_external_face_id ` set (enrolments (run_db st))"
    by (simp_all add: face_ids_def enrolled_ids_def)
qed

lemma tidy_call_frame:
  assumes "tidy_call w c" "set (iw_faces w') \<subseteq> set (iw_faces w)"
  shows "tidy_call w' c"
  using assms by (auto simp: tidy_call_def split: prod.splits)

lemma tidy_call_new_face:
  assumes t: "tidy_call w c" and f: "\<And>x. pc_face (snd c) = Some x \<Longrightarrow> x \<noteq> cf_face_id k"
    and w': "iw_faces w' = iw_faces w @ [k]"
  shows "tidy_call w' c"
  using t f by (auto simp: tidy_call_def w' split: prod.splits)

lemma tidy_call_plain:
  "rp_consent_ref p \<noteq> SENTINEL_CONSENT_REF \<Longrightarrow> pc_passed pc = None \<Longrightarrow> tidy_call w (p, pc)"
  by (auto simp: tidy_call_def)

lemma external_tidy_call:
  assumes act: "external_action cfg p pc ans (iw_faces w) = (pc', fs')" and t: "tidy_call w (p, pc)"
    and ord: "orderly_answer pc ans" and pc: "awaits_service pc"
    and new: "\<And>f. ans = Ext_indexed f \<Longrightarrow> if_face_id f \<notin> cf_face_id ` set (iw_faces w)"
  shows "tidy_call (w\<lparr>iw_faces := fs'\<rparr>) (p, pc')"
proof (cases pc)
  case (Pc_result s)
  show ?thesis
  proof (cases "\<exists>r. ans = Ext_result r")
    case True
    then obtain r where r: "ans = Ext_result r" by blast
    have "pc_passed (after_result cfg s r) = Some r' \<Longrightarrow> r' = r" for r'
      by (auto simp: after_result_def split: provider_status.splits if_splits)
    moreover have "\<forall>s' r' f. after_result cfg s r \<noteq> Pc_enrol s' r' f"
      by (auto simp: after_result_def split: provider_status.splits)
    ultimately show ?thesis
      using act t ord Pc_result r by (auto simp: external_action_def tidy_call_def orderly_answer_def)
  qed (use act t Pc_result in \<open>cases ans; auto simp: external_action_def tidy_call_def\<close>)
next
  case (Pc_index s r)
  show ?thesis
  proof (cases "\<exists>f. ans = Ext_indexed f")
    case True
    then obtain f where f: "ans = Ext_indexed f" by blast
    with act Pc_index have e: "pc' = Pc_enrol s r f" "fs' = iw_faces w @ [face_of cfg s f]"
      by (auto simp: external_action_def)
    show ?thesis
      using t ord new [OF f] f Pc_index
      by (force simp: e tidy_call_def orderly_answer_def face_of_def)
  qed (use act t Pc_index in \<open>cases ans; auto simp: external_action_def tidy_call_def\<close>)
next
  case (Pc_search s r)
  then show ?thesis
    using act t by (cases ans) (auto simp: external_action_def after_search_def tidy_call_def split: option.splits)
next
  case (Pc_upload s r)
  then show ?thesis
    using act t by (cases ans) (auto simp: external_action_def tidy_call_def)
next
  case (Pc_cleanup f)
  then show ?thesis
    using act t by (cases ans) (auto simp: external_action_def tidy_call_def)
qed (use pc in \<open>simp_all add: awaits_service_def\<close>)

lemma external_tidy_world:
  assumes ef: "fs' = fs \<or> (\<exists>x. fs' = filter (\<lambda>c. cf_face_id c \<noteq> x) fs) \<or>
      (\<exists>s r f. ans = Ext_indexed f \<and> pc' = Pc_enrol s r f \<and> fs' = fs @ [face_of cfg s f])"
    and t: "tidy_world cfg w" and fs: "fs = iw_faces w"
    and new: "\<And>f. ans = Ext_indexed f \<Longrightarrow>
      if_face_id f \<notin> cf_face_id ` set fs \<union> en_external_face_id ` set (enrolments (iw_db w))"
  shows "tidy_world cfg (w\<lparr>iw_faces := fs'\<rparr>)"
  using ef
proof (elim disjE exE conjE)
  fix x assume "fs' = filter (\<lambda>c. cf_face_id c \<noteq> x) fs"
  then show ?thesis using t fs by (auto simp: tidy_world_def distinct_map_filter)
next
  fix s r f assume a: "ans = Ext_indexed f" "fs' = fs @ [face_of cfg s f]"
  show ?thesis
    using t new [OF a(1)] fs unfolding tidy_world_def a(2) by (auto simp: face_of_def image_iff)
qed (use t fs in simp)

lemma mset_ledger:
  fixes F :: "'a multiset"
  assumes "F' + E + m = F + E' + m'" "F = E + I" "I' + m = I + m'"
  shows "F' = E' + I'"
proof (rule multiset_eqI)
  fix x
  have "count F' x + count E x + count m x = count F x + count E' x + count m' x"
    "count F x = count E x + count I x" "count I' x + count m x = count I x + count m' x"
    using assms by (metis count_union)+
  then show "count F' x = count (E' + I') x" by simp
qed

lemma advance_tidy:
  assumes adv: "advance lib cfg p clock pc ans (ir_world st) = (pc', w')"
    and t: "tidy cfg st" and ok: "identity_ok cfg st"
    and i: "i < length (ir_calls st)" "ir_calls st ! i = (p, pc)"
    and ord: "orderly_answer pc ans" and fresh: "fresh_answer st (Ev_advance i clock ans)"
  shows "tidy_world cfg w' \<and> (\<forall>c\<in>set ((ir_calls st)[i := (p, pc')]). tidy_call w' c) \<and>
    face_ids w' = enrolled_ids w' + in_flight ((ir_calls st)[i := (p, pc')])"
proof -
  let ?w = "ir_world st" and ?cs = "ir_calls st"
  have mem: "(p, pc) \<in> set ?cs" using i by (metis nth_mem)
  have tw: "tidy_world cfg ?w" and tc: "\<forall>c\<in>set ?cs. tidy_call ?w c"
    and acc: "face_ids ?w = enrolled_ids ?w + in_flight ?cs"
    using t by (auto simp: tidy_def)
  have tp: "tidy_call ?w (p, pc)" using tc mem by blast
  note fl = in_flight_update [OF i, of pc']
  have goal: "tidy_world cfg w' \<Longrightarrow> (\<forall>c\<in>set ?cs. tidy_call w' c) \<Longrightarrow> tidy_call w' (p, pc') \<Longrightarrow>
      face_ids w' + enrolled_ids ?w + face_mset pc = face_ids ?w + enrolled_ids w' + face_mset pc' \<Longrightarrow> ?thesis"
  proof (intro conjI)
    assume "\<forall>c\<in>set ?cs. tidy_call w' c" "tidy_call w' (p, pc')"
    then show "\<forall>c\<in>set (?cs[i := (p, pc')]). tidy_call w' c"
      using set_update_subset_insert by fastforce
  next
    assume "face_ids w' + enrolled_ids ?w + face_mset pc = face_ids ?w + enrolled_ids w' + face_mset pc'"
    then show "face_ids w' = enrolled_ids w' + in_flight (?cs[i := (p, pc')])"
      using acc fl by (rule mset_ledger)
  qed
  from advance_cases [OF adv] show ?thesis
  proof (elim disjE conjE exE)
    fix fs assume pc: "awaits_service pc" and act: "external_action cfg p pc ans (iw_faces ?w) = (pc', fs)"
      and w': "w' = ?w\<lparr>iw_faces := fs\<rparr>"
    have new: "if_face_id f \<notin> known_faces st" if "ans = Ext_indexed f" for f
      using fresh that by simp
    note ef = external_faces [OF act _ _ ord tidy_in_flight(1) [OF t mem] pc]
    have ms: "mset (map cf_face_id fs) + face_mset pc = mset (map cf_face_id (iw_faces ?w)) + face_mset pc'"
      and shape: "fs = iw_faces ?w \<or> (\<exists>x. fs = filter (\<lambda>c. cf_face_id c \<noteq> x) (iw_faces ?w)) \<or>
      (\<exists>s r f. ans = Ext_indexed f \<and> pc' = Pc_enrol s r f \<and> fs = iw_faces ?w @ [face_of cfg s f])"
      using ef tw by (auto simp: tidy_world_def)
    show ?thesis
    proof (rule goal)
      show "tidy_world cfg w'"
        unfolding w' using new by (intro external_tidy_world [OF shape tw refl]) (auto simp: known_faces_def)
      show "tidy_call w' (p, pc')"
        unfolding w' by (rule external_tidy_call [OF act tp ord pc]) (use new in \<open>auto simp: known_faces_def\<close>)
      show "face_ids w' + enrolled_ids ?w + face_mset pc = face_ids ?w + enrolled_ids w' + face_mset pc'"
        using ms by (simp add: w' face_ids_def enrolled_ids_def ac_simps)
      show "\<forall>c\<in>set ?cs. tidy_call w' c"
        using shape
      proof (elim disjE exE conjE)
        fix s r f assume a: "ans = Ext_indexed f" "fs = iw_faces ?w @ [face_of cfg s f]"
        show ?thesis
        proof
          fix c assume c: "c \<in> set ?cs"
          show "tidy_call w' c"
            by (rule tidy_call_new_face [of ?w _ "face_of cfg s f"])
              (use tc c new [OF a(1)] a(2) w' in \<open>auto simp: known_faces_def face_of_def\<close>)
        qed
      qed (use tc tidy_call_frame w' in \<open>fastforce+\<close>)
    qed
  next
    fix d assume pc: "\<not> awaits_service pc" and act: "store_action lib cfg p clock pc (iw_db ?w) = (pc', d)"
      and w': "w' = ?w\<lparr>iw_db := d\<rparr>"
    have same: "tidy_call (?w\<lparr>iw_db := d\<rparr>) c = tidy_call ?w c" for c by (simp add: tidy_call_def)
    have db: "identity_db_ok cfg (iw_db ?w)" using ok by (simp add: identity_ok_def)
    have free: "\<forall>x. pc_face pc = Some x \<longrightarrow> x \<notin> en_external_face_id ` set (enrolments (iw_db ?w))"
      using tidy_in_flight(2) [OF t mem] by blast
    from store_faces [OF act db tp free pc] show ?thesis
    proof (elim disjE conjE exE)
      assume a: "enrolments d = enrolments (iw_db ?w)" "face_mset pc' = face_mset pc" "\<forall>s r f. pc' \<noteq> Pc_enrol s r f"
      have "pc_passed pc' = Some r \<Longrightarrow> pc_passed pc = Some r" for r
        using act pc by (cases pc) (auto simp: awaits_service_def after_read_def replay_pc_def
            split: sum.splits option.splits prod.splits if_splits)
      then have "tidy_call ?w (p, pc')" using tp a(3) by (auto simp: tidy_call_def)
      then show ?thesis
        by (intro goal) (use tw tc a in \<open>auto simp: same tidy_world_def w' face_ids_def enrolled_ids_def\<close>)
    next
      fix s r f row assume a: "pc = Pc_enrol s r f" "pc_face pc' = None"
        "enrolments d = enrolments (iw_db ?w) @ [row]" "en_active row"
        "en_collection_id row = lc_identity_collection cfg"
        "en_external_face_id row = if_face_id f" "en_user_ref row = ls_user_ref s"
      have "pc_passed pc' = None" using act a(1) by (auto split: sum.splits option.splits prod.splits)
      then have tp': "tidy_call ?w (p, pc')" using tp by (auto simp: tidy_call_def)
      have "tidy_world cfg w'"
        using tw tp unfolding a(1) w' by (auto simp: tidy_world_def tidy_call_def a)
      then show ?thesis
        by (rule goal) (use tp' tc a in \<open>auto simp: same w' face_ids_def enrolled_ids_def face_mset_def\<close>)
    qed
  qed
qed

lemma apply_event_tidy:
  assumes t: "tidy cfg st" and ok: "identity_ok cfg st" and may: "orderly st ev" and fresh: "fresh_answer st ev"
  shows "tidy cfg (apply_event lib cfg ev st)"
proof (cases ev)
  case (Ev_create user ps)
  obtain r d' where d': "create_insert cfg user ps (run_db st) = (r, d')" by force
  then have e: "enrolments d' = enrolments (run_db st)"
    by (auto simp: create_insert_def create_session_def Let_def split: sum.splits option.splits if_splits)
  have "tidy_call ((ir_world st)\<lparr>iw_db := d'\<rparr>) c = tidy_call (ir_world st) c" for c by (simp add: tidy_call_def)
  with t e show ?thesis
    by (simp add: Ev_create d' with_db_def tidy_def tidy_world_def face_ids_def enrolled_ids_def)
next
  case (Ev_call clock q)
  show ?thesis
  proof (cases "request_valid clock q \<and> (\<exists>p. checked_params lib q = Inr p)")
    case True
    then obtain p where p: "checked_params lib q = Inr p" by blast
    then have "rp_consent_ref p \<noteq> SENTINEL_CONSENT_REF"
      using True by (auto simp: checked_params_def request_valid_def split: option.splits prod.splits)
    then have "tidy_call (ir_world st) (p, Pc_read)" by (rule tidy_call_plain) simp
    with t True p show ?thesis
      by (auto simp: Ev_call tidy_def in_flight_def face_mset_def)
  qed (use t in \<open>auto simp: Ev_call split: sum.splits\<close>)
next
  case (Ev_advance i clock ans)
  show ?thesis
  proof (cases "i < length (ir_calls st)")
    case True
    obtain p pc where c: "ir_calls st ! i = (p, pc)" by force
    obtain pc' w where a: "advance lib cfg p clock pc ans (ir_world st) = (pc', w)" by force
    have "orderly_answer pc ans" using may Ev_advance True c by simp
    from advance_tidy [OF a t ok True c this fresh [unfolded Ev_advance]] t show ?thesis
      by (simp add: Ev_advance True c a tidy_def)
  qed (use t Ev_advance in simp)
next
  case (Ev_delete_advance i ans)
  with t show ?thesis by (simp add: tidy_def)
next
  case (Ev_time n)
  have "tidy_call ((ir_world st)\<lparr>iw_db := d'\<rparr>) c = tidy_call (ir_world st) c" for c d' by (simp add: tidy_call_def)
  with t show ?thesis
    by (simp add: Ev_time with_db_def tidy_def tidy_world_def face_ids_def enrolled_ids_def)
qed (use may in simp_all)

lemma reached_tidy: "reached lib cfg orderly st \<Longrightarrow> tidy cfg st"
proof (induction rule: reached.induct)
  case (start st)
  then show ?case
    by (simp add: identity_start_def tidy_def tidy_world_def face_ids_def enrolled_ids_def in_flight_def)
next
  case (event st ev)
  then show ?case by (blast intro: apply_event_tidy reached_identity_ok)
qed

section \<open>The bound on attempts\<close>


definition dates :: "identity_db \<Rightarrow> (user_ref \<times> instant) list" where
  "dates d = map (\<lambda>s. (ls_user_ref s, ls_created_at s)) (liveness_sessions d)"

lemma created_within_day_dates:
  "created_within_day user d = length (filter (\<lambda>(u, t). u = user \<and> db_now d - day_us < t) (dates d))"
  by (simp add: created_within_day_def dates_def filter_map comp_def)


definition same_dates :: "identity_db \<Rightarrow> identity_db \<Rightarrow> bool" where
  "same_dates d d' \<longleftrightarrow> dates d' = dates d \<and> db_now d' = db_now d"

lemma same_dates_refl [simp]: "same_dates d d"
  by (simp add: same_dates_def)

lemma same_dates_update:
  assumes "\<And>s. ls_user_ref (f s) = ls_user_ref s" "\<And>s. ls_created_at (f s) = ls_created_at s"
  shows "same_dates d (d\<lparr>liveness_sessions := sql_update p f (liveness_sessions d)\<rparr>)"
  by (simp add: same_dates_def dates_def map_sql_update assms)

lemma update_session_dates:
  assumes "update_session sid g f d = Inr (r, d')"
    and "\<And>s. ls_user_ref (f s) = ls_user_ref s" "\<And>s. ls_created_at (f s) = ls_created_at s"
  shows "same_dates d d'"
  using update_session_Inr [OF assms(1)] same_dates_update [OF assms(2,3)] by auto

lemma consume_session_dates:
  assumes "consume_session sid c fl rf au d = Inr (r, d')" shows "same_dates d d'"
proof -
  from assms obtain f where "update_session sid not_completed f d = Inr (r, d')"
    "\<And>s. ls_user_ref (f s) = ls_user_ref s" "\<And>s. ls_created_at (f s) = ls_created_at s"
    unfolding consume_session_def by (force split: sum.splits)
  then show ?thesis by (rule update_session_dates)
qed

lemma finalize_result_dates:
  assumes "finalize_result sid status c fl rf au d = Inr (s, d')" shows "same_dates d d'"
proof -
  from assms obtain r f where "update_session sid (\<lambda>_. True) f d = Inr (r, d')"
    "\<And>s. ls_user_ref (f s) = ls_user_ref s" "\<And>s. ls_created_at (f s) = ls_created_at s"
    unfolding finalize_result_def by (force split: sum.splits option.splits prod.splits)
  then show ?thesis by (rule update_session_dates)
qed

lemma mark_expired_dates:
  assumes "mark_expired sid d = Inr (s, d')" shows "same_dates d d'"
proof (cases "update_session sid not_completed (\<lambda>s. s\<lparr>ls_status := Ls_expired\<rparr>) d")
  case (Inr x)
  then have "same_dates d (snd x)"
    by (intro update_session_dates [of sid not_completed "ls_status_update (\<lambda>_. Ls_expired)" d "fst x"]) auto
  with Inr assms show ?thesis by (auto simp: mark_expired_def split: option.splits prod.splits)
qed (use assms in \<open>simp add: mark_expired_def\<close>)

lemma finalize_enrolled_dates:
  assumes "finalize_enrolled sid c rf au e el d = Inr (r, d')" shows "same_dates d d'"
proof -
  from assms consider "d' = d" | s d1 d2 row where "consume_session sid c None rf au d = Inr (Some s, d1)"
    "upsert_subject (ne_user_ref e) el d1 = Inr d2" "insert_enrolment sid e d2 = Inr (row, d')"
    by (auto simp: finalize_enrolled_def split: sum.splits option.splits)
  then show ?thesis
  proof cases
    case 2
    from consume_session_dates [OF 2(1)] upsert_subject_Inr [OF 2(2)] insert_enrolment_Inr [OF 2(3)]
    show ?thesis by (auto simp: same_dates_def dates_def)
  qed simp
qed

lemma finalize_conflict_dates:
  assumes "finalize_conflict sid c rf au coll co d = Inr (r, d')" shows "same_dates d d'"
proof (cases "consume_session sid c (Some IDENTITY_CONFLICT_REASON) rf au d")
  case (Inr x)
  obtain r1 d1 where x: "x = (r1, d1)" by force
  from consume_session_dates [OF Inr [unfolded x]] show ?thesis
    using assms Inr x by (cases r1) (auto simp: finalize_conflict_def Let_def insert_audit_def
        same_dates_def dates_def split: sum.splits option.splits if_splits)
qed (use assms in \<open>simp add: finalize_conflict_def\<close>)

lemma store_action_dates:
  assumes "store_action lib cfg p clock pc d = (pc', d')" shows "same_dates d d'"
proof (cases pc)
  case (Pc_claim s)
  with assms show ?thesis by (auto simp: claim_result_def intro: same_dates_update)
next
  case (Pc_expire r)
  with assms mark_expired_dates show ?thesis by (auto split: sum.splits prod.splits)
next
  case (Pc_fail s c reason)
  with assms finalize_result_dates show ?thesis by (auto split: sum.splits prod.splits)
next
  case (Pc_conflict s r c)
  with assms finalize_conflict_dates show ?thesis by (auto split: sum.splits prod.splits option.splits)
next
  case (Pc_reject s r)
  with assms consume_session_dates show ?thesis
    by (auto simp: finalize_quality_rejected_def split: sum.splits prod.splits option.splits)
next
  case (Pc_enrol s r f)
  with assms finalize_enrolled_dates show ?thesis by (auto split: sum.splits prod.splits option.splits)
qed (use assms in \<open>auto split: option.splits\<close>)

lemma delete_store_dates:
  assumes "delete_store user pc d = (pc', d')" shows "same_dates d d'"
  using assms
  by (cases pc) (auto simp: tombstone_enrolments_def same_dates_def dates_def
      split: list.splits sum.splits prod.splits if_splits)

definition attempts_bounded :: "liveness_config \<Rightarrow> identity_db \<Rightarrow> bool" where
  "attempts_bounded cfg d \<longleftrightarrow> (\<forall>user. created_within_day user d \<le> lc_max_attempts_24h cfg)"

lemma attempts_bounded_frame: "attempts_bounded cfg d \<Longrightarrow> same_dates d d' \<Longrightarrow> attempts_bounded cfg d'"
  by (simp add: attempts_bounded_def created_within_day_dates same_dates_def)

lemma create_insert_bounded:
  assumes "attempts_bounded cfg d" "create_insert cfg user ps d = (r, d')"
  shows "attempts_bounded cfg d'"
proof -
  consider "d' = d"
    | "check_create_allowed user (lc_max_attempts_24h cfg) d = None"
      "dates d' = dates d @ [(user, db_now d)]" "db_now d' = db_now d"
  proof (cases "check_create_allowed user (lc_max_attempts_24h cfg) d")
    case None
    show ?thesis
    proof (cases "list_ex (\<lambda>s. ls_provider_session_id s = ps) (liveness_sessions d)")
      case True
      with assms(2) None have "d' = d" by (simp add: create_insert_def create_session_def)
      then show ?thesis by (rule that(1))
    next
      case False
      with assms(2) None have "dates d' = dates d @ [(user, db_now d)]" "db_now d' = db_now d"
        by (auto simp: create_insert_def create_session_def Let_def new_session_def dates_def)
      with None show ?thesis by (rule that(2))
    qed
  next
    case (Some x)
    with assms(2) have "d' = d" by (simp add: create_insert_def create_session_def)
    then show ?thesis by (rule that(1))
  qed
  then show ?thesis
  proof cases
    case 2
    have "created_within_day user d < lc_max_attempts_24h cfg"
      using 2(1) by (auto simp: check_create_allowed_def split: if_splits)
    then show ?thesis
      using assms(1) 2(2,3) by (auto simp: attempts_bounded_def created_within_day_dates)
  qed (use assms(1) in simp)
qed

lemma length_filter_mono:
  "(\<And>x. P x \<Longrightarrow> Q x) \<Longrightarrow> length (filter P xs) \<le> length (filter Q xs)"
  by (induction xs) (auto simp: le_SucI)

lemma advance_dates:
  assumes "advance lib cfg p clock pc ans w = (pc', w')" shows "same_dates (iw_db w) (iw_db w')"
  using advance_cases [OF assms]
proof (elim disjE conjE exE)
  fix d assume "store_action lib cfg p clock pc (iw_db w) = (pc', d)" "w' = w\<lparr>iw_db := d\<rparr>"
  then show ?thesis using store_action_dates by auto
qed simp

lemma delete_advance_dates:
  assumes "delete_advance u pc ans w = (pc', w')" shows "same_dates (iw_db w) (iw_db w')"
  using delete_advance_cases [OF assms]
proof (elim disjE conjE exE)
  fix d assume "delete_store u pc (iw_db w) = (pc', d)" "w' = w\<lparr>iw_db := d\<rparr>"
  then show ?thesis using delete_store_dates by auto
qed simp

lemma created_within_day_later:
  assumes "dates d' = dates d" "db_now d \<le> db_now d'"
  shows "created_within_day user d' \<le> created_within_day user d"
  unfolding created_within_day_dates assms(1)
  by (rule length_filter_mono) (use assms(2) in auto)

lemma apply_event_bounded:
  assumes b: "attempts_bounded cfg (run_db st)"
  shows "attempts_bounded cfg (run_db (apply_event lib cfg ev st))"
proof (cases ev)
  case (Ev_create user ps)
  obtain r d' where "create_insert cfg user ps (run_db st) = (r, d')" by force
  with create_insert_bounded [OF b this] show ?thesis by (simp add: Ev_create with_db_def)
next
  case (Ev_call clock q)
  with b show ?thesis by (simp split: sum.splits)
next
  case (Ev_advance i clock ans)
  obtain p pc where c: "ir_calls st ! i = (p, pc)" by force
  obtain pc' w where a: "advance lib cfg p clock pc ans (ir_world st) = (pc', w)" by force
  from attempts_bounded_frame [OF b advance_dates [OF a]] b show ?thesis by (simp add: Ev_advance c a)
next
  case (Ev_delete_advance i ans)
  obtain u pc where c: "ir_deletions st ! i = (u, pc)" by force
  obtain pc' w where a: "delete_advance u pc ans (ir_world st) = (pc', w)" by force
  from attempts_bounded_frame [OF b delete_advance_dates [OF a]] b show ?thesis
    by (simp add: Ev_delete_advance c a)
next
  case (Ev_time n)
  have "created_within_day u (run_db st\<lparr>db_now := db_now (run_db st) + int n\<rparr>) \<le> created_within_day u (run_db st)" for u
    by (rule created_within_day_later) (simp_all add: dates_def)
  with b show ?thesis by (simp add: Ev_time with_db_def attempts_bounded_def) (meson order_trans)
qed (use b in simp_all)

lemma reached_bounded: "reached lib cfg may st \<Longrightarrow> attempts_bounded cfg (run_db st)"
proof (induction rule: reached.induct)
  case (start st)
  then show ?case by (simp add: identity_start_def attempts_bounded_def created_within_day_def)
qed (rule apply_event_bounded)

end
