(* ===== verification/Enrolment_Safety.thy ===== *)
theory Enrolment_Safety
  imports Enrolment_Calls
begin

text \<open>
  Properties of the interleaved identity calls: faces are deleted before rows are tombstoned, what a
  crash leaves behind, replays, and concrete runs that show each of them.
\<close>

section \<open>Faces before tombstones\<close>

definition face_absent :: "collection_face list \<Rightarrow> string \<Rightarrow> string \<Rightarrow> bool" where
  "face_absent fs collection x \<longleftrightarrow> \<not> list_ex (\<lambda>c. cf_collection_id c = collection \<and> cf_face_id c = x) fs"

fun still_planned :: "delete_pc \<Rightarrow> string \<Rightarrow> string \<Rightarrow> bool" where
  "still_planned (Dp_delete c ids rest) k x \<longleftrightarrow> (k = c \<and> x \<in> set ids) \<or> (\<exists>ys. (k, ys) \<in> set rest \<and> x \<in> set ys)"
| "still_planned (Dp_verify c ids rest) k x \<longleftrightarrow> (k = c \<and> x \<in> set ids) \<or> (\<exists>ys. (k, ys) \<in> set rest \<and> x \<in> set ys)"
| "still_planned Dp_tombstone k x \<longleftrightarrow> False"
| "still_planned pc k x \<longleftrightarrow> True"

definition deleting :: "delete_pc \<Rightarrow> bool" where
  "deleting pc \<longleftrightarrow> (case pc of Dp_read \<Rightarrow> False | Dp_done _ \<Rightarrow> False | _ \<Rightarrow> True)"

definition dead_rows_faceless :: "identity_world \<Rightarrow> bool" where
  "dead_rows_faceless w \<longleftrightarrow> (\<forall>e\<in>set (enrolments (iw_db w)). \<not> en_active e \<longrightarrow>
     face_absent (iw_faces w) (en_collection_id e) (en_external_face_id e))"

definition deletion_ok :: "identity_world \<Rightarrow> user_ref \<times> delete_pc \<Rightarrow> bool" where
  "deletion_ok w = (\<lambda>(u, pc). \<forall>e\<in>set (enrolments (iw_db w)). active_of u e \<longrightarrow>
     still_planned pc (en_collection_id e) (en_external_face_id e) \<or>
     face_absent (iw_faces w) (en_collection_id e) (en_external_face_id e))"

definition deletions_ok :: "identity_run \<Rightarrow> bool" where
  "deletions_ok st \<longleftrightarrow> dead_rows_faceless (ir_world st) \<and> (\<forall>x\<in>set (ir_deletions st). deletion_ok (ir_world st) x)"

text \<open>No result call commits an enrolment of a user while a deletion of that user is between its read and its end.\<close>

fun no_enrolment_during_deletion :: "identity_run \<Rightarrow> identity_event \<Rightarrow> bool" where
  "no_enrolment_during_deletion st (Ev_advance i clock ans) \<longleftrightarrow>
     (i < length (ir_calls st) \<longrightarrow>
        (case snd (ir_calls st ! i) of
           Pc_enrol s r f \<Rightarrow> \<not> list_ex (\<lambda>(u, pc). u = ls_user_ref s \<and> deleting pc) (ir_deletions st)
         | _ \<Rightarrow> True))"
| "no_enrolment_during_deletion st _ \<longleftrightarrow> True"

lemma not_deleting_planned: "\<not> deleting pc \<Longrightarrow> still_planned pc k x"
  by (cases pc) (simp_all add: deleting_def)

lemma face_absent_mono: "face_absent fs k x \<Longrightarrow> set fs' \<subseteq> set fs \<Longrightarrow> face_absent fs' k x"
  by (auto simp: face_absent_def list_ex_iff)

lemma face_absent_snoc: "face_absent fs k x \<Longrightarrow> cf_face_id c \<noteq> x \<Longrightarrow> face_absent (fs @ [c]) k x"
  by (auto simp: face_absent_def list_ex_iff)

lemma add_face_keys:
  "(\<exists>ys. (k, ys) \<in> set (add_face (c, f) t) \<and> x \<in> set ys) \<longleftrightarrow>
   (k = c \<and> x = f) \<or> (\<exists>ys. (k, ys) \<in> set t \<and> x \<in> set ys)"
  by (induction "(c, f)" t rule: add_face.induct) auto

lemma by_collection_covers:
  assumes "e \<in> set es"
  shows "\<exists>ys. (en_collection_id e, ys) \<in> set (by_collection es) \<and> en_external_face_id e \<in> set ys"
proof -
  have "(\<exists>ys. (k, ys) \<in> set (fold add_face fs t) \<and> x \<in> set ys) \<longleftrightarrow>
      (k, x) \<in> set fs \<or> (\<exists>ys. (k, ys) \<in> set t \<and> x \<in> set ys)" for fs t k x
  proof (induction fs arbitrary: t)
    case (Cons y fs)
    obtain c f where y: "y = (c, f)" by force
    show ?case by (simp only: fold.simps comp_apply Cons.IH add_face_keys y) auto
  qed simp
  with assms show ?thesis by (force simp: by_collection_def)
qed

lemma next_delete_planned:
  "still_planned (next_delete t) k x \<longleftrightarrow> (\<exists>ys. (k, ys) \<in> set t \<and> x \<in> set ys)"
  by (cases t rule: next_delete.cases) auto

text \<open>The actions seen from the deletions: the faces of the rows, and the rows.\<close>

lemma external_shape:
  assumes "external_action cfg p pc ans fs = (pc', fs')"
  shows "set fs' \<subseteq> set fs \<or> (\<exists>s f. ans = Ext_indexed f \<and> fs' = fs @ [face_of cfg s f])"
proof (cases pc)
  case (Pc_cleanup f)
  then show ?thesis using assms by (cases ans) (auto simp: external_action_def without_faces_def)
next
  case (Pc_index s r)
  then show ?thesis using assms by (cases ans) (auto simp: external_action_def)
qed (use assms in \<open>cases ans; force simp: external_action_def\<close>)+

lemma faces_deletions_ok:
  assumes ok: "deletions_ok st"
    and fs: "set fs \<subseteq> set (run_faces st) \<or> (\<exists>c. fs = run_faces st @ [c] \<and> cf_face_id c \<notin> known_faces st)"
  shows "deletions_ok (st\<lparr>ir_world := (ir_world st)\<lparr>iw_faces := fs\<rparr>\<rparr>)"
proof -
  have keep: "face_absent fs (en_collection_id e) (en_external_face_id e)"
    if "face_absent (run_faces st) (en_collection_id e) (en_external_face_id e)" "e \<in> set (enrolments (run_db st))" for e
    using fs
  proof
    assume "\<exists>c. fs = run_faces st @ [c] \<and> cf_face_id c \<notin> known_faces st"
    then obtain c where "fs = run_faces st @ [c]" "cf_face_id c \<notin> known_faces st" by blast
    moreover from this have "cf_face_id c \<noteq> en_external_face_id e" using that(2) by (auto simp: known_faces_def)
    ultimately show ?thesis using that(1) face_absent_snoc by simp
  qed (use that face_absent_mono in blast)
  show ?thesis
    using ok keep unfolding deletions_ok_def dead_rows_faceless_def deletion_ok_def by (simp add: case_prod_beta) blast
qed

lemma rows_deletions_ok:
  assumes ok: "deletions_ok st"
    and d: "enrolments d = enrolments (run_db st) \<or>
      (\<exists>row. enrolments d = enrolments (run_db st) @ [row] \<and> en_active row \<and>
        (\<forall>(u, pc)\<in>set (ir_deletions st). u = en_user_ref row \<longrightarrow> \<not> deleting pc))"
  shows "deletions_ok (st\<lparr>ir_world := (ir_world st)\<lparr>iw_db := d\<rparr>\<rparr>)"
  using d
proof
  assume "\<exists>row. enrolments d = enrolments (run_db st) @ [row] \<and> en_active row \<and>
        (\<forall>(u, pc)\<in>set (ir_deletions st). u = en_user_ref row \<longrightarrow> \<not> deleting pc)"
  then obtain row where row: "enrolments d = enrolments (run_db st) @ [row]" "en_active row"
    "\<forall>(u, pc)\<in>set (ir_deletions st). u = en_user_ref row \<longrightarrow> \<not> deleting pc" by blast
  have "deletion_ok ((ir_world st)\<lparr>iw_db := d\<rparr>) (u, pc)" if x: "(u, pc) \<in> set (ir_deletions st)" for u pc
  proof -
    have old: "deletion_ok (ir_world st) (u, pc)" using ok x by (simp add: deletions_ok_def)
    have "active_of u row \<Longrightarrow> still_planned pc (en_collection_id row) (en_external_face_id row)"
      using row(3) x not_deleting_planned by (auto simp: active_of_def)
    with old show ?thesis by (auto simp: deletion_ok_def row(1))
  qed
  with ok row show ?thesis by (auto simp: deletions_ok_def dead_rows_faceless_def)
qed (use ok in \<open>simp add: deletions_ok_def dead_rows_faceless_def deletion_ok_def case_prod_beta\<close>)

lemma store_rows:
  assumes act: "store_action lib cfg p clock pc d = (pc', d')"
  shows "enrolments d' = enrolments d \<or>
    (\<exists>s r f row. pc = Pc_enrol s r f \<and> enrolments d' = enrolments d @ [row] \<and> en_active row \<and>
       en_user_ref row = ls_user_ref s)"
proof (cases pc)
  case (Pc_claim s)
  then show ?thesis using act by (auto simp: claim_result_def)
next
  case (Pc_expire r)
  then show ?thesis using act mark_expired_keeps [where cfg = cfg] by (auto split: sum.splits)
next
  case (Pc_fail s c reason)
  then show ?thesis
    using act finalize_result_keeps [where status = Ls_failed and cfg = cfg] by (auto split: sum.splits)
next
  case (Pc_conflict s r co)
  then show ?thesis using act finalize_conflict_keeps [where cfg = cfg] by (auto split: sum.splits option.splits)
next
  case (Pc_reject s r)
  then show ?thesis
    using act consume_session_keeps [where cfg = cfg]
    by (auto simp: finalize_quality_rejected_def split: sum.splits option.splits)
next
  case (Pc_enrol s r f)
  show ?thesis
  proof (cases "d' = d")
    case False
    then obtain x where fin: "finalize_enrolled (rp_session_id p) (pv_confidence r)
        (strip_query lib (rp_reference_put_url p)) (stored_audit_uris lib p r)
        (enrolment_of lib cfg p s f) (eligibility_for (rp_adult p)) d = Inr (x, d')"
      using act Pc_enrol by (auto split: sum.splits option.splits prod.splits)
    then obtain s' row where "x = Some (s', row)"
      using False by (auto simp: finalize_enrolled_def split: sum.splits option.splits)
    with fin obtain d1 d2 where i: "consume_session (rp_session_id p) (pv_confidence r) None
        (strip_query lib (rp_reference_put_url p)) (stored_audit_uris lib p r) d = Inr (Some s', d1)"
      "upsert_subject (ne_user_ref (enrolment_of lib cfg p s f)) (eligibility_for (rp_adult p)) d1 = Inr d2"
      "insert_enrolment (rp_session_id p) (enrolment_of lib cfg p s f) d2 = Inr (row, d')"
      by (auto simp: finalize_enrolled_def split: sum.splits option.splits)
    from consume_session_keeps [OF i(1)] upsert_subject_Inr [OF i(2)] insert_enrolment_Inr [OF i(3)]
    show ?thesis by (auto simp: Pc_enrol enrolment_of_def)
  qed simp
qed (use act in \<open>auto split: option.splits\<close>)

lemma advance_deletions_ok:
  assumes ok: "deletions_ok st" and i: "i < length (ir_calls st)" "ir_calls st ! i = (p, pc)"
    and adv: "advance lib cfg p clock pc ans (ir_world st) = (pc', w)"
    and fresh: "fresh_answer st (Ev_advance i clock ans)"
    and may: "no_enrolment_during_deletion st (Ev_advance i clock ans)"
  shows "deletions_ok (st\<lparr>ir_world := w\<rparr>)"
  using advance_cases [OF adv]
proof (elim disjE conjE exE)
  fix fs assume act: "external_action cfg p pc ans (run_faces st) = (pc', fs)" and w: "w = (ir_world st)\<lparr>iw_faces := fs\<rparr>"
  from external_shape [OF act] fresh
  have "set fs \<subseteq> set (run_faces st) \<or> (\<exists>c. fs = run_faces st @ [c] \<and> cf_face_id c \<notin> known_faces st)"
    by (auto simp: face_of_def)
  then show ?thesis unfolding w by (rule faces_deletions_ok [OF ok])
next
  fix d assume act: "store_action lib cfg p clock pc (run_db st) = (pc', d)" and w: "w = (ir_world st)\<lparr>iw_db := d\<rparr>"
  from store_rows [OF act] show ?thesis
  proof (elim disjE exE conjE)
    fix s r f row assume a: "pc = Pc_enrol s r f" "enrolments d = enrolments (run_db st) @ [row]"
      "en_active row" "en_user_ref row = ls_user_ref s"
    have "\<forall>(u, pc)\<in>set (ir_deletions st). u = en_user_ref row \<longrightarrow> \<not> deleting pc"
      using may i a(1,4) by (auto simp: list_ex_iff)
    with a show ?thesis unfolding w by (intro rows_deletions_ok [OF ok]) blast
  qed (unfold w, rule rows_deletions_ok [OF ok], blast)
qed

lemma delete_step_ok:
  assumes ok: "deletions_ok st" and mem: "(u, pc) \<in> set (ir_deletions st)"
    and adv: "delete_advance u pc ans (ir_world st) = (pc', w)"
  shows "deletions_ok (st\<lparr>ir_world := w\<rparr>) \<and> deletion_ok w (u, pc')"
  using delete_advance_cases [OF adv]
proof (elim disjE conjE exE)
  fix fs assume aw: "delete_awaits pc" and act: "delete_external pc ans (run_faces st) = (pc', fs)"
    and w: "w = (ir_world st)\<lparr>iw_faces := fs\<rparr>"
  have old: "deletion_ok (ir_world st) (u, pc)" using ok mem by (simp add: deletions_ok_def)
  from act have "set fs \<subseteq> set (run_faces st) \<and> (\<forall>k x. still_planned pc k x \<longrightarrow> still_planned pc' k x \<or> face_absent fs k x)"
  proof (cases pc)
    case (Dp_delete c ids rest)
    then show ?thesis using act by (cases ans) (auto simp: delete_external_def without_faces_def)
  next
    case (Dp_verify c ids rest)
    then show ?thesis
      using act by (cases ans)
        (auto simp: delete_external_def next_delete_planned listed_faces_def face_absent_def list_ex_iff filter_empty_conv
           split: if_splits)
  qed (use aw in \<open>simp_all add: delete_awaits_def\<close>)
  then have sub: "set fs \<subseteq> set (run_faces st)"
    and plan: "\<And>k x. still_planned pc k x \<Longrightarrow> still_planned pc' k x \<or> face_absent fs k x" by blast+
  have "deletion_ok w (u, pc')"
    using old plan face_absent_mono [OF _ sub] unfolding deletion_ok_def w by (simp, blast)
  with faces_deletions_ok [OF ok disjI1 [OF sub]] show ?thesis by (simp add: w)
next
  fix d assume aw: "\<not> delete_awaits pc" and act: "delete_store u pc (run_db st) = (pc', d)"
    and w: "w = (ir_world st)\<lparr>iw_db := d\<rparr>"
  show ?thesis
  proof (cases pc)
    case Dp_read
    then have d: "d = run_db st" using act by (auto split: list.splits)
    have "still_planned pc' (en_collection_id e) (en_external_face_id e)"
      if "e \<in> set (enrolments (run_db st))" "active_of u e" for e
    proof -
      have "e \<in> set (get_active_enrolments u (run_db st))" using that by (simp add: get_active_enrolments_def)
      from by_collection_covers [OF this] show ?thesis
        using act Dp_read by (auto simp: next_delete_planned split: list.splits)
    qed
    with ok show ?thesis by (simp add: w d deletion_ok_def)
  next
    case Dp_tombstone
    show ?thesis
    proof (cases "tombstone_enrolments u (run_db st)")
      case (Inl e)
      with act Dp_tombstone have "pc' = Dp_done (Delete_raised e)" "d = run_db st" by auto
      with ok show ?thesis by (simp add: w deletion_ok_def)
    next
      case (Inr x)
      let ?f = "\<lambda>e. e\<lparr>en_active := False, en_deleted_at := Some (db_now (run_db st))\<rparr>"
      from Inr act Dp_tombstone have d: "enrolments d = sql_update (active_of u) ?f (enrolments (run_db st))"
        and pc': "pc' = Dp_done No_content"
        by (auto simp: tombstone_enrolments_def split: if_splits prod.splits)
      have gone: "face_absent (run_faces st) (en_collection_id e) (en_external_face_id e)"
        if "e \<in> set (enrolments (run_db st))" "active_of u e" for e
        using ok mem that Dp_tombstone by (fastforce simp: deletions_ok_def deletion_ok_def)
      have "\<not> active_of v (?f e)" for v e by (simp add: active_of_def)
      then have live: "e \<in> set (enrolments (run_db st))" if "e \<in> set (enrolments d)" "active_of v e" for v e
        using that by (auto simp: d in_sql_update split: if_splits)
      have "deletion_ok w (v, pc2)" if "(v, pc2) \<in> set (ir_deletions st)" for v pc2
        using ok that live by (fastforce simp: deletions_ok_def deletion_ok_def w)
      moreover have "dead_rows_faceless w"
        using ok gone by (auto simp: deletions_ok_def dead_rows_faceless_def w d in_sql_update split: if_splits)
      ultimately show ?thesis by (auto simp: deletions_ok_def deletion_ok_def pc')
    qed
  next
    case (Dp_done r)
    then have "pc' = pc" "w = ir_world st" using act w by auto
    then show ?thesis using ok mem by (simp add: deletions_ok_def)
  qed (use aw in \<open>simp_all add: delete_awaits_def\<close>)
qed

lemma deletions_ok_calls: "deletions_ok (st\<lparr>ir_calls := cs\<rparr>) = deletions_ok st"
  by (simp add: deletions_ok_def)

lemma deletions_ok_subset:
  "deletions_ok st \<Longrightarrow> \<forall>x\<in>set ds. deletion_ok (ir_world st) x \<Longrightarrow> deletions_ok (st\<lparr>ir_deletions := ds\<rparr>)"
  by (simp add: deletions_ok_def)

lemma apply_event_deletions:
  assumes ok: "deletions_ok st" and fresh: "fresh_answer st ev" and may: "no_enrolment_during_deletion st ev"
  shows "deletions_ok (apply_event lib cfg ev st)"
proof (cases ev)
  case (Ev_create user ps)
  obtain r d' where d': "create_insert cfg user ps (run_db st) = (r, d')" by force
  then have "enrolments d' = enrolments (run_db st)"
    by (auto simp: create_insert_def create_session_def Let_def split: sum.splits option.splits if_splits)
  from rows_deletions_ok [OF ok disjI1 [OF this]] show ?thesis by (simp add: Ev_create d' with_db_def)
next
  case (Ev_call clock q)
  with ok show ?thesis by (simp add: deletions_ok_calls split: sum.splits)
next
  case (Ev_advance i clock ans)
  show ?thesis
  proof (cases "i < length (ir_calls st)")
    case True
    obtain p pc where c: "ir_calls st ! i = (p, pc)" by force
    obtain pc' w where a: "advance lib cfg p clock pc ans (ir_world st) = (pc', w)" by force
    from advance_deletions_ok [OF ok True c a fresh [unfolded Ev_advance] may [unfolded Ev_advance]]
    show ?thesis by (simp add: Ev_advance True c a deletions_ok_def)
  qed (use ok Ev_advance in simp)
next
  case (Ev_delete user)
  have "deletion_ok (ir_world st) (user, Dp_read)" by (simp add: deletion_ok_def)
  with ok show ?thesis by (simp add: Ev_delete deletions_ok_def)
next
  case (Ev_delete_advance i ans)
  show ?thesis
  proof (cases "i < length (ir_deletions st)")
    case True
    obtain u pc where c: "ir_deletions st ! i = (u, pc)" by force
    obtain pc' w where a: "delete_advance u pc ans (ir_world st) = (pc', w)" by force
    have "(u, pc) \<in> set (ir_deletions st)" using True c by (metis nth_mem)
    from delete_step_ok [OF ok this a]
    have step: "deletions_ok (st\<lparr>ir_world := w\<rparr>)" "deletion_ok w (u, pc')" by auto
    then have "\<forall>x\<in>set ((ir_deletions st)[i := (u, pc')]). deletion_ok w x"
      using set_update_subset_insert by (fastforce simp: deletions_ok_def)
    with step show ?thesis by (simp add: Ev_delete_advance True c a deletions_ok_def)
  qed (use ok Ev_delete_advance in simp)
next
  case (Ev_time n)
  have "enrolments (run_db st\<lparr>db_now := t\<rparr>) = enrolments (run_db st)" for t by simp
  from rows_deletions_ok [OF ok disjI1 [OF this]] show ?thesis by (simp add: Ev_time with_db_def)
next
  case Ev_crash
  with ok show ?thesis by (simp add: deletions_ok_def)
qed

lemma reached_deletions: "reached lib cfg no_enrolment_during_deletion st \<Longrightarrow> deletions_ok st"
proof (induction rule: reached.induct)
  case (start st)
  then show ?case by (simp add: identity_start_def deletions_ok_def dead_rows_faceless_def)
qed (rule apply_event_deletions)

section \<open>Concrete runs\<close>

definition empty_identity_db :: identity_db where
  "empty_identity_db = db.extend (empty_db\<lparr>db_fresh := 1\<rparr>)
     \<lparr>liveness_sessions = [], enrolments = [], enrolment_conflicts = []\<rparr>"

definition demo_start :: identity_run where
  "demo_start = \<lparr>ir_world = \<lparr>iw_db = empty_identity_db, iw_faces = []\<rparr>, ir_calls = [], ir_deletions = []\<rparr>"

definition demo_liveness :: liveness_config where
  "demo_liveness = \<lparr>lc_session_ttl_seconds = 600, lc_max_attempts_24h = 3, lc_min_confidence = 90,
     lc_identity_collection = ''faces'', lc_collision_threshold = 95\<rparr>"

definition demo_result_request :: result_request where
  "demo_result_request = \<lparr>rr_session_id = 1, rr_idempotency_key = Some ''k1'',
     rr_reference_put_url = Some ''https://b/r?s=1'', rr_audit_put_urls = Some [],
     rr_subject_is_adult = Some True, rr_consent_ref = Some 9, rr_consent_document_sha256 = Some ''ab'',
     rr_consent_signed_at = Some 0, rr_collision_candidates = None\<rparr>"

definition demo_answer :: ext_answer where
  "demo_answer = Ext_result \<lparr>pv_status = Pv_succeeded, pv_confidence = Some 99, pv_has_reference = True, pv_audit_images = 0\<rparr>"

definition demo_indexed :: "string \<Rightarrow> ext_answer" where
  "demo_indexed x = Ext_indexed \<lparr>if_face_id = x, if_quality_score = Some 99, if_model_id = ''m''\<rparr>"

definition demo_call_events :: "nat \<Rightarrow> string \<Rightarrow> identity_event list" where
  "demo_call_events i x =
     [Ev_advance i 0 Ext_uploaded, Ev_advance i 0 Ext_uploaded, Ev_advance i 0 demo_answer,
      Ev_advance i 0 Ext_uploaded, Ev_advance i 0 (Ext_searched \<lparr>fs_hits = [], fs_model_id = ''m''\<rparr>),
      Ev_advance i 0 (demo_indexed x)]"

fun run_events :: "host_lib \<Rightarrow> liveness_config \<Rightarrow> identity_event list \<Rightarrow> identity_run \<Rightarrow> identity_run" where
  "run_events lib cfg [] st = st"
| "run_events lib cfg (ev # evs) st = run_events lib cfg evs (apply_event lib cfg ev st)"

fun events_ok ::
  "host_lib \<Rightarrow> liveness_config \<Rightarrow> (identity_run \<Rightarrow> identity_event \<Rightarrow> bool) \<Rightarrow> identity_event list \<Rightarrow> identity_run \<Rightarrow> bool" where
  "events_ok lib cfg may [] st \<longleftrightarrow> True"
| "events_ok lib cfg may (ev # evs) st \<longleftrightarrow>
     fresh_answer st ev \<and> may st ev \<and> events_ok lib cfg may evs (apply_event lib cfg ev st)"

lemma events_ok_append:
  "events_ok lib cfg may (xs @ ys) st \<longleftrightarrow>
     events_ok lib cfg may xs st \<and> events_ok lib cfg may ys (run_events lib cfg xs st)"
  by (induction xs arbitrary: st) auto

lemma reached_run_events:
  "reached lib cfg may st \<Longrightarrow> events_ok lib cfg may evs st \<Longrightarrow> reached lib cfg may (run_events lib cfg evs st)"
  by (induction evs arbitrary: st) (auto intro: reached.event)

section \<open>A face nobody records\<close>

fun planned :: "delete_pc \<Rightarrow> string \<Rightarrow> bool" where
  "planned (Dp_delete c ids rest) x \<longleftrightarrow> x \<in> set ids \<or> (\<exists>y\<in>set rest. x \<in> set (snd y))"
| "planned (Dp_verify c ids rest) x \<longleftrightarrow> x \<in> set ids \<or> (\<exists>y\<in>set rest. x \<in> set (snd y))"
| "planned pc x \<longleftrightarrow> False"

definition orphan :: "identity_run \<Rightarrow> string \<Rightarrow> bool" where
  "orphan st x \<longleftrightarrow> x \<in> cf_face_id ` set (run_faces st) \<and> x \<notin> en_external_face_id ` set (enrolments (run_db st)) \<and>
     (\<forall>c\<in>set (ir_calls st). pc_face (snd c) \<noteq> Some x) \<and> (\<forall>y\<in>set (ir_deletions st). \<not> planned (snd y) x)"

lemma by_collection_only:
  assumes "y \<in> set (by_collection es)" "x \<in> set (snd y)" shows "x \<in> en_external_face_id ` set es"
proof -
  have step: "\<forall>y\<in>set (add_face (c, f) t). \<forall>x\<in>set (snd y). x = f \<or> (\<exists>z\<in>set t. x \<in> set (snd z))" for c f t
    by (induction "(c, f)" t rule: add_face.induct) auto
  have "\<forall>y\<in>set (fold add_face fs t). \<forall>x\<in>set (snd y). x \<in> snd ` set fs \<or> (\<exists>z\<in>set t. x \<in> set (snd z))" for fs t
  proof (induction fs arbitrary: t)
    case (Cons q fs)
    obtain c f where q: "q = (c, f)" by force
    show ?case
    proof (intro ballI)
      fix y x assume "y \<in> set (fold add_face (q # fs) t)" "x \<in> set (snd y)"
      then have "x \<in> snd ` set fs \<or> (\<exists>z\<in>set (add_face q t). x \<in> set (snd z))"
        using Cons.IH [of "add_face q t"] by simp
      then show "x \<in> snd ` set (q # fs) \<or> (\<exists>z\<in>set t. x \<in> set (snd z))"
        using step [of c f t] by (auto simp: q)
    qed
  qed auto
  with assms show ?thesis unfolding by_collection_def by fastforce
qed

lemma planned_next: "planned (next_delete t) x \<longleftrightarrow> (\<exists>y\<in>set t. x \<in> set (snd y))"
  by (cases t rule: next_delete.cases) auto

lemma external_orphan:
  assumes "external_action cfg p pc ans fs = (pc', fs')" "x \<in> cf_face_id ` set fs" "pc_face pc \<noteq> Some x"
    and "\<And>f. ans = Ext_indexed f \<Longrightarrow> if_face_id f \<noteq> x"
  shows "x \<in> cf_face_id ` set fs' \<and> pc_face pc' \<noteq> Some x"
proof (cases pc)
  case (Pc_cleanup f)
  then show ?thesis using assms by (cases ans) (auto simp: external_action_def without_faces_def)
next
  case (Pc_search s r)
  then show ?thesis
    using assms by (cases ans) (auto simp: external_action_def after_search_def split: option.splits)
qed (use assms in \<open>cases ans; force simp: external_action_def\<close>)+

lemma store_orphan:
  assumes act: "store_action lib cfg p clock pc d = (pc', d')"
    and x: "x \<notin> en_external_face_id ` set (enrolments d)" "pc_face pc \<noteq> Some x"
  shows "x \<notin> en_external_face_id ` set (enrolments d') \<and> pc_face pc' \<noteq> Some x"
proof -
  have "pc_face pc' = None \<or> pc_face pc' = pc_face pc"
    using act by (cases pc) (auto split: sum.splits option.splits prod.splits)
  moreover have "x \<notin> en_external_face_id ` set (enrolments d')"
  proof (cases "enrolments d' = enrolments d")
    case False
    with store_rows [OF act] obtain s r f where pc: "pc = Pc_enrol s r f" by blast
    then obtain z where fin: "finalize_enrolled (rp_session_id p) (pv_confidence r)
        (strip_query lib (rp_reference_put_url p)) (stored_audit_uris lib p r)
        (enrolment_of lib cfg p s f) (eligibility_for (rp_adult p)) d = Inr (z, d')"
      using act False by (auto split: sum.splits option.splits prod.splits)
    then obtain s' row where z: "z = Some (s', row)"
      using False by (auto simp: finalize_enrolled_def split: sum.splits option.splits)
    with fin obtain d1 d2 where i: "consume_session (rp_session_id p) (pv_confidence r) None
        (strip_query lib (rp_reference_put_url p)) (stored_audit_uris lib p r) d = Inr (Some s', d1)"
      "upsert_subject (ne_user_ref (enrolment_of lib cfg p s f)) (eligibility_for (rp_adult p)) d1 = Inr d2"
      "insert_enrolment (rp_session_id p) (enrolment_of lib cfg p s f) d2 = Inr (row, d')"
      by (auto simp: finalize_enrolled_def split: sum.splits option.splits)
    from consume_session_keeps [OF i(1)] upsert_subject_Inr [OF i(2)] insert_enrolment_Inr [OF i(3)] x pc
    show ?thesis by (auto simp: enrolment_of_def)
  qed (use x in simp)
  ultimately show ?thesis using x by auto
qed

lemma delete_external_orphan:
  assumes "delete_external pc ans fs = (pc', fs')" "x \<in> cf_face_id ` set fs" "\<not> planned pc x"
  shows "x \<in> cf_face_id ` set fs' \<and> \<not> planned pc' x"
proof (cases pc)
  case (Dp_delete c ids rest)
  then show ?thesis using assms by (cases ans) (auto simp: delete_external_def without_faces_def)
next
  case (Dp_verify c ids rest)
  then show ?thesis using assms by (cases ans) (auto simp: delete_external_def planned_next split: if_splits)
qed (use assms in \<open>cases ans; force simp: delete_external_def\<close>)+

lemma delete_store_orphan:
  assumes act: "delete_store u pc d = (pc', d')" and x: "x \<notin> en_external_face_id ` set (enrolments d)" "\<not> planned pc x"
  shows "x \<notin> en_external_face_id ` set (enrolments d') \<and> \<not> planned pc' x"
proof (cases pc)
  case Dp_read
  have "\<not> (\<exists>y\<in>set (by_collection (get_active_enrolments u d)). x \<in> set (snd y))"
    using by_collection_only [of _ "get_active_enrolments u d" x] x(1)
    by (fastforce simp: get_active_enrolments_def)
  then show ?thesis using act x Dp_read by (auto simp: planned_next split: list.splits)
next
  case Dp_tombstone
  have "x \<notin> en_external_face_id ` set (sql_update (active_of u)
      (\<lambda>e. e\<lparr>en_active := False, en_deleted_at := Some (db_now d)\<rparr>) (enrolments d))"
    using x(1) by (force simp: in_sql_update split: if_splits)
  then show ?thesis
    using act x Dp_tombstone by (auto simp: tombstone_enrolments_def split: if_splits)
qed (use act x in auto)

lemma all_update:
  assumes "\<forall>c\<in>set xs. P c" "P y" shows "\<forall>c\<in>set (xs[i := y]). P c"
  using assms set_update_subset_insert by fastforce

lemma apply_event_orphan:
  assumes orph: "orphan st x" and fresh: "fresh_answer st ev"
  shows "orphan (apply_event lib cfg ev st) x"
proof (cases ev)
  case (Ev_create user ps)
  obtain r d' where d': "create_insert cfg user ps (run_db st) = (r, d')" by force
  then have "enrolments d' = enrolments (run_db st)"
    by (auto simp: create_insert_def create_session_def Let_def split: sum.splits option.splits if_splits)
  with orph show ?thesis by (simp add: Ev_create d' with_db_def orphan_def)
next
  case (Ev_call clock q)
  with orph show ?thesis by (auto simp: orphan_def split: sum.splits)
next
  case (Ev_advance i clock ans)
  show ?thesis
  proof (cases "i < length (ir_calls st)")
    case True
    obtain p pc where c: "ir_calls st ! i = (p, pc)" by force
    obtain pc' w where a: "advance lib cfg p clock pc ans (ir_world st) = (pc', w)" by force
    have "(p, pc) \<in> set (ir_calls st)" using True c by (metis nth_mem)
    then have pc: "pc_face pc \<noteq> Some x" using orph by (auto simp: orphan_def)
    have new: "ans = Ext_indexed f \<Longrightarrow> if_face_id f \<noteq> x" for f
      using fresh orph by (auto simp: Ev_advance known_faces_def orphan_def)
    have "x \<in> cf_face_id ` set (iw_faces w) \<and> x \<notin> en_external_face_id ` set (enrolments (iw_db w)) \<and> pc_face pc' \<noteq> Some x"
      using advance_cases [OF a]
    proof (elim disjE conjE exE)
      fix fs assume "external_action cfg p pc ans (run_faces st) = (pc', fs)" "w = (ir_world st)\<lparr>iw_faces := fs\<rparr>"
      with external_orphan [OF _ _ pc new] orph show ?thesis by (simp add: orphan_def)
    next
      fix d assume "store_action lib cfg p clock pc (run_db st) = (pc', d)" "w = (ir_world st)\<lparr>iw_db := d\<rparr>"
      with store_orphan [OF _ _ pc] orph show ?thesis by (simp add: orphan_def)
    qed
    with orph all_update [of "ir_calls st" "\<lambda>c. pc_face (snd c) \<noteq> Some x" "(p, pc')" i] show ?thesis
      by (simp add: Ev_advance True c a orphan_def)
  qed (use orph Ev_advance in simp)
next
  case (Ev_delete_advance i ans)
  show ?thesis
  proof (cases "i < length (ir_deletions st)")
    case True
    obtain u pc where c: "ir_deletions st ! i = (u, pc)" by force
    obtain pc' w where a: "delete_advance u pc ans (ir_world st) = (pc', w)" by force
    have "(u, pc) \<in> set (ir_deletions st)" using True c by (metis nth_mem)
    then have pc: "\<not> planned pc x" using orph by (auto simp: orphan_def)
    have "x \<in> cf_face_id ` set (iw_faces w) \<and> x \<notin> en_external_face_id ` set (enrolments (iw_db w)) \<and> \<not> planned pc' x"
      using delete_advance_cases [OF a]
    proof (elim disjE conjE exE)
      fix fs assume "delete_external pc ans (run_faces st) = (pc', fs)" "w = (ir_world st)\<lparr>iw_faces := fs\<rparr>"
      with delete_external_orphan [OF _ _ pc] orph show ?thesis by (simp add: orphan_def)
    next
      fix d assume "delete_store u pc (run_db st) = (pc', d)" "w = (ir_world st)\<lparr>iw_db := d\<rparr>"
      with delete_store_orphan [OF _ _ pc] orph show ?thesis by (simp add: orphan_def)
    qed
    with orph all_update [of "ir_deletions st" "\<lambda>y. \<not> planned (snd y) x" "(u, pc')" i] show ?thesis
      by (simp add: Ev_delete_advance True c a orphan_def)
  qed (use orph Ev_delete_advance in simp)
qed (use orph in \<open>auto simp: orphan_def with_db_def\<close>)

lemma orphan_run_events:
  "orphan st x \<Longrightarrow> events_ok lib cfg may evs st \<Longrightarrow> orphan (run_events lib cfg evs st) x"
  by (induction evs arbitrary: st) (auto intro: apply_event_orphan)

section \<open>Replays\<close>

text \<open>The actions that give a session its recorded outcome.\<close>

definition finishing :: "pc \<Rightarrow> bool" where
  "finishing pc \<longleftrightarrow>
     (case pc of Pc_fail _ _ _ \<Rightarrow> True | Pc_conflict _ _ _ \<Rightarrow> True | Pc_reject _ _ \<Rightarrow> True
      | Pc_enrol _ _ _ \<Rightarrow> True | _ \<Rightarrow> False)"

definition recorded :: "uuid \<Rightarrow> string \<Rightarrow> identity_db \<Rightarrow> liveness_session \<Rightarrow> bool" where
  "recorded sid key d s \<longleftrightarrow>
     get_session sid d = Some s \<and> ls_completed_at s \<noteq> None \<and> ls_idempotency_key s = Some key"

lemma get_session_update:
  assumes "get_session sid d = Some s" "g s" "\<And>s. ls_session_id (f s) = ls_session_id s"
  shows "get_session sid (d\<lparr>liveness_sessions := sql_update (\<lambda>s. ls_session_id s = sid \<and> g s) f (liveness_sessions d)\<rparr>) = Some (f s)"
proof -
  have "ls_session_id s = sid" using assms(1) by (auto simp: get_session_def dest: sql_first_SomeD)
  moreover have "sql_first (\<lambda>s. ls_session_id s = sid)
      (sql_update (\<lambda>s. ls_session_id s = sid \<and> g s) f (liveness_sessions d)) =
    map_option (\<lambda>s. if ls_session_id s = sid \<and> g s then f s else s)
      (sql_first (\<lambda>s. ls_session_id s = sid) (liveness_sessions d))"
    by (rule sql_first_update) (simp add: assms(3))
  ultimately show ?thesis using assms(1,2) by (simp add: get_session_def)
qed

lemma get_session_member:
  assumes "identity_db_ok cfg d" "s \<in> set (liveness_sessions d)" "ls_session_id s = sid"
  shows "get_session sid d = Some s"
proof -
  obtain s' where s': "get_session sid d = Some s'"
    using assms(2,3) unfolding get_session_def by (cases "sql_first (\<lambda>s. ls_session_id s = sid) (liveness_sessions d)")
      (auto simp: sql_first_None_iff)
  then have "s' \<in> set (liveness_sessions d)" "ls_session_id s' = sid"
    by (auto simp: get_session_def dest: sql_first_SomeD)
  with assms same_session have "s' = s" unfolding identity_db_ok_def by blast
  with s' show ?thesis by simp
qed

lemma consume_session_records:
  assumes ok: "identity_db_ok cfg d" and cons: "consume_session sid c fl rf au d = Inr (Some s, d1)"
    and key: "\<forall>s. get_session sid d = Some s \<longrightarrow> ls_idempotency_key s = Some key"
  shows "recorded sid key d1 s \<and> ls_failure_reason s = fl \<and> ls_status s = Ls_consumed \<and>
    enrolment_conflicts d1 = enrolment_conflicts d"
proof -
  from consume_session_Inr [OF cons] obtain s0 conf where s0: "s0 \<in> set (liveness_sessions d)"
    "ls_session_id s0 = sid" "not_completed s0"
    and s: "s = s0\<lparr>ls_status := Ls_consumed, ls_confidence := conf, ls_failure_reason := fl,
                   ls_reference_image_uri := Some rf, ls_audit_image_uris := Some au,
                   ls_completed_at := Some (db_now d), ls_consumed_at := Some (db_now d)\<rparr>"
    and d1: "d1 = d\<lparr>liveness_sessions := sql_update (\<lambda>s. ls_session_id s = sid \<and> not_completed s)
          (\<lambda>s. s\<lparr>ls_status := Ls_consumed, ls_confidence := conf, ls_failure_reason := fl,
                   ls_reference_image_uri := Some rf, ls_audit_image_uris := Some au,
                   ls_completed_at := Some (db_now d), ls_consumed_at := Some (db_now d)\<rparr>)
          (liveness_sessions d)\<rparr>"
    by (auto simp: Let_def)
  note g = get_session_member [OF ok s0(1,2)]
  have "get_session sid d1 = Some s"
    unfolding d1 s by (rule get_session_update [OF g, where g = not_completed]) (simp_all add: s0)
  with key g show ?thesis by (simp add: recorded_def s d1)
qed

lemma get_session_cong: "liveness_sessions d' = liveness_sessions d \<Longrightarrow> get_session sid d' = get_session sid d"
  by (simp add: get_session_def)

lemma enrol_records:
  assumes ok: "identity_db_ok cfg d"
    and fin: "finalize_enrolled sid c rf au e el d = Inr (Some (s, row), d')"
    and key: "\<forall>s. get_session sid d = Some s \<longrightarrow> ls_idempotency_key s = Some key"
  shows "recorded sid key d' s \<and> ls_failure_reason s = None"
proof -
  from fin obtain d1 d2 where i: "consume_session sid c None rf au d = Inr (Some s, d1)"
    "upsert_subject (ne_user_ref e) el d1 = Inr d2" "insert_enrolment sid e d2 = Inr (row, d')"
    by (auto simp: finalize_enrolled_def split: sum.splits option.splits)
  from upsert_subject_Inr [OF i(2)] insert_enrolment_Inr [OF i(3)]
  have "liveness_sessions d' = liveness_sessions d1" by auto
  from get_session_cong [OF this, of sid] consume_session_records [OF ok i(1) key] show ?thesis
    by (simp add: recorded_def)
qed

lemma conflict_records:
  assumes ok: "identity_db_ok cfg d"
    and fin: "finalize_conflict sid c rf au coll co d = Inr (Some (s, row), d')"
    and key: "\<forall>s. get_session sid d = Some s \<longrightarrow> ls_idempotency_key s = Some key"
  shows "recorded sid key d' s \<and> ls_failure_reason s = Some IDENTITY_CONFLICT_REASON \<and> get_conflict sid d' = Some row"
proof -
  from fin obtain d1 where i: "consume_session sid c (Some IDENTITY_CONFLICT_REASON) rf au d = Inr (Some s, d1)"
    and free: "\<not> list_ex (\<lambda>r. ec_session_id r = sid) (enrolment_conflicts d1)"
    and d': "liveness_sessions d' = liveness_sessions d1"
      "enrolment_conflicts d' = enrolment_conflicts d1 @ [row]" "ec_session_id row = sid"
    by (auto simp: finalize_conflict_def Let_def insert_audit_def split: sum.splits option.splits if_splits)
  have "sql_first (\<lambda>c. ec_session_id c = sid) (enrolment_conflicts d1) = None"
    using free by (auto simp: sql_first_None_iff list_ex_iff)
  then have "get_conflict sid d' = Some row"
    by (simp add: get_conflict_def d' sql_first_append)
  with consume_session_records [OF ok i key] get_session_cong [OF d'(1), of sid] show ?thesis
    by (simp add: recorded_def)
qed

lemma fail_records:
  assumes ok: "identity_db_ok cfg d"
    and fin: "finalize_result sid status c (Some fl) rf au d = Inr (s, d')"
    and key: "\<forall>s. get_session sid d = Some s \<longrightarrow> ls_idempotency_key s = Some key"
  shows "recorded sid key d' s \<and> ls_failure_reason s = Some fl"
proof -
  from fin obtain conf where "update_session sid (\<lambda>_. True)
      (\<lambda>s. s\<lparr>ls_status := status, ls_confidence := conf, ls_failure_reason := Some fl,
             ls_reference_image_uri := rf, ls_audit_image_uris := au,
             ls_completed_at := Some (db_now d)\<rparr>) d = Inr (Some s, d')"
    by (auto simp: finalize_result_def split: sum.splits option.splits prod.splits)
  from update_session_Inr [OF this] obtain s0 where s0: "s0 \<in> set (liveness_sessions d)" "ls_session_id s0 = sid"
    and s: "s = s0\<lparr>ls_status := status, ls_confidence := conf, ls_failure_reason := Some fl,
             ls_reference_image_uri := rf, ls_audit_image_uris := au, ls_completed_at := Some (db_now d)\<rparr>"
    and d': "d' = d\<lparr>liveness_sessions := sql_update (\<lambda>s. ls_session_id s = sid \<and> True)
        (\<lambda>s. s\<lparr>ls_status := status, ls_confidence := conf, ls_failure_reason := Some fl,
             ls_reference_image_uri := rf, ls_audit_image_uris := au,
             ls_completed_at := Some (db_now d)\<rparr>) (liveness_sessions d)\<rparr>"
    by auto
  note g = get_session_member [OF ok s0]
  have "get_session sid d' = Some s"
    unfolding d' s by (rule get_session_update [OF g, where g = "\<lambda>_. True"]) simp_all
  with key g show ?thesis by (simp add: recorded_def s)
qed

text \<open>What a later call with the same key is answered, once an outcome is recorded.\<close>

definition replayed :: "host_lib \<Rightarrow> liveness_config \<Rightarrow> result_params \<Rightarrow> instant \<Rightarrow> identity_db \<Rightarrow> pc" where
  "replayed lib cfg p clock d =
     fst (store_action lib cfg p clock (fst (store_action lib cfg p clock Pc_read d)) d)"

lemma replayed_plain:
  assumes "recorded (rp_session_id p) (rp_key p) d s" "ls_failure_reason s \<noteq> Some IDENTITY_CONFLICT_REASON"
  shows "replayed lib cfg p clock d = Pc_done (result_response_of s)"
  using assms by (simp add: replayed_def recorded_def after_read_def replay_pc_def)

lemma replayed_conflict:
  assumes "recorded (rp_session_id p) (rp_key p) d s" "ls_failure_reason s = Some IDENTITY_CONFLICT_REASON"
    "get_conflict (rp_session_id p) d = Some row"
  shows "replayed lib cfg p clock d = Pc_done (conflict_error row)"
  using assms by (simp add: replayed_def recorded_def after_read_def replay_pc_def)

section \<open>Properties\<close>

lemma filter_key_single:
  "distinct (map k xs) \<Longrightarrow> x \<in> set xs \<Longrightarrow> filter (\<lambda>y. k y = k x) xs = [x]"
  by (induction xs) (auto simp: filter_empty_conv image_iff)

text \<open>
  C6. In every interleaving of result calls, deletions, crashes and time, each enrolment stands on a
  liveness session of the same user that passed the confidence threshold and was consumed without a
  failure, on a subject row and on a real consent, and no session enrols twice.
\<close>

theorem enrolments_are_backed:
  assumes "reached lib cfg may st" "e \<in> set (enrolments (run_db st))"
  shows "backed cfg (run_db st) e \<and> length (filter (\<lambda>r. en_session_id r = en_session_id e) (enrolments (run_db st))) = 1"
proof -
  have ok: "identity_db_ok cfg (run_db st)"
    using reached_identity_ok [OF assms(1)] by (simp add: identity_ok_def)
  then have "distinct (map en_session_id (enrolments (run_db st)))" by (simp add: identity_db_ok_def)
  then have "filter (\<lambda>r. en_session_id r = en_session_id e) (enrolments (run_db st)) = [e]"
    using assms(2) by (rule filter_key_single)
  with ok assms(2) show ?thesis by (simp add: identity_db_ok_def)
qed


text \<open>
  C17. Whatever else happens, crashes included, a tombstoned enrolment has no face left in its
  collection, as long as no result call commits an enrolment of a user between the read and the end of
  a deletion of that user.
\<close>

theorem tombstoned_rows_have_no_face:
  assumes "reached lib cfg no_enrolment_during_deletion st"
    and "e \<in> set (enrolments (run_db st))" "\<not> en_active e"
  shows "\<not> list_ex (\<lambda>c. cf_collection_id c = en_collection_id e \<and> cf_face_id c = en_external_face_id e) (run_faces st)"
  using reached_deletions [OF assms(1)] assms(2,3)
  by (simp add: deletions_ok_def dead_rows_faceless_def face_absent_def)

text \<open>
  C26. No user ever has more than the configured number of liveness sessions created within the
  trailing 24 hours.
\<close>

theorem liveness_attempts_bounded:
  assumes "reached lib cfg may st"
  shows "created_within_day user (run_db st) \<le> lc_max_attempts_24h cfg"
  using reached_bounded [OF assms] by (simp add: attempts_bounded_def)

text \<open>
  Once a call has recorded an outcome under its idempotency key, a repeat with the same key is given
  the same answer, a refusal for an identity conflict included.
\<close>

theorem finished_call_replays:
  assumes "identity_db_ok cfg d" "finishing pc" "store_action lib cfg p clock pc d = (Pc_done resp, d')"
    and "\<nexists>e. resp = Unhandled e"
    and "\<forall>s. get_session (rp_session_id p) d = Some s \<longrightarrow> ls_idempotency_key s = Some (rp_key p)"
    and reasons: "case pc of Pc_fail s c reason \<Rightarrow> reason \<noteq> IDENTITY_CONFLICT_REASON | _ \<Rightarrow> True"
  shows "replayed lib cfg p clock' d' = Pc_done resp"
proof (cases pc)
  case (Pc_fail s c reason)
  with assms(3,4) obtain s' where s': "finalize_result (rp_session_id p) Ls_failed c (Some reason) None None d = Inr (s', d')"
    and resp: "resp = result_response_of s'" by (auto split: sum.splits)
  from fail_records [OF assms(1) s' assms(5)] reasons Pc_fail show ?thesis
    unfolding resp by (intro replayed_plain) auto
next
  case (Pc_conflict s r co)
  with assms(3,4) obtain s' row where s': "finalize_conflict (rp_session_id p) (pv_confidence r)
      (strip_query lib (rp_reference_put_url p)) (stored_audit_uris lib p r) (lc_identity_collection cfg) co d
      = Inr (Some (s', row), d')"
    and resp: "resp = conflict_error row" by (auto split: sum.splits option.splits)
  from conflict_records [OF assms(1) s' assms(5)] show ?thesis
    unfolding resp by (intro replayed_conflict) auto
next
  case (Pc_reject s r)
  with assms(3,4) obtain s' where s': "consume_session (rp_session_id p) (pv_confidence r)
      (Some QUALITY_REJECTED_REASON) (strip_query lib (rp_reference_put_url p)) (stored_audit_uris lib p r) d
      = Inr (Some s', d')"
    and resp: "resp = result_response_of s'"
    by (auto simp: finalize_quality_rejected_def split: sum.splits option.splits)
  from consume_session_records [OF assms(1) s' assms(5)] show ?thesis
    unfolding resp
    by (intro replayed_plain) (auto simp: QUALITY_REJECTED_REASON_def IDENTITY_CONFLICT_REASON_def)
next
  case (Pc_enrol s r f)
  with assms(3,4) obtain s' row where s': "finalize_enrolled (rp_session_id p) (pv_confidence r)
      (strip_query lib (rp_reference_put_url p)) (stored_audit_uris lib p r) (enrolment_of lib cfg p s f)
      (eligibility_for (rp_adult p)) d = Inr (Some (s', row), d')"
    and resp: "resp = result_response_of s'" by (auto split: sum.splits option.splits)
  from enrol_records [OF assms(1) s' assms(5)] show ?thesis
    unfolding resp by (intro replayed_plain) auto
qed (use assms(2) in \<open>simp_all add: finishing_def\<close>)

text \<open>
  C18. If the process dies between \<^verbatim>\<open>IndexFaces\<close> and the commit, the indexed face stays in the
  collection for ever: whatever calls, retries and deletions follow, no enrolment ever names it and no
  deletion removes it.
\<close>

theorem crash_orphans_face:
  assumes "reached lib cfg orderly st" "(p, pc) \<in> set (ir_calls st)" "pc_face pc = Some x"
    and "events_ok lib cfg may evs (apply_event lib cfg Ev_crash st)"
  shows "x \<in> cf_face_id ` set (run_faces (run_events lib cfg evs (apply_event lib cfg Ev_crash st))) \<and>
    x \<notin> en_external_face_id ` set (enrolments (run_db (run_events lib cfg evs (apply_event lib cfg Ev_crash st))))"
proof -
  have "orphan (apply_event lib cfg Ev_crash st) x"
    using tidy_in_flight [OF reached_tidy [OF assms(1)] assms(2,3)] by (simp add: orphan_def)
  then have "orphan (run_events lib cfg evs (apply_event lib cfg Ev_crash st)) x"
    using assms(4) by (rule orphan_run_events)
  then show ?thesis by (simp add: orphan_def)
qed

definition demo_events :: "identity_event list" where
  "demo_events = [Ev_create 5 ''ps'', Ev_call 0 demo_result_request, Ev_call 0 demo_result_request]
     @ demo_call_events 0 ''f1'' @ demo_call_events 1 ''f2''"

definition demo_finish :: "identity_event list" where
  "demo_finish = [Ev_advance 0 0 Ext_uploaded, Ev_advance 1 0 Ext_uploaded,
     Ev_advance 1 0 (Ext_deleted []), Ev_advance 1 0 Ext_uploaded]"

definition demo_racing :: identity_run where
  "demo_racing = run_events ascii_lib demo_liveness demo_events demo_start"

definition demo_enrolled :: identity_run where
  "demo_enrolled = run_events ascii_lib demo_liveness (demo_events @ demo_finish) demo_start"

definition demo_deletion :: "identity_event list" where
  "demo_deletion = [Ev_delete 5, Ev_delete_advance 0 Ext_listed, Ev_delete_advance 0 (Ext_deleted []),
     Ev_delete_advance 0 Ext_listed, Ev_delete_advance 0 Ext_listed]"

definition demo_deleted :: identity_run where
  "demo_deleted = run_events ascii_lib demo_liveness (demo_events @ demo_finish @ demo_deletion) demo_start"

fun checked_run ::
  "host_lib \<Rightarrow> liveness_config \<Rightarrow> (identity_run \<Rightarrow> identity_event \<Rightarrow> bool) \<Rightarrow> identity_event list \<Rightarrow> identity_run
     \<Rightarrow> identity_run option" where
  "checked_run lib cfg may [] st = Some st"
| "checked_run lib cfg may (ev # evs) st =
     (if fresh_answer st ev \<and> may st ev then checked_run lib cfg may evs (apply_event lib cfg ev st) else None)"

lemma checked_runD:
  "(case checked_run lib cfg may evs st of None \<Rightarrow> False | Some st' \<Rightarrow> P st') \<Longrightarrow>
   events_ok lib cfg may evs st \<and> P (run_events lib cfg evs st)"
  by (induction evs arbitrary: st) (auto split: if_splits)

definition anything :: "identity_run \<Rightarrow> identity_event \<Rightarrow> bool" where
  "anything st ev \<longleftrightarrow> True"

lemma demo_reached_start: "reached ascii_lib demo_liveness may demo_start"
proof -
  have "identity_start demo_start" by code_simp
  then show ?thesis by (rule reached.start)
qed

text \<open>What the runs below end with, each evaluated once.\<close>

definition racing_facts :: "identity_run \<Rightarrow> bool" where
  "racing_facts st \<longleftrightarrow>
     (case ir_calls st of [] \<Rightarrow> False | (p, pc) # _ \<Rightarrow>
        finishing pc \<and> pc_face pc = Some ''f1'' \<and>
        fst (store_action ascii_lib demo_liveness p 0 pc (run_db st)) = Pc_done (Result_ok ''passed'' (Some 99) True None) \<and>
        map_option ls_idempotency_key (get_session (rp_session_id p) (run_db st)) = Some (Some (rp_key p)))"

definition enrolled_facts :: "identity_run \<Rightarrow> bool" where
  "enrolled_facts st \<longleftrightarrow> list_all (\<lambda>c. pc_face (snd c) = None) (ir_calls st) \<and>
     map (\<lambda>e. (en_external_face_id e, en_active e)) (enrolments (run_db st)) = [(''f1'', True)]"

definition deleted_facts :: "identity_run \<Rightarrow> bool" where
  "deleted_facts st \<longleftrightarrow> list_all (\<lambda>c. cf_collection_id c = ''faces'') (run_faces st) \<and>
     map (\<lambda>e. (en_collection_id e, en_external_face_id e, en_active e)) (enrolments (run_db st)) = [(''faces'', ''f1'', False)]"

lemma demo_racing_run: "reached ascii_lib demo_liveness orderly demo_racing \<and> racing_facts demo_racing"
proof -
  have "case checked_run ascii_lib demo_liveness orderly demo_events demo_start of None \<Rightarrow> False | Some st \<Rightarrow> racing_facts st"
    by code_simp
  from checked_runD [OF this] reached_run_events [OF demo_reached_start] show ?thesis
    by (simp add: demo_racing_def)
qed

lemma demo_enrolled_run: "reached ascii_lib demo_liveness orderly demo_enrolled \<and> enrolled_facts demo_enrolled"
proof -
  have "case checked_run ascii_lib demo_liveness orderly (demo_events @ demo_finish) demo_start of
      None \<Rightarrow> False | Some st \<Rightarrow> enrolled_facts st"
    by code_simp
  from checked_runD [OF this] reached_run_events [OF demo_reached_start] show ?thesis
    by (simp add: demo_enrolled_def)
qed

lemma demo_deleted_run:
  "reached ascii_lib demo_liveness no_enrolment_during_deletion demo_deleted \<and> deleted_facts demo_deleted"
proof -
  have "case checked_run ascii_lib demo_liveness no_enrolment_during_deletion (demo_events @ demo_finish @ demo_deletion)
      demo_start of None \<Rightarrow> False | Some st \<Rightarrow> deleted_facts st"
    by code_simp
  from checked_runD [OF this] reached_run_events [OF demo_reached_start] show ?thesis
    by (simp add: demo_deleted_def)
qed

lemmas demo_racing_reached = demo_racing_run [THEN conjunct1]
lemmas demo_enrolled_reached = demo_enrolled_run [THEN conjunct1]
lemmas demo_deleted_reached = demo_deleted_run [THEN conjunct1]

lemma demo_enrolled_row:
  "\<exists>e. enrolments (run_db demo_enrolled) = [e] \<and> en_external_face_id e = ''f1'' \<and> en_active e"
  using demo_enrolled_run by (auto simp: enrolled_facts_def)

theorem enrolments_are_backed_witness:
  "backed demo_liveness (run_db demo_enrolled) (hd (enrolments (run_db demo_enrolled)))"
proof -
  obtain e where "enrolments (run_db demo_enrolled) = [e]" using demo_enrolled_row by blast
  then show ?thesis using enrolments_are_backed [OF demo_enrolled_reached, of e] by simp
qed


theorem tombstoned_rows_have_no_face_witness:
  "\<not> list_ex (\<lambda>c. cf_face_id c = ''f1'') (run_faces demo_deleted)"
proof -
  obtain e where e: "enrolments (run_db demo_deleted) = [e]" "\<not> en_active e"
    "en_external_face_id e = ''f1''" "en_collection_id e = ''faces''"
    and "list_all (\<lambda>c. cf_collection_id c = ''faces'') (run_faces demo_deleted)"
    using demo_deleted_run by (auto simp: deleted_facts_def)
  with tombstoned_rows_have_no_face [OF demo_deleted_reached, of e] e show ?thesis
    by (simp add: list_ex_iff list_all_iff)
qed

theorem liveness_attempts_bounded_witness: "created_within_day 5 (run_db demo_racing) \<le> 3"
  using liveness_attempts_bounded [OF demo_racing_reached, of 5] by (simp add: demo_liveness_def)

definition demo_params :: result_params where
  "demo_params = fst (hd (ir_calls demo_racing))"

definition demo_pc :: pc where
  "demo_pc = snd (hd (ir_calls demo_racing))"

definition demo_answered :: "pc \<times> identity_db" where
  "demo_answered = store_action ascii_lib demo_liveness demo_params 0 demo_pc (run_db demo_racing)"

lemma demo_call_facts:
  "(demo_params, demo_pc) \<in> set (ir_calls demo_racing)" "finishing demo_pc" "pc_face demo_pc = Some ''f1''"
  "fst (store_action ascii_lib demo_liveness demo_params 0 demo_pc (run_db demo_racing)) =
     Pc_done (Result_ok ''passed'' (Some 99) True None)"
  "map_option ls_idempotency_key (get_session (rp_session_id demo_params) (run_db demo_racing)) =
     Some (Some (rp_key demo_params))"
  using demo_racing_run by (auto simp: racing_facts_def demo_params_def demo_pc_def split: list.splits)

lemma holds_face_not_failing:
  "pc_face pc = Some x \<Longrightarrow> case pc of Pc_fail s c reason \<Rightarrow> reason \<noteq> IDENTITY_CONFLICT_REASON | _ \<Rightarrow> True"
  by (cases pc) simp_all

theorem finished_call_replays_witness:
  "replayed ascii_lib demo_liveness demo_params 7 (snd demo_answered) =
    Pc_done (Result_ok ''passed'' (Some 99) True None)"
proof -
  have ok: "identity_db_ok demo_liveness (run_db demo_racing)"
    using reached_identity_ok [OF demo_racing_reached] by (simp add: identity_ok_def)
  note facts = demo_call_facts
  show ?thesis
  proof (rule finished_call_replays [OF ok facts(2)])
    show "store_action ascii_lib demo_liveness demo_params 0 demo_pc (run_db demo_racing) =
        (Pc_done (Result_ok ''passed'' (Some 99) True None), snd demo_answered)"
      using facts(4) by (simp add: demo_answered_def prod_eq_iff)
    show "\<forall>s. get_session (rp_session_id demo_params) (run_db demo_racing) = Some s \<longrightarrow>
        ls_idempotency_key s = Some (rp_key demo_params)" using facts(5) by auto
    show "case demo_pc of Pc_fail s c reason \<Rightarrow> reason \<noteq> IDENTITY_CONFLICT_REASON | _ \<Rightarrow> True"
      using facts(3) by (rule holds_face_not_failing)
  qed simp
qed

text \<open>The retry after the crash enrols a second face, and the deletion removes only that one.\<close>

definition demo_retry :: "identity_event list" where
  "demo_retry = [Ev_call 0 demo_result_request] @ demo_call_events 0 ''f3'' @ [Ev_advance 0 0 Ext_uploaded] @ demo_deletion"

theorem crash_orphans_face_witness:
  "''f1'' \<in> cf_face_id ` set (run_faces (run_events ascii_lib demo_liveness demo_retry
      (apply_event ascii_lib demo_liveness Ev_crash demo_racing)))"
proof -
  have "case checked_run ascii_lib demo_liveness anything
      (demo_events @ [Ev_crash] @ demo_retry) demo_start of None \<Rightarrow> False | Some st \<Rightarrow> True" by code_simp
  then have "events_ok ascii_lib demo_liveness anything (demo_events @ [Ev_crash] @ demo_retry) demo_start"
    using checked_runD by blast
  then have "events_ok ascii_lib demo_liveness anything demo_retry
      (apply_event ascii_lib demo_liveness Ev_crash demo_racing)"
    by (simp add: events_ok_append demo_racing_def del: apply_event.simps)
  from crash_orphans_face [OF demo_racing_reached demo_call_facts(1,3) this] show ?thesis by blast
qed

definition demo_second_request :: result_request where
  "demo_second_request = demo_result_request\<lparr>rr_session_id := 3, rr_idempotency_key := Some ''k2''\<rparr>"

definition demo_race :: "identity_event list" where
  "demo_race = [Ev_create 5 ''ps2'', Ev_call 0 demo_second_request] @ demo_call_events 2 ''f3'' @
     [Ev_delete 5, Ev_delete_advance 0 Ext_listed, Ev_advance 2 0 Ext_uploaded,
      Ev_delete_advance 0 (Ext_deleted []), Ev_delete_advance 0 Ext_listed, Ev_delete_advance 0 Ext_listed]"

definition race_facts :: "identity_run \<Rightarrow> bool" where
  "race_facts st \<longleftrightarrow> ir_deletions st = [(5, Dp_done No_content)] \<and>
     filter en_active (enrolments (run_db st)) = [] \<and> map cf_face_id (run_faces st) = [''f3'']"

definition demo_raced :: identity_run where
  "demo_raced = run_events ascii_lib demo_liveness (demo_events @ demo_finish @ demo_race) demo_start"


end
