(* ===== verification/Union_Find.thy ===== *)
theory Union_Find
  imports Main
begin

text \<open>
  The union-find structure of \<^verbatim>\<open>intel/corroboration.py\<close>: a dictionary of parents, \<^verbatim>\<open>find\<close> with path
  compression, \<^verbatim>\<open>union\<close> of two roots.  Its representatives are the classes of the equivalence closure of
  the unions made.

  A loop that follows parents is \<open>partial_function (option)\<close>: None is a loop that does not end.  On the
  structures that \<^verbatim>\<open>find\<close> and \<^verbatim>\<open>union\<close> build it always ends (\<open>uf_root_total\<close>).
\<close>

type_synonym 'a parents = "'a \<Rightarrow> 'a option"

partial_function (option) uf_root :: "'a parents \<Rightarrow> 'a \<Rightarrow> 'a option" where
  [code]: "uf_root p x =
     (case p x of None \<Rightarrow> None | Some y \<Rightarrow> if y = x then Some x else uf_root p y)"

partial_function (option) uf_compress :: "'a parents \<Rightarrow> 'a \<Rightarrow> 'a \<Rightarrow> 'a parents option" where
  [code]: "uf_compress p r x =
     (if x = r then Some p
      else case p x of None \<Rightarrow> None | Some y \<Rightarrow> uf_compress (p(x \<mapsto> r)) r y)"

text \<open>\<^verbatim>\<open>setdefault\<close>, the walk to the root, and the compression of the path walked.\<close>

definition uf_insert :: "'a \<Rightarrow> 'a parents \<Rightarrow> 'a parents" where
  "uf_insert x p = (case p x of None \<Rightarrow> p(x \<mapsto> x) | Some _ \<Rightarrow> p)"

definition uf_find :: "'a \<Rightarrow> 'a parents \<Rightarrow> ('a \<times> 'a parents) option" where
  "uf_find x p =
     (let q = uf_insert x p in
      case uf_root q x of None \<Rightarrow> None
      | Some r \<Rightarrow> map_option (\<lambda>q'. (r, q')) (uf_compress q r x))"

definition uf_union :: "'a \<Rightarrow> 'a \<Rightarrow> 'a parents \<Rightarrow> 'a parents option" where
  "uf_union a b p =
     (case uf_find a p of None \<Rightarrow> None
      | Some (ra, p1) \<Rightarrow>
          (case uf_find b p1 of None \<Rightarrow> None
           | Some (rb, p2) \<Rightarrow> Some (if ra = rb then p2 else p2(rb \<mapsto> ra))))"

section \<open>Forests\<close>

definition uf_edges :: "'a parents \<Rightarrow> ('a \<times> 'a) set" where
  "uf_edges p = {(y, x). p x = Some y \<and> y \<noteq> x}"

definition uf_ok :: "'a parents \<Rightarrow> bool" where
  "uf_ok p \<longleftrightarrow> (\<forall>x y. p x = Some y \<longrightarrow> y \<in> dom p) \<and> wf (uf_edges p)"

lemma uf_ok_empty: "uf_ok Map.empty"
  by (simp add: uf_ok_def uf_edges_def)

lemma uf_root_self: "p x = Some x \<Longrightarrow> uf_root p x = Some x"
  by (subst uf_root.simps) simp

lemma uf_root_step: "p x = Some y \<Longrightarrow> y \<noteq> x \<Longrightarrow> uf_root p x = uf_root p y"
  by (subst uf_root.simps) simp

lemma uf_induct [consumes 2, case_names root step]:
  assumes "uf_ok p" "x \<in> dom p"
    and root: "\<And>x. p x = Some x \<Longrightarrow> P x"
    and step: "\<And>x y. p x = Some y \<Longrightarrow> y \<noteq> x \<Longrightarrow> y \<in> dom p \<Longrightarrow> P y \<Longrightarrow> P x"
  shows "P x"
proof -
  have "wf (uf_edges p)" using assms(1) by (simp add: uf_ok_def)
  then show ?thesis using assms(2)
  proof (induction x rule: wf_induct_rule)
    case (less x)
    then obtain y where y: "p x = Some y" by blast
    then have "y \<in> dom p" using assms(1) by (auto simp: uf_ok_def)
    with less.IH [of y] y root step show ?case by (cases "y = x") (auto simp: uf_edges_def)
  qed
qed

lemma uf_root_total:
  assumes "uf_ok p" "x \<in> dom p"
  shows "\<exists>r. uf_root p x = Some r \<and> p r = Some r"
  using assms by (induction rule: uf_induct) (auto simp: uf_root_self uf_root_step)

lemma uf_edges_acyclic: "uf_ok p \<Longrightarrow> (y, x) \<in> uf_edges p \<Longrightarrow> (x, y) \<notin> (uf_edges p)\<^sup>*"
  unfolding uf_ok_def by (metis acyclic_def r_into_trancl rtrancl_into_trancl2 wf_acyclic rtrancl_trancl_trancl)

lemma uf_redirect_ok:
  assumes ok: "uf_ok p" and r: "p r = Some r" and x: "x \<in> dom p" "x \<noteq> r"
  shows "uf_ok (p(x \<mapsto> r))"
proof -
  have no: "(x, r) \<notin> (uf_edges p)\<^sup>*"
  proof
    assume "(x, r) \<in> (uf_edges p)\<^sup>*"
    with x(2) obtain z where "(z, r) \<in> uf_edges p" by (meson rtranclE)
    with r show False by (auto simp: uf_edges_def)
  qed
  have "uf_edges (p(x \<mapsto> r)) \<subseteq> insert (r, x) (uf_edges p)"
    by (auto simp: uf_edges_def split: if_splits)
  moreover have "wf (insert (r, x) (uf_edges p))"
    using ok no by (simp add: uf_ok_def)
  ultimately have "wf (uf_edges (p(x \<mapsto> r)))" by (rule wf_subset [rotated])
  with ok r x show ?thesis by (auto simp: uf_ok_def)
qed

text \<open>Hanging the root \<open>b\<close> under the root \<open>a\<close> moves exactly the tree of \<open>b\<close>.\<close>

lemma uf_link_root:
  assumes ok: "uf_ok p" and ab: "p a = Some a" "p b = Some b" "a \<noteq> b" and x: "x \<in> dom p"
  shows "uf_root (p(b \<mapsto> a)) x = (if uf_root p x = Some b then Some a else uf_root p x)"
  using ok x
proof (induction rule: uf_induct)
  case (root x)
  show ?case
  proof (cases "x = b")
    case True
    then have "uf_root (p(b \<mapsto> a)) x = uf_root (p(b \<mapsto> a)) a" using ab by (intro uf_root_step) auto
    also have "\<dots> = Some a" using ab by (intro uf_root_self) simp
    finally show ?thesis using root True by (simp only: uf_root_self [of p b, OF ab(2)] if_True simp_thms)
  qed (use root in \<open>simp add: uf_root_self\<close>)
next
  case (step x y)
  then have "x \<noteq> b" using ab by auto
  with step have "uf_root (p(b \<mapsto> a)) x = uf_root (p(b \<mapsto> a)) y" by (intro uf_root_step) auto
  also have "\<dots> = (if uf_root p y = Some b then Some a else uf_root p y)" by (rule step.IH)
  also have "\<dots> = (if uf_root p x = Some b then Some a else uf_root p x)"
    using step.hyps uf_root_step [of p x y] by simp
  finally show ?case .
qed

text \<open>Pointing an element at its own root moves nothing.\<close>

lemma uf_shortcut_root:
  assumes ok: "uf_ok p" and r: "uf_root p x = Some r" "p r = Some r" "x \<noteq> r" and z: "z \<in> dom p"
  shows "uf_root (p(x \<mapsto> r)) z = uf_root p z"
  using ok z
proof (induction rule: uf_induct)
  case (root z)
  then have "z \<noteq> x" using r uf_root_self by force
  with root show ?case by (simp add: uf_root_self)
next
  case (step z y)
  show ?case
  proof (cases "z = x")
    case True
    have "uf_root (p(x \<mapsto> r)) x = uf_root (p(x \<mapsto> r)) r" using r by (intro uf_root_step) auto
    also have "\<dots> = Some r" using r by (intro uf_root_self) simp
    finally show ?thesis using r(1) True by (simp only:)
  next
    case False
    then have "uf_root (p(x \<mapsto> r)) z = uf_root (p(x \<mapsto> r)) y" using step by (intro uf_root_step) auto
    also have "\<dots> = uf_root p y" by (rule step.IH)
    also have "\<dots> = uf_root p z" using step uf_root_step [of p z y] by simp
    finally show ?thesis .
  qed
qed

text \<open>What an operation keeps: the forest, and who is with whom.\<close>

definition uf_same_roots :: "'a parents \<Rightarrow> 'a parents \<Rightarrow> bool" where
  "uf_same_roots p q \<longleftrightarrow> uf_ok q \<and> dom q = dom p \<and> (\<forall>z\<in>dom p. uf_root q z = uf_root p z)"

lemma uf_compress_ok:
  assumes ok: "uf_ok p" and x: "x \<in> dom p" and r: "uf_root p x = Some r" "p r = Some r"
    and q: "uf_same_roots p q" "\<And>z. (z, x) \<in> (uf_edges p)\<^sup>* \<Longrightarrow> q z = p z" "q r = Some r"
  shows "\<exists>q'. uf_compress q r x = Some q' \<and> uf_same_roots p q'"
  using ok x r(1) q
proof (induction arbitrary: q rule: uf_induct)
  case (root x)
  then have "x = r" using uf_root_self by force
  with root show ?case by (subst uf_compress.simps) simp
next
  case (step x y)
  have xr: "x \<noteq> r" using step.hyps(1,2) r(2) by auto
  have qx: "q x = Some y" using step.prems(3) [of x] step.hyps(1) by simp
  let ?q = "q(x \<mapsto> r)"
  have q_ok: "uf_ok q" "dom q = dom p" "\<forall>z\<in>dom p. uf_root q z = uf_root p z"
    using step.prems(2) by (auto simp: uf_same_roots_def)
  have xd: "x \<in> dom p" using step.hyps(1) by blast
  have "uf_root q x = Some r" using q_ok xd step.prems(1) by simp
  then have "uf_same_roots p ?q"
    using uf_redirect_ok [of q r x] uf_shortcut_root [of q x r] q_ok step.prems(4) xr xd
    by (auto simp: uf_same_roots_def)
  moreover have "?q z = p z" if "(z, y) \<in> (uf_edges p)\<^sup>*" for z
  proof -
    have e: "(y, x) \<in> uf_edges p" using step.hyps by (simp add: uf_edges_def)
    then have "z \<noteq> x" using that uf_edges_acyclic [OF ok] by blast
    moreover have "(z, x) \<in> (uf_edges p)\<^sup>*" using that e by (rule rtrancl.rtrancl_into_rtrancl)
    ultimately show ?thesis using step.prems(3) by simp
  qed
  moreover have "uf_root p y = Some r" using step.prems(1) step.hyps uf_root_step by force
  moreover have "?q r = Some r" using step.prems(4) xr by simp
  ultimately obtain q' where "uf_compress ?q r y = Some q'" "uf_same_roots p q'"
    using step.IH by blast
  then show ?case using xr qx by (subst uf_compress.simps) simp
qed

lemma uf_insert_ok:
  assumes "uf_ok p"
  shows "uf_ok (uf_insert x p)" "dom (uf_insert x p) = insert x (dom p)"
    "\<And>z. z \<in> dom p \<Longrightarrow> uf_root (uf_insert x p) z = uf_root p z"
    "x \<notin> dom p \<Longrightarrow> uf_root (uf_insert x p) x = Some x"
proof -
  show dm: "dom (uf_insert x p) = insert x (dom p)" by (auto simp: uf_insert_def split: option.splits)
  have new: "p x = None \<Longrightarrow> uf_edges (p(x \<mapsto> x)) = uf_edges p"
    by (auto simp: uf_edges_def)
  show ok: "uf_ok (uf_insert x p)"
  proof (cases "p x")
    case None
    with assms show ?thesis by (auto simp: uf_insert_def uf_ok_def new)
  qed (use assms in \<open>simp add: uf_insert_def\<close>)
  show "z \<in> dom p \<Longrightarrow> uf_root (uf_insert x p) z = uf_root p z" for z
  proof (cases "p x")
    case None
    assume "z \<in> dom p"
    with assms show ?thesis
    proof (induction rule: uf_induct)
      case (root z)
      then show ?case using None by (auto simp: uf_insert_def uf_root_self)
    next
      case (step z y)
      then have "uf_root (uf_insert x p) z = uf_root (uf_insert x p) y"
        using None by (intro uf_root_step) (auto simp: uf_insert_def)
      with step uf_root_step [of p z y] show ?case by simp
    qed
  qed (simp add: uf_insert_def)
  show "x \<notin> dom p \<Longrightarrow> uf_root (uf_insert x p) x = Some x"
    by (rule uf_root_self) (auto simp: uf_insert_def split: option.splits)
qed

section \<open>The equivalence it represents\<close>

text \<open>\<open>uf_with p x y\<close>: both present and in one tree.\<close>

definition uf_with :: "'a parents \<Rightarrow> 'a \<Rightarrow> 'a \<Rightarrow> bool" where
  "uf_with p x y \<longleftrightarrow> x \<in> dom p \<and> y \<in> dom p \<and> uf_root p x = uf_root p y"

lemma uf_find_ok:
  assumes ok: "uf_ok p"
  shows "\<exists>r q. uf_find x p = Some (r, q) \<and> uf_ok q \<and> dom q = insert x (dom p) \<and> q r = Some r \<and>
    r \<in> dom q \<and> uf_root q x = Some r \<and> (\<forall>z\<in>dom p. uf_root q z = uf_root p z) \<and>
    (x \<notin> dom p \<longrightarrow> r = x)"
proof -
  let ?p = "uf_insert x p"
  note ins = uf_insert_ok [OF ok, where x = x]
  obtain r where r: "uf_root ?p x = Some r" "?p r = Some r"
    using uf_root_total [OF ins(1), of x] ins(2) by blast
  have "uf_same_roots ?p ?p" using ins(1) by (simp add: uf_same_roots_def)
  with uf_compress_ok [OF ins(1) _ r, of ?p] r ins(2)
  obtain q where q: "uf_compress ?p r x = Some q" "uf_same_roots ?p q" by blast
  have rd: "r \<in> dom ?p" using r(2) by blast
  have "uf_root q r = Some r" using q(2) rd uf_root_self [of ?p r, OF r(2)] by (simp add: uf_same_roots_def)
  then have "q r = Some r"
    using q(2) rd uf_root_total [of q r] by (auto simp: uf_same_roots_def)
  then show ?thesis
    using q r rd ins by (auto simp: uf_find_def Let_def uf_same_roots_def)
qed

lemma uf_union_ok:
  assumes ok: "uf_ok p"
  shows "\<exists>q. uf_union a b p = Some q \<and> uf_ok q \<and> dom q = {a, b} \<union> dom p \<and>
    (\<forall>x y. uf_with q x y \<longleftrightarrow> x \<in> dom q \<and> y \<in> dom q \<and>
       (x = y \<or> uf_with p x y \<or>
        ((x = a \<or> x = b \<or> uf_with p a x \<or> uf_with p b x) \<and>
         (y = a \<or> y = b \<or> uf_with p a y \<or> uf_with p b y))))"
proof -
  obtain ra p1 where f1: "uf_find a p = Some (ra, p1)" "uf_ok p1" "dom p1 = insert a (dom p)"
    "p1 ra = Some ra" "ra \<in> dom p1" "uf_root p1 a = Some ra" "\<forall>z\<in>dom p. uf_root p1 z = uf_root p z"
    "a \<notin> dom p \<longrightarrow> ra = a"
    using uf_find_ok [OF ok, of a] by blast
  obtain rb p2 where f2: "uf_find b p1 = Some (rb, p2)" "uf_ok p2" "dom p2 = insert b (dom p1)"
    "p2 rb = Some rb" "rb \<in> dom p2" "uf_root p2 b = Some rb" "\<forall>z\<in>dom p1. uf_root p2 z = uf_root p1 z"
    "b \<notin> dom p1 \<longrightarrow> rb = b"
    using uf_find_ok [OF f1(2), of b] by blast
  have ra2: "uf_root p2 a = Some ra" "uf_root p2 ra = Some ra"
    using f2(7) [rule_format, of a] f2(7) [rule_format, OF f1(5)] f1(3,6) uf_root_self [of p1 ra, OF f1(4)] by auto
  have p2ra: "p2 ra = Some ra"
    using uf_root_total [OF f2(2), of ra] ra2(2) f1(5) f2(3) by auto
  let ?q = "if ra = rb then p2 else p2(rb \<mapsto> ra)"
  have un: "uf_union a b p = Some ?q" by (simp add: uf_union_def f1(1) f2(1))
  have okq: "uf_ok ?q" using f2 p2ra f1(5) uf_redirect_ok [OF f2(2) p2ra, of rb] by auto
  have domq: "dom ?q = {a, b} \<union> dom p" using f1(3) f2(3,5) by auto
  have rootq: "uf_root ?q z = (if uf_root p2 z = Some rb then Some ra else uf_root p2 z)" if "z \<in> dom p2" for z
    using uf_link_root [OF f2(2) p2ra f2(4) _ that] by auto
  have old: "uf_root p2 z = uf_root p z" if "z \<in> dom p" for z
    using that f1(3,7) f2(7) by simp
  have inside: "r \<in> dom p" if "z \<in> dom p" "uf_root p z = Some r" for z r
    using uf_root_total [OF ok that(1)] that(2) by auto
  have A: "uf_root p z = Some ra \<longleftrightarrow> uf_with p a z" if z: "z \<in> dom p" for z
  proof (cases "a \<in> dom p")
    case True
    then have "uf_root p a = Some ra" using f1(6,7) by simp
    with z True show ?thesis by (auto simp: uf_with_def)
  next
    case False
    with f1(8) inside [OF z] show ?thesis by (auto simp: uf_with_def)
  qed
  have B: "uf_root p z = Some rb \<longleftrightarrow> uf_with p b z" if z: "z \<in> dom p" for z
  proof (cases "b \<in> dom p")
    case True
    then have "uf_root p b = Some rb" using f2(6) old by simp
    with z True show ?thesis by (auto simp: uf_with_def)
  next
    case False
    have "rb \<notin> dom p"
    proof (cases "b = a")
      case True
      with False f1(8) f2(6) ra2(1) show ?thesis by auto
    next
      case ba: False
      with False f1(3) f2(8) show ?thesis by auto
    qed
    with False inside [OF z] show ?thesis by (auto simp: uf_with_def)
  qed
  have group: "uf_root p2 z \<in> {Some ra, Some rb} \<longleftrightarrow> z = a \<or> z = b \<or> uf_with p a z \<or> uf_with p b z"
    if z: "z \<in> dom p2" for z
  proof (cases "z = a \<or> z = b")
    case False
    with z f1(3) f2(3) have "z \<in> dom p" by auto
    with A B old False show ?thesis by simp
  qed (use ra2 f2(6) in auto)
  let ?G = "\<lambda>z. z = a \<or> z = b \<or> uf_with p a z \<or> uf_with p b z"
  have rootq': "uf_root ?q z = (if ?G z then Some ra else uf_root p2 z)" if "z \<in> dom p2" for z
    using rootq [OF that] group [OF that] by auto
  have dom2: "dom p2 = {a, b} \<union> dom p" using f1(3) f2(3) by auto
  have "uf_with ?q x y \<longleftrightarrow> x \<in> dom ?q \<and> y \<in> dom ?q \<and> (x = y \<or> uf_with p x y \<or> ?G x \<and> ?G y)" for x y
  proof (cases "x \<in> dom p2 \<and> y \<in> dom p2")
    case True
    consider "?G x" "?G y" | "\<not> ?G x" "\<not> ?G y" | "?G x" "\<not> ?G y" | "\<not> ?G x" "?G y" by blast
    then show ?thesis
    proof cases
      case 1
      with True rootq' domq dom2 show ?thesis by (auto simp: uf_with_def)
    next
      case 2
      then have "x \<in> dom p" "y \<in> dom p" using True dom2 by auto
      with 2 True rootq' [of x] rootq' [of y] domq dom2 old show ?thesis by (auto simp: uf_with_def)
    next
      case 3
      then have ne: "uf_root p2 y \<noteq> Some ra" using group [of y] True by auto
      have "uf_root ?q x = Some ra" "uf_root ?q y = uf_root p2 y"
        using rootq' [of x] rootq' [of y] True 3 by (simp_all only: if_True if_False)
      then have "\<not> uf_with ?q x y" using ne by (simp only: uf_with_def) auto
      moreover have "\<not> uf_with p x y" "x \<noteq> y" using 3 by (auto simp: uf_with_def)
      ultimately show ?thesis using 3 by blast
    next
      case 4
      then have ne: "uf_root p2 x \<noteq> Some ra" using group [of x] True by auto
      have "uf_root ?q y = Some ra" "uf_root ?q x = uf_root p2 x"
        using rootq' [of x] rootq' [of y] True 4 by (simp_all only: if_True if_False)
      then have "\<not> uf_with ?q x y" using ne by (simp only: uf_with_def) auto
      moreover have "\<not> uf_with p x y" "x \<noteq> y" using 4 by (auto simp: uf_with_def)
      ultimately show ?thesis using 4 by blast
    qed
  next
    case False
    with domq dom2 show ?thesis by (auto simp: uf_with_def)
  qed
  with un okq domq show ?thesis by blast
qed

section \<open>The closure of the unions made\<close>

definition closure :: "('a \<times> 'a) set \<Rightarrow> ('a \<times> 'a) set" where
  "closure E = (E \<union> E\<inverse>)\<^sup>*"

lemma closure_refl [simp]: "(x, x) \<in> closure E"
  by (simp add: closure_def)

lemma closure_base: "(x, y) \<in> E \<Longrightarrow> (x, y) \<in> closure E"
  by (auto simp: closure_def)

lemma closure_sym: "(x, y) \<in> closure E \<Longrightarrow> (y, x) \<in> closure E"
proof -
  have "(E \<union> E\<inverse>)\<inverse> = E \<union> E\<inverse>" by auto
  then show "(x, y) \<in> closure E \<Longrightarrow> (y, x) \<in> closure E"
    unfolding closure_def by (metis converse_iff rtrancl_converse)
qed

lemma closure_trans: "(x, y) \<in> closure E \<Longrightarrow> (y, z) \<in> closure E \<Longrightarrow> (x, z) \<in> closure E"
  by (simp add: closure_def)

lemma closure_least:
  assumes "E \<subseteq> closure F" shows "closure E \<subseteq> closure F"
proof -
  have "E \<union> E\<inverse> \<subseteq> closure F" using assms by (auto intro: closure_sym)
  then have "(E \<union> E\<inverse>)\<^sup>* \<subseteq> (closure F)\<^sup>*" by (rule rtrancl_mono)
  also have "(closure F)\<^sup>* = closure F" by (simp add: closure_def)
  finally show ?thesis by (simp add: closure_def)
qed

lemma closure_mono: "E \<subseteq> F \<Longrightarrow> closure E \<subseteq> closure F"
  by (rule closure_least) (auto intro: closure_base)

lemma closure_eqI: "E \<subseteq> closure F \<Longrightarrow> F \<subseteq> closure E \<Longrightarrow> closure E = closure F"
  by (intro subset_antisym closure_least)

lemma closure_insert:
  "(x, y) \<in> closure (insert (a, b) E) \<longleftrightarrow> (x, y) \<in> closure E \<or>
     ((x, a) \<in> closure E \<or> (x, b) \<in> closure E) \<and> ((y, a) \<in> closure E \<or> (y, b) \<in> closure E)"
  (is "_ \<longleftrightarrow> ?R x y")
proof
  assume "(x, y) \<in> closure (insert (a, b) E)"
  then show "?R x y"
    unfolding closure_def
  proof (induction rule: rtrancl_induct)
    case (step y z)
    then have "?R x y" by (simp add: closure_def)
    from step.hyps(2) consider "(y, z) \<in> closure E" | "y = a" "z = b" | "y = b" "z = a"
      by (auto intro: closure_base closure_sym simp: closure_def)
    then have "?R x z"
    proof cases
      case 1
      with \<open>?R x y\<close> show ?thesis by (meson closure_sym closure_trans)
    next
      case 2
      with \<open>?R x y\<close> show ?thesis by (meson closure_refl closure_sym closure_trans)
    next
      case 3
      with \<open>?R x y\<close> show ?thesis by (meson closure_refl closure_sym closure_trans)
    qed
    then show ?case by (simp add: closure_def)
  qed simp
next
  let ?C = "closure (insert (a, b) E)"
  assume r: "?R x y"
  have sub: "closure E \<subseteq> ?C" by (rule closure_mono) auto
  have ab: "(a, b) \<in> ?C" "(b, a) \<in> ?C" by (auto intro: closure_base closure_sym)
  from r show "(x, y) \<in> ?C"
  proof
    assume "((x, a) \<in> closure E \<or> (x, b) \<in> closure E) \<and> ((y, a) \<in> closure E \<or> (y, b) \<in> closure E)"
    then have "(x, a) \<in> ?C \<and> (y, a) \<in> ?C" using sub ab by (meson closure_trans subsetD)
    then show ?thesis by (meson closure_sym closure_trans)
  qed (use sub in auto)
qed

definition uf_represents :: "'a parents \<Rightarrow> 'a set \<Rightarrow> ('a \<times> 'a) set \<Rightarrow> bool" where
  "uf_represents p V E \<longleftrightarrow> uf_ok p \<and> dom p = V \<and> E \<subseteq> V \<times> V \<and>
     (\<forall>x\<in>V. \<forall>y\<in>V. uf_with p x y \<longleftrightarrow> (x, y) \<in> closure E)"

lemma represents_empty: "uf_represents Map.empty {} {}"
  by (simp add: uf_represents_def uf_ok_empty)

lemma closure_outside:
  assumes "(x, y) \<in> closure E" "E \<subseteq> V \<times> V" "x \<notin> V" shows "x = y"
  using assms(1) unfolding closure_def
  by (induction rule: rtrancl_induct) (use assms(2,3) in auto)

lemma represents_cong:
  "uf_represents p V E \<Longrightarrow> closure E = closure F \<Longrightarrow> F \<subseteq> V \<times> V \<Longrightarrow> uf_represents p V F"
  by (simp add: uf_represents_def)

lemma represents_find:
  assumes r: "uf_represents p V E"
  shows "\<exists>rt q. uf_find x p = Some (rt, q) \<and> uf_represents q (insert x V) E \<and> uf_root q x = Some rt"
proof -
  have ok: "uf_ok p" "dom p = V" "E \<subseteq> V \<times> V" using r by (auto simp: uf_represents_def)
  obtain rt q where q: "uf_find x p = Some (rt, q)" "uf_ok q" "dom q = insert x V"
    "q rt = Some rt" "uf_root q x = Some rt" "\<forall>z\<in>V. uf_root q z = uf_root p z" "x \<notin> V \<longrightarrow> rt = x"
    using uf_find_ok [OF ok(1), of x] ok(2) by auto
  have new: "uf_root q z \<noteq> Some x" if "x \<notin> V" "z \<in> V" for z
    using that q(6) uf_root_total [OF ok(1), of z] ok(2) by auto
  have "uf_with q y z \<longleftrightarrow> (y, z) \<in> closure E" if yz: "y \<in> insert x V" "z \<in> insert x V" for y z
  proof (cases "y \<in> V \<and> z \<in> V")
    case True
    then show ?thesis using r q(3,6) ok(2) by (auto simp: uf_represents_def uf_with_def)
  next
    case False
    show ?thesis
    proof (cases "y = z")
      case True
      then show ?thesis using yz q(3) by (simp add: uf_with_def)
    next
      case ne: False
      then have "(y \<notin> V \<and> y = x \<and> z \<in> V) \<or> (z \<notin> V \<and> z = x \<and> y \<in> V)" using False yz by auto
      then show ?thesis
        using new q(5,7) ne closure_outside [OF _ ok(3)] closure_sym [of y z E]
        by (auto simp: uf_with_def)
    qed
  qed
  with q ok(3) show ?thesis by (fastforce simp: uf_represents_def)
qed

lemma represents_union:
  assumes r: "uf_represents p V E"
  shows "\<exists>q. uf_union a b p = Some q \<and> uf_represents q ({a, b} \<union> V) (insert (a, b) E)"
proof -
  have ok: "uf_ok p" "dom p = V" "E \<subseteq> V \<times> V" using r by (auto simp: uf_represents_def)
  from uf_union_ok [OF ok(1), of a b] obtain q where q: "uf_union a b p = Some q" "uf_ok q" "dom q = {a, b} \<union> V"
    and w: "\<And>x y. uf_with q x y \<longleftrightarrow> x \<in> dom q \<and> y \<in> dom q \<and> (x = y \<or> uf_with p x y \<or>
       ((x = a \<or> x = b \<or> uf_with p a x \<or> uf_with p b x) \<and> (y = a \<or> y = b \<or> uf_with p a y \<or> uf_with p b y)))"
    using ok(2) by auto
  have c: "x = y \<or> uf_with p x y \<longleftrightarrow> (x, y) \<in> closure E" for x y
  proof (cases "x \<in> V \<and> y \<in> V")
    case True
    then show ?thesis using r by (auto simp: uf_represents_def uf_with_def)
  next
    case False
    then show ?thesis
      using closure_outside [OF _ ok(3)] closure_sym [of x y E] ok(2) by (auto simp: uf_with_def)
  qed
  have "uf_with q x y \<longleftrightarrow> (x, y) \<in> closure (insert (a, b) E)" if "x \<in> dom q" "y \<in> dom q" for x y
    unfolding closure_insert w using that c [of x y] c [of a x] c [of b x] c [of a y] c [of b y]
    by (metis closure_sym)
  with q ok(3) show ?thesis by (auto simp: uf_represents_def)
qed

end
