(* ===== verification/Corroboration.thy ===== *)
theory Corroboration
  imports Union_Find Search_Store
begin

text \<open>
  Evidence for the likeness intelligence (\<^verbatim>\<open>intel/\<close>): how many independent sources the signals behind a
  proposal come from (\<^verbatim>\<open>corroboration.py\<close>).  Signals of one publisher, and signals whose excerpts
  echo one another, are one source; the code finds the groups with a union-find structure and an index
  of word runs, and the groups are the classes of the equivalence closure (\<open>source_groups_closure\<close>).

  \<open>text_lib\<close> holds the functions of Python's Unicode tables the code relies on: \<^verbatim>\<open>casefold\<close> and
  which characters \<^verbatim>\<open>\w\<close> matches, and NFC normalisation; \<open>ascii_text\<close> is their restriction to ASCII.
\<close>

record text_lib =
  tl_casefold :: "string \<Rightarrow> string"
  tl_word :: "char \<Rightarrow> bool"
  tl_apostrophe :: "char \<Rightarrow> bool"
  tl_nfc :: "string \<Rightarrow> string"

definition ascii_word :: "char \<Rightarrow> bool" where
  "ascii_word c \<longleftrightarrow> c \<in> set ''abcdefghijklmnopqrstuvwxyzABCDEFGHIJKLMNOPQRSTUVWXYZ0123456789_''"

definition ascii_text :: text_lib where
  "ascii_text = \<lparr>tl_casefold = py_lower, tl_word = ascii_word,
     tl_apostrophe = (\<lambda>c. c = CHR 0x27 \<or> c = CHR 0x60), tl_nfc = (\<lambda>s. s)\<rparr>"

section \<open>Signals\<close>

datatype trust = Listed | Web

record context_signal =
  cs_signal_id :: uuid
  cs_category :: string
  cs_direction :: string
  cs_tags :: "string list"
  cs_unregistered_subjects :: "string list"
  cs_summary :: string
  cs_trust :: trust
  cs_publisher_domain :: string
  cs_active :: bool
  cs_created_at :: instant
  cs_document_key :: "string option"
  cs_published_at :: "instant option"
  cs_excerpts :: "string list"

section \<open>The bounds\<close>

definition CORROBORATION_MIN_PUBLISHERS :: nat where
  "CORROBORATION_MIN_PUBLISHERS = 2"

definition ECHO_MIN_SHARED_RUN_WORDS :: nat where
  "ECHO_MIN_SHARED_RUN_WORDS = 12"

definition ECHO_MIN_OVERLAP_WORDS :: nat where
  "ECHO_MIN_OVERLAP_WORDS = 8"

definition PUBLISHER_ORGANISATIONS :: "(string \<times> string list) list" where
  "PUBLISHER_ORGANISATIONS =
     [(''google'', [''google.com'', ''youtube.com'', ''blog.youtube'', ''youtu.be'', ''googleblog.com'']),
      (''meta'', [''meta.com'', ''fb.com'', ''facebook.com'', ''instagram.com'', ''threads.net'', ''threads.com'',
                  ''whatsapp.com'', ''messenger.com'']),
      (''x'', [''x.com'', ''twitter.com'']),
      (''bytedance'', [''tiktok.com'', ''bytedance.com'']),
      (''snap'', [''snap.com'', ''snapchat.com'']),
      (''microsoft'', [''microsoft.com'', ''linkedin.com'', ''bing.com''])]"

definition organisation_of :: "string \<Rightarrow> string option" where
  "organisation_of domain =
     map_of (concat (map (\<lambda>(organisation, domains). map (\<lambda>d. (d, ''org:'' @ organisation)) domains)
       PUBLISHER_ORGANISATIONS)) domain"

definition organisation :: "string \<Rightarrow> string" where
  "organisation publisher_domain =
     (let domain = py_lower publisher_domain in
      case organisation_of domain of None \<Rightarrow> domain | Some org \<Rightarrow> org)"

section \<open>Echoes\<close>

record excerpt_text =
  et_words :: "string list"
  et_runs :: "string list list"

text \<open>\<^verbatim>\<open>re.findall(r"\w+", s)\<close>: the maximal runs of word characters.\<close>

fun word_runs :: "(char \<Rightarrow> bool) \<Rightarrow> string \<Rightarrow> string \<Rightarrow> string list" where
  "word_runs w acc [] = (if acc = [] then [] else [rev acc])"
| "word_runs w acc (c # cs) =
     (if w c then word_runs w (c # acc) cs
      else if acc = [] then word_runs w [] cs else rev acc # word_runs w [] cs)"

definition word_list :: "text_lib \<Rightarrow> string \<Rightarrow> string list" where
  "word_list lib quote = word_runs (tl_word lib) [] (filter (\<lambda>c. \<not> tl_apostrophe lib c) (tl_casefold lib quote))"

fun windows :: "nat \<Rightarrow> 'a list \<Rightarrow> 'a list list" where
  "windows n [] = (if n = 0 then [[]] else [])"
| "windows n (x # xs) = (if n \<le> length (x # xs) then take n (x # xs) # windows n xs else [])"

text \<open>The frozensets of the code are lists without repetitions: only membership and size matter.\<close>

definition excerpt_text_of :: "text_lib \<Rightarrow> string \<Rightarrow> excerpt_text" where
  "excerpt_text_of lib quote =
     (let tokens = word_list lib quote
      in \<lparr>et_words = remdups tokens, et_runs = remdups (windows ECHO_MIN_SHARED_RUN_WORDS tokens)\<rparr>)"

definition share_run :: "excerpt_text \<Rightarrow> excerpt_text \<Rightarrow> bool" where
  "share_run a b \<longleftrightarrow> list_ex (\<lambda>r. r \<in> set (et_runs b)) (et_runs a)"

text \<open>\<^verbatim>\<open>ECHO_MIN_TOKEN_OVERLAP\<close> is 0.8; the comparison is one of a count with 0.8 times a count.\<close>

definition mostly_shared :: "excerpt_text \<Rightarrow> excerpt_text \<Rightarrow> bool" where
  "mostly_shared a b =
     (let (short, other) = (if length (et_words a) \<le> length (et_words b) then (a, b) else (b, a))
      in ECHO_MIN_OVERLAP_WORDS \<le> length (et_words short) \<and>
         4 * length (et_words short) \<le> 5 * length (filter (\<lambda>x. x \<in> set (et_words other)) (et_words short)))"

definition excerpts_echo :: "excerpt_text \<Rightarrow> excerpt_text \<Rightarrow> bool" where
  "excerpts_echo a b \<longleftrightarrow> share_run a b \<or> mostly_shared a b"

section \<open>Uniting echoes\<close>

text \<open>The index of runs: the first item with a run is joined with every later one.\<close>

fun index_runs ::
  "'k \<Rightarrow> string list list \<Rightarrow> (string list \<Rightarrow> 'k option) \<times> 'k parents \<Rightarrow> ((string list \<Rightarrow> 'k option) \<times> 'k parents) option" where
  "index_runs k [] st = Some st"
| "index_runs k (r # rs) (first_with_run, groups) =
     (case first_with_run r of
        None \<Rightarrow> index_runs k rs (first_with_run(r \<mapsto> k), groups)
      | Some f \<Rightarrow>
          if f = k then index_runs k rs (first_with_run, groups)
          else (case uf_union f k groups of
                  None \<Rightarrow> None
                | Some groups' \<Rightarrow> index_runs k rs (first_with_run, groups')))"

fun index_items ::
  "('k \<times> excerpt_text) list \<Rightarrow> (string list \<Rightarrow> 'k option) \<times> 'k parents \<Rightarrow> ((string list \<Rightarrow> 'k option) \<times> 'k parents) option" where
  "index_items [] st = Some st"
| "index_items ((k, t) # items) (first_with_run, groups) =
     (case uf_find k groups of
        None \<Rightarrow> None
      | Some (_, groups') \<Rightarrow>
          (case index_runs k (et_runs t) (first_with_run, groups') of
             None \<Rightarrow> None
           | Some st \<Rightarrow> index_items items st))"

definition eligible_items :: "('k \<times> excerpt_text) list \<Rightarrow> ('k \<times> excerpt_text) list" where
  "eligible_items items = filter (\<lambda>(k, t). ECHO_MIN_OVERLAP_WORDS \<le> length (et_words t)) items"

fun unite_row :: "'k \<Rightarrow> excerpt_text \<Rightarrow> ('k \<times> excerpt_text) list \<Rightarrow> 'k parents \<Rightarrow> 'k parents option" where
  "unite_row ka ta [] groups = Some groups"
| "unite_row ka ta ((kb, tb) # rest) groups =
     (case uf_find ka groups of
        None \<Rightarrow> None
      | Some (ra, g1) \<Rightarrow>
          (case uf_find kb g1 of
             None \<Rightarrow> None
           | Some (rb, g2) \<Rightarrow>
               if ra \<noteq> rb \<and> excerpts_echo ta tb
               then (case uf_union ka kb g2 of None \<Rightarrow> None | Some g3 \<Rightarrow> unite_row ka ta rest g3)
               else unite_row ka ta rest g2))"

fun unite_rows :: "('k \<times> excerpt_text) list \<Rightarrow> 'k parents \<Rightarrow> 'k parents option" where
  "unite_rows [] groups = Some groups"
| "unite_rows ((k, t) # rest) groups =
     (case unite_row k t rest groups of None \<Rightarrow> None | Some g \<Rightarrow> unite_rows rest g)"

definition unite_echoes :: "'k parents \<Rightarrow> ('k \<times> excerpt_text) list \<Rightarrow> 'k parents option" where
  "unite_echoes groups items =
     (case index_items items (Map.empty, groups) of
        None \<Rightarrow> None
      | Some (_, g) \<Rightarrow> unite_rows (eligible_items items) g)"

section \<open>Sources\<close>

datatype group_item = Item_signal uuid | Item_key string

fun union_pairs :: "('k \<times> 'k) list \<Rightarrow> 'k parents \<Rightarrow> 'k parents option" where
  "union_pairs [] groups = Some groups"
| "union_pairs ((a, b) # rest) groups =
     (case uf_union a b groups of None \<Rightarrow> None | Some g \<Rightarrow> union_pairs rest g)"

fun find_all :: "'k list \<Rightarrow> 'k parents \<Rightarrow> 'k list option" where
  "find_all [] groups = Some []"
| "find_all (x # xs) groups =
     (case uf_find x groups of None \<Rightarrow> None
      | Some (r, g) \<Rightarrow> map_option (\<lambda>rs. r # rs) (find_all xs g))"

definition excerpt_items :: "text_lib \<Rightarrow> context_signal list \<Rightarrow> (group_item \<times> excerpt_text) list" where
  "excerpt_items lib signals =
     concat (map (\<lambda>s. map (\<lambda>q. (Item_signal (cs_signal_id s), excerpt_text_of lib q)) (cs_excerpts s)) signals)"

text \<open>The group of every signal, in the order of the signals.\<close>

definition source_groups ::
  "text_lib \<Rightarrow> (context_signal \<Rightarrow> string) \<Rightarrow> context_signal list \<Rightarrow> group_item list option" where
  "source_groups lib key signals =
     (case union_pairs (map (\<lambda>s. (Item_signal (cs_signal_id s), Item_key (key s))) signals) Map.empty of
        None \<Rightarrow> None
      | Some g \<Rightarrow>
          (case unite_echoes g (excerpt_items lib signals) of
             None \<Rightarrow> None
           | Some g' \<Rightarrow> find_all (map (\<lambda>s. Item_signal (cs_signal_id s)) signals) g'))"

definition active_signals :: "context_signal list \<Rightarrow> context_signal list" where
  "active_signals signals = filter cs_active signals"

definition independent_sources :: "text_lib \<Rightarrow> context_signal list \<Rightarrow> nat option" where
  "independent_sources lib signals =
     map_option (\<lambda>groups. length (remdups groups))
       (source_groups lib (\<lambda>s. organisation (cs_publisher_domain s)) (active_signals signals))"

definition uncorroborated :: "text_lib \<Rightarrow> context_signal list \<Rightarrow> bool option" where
  "uncorroborated lib signals =
     (if list_ex (\<lambda>s. cs_trust s = Listed) (active_signals signals) then Some False
      else map_option (\<lambda>n. n < CORROBORATION_MIN_PUBLISHERS) (independent_sources lib (active_signals signals)))"

definition lesson_uncorroborated :: "text_lib \<Rightarrow> context_signal list \<Rightarrow> bool option" where
  "lesson_uncorroborated lib signals =
     map_option (\<lambda>n. n < CORROBORATION_MIN_PUBLISHERS) (independent_sources lib signals)"

section \<open>The groups are the closure of being one source\<close>

lemma represents_member: "uf_represents g V E \<Longrightarrow> dom g = V"
  by (simp add: uf_represents_def)

lemma union_pairs_represents:
  assumes "uf_represents g V E"
  shows "\<exists>g'. union_pairs ps g = Some g' \<and>
    uf_represents g' (V \<union> fst ` set ps \<union> snd ` set ps) (E \<union> set ps)"
  using assms
proof (induction ps arbitrary: g V E)
  case (Cons p ps)
  obtain a b where p: "p = (a, b)" by force
  from represents_union [OF Cons.prems, of a b] obtain g1 where g1: "uf_union a b g = Some g1"
    "uf_represents g1 ({a, b} \<union> V) (insert (a, b) E)" by blast
  from Cons.IH [OF g1(2)] g1(1) show ?case by (auto simp: p insert_commute Un_commute Un_left_commute)
qed simp

text \<open>The invariant of the index: the first item with a run was seen, and stands for all of them.\<close>

definition run_edges :: "('k \<times> excerpt_text) list \<Rightarrow> ('k \<times> 'k) set" where
  "run_edges items = {(a, b). \<exists>ta tb. (a, ta) \<in> set items \<and> (b, tb) \<in> set items \<and> share_run ta tb}"

definition indexed :: "('k \<times> excerpt_text) list \<Rightarrow> (string list \<Rightarrow> 'k option) \<Rightarrow> bool" where
  "indexed items first_with_run \<longleftrightarrow>
     (\<forall>r k. first_with_run r = Some k \<longrightarrow> (\<exists>t. (k, t) \<in> set items \<and> r \<in> set (et_runs t))) \<and>
     (\<forall>k t r. (k, t) \<in> set items \<longrightarrow> r \<in> set (et_runs t) \<longrightarrow> first_with_run r \<noteq> None)"

lemma index_runs_represents:
  assumes "uf_represents g V E" "k \<in> V" "\<forall>r f. fr r = Some f \<longrightarrow> f \<in> V"
  shows "\<exists>fr' g'. index_runs k rs (fr, g) = Some (fr', g') \<and>
    uf_represents g' V (E \<union> {(f, k) | f r. r \<in> set rs \<and> fr r = Some f}) \<and>
    (\<forall>r. fr' r = (if fr r = None \<and> r \<in> set rs then Some k else fr r))"
  using assms
proof (induction rs arbitrary: fr g E)
  case (Cons r rs)
  show ?case
  proof (cases "fr r")
    case None
    have "\<forall>r' f. (fr(r \<mapsto> k)) r' = Some f \<longrightarrow> f \<in> V"
      using Cons.prems(2,3) by auto
    from Cons.IH [OF Cons.prems(1,2) this] obtain fr' g' where i: "index_runs k rs (fr(r \<mapsto> k), g) = Some (fr', g')"
      "uf_represents g' V (E \<union> {(f, k) | f r'. r' \<in> set rs \<and> (fr(r \<mapsto> k)) r' = Some f})"
      "\<forall>r'. fr' r' = (if (fr(r \<mapsto> k)) r' = None \<and> r' \<in> set rs then Some k else (fr(r \<mapsto> k)) r')"
      by blast
    have "closure (E \<union> {(f, k) | f r'. r' \<in> set rs \<and> (fr(r \<mapsto> k)) r' = Some f}) =
        closure (E \<union> {(f, k) | f r'. r' \<in> set (r # rs) \<and> fr r' = Some f})"
    proof (rule closure_eqI)
      let ?F = "E \<union> {(f, k) | f r'. r' \<in> set (r # rs) \<and> fr r' = Some f}"
      have "(f, k) \<in> closure ?F" if "r' \<in> set rs" "(fr(r \<mapsto> k)) r' = Some f" for f r'
        using that by (cases "r' = r") (auto intro: closure_base)
      then show "E \<union> {(f, k) | f r'. r' \<in> set rs \<and> (fr(r \<mapsto> k)) r' = Some f} \<subseteq> closure ?F"
        by (auto intro: closure_base)
      have "r' \<noteq> r" if "fr r' = Some f" for r' f using that None by auto
      then show "?F \<subseteq> closure (E \<union> {(f, k) | f r'. r' \<in> set rs \<and> (fr(r \<mapsto> k)) r' = Some f})"
        using None by (auto intro!: closure_base)
    qed
    from represents_cong [OF i(2) this] have "uf_represents g' V (E \<union> {(f, k) | f r'. r' \<in> set (r # rs) \<and> fr r' = Some f})"
      using Cons.prems by (auto simp: uf_represents_def)
    with i None show ?thesis by (auto split: if_splits)
  next
    case (Some f)
    have f: "f \<in> V" using Cons.prems(3) Some by blast
    show ?thesis
    proof (cases "f = k")
      case True
      from Cons.IH [OF Cons.prems] obtain fr' g' where i: "index_runs k rs (fr, g) = Some (fr', g')"
        "uf_represents g' V (E \<union> {(f, k) | f r. r \<in> set rs \<and> fr r = Some f})"
        "\<forall>r. fr' r = (if fr r = None \<and> r \<in> set rs then Some k else fr r)" by blast
      have "closure (E \<union> {(f, k) | f r. r \<in> set rs \<and> fr r = Some f}) =
          closure (E \<union> {(f, k) | f r'. r' \<in> set (r # rs) \<and> fr r' = Some f})"
        using Some True by (intro closure_eqI) (auto intro: closure_base)
      from represents_cong [OF i(2) this] have "uf_represents g' V (E \<union> {(f, k) | f r'. r' \<in> set (r # rs) \<and> fr r' = Some f})"
        using Cons.prems by (auto simp: uf_represents_def)
      with i Some True show ?thesis by auto
    next
      case False
      from represents_union [OF Cons.prems(1), of f k] obtain g1 where g1: "uf_union f k g = Some g1"
        "uf_represents g1 V (insert (f, k) E)"
        using f Cons.prems(2) by (auto simp: insert_absorb)
      from Cons.IH [OF g1(2) Cons.prems(2,3)] obtain fr' g' where i: "index_runs k rs (fr, g1) = Some (fr', g')"
        "uf_represents g' V (insert (f, k) E \<union> {(f, k) | f r. r \<in> set rs \<and> fr r = Some f})"
        "\<forall>r. fr' r = (if fr r = None \<and> r \<in> set rs then Some k else fr r)" by blast
      have "insert (f, k) E \<union> {(f, k) | f r. r \<in> set rs \<and> fr r = Some f} =
          E \<union> {(f, k) | f r'. r' \<in> set (r # rs) \<and> fr r' = Some f}"
        using Some by auto
      with i g1 Some False show ?thesis by auto
    qed
  qed
qed simp

lemma run_edges_snoc:
  assumes idx: "indexed items fr"
  shows "closure (E \<union> run_edges items \<union> {(f, k) | f r. r \<in> set (et_runs t) \<and> fr r = Some f}) =
    closure (E \<union> run_edges (items @ [(k, t)]))"
proof (rule closure_eqI)
  show "E \<union> run_edges items \<union> {(f, k) | f r. r \<in> set (et_runs t) \<and> fr r = Some f}
      \<subseteq> closure (E \<union> run_edges (items @ [(k, t)]))"
  proof -
    have "(f, k) \<in> run_edges (items @ [(k, t)])" if "r \<in> set (et_runs t)" "fr r = Some f" for f r
      using idx that by (fastforce simp: indexed_def run_edges_def share_run_def list_ex_iff)
    moreover have "run_edges items \<subseteq> run_edges (items @ [(k, t)])" by (auto simp: run_edges_def)
    ultimately show ?thesis by (auto intro!: closure_base)
  qed
next
  let ?F = "E \<union> run_edges items \<union> {(f, k) | f r. r \<in> set (et_runs t) \<and> fr r = Some f}"
  have link: "(a, k) \<in> closure ?F" if a: "(a, ta) \<in> set items" and sh: "share_run ta t" for a ta
  proof -
    obtain r where r: "r \<in> set (et_runs ta)" "r \<in> set (et_runs t)"
      using sh by (auto simp: share_run_def list_ex_iff)
    obtain f where f: "fr r = Some f" using idx a r(1) by (fastforce simp: indexed_def)
    then obtain tf where tf: "(f, tf) \<in> set items" "r \<in> set (et_runs tf)" using idx unfolding indexed_def by blast
    have "(a, f) \<in> run_edges items" using a tf r(1) by (auto simp: run_edges_def share_run_def list_ex_iff)
    then have "(a, f) \<in> closure ?F" by (intro closure_base) simp
    moreover have "(f, k) \<in> closure ?F" using r f by (intro closure_base) auto
    ultimately show ?thesis by (rule closure_trans)
  qed
  have sym: "share_run ta tb \<longleftrightarrow> share_run tb ta" for ta tb
    by (auto simp: share_run_def list_ex_iff)
  have "(a, b) \<in> closure ?F" if ab: "(a, b) \<in> run_edges (items @ [(k, t)])" for a b
  proof -
    from ab obtain ta tb where m: "(a, ta) \<in> set items \<or> (a, ta) = (k, t)" "(b, tb) \<in> set items \<or> (b, tb) = (k, t)"
      "share_run ta tb" by (auto simp: run_edges_def)
    from m(1,2) consider "(a, ta) \<in> set items" "(b, tb) \<in> set items" | "(a, ta) \<in> set items" "(b, tb) = (k, t)"
      | "(a, ta) = (k, t)" "(b, tb) \<in> set items" | "a = k" "b = k" by blast
    then show ?thesis
    proof cases
      case 1
      then have "(a, b) \<in> run_edges items" using m(3) by (auto simp: run_edges_def)
      then show ?thesis by (intro closure_base) simp
    next
      case 2
      with link m(3) show ?thesis by blast
    next
      case 3
      with link [of b tb] m(3) sym show ?thesis by (blast intro: closure_sym)
    qed simp
  qed
  then show "E \<union> run_edges (items @ [(k, t)]) \<subseteq> closure ?F" by (auto intro: closure_base)
qed

lemma index_items_represents:
  assumes "uf_represents g V (E \<union> run_edges done)" "indexed done fr" "fst ` set done \<subseteq> V"
  shows "\<exists>fr' g'. index_items items (fr, g) = Some (fr', g') \<and>
    uf_represents g' (V \<union> fst ` set items) (E \<union> run_edges (done @ items))"
  using assms
proof (induction items arbitrary: g V fr "done")
  case (Cons it items)
  obtain k t where it: "it = (k, t)" by force
  from represents_find [OF Cons.prems(1), of k] obtain rt g1 where g1: "uf_find k g = Some (rt, g1)"
    "uf_represents g1 (insert k V) (E \<union> run_edges done)" by blast
  have "\<forall>r f. fr r = Some f \<longrightarrow> f \<in> insert k V"
    using Cons.prems(2,3) unfolding indexed_def by force
  from index_runs_represents [OF g1(2) _ this, of k "et_runs t"]
  obtain fr2 g2 where g2: "index_runs k (et_runs t) (fr, g1) = Some (fr2, g2)"
    "uf_represents g2 (insert k V) (E \<union> run_edges done \<union> {(f, k) | f r. r \<in> set (et_runs t) \<and> fr r = Some f})"
    "\<forall>r. fr2 r = (if fr r = None \<and> r \<in> set (et_runs t) then Some k else fr r)" by blast
  have sub: "E \<union> run_edges (done @ [(k, t)]) \<subseteq> insert k V \<times> insert k V"
    using g1(2) Cons.prems(3) by (fastforce simp: uf_represents_def run_edges_def)
  note rep = represents_cong [OF g2(2) run_edges_snoc [OF Cons.prems(2)] sub]
  have idx: "indexed (done @ [(k, t)]) fr2"
    unfolding indexed_def
  proof (intro conjI allI impI)
    fix r f assume "fr2 r = Some f"
    with g2(3) [rule_format, of r] consider "fr r = None" "r \<in> set (et_runs t)" "f = k" | "fr r = Some f"
      by (cases "fr r = None \<and> r \<in> set (et_runs t)") simp_all
    then show "\<exists>ta. (f, ta) \<in> set (done @ [(k, t)]) \<and> r \<in> set (et_runs ta)"
    proof cases
      case 2
      then obtain ta where "(f, ta) \<in> set done" "r \<in> set (et_runs ta)"
        using Cons.prems(2) unfolding indexed_def by blast
      then show ?thesis by auto
    qed auto
  next
    fix ka ta r assume m: "(ka, ta) \<in> set (done @ [(k, t)])" "r \<in> set (et_runs ta)"
    show "fr2 r \<noteq> None"
    proof (cases "(ka, ta) \<in> set done")
      case True
      then have "fr r \<noteq> None" using m(2) Cons.prems(2) unfolding indexed_def by blast
      then show ?thesis using g2(3) [rule_format, of r] by simp
    next
      case False
      with m have "r \<in> set (et_runs t)" by simp
      then show ?thesis using g2(3) [rule_format, of r] by simp
    qed
  qed
  have "fst ` set (done @ [(k, t)]) \<subseteq> insert k V" using Cons.prems(3) by auto
  from Cons.IH [OF rep idx this] obtain fr' g' where "index_items items (fr2, g2) = Some (fr', g')"
    "uf_represents g' (insert k V \<union> fst ` set items) (E \<union> run_edges ((done @ [(k, t)]) @ items))" by blast
  then have rep': "uf_represents g' (V \<union> fst ` set (it # items)) (E \<union> run_edges (done @ it # items))"
    by (simp add: it)
  have "index_items (it # items) (fr, g) = Some (fr', g')"
    using g1(1) g2(1) \<open>index_items items (fr2, g2) = Some (fr', g')\<close> by (simp add: it)
  with rep' show ?case by blast
qed simp

text \<open>The pairwise rule, tried only between groups that are still apart.\<close>

lemma unite_row_represents:
  assumes "uf_represents g V E" "ka \<in> V" "fst ` set rest \<subseteq> V"
  shows "\<exists>g'. unite_row ka ta rest g = Some g' \<and>
    uf_represents g' V (E \<union> {(ka, kb) | kb tb. (kb, tb) \<in> set rest \<and> excerpts_echo ta tb})"
  using assms
proof (induction rest arbitrary: g E)
  case (Cons it rest)
  obtain kb tb where it: "it = (kb, tb)" by force
  have kb: "kb \<in> V" using Cons.prems(3) it by simp
  let ?R = "{(ka, kb) | kb tb. (kb, tb) \<in> set rest \<and> excerpts_echo ta tb}"
  let ?R' = "{(ka, kb) | kb tb. (kb, tb) \<in> set (it # rest) \<and> excerpts_echo ta tb}"
  from represents_find [OF Cons.prems(1), of ka] Cons.prems(2) obtain ra g1 where g1: "uf_find ka g = Some (ra, g1)"
    "uf_represents g1 V E" "uf_root g1 ka = Some ra" by (auto simp: insert_absorb)
  from represents_find [OF g1(2), of kb] kb obtain rb g2 where g2: "uf_find kb g1 = Some (rb, g2)"
    "uf_represents g2 V E" "uf_root g2 kb = Some rb" by (auto simp: insert_absorb)
  have sub: "E \<union> ?R' \<subseteq> V \<times> V" using Cons.prems by (force simp: uf_represents_def)
  show ?case
  proof (cases "ra \<noteq> rb \<and> excerpts_echo ta tb")
    case True
    from represents_union [OF g2(2), of ka kb] obtain g3 where g3: "uf_union ka kb g2 = Some g3"
      "uf_represents g3 V (insert (ka, kb) E)" using Cons.prems(2) kb by (auto simp: insert_absorb)
    from Cons.IH [OF g3(2) Cons.prems(2)] Cons.prems(3) it obtain g' where "unite_row ka ta rest g3 = Some g'"
      "uf_represents g' V (insert (ka, kb) E \<union> ?R)" by auto
    moreover have "insert (ka, kb) E \<union> ?R = E \<union> ?R'" using True by (auto simp: it)
    ultimately show ?thesis using True g1(1) g2(1) g3(1) by (simp add: it)
  next
    case False
    from Cons.IH [OF g2(2) Cons.prems(2)] Cons.prems(3) it obtain g' where g': "unite_row ka ta rest g2 = Some g'"
      "uf_represents g' V (E \<union> ?R)" by auto
    have "closure (E \<union> ?R) = closure (E \<union> ?R')"
    proof (cases "excerpts_echo ta tb")
      case True
      with False have "ra = rb" by simp
      have "uf_root g2 ka = Some ra"
      proof -
        have "uf_with g1 ka kb \<longleftrightarrow> uf_with g2 ka kb"
          using g1(2) g2(2) Cons.prems(2) kb by (simp add: uf_represents_def)
        from uf_find_ok [of g1 kb] g1(2) g2(1) have "\<forall>z\<in>dom g1. uf_root g2 z = uf_root g1 z"
          by (auto simp: uf_represents_def)
        with g1 Cons.prems(2) show ?thesis by (auto simp: uf_represents_def)
      qed
      then have "uf_with g2 ka kb" using g2(2,3) \<open>ra = rb\<close> Cons.prems(2) kb by (simp add: uf_with_def uf_represents_def)
      then have "(ka, kb) \<in> closure E" using g2(2) Cons.prems(2) kb by (simp add: uf_represents_def)
      then have "(ka, kb) \<in> closure (E \<union> ?R)" using closure_mono [of E "E \<union> ?R"] by auto
      then show ?thesis by (intro closure_eqI) (auto simp: it intro: closure_base)
    qed (rule arg_cong [where f = closure], auto simp: it)
    from represents_cong [OF g'(2) this sub] g'(1) g1(1) g2(1) False show ?thesis by (simp add: it) blast
  qed
qed simp

definition pair_edges :: "('k \<times> excerpt_text) list \<Rightarrow> ('k \<times> 'k) set" where
  "pair_edges items = {(a, b). \<exists>ta tb. (a, ta) \<in> set items \<and> (b, tb) \<in> set items \<and> excerpts_echo ta tb}"

lemma share_run_sym: "share_run a b \<longleftrightarrow> share_run b a"
  by (auto simp: share_run_def list_ex_iff)

lemma shared_count_comm:
  assumes "distinct xs" "distinct ys"
  shows "length (filter (\<lambda>x. x \<in> set ys) xs) = length (filter (\<lambda>x. x \<in> set xs) ys)"
proof -
  have "set (filter (\<lambda>x. x \<in> set ys) xs) = set (filter (\<lambda>x. x \<in> set xs) ys)" by auto
  then show ?thesis using assms by (metis distinct_card distinct_filter)
qed

lemma excerpts_echo_sym:
  assumes "distinct (et_words a)" "distinct (et_words b)"
  shows "excerpts_echo a b \<longleftrightarrow> excerpts_echo b a"
proof -
  have "mostly_shared a b \<longleftrightarrow> mostly_shared b a"
    using shared_count_comm [OF assms] by (auto simp: mostly_shared_def Let_def)
  with share_run_sym show ?thesis by (simp add: excerpts_echo_def)
qed

lemma mostly_shared_eligible:
  "mostly_shared a b \<Longrightarrow> ECHO_MIN_OVERLAP_WORDS \<le> length (et_words a) \<and> ECHO_MIN_OVERLAP_WORDS \<le> length (et_words b)"
  by (auto simp: mostly_shared_def Let_def split: if_splits)

lemma unite_rows_represents:
  assumes "uf_represents g V E" "fst ` set items \<subseteq> V" "\<forall>it\<in>set items. distinct (et_words (snd it))"
  shows "\<exists>g'. unite_rows items g = Some g' \<and> uf_represents g' V (E \<union> pair_edges items)"
  using assms
proof (induction items arbitrary: g E)
  case Nil
  then show ?case by (simp add: pair_edges_def)
next
  case (Cons it items)
  obtain k t where it: "it = (k, t)" by force
  have k: "k \<in> V" "fst ` set items \<subseteq> V" using Cons.prems(2) it by auto
  let ?R = "{(k, kb) | kb tb. (kb, tb) \<in> set items \<and> excerpts_echo t tb}"
  from unite_row_represents [OF Cons.prems(1) k, of t] obtain g1 where g1: "unite_row k t items g = Some g1"
    "uf_represents g1 V (E \<union> ?R)" by blast
  from Cons.IH [OF g1(2) k(2)] Cons.prems(3) obtain g2 where g2: "unite_rows items g1 = Some g2"
    "uf_represents g2 V (E \<union> ?R \<union> pair_edges items)" by auto
  have "closure (E \<union> ?R \<union> pair_edges items) = closure (E \<union> pair_edges (it # items))"
  proof (rule closure_eqI)
    show "E \<union> ?R \<union> pair_edges items \<subseteq> closure (E \<union> pair_edges (it # items))"
      by (auto simp: pair_edges_def it intro!: closure_base)
    let ?F = "E \<union> ?R \<union> pair_edges items"
    have "(a, b) \<in> closure ?F" if ab: "(a, b) \<in> pair_edges (it # items)" for a b
    proof -
      from ab obtain ta tb where m: "(a, ta) = (k, t) \<or> (a, ta) \<in> set items" "(b, tb) = (k, t) \<or> (b, tb) \<in> set items"
        "excerpts_echo ta tb" by (auto simp: pair_edges_def it)
      from m(1,2) consider "a = k" "b = k" | "a = k" "ta = t" "(b, tb) \<in> set items" | "b = k" "tb = t" "(a, ta) \<in> set items"
        | "(a, ta) \<in> set items" "(b, tb) \<in> set items" by blast
      then show ?thesis
      proof cases
        case 2
        then have "(a, b) \<in> ?R" using m(3) by blast
        then show ?thesis by (intro closure_base) blast
      next
        case 3
        then have "excerpts_echo t ta" using m(3) Cons.prems(3) excerpts_echo_sym [of ta t] by (auto simp: it)
        with 3 have "(b, a) \<in> ?R" by blast
        then have "(b, a) \<in> closure ?F" by (intro closure_base) blast
        then show ?thesis by (rule closure_sym)
      next
        case 4
        then have "(a, b) \<in> pair_edges items" using m(3) by (auto simp: pair_edges_def)
        then show ?thesis by (intro closure_base) blast
      qed simp
    qed
    then show "E \<union> pair_edges (it # items) \<subseteq> closure ?F" by (auto intro: closure_base)
  qed
  then have c: "closure (E \<union> ?R \<union> pair_edges items) = closure (E \<union> pair_edges (it # items))" .
  have "pair_edges (it # items) \<subseteq> V \<times> V"
  proof
    fix p assume "p \<in> pair_edges (it # items)"
    then obtain a b ta tb where m: "p = (a, b)" "(a, ta) \<in> set (it # items)" "(b, tb) \<in> set (it # items)"
      unfolding pair_edges_def by blast
    have "a \<in> fst ` set (it # items)" "b \<in> fst ` set (it # items)"
      using m(2,3) by (metis fst_conv image_eqI)+
    with Cons.prems(2) have "a \<in> V" "b \<in> V" by blast+
    then show "p \<in> V \<times> V" by (simp add: m(1))
  qed
  then have sub: "E \<union> pair_edges (it # items) \<subseteq> V \<times> V" using Cons.prems(1) by (simp add: uf_represents_def)
  have "uf_represents g2 V (E \<union> pair_edges (it # items))" by (rule represents_cong [OF g2(2) c sub])
  with g1(1) g2(1) show ?case by (simp add: it)
qed

lemma unite_echoes_represents:
  assumes "uf_represents g V E" "\<forall>it\<in>set items. distinct (et_words (snd it))"
  shows "\<exists>g'. unite_echoes g items = Some g' \<and> uf_represents g' (V \<union> fst ` set items) (E \<union> pair_edges items)"
proof -
  have "uf_represents g V (E \<union> run_edges [])" using assms(1) by (simp add: run_edges_def)
  moreover have "indexed [] Map.empty" by (simp add: indexed_def)
  ultimately obtain fr g1 where g1: "index_items items (Map.empty, g) = Some (fr, g1)"
    "uf_represents g1 (V \<union> fst ` set items) (E \<union> run_edges items)"
    using index_items_represents [of g V E "[]" Map.empty items] by auto
  have el: "set (eligible_items items) \<subseteq> set items" by (auto simp: eligible_items_def)
  have "fst ` set (eligible_items items) \<subseteq> V \<union> fst ` set items" using el by auto
  moreover have "\<forall>it\<in>set (eligible_items items). distinct (et_words (snd it))"
  proof
    fix it assume "it \<in> set (eligible_items items)"
    with el assms(2) show "distinct (et_words (snd it))" by blast
  qed
  ultimately have "\<exists>g'. unite_rows (eligible_items items) g1 = Some g' \<and>
      uf_represents g' (V \<union> fst ` set items) (E \<union> run_edges items \<union> pair_edges (eligible_items items))"
    by (rule unite_rows_represents [OF g1(2)])
  then obtain g2 where g2: "unite_rows (eligible_items items) g1 = Some g2"
    "uf_represents g2 (V \<union> fst ` set items) (E \<union> run_edges items \<union> pair_edges (eligible_items items))" by blast
  have "E \<union> run_edges items \<union> pair_edges (eligible_items items) = E \<union> pair_edges items"
  proof -
    have "run_edges items \<subseteq> pair_edges items" by (auto simp: run_edges_def pair_edges_def excerpts_echo_def)
    moreover have "pair_edges (eligible_items items) \<subseteq> pair_edges items"
      using el by (fastforce simp: pair_edges_def)
    moreover have "pair_edges items \<subseteq> run_edges items \<union> pair_edges (eligible_items items)"
    proof
      fix p assume "p \<in> pair_edges items"
      then obtain a b ta tb where m: "p = (a, b)" "(a, ta) \<in> set items" "(b, tb) \<in> set items" "excerpts_echo ta tb"
        by (auto simp: pair_edges_def)
      show "p \<in> run_edges items \<union> pair_edges (eligible_items items)"
      proof (cases "share_run ta tb")
        case True
        with m show ?thesis by (auto simp: run_edges_def)
      next
        case False
        with m(4) have "mostly_shared ta tb" by (simp add: excerpts_echo_def)
        with mostly_shared_eligible m show ?thesis by (auto simp: pair_edges_def eligible_items_def)
      qed
    qed
    ultimately show ?thesis by blast
  qed
  with g1(1) g2 show ?thesis by (simp add: unite_echoes_def)
qed

lemma find_all_represents:
  assumes "uf_represents g V E" "set xs \<subseteq> V"
  shows "\<exists>rs. find_all xs g = Some rs \<and> length rs = length xs \<and>
    (\<forall>i<length xs. uf_root g (xs ! i) = Some (rs ! i))"
  using assms
proof (induction xs arbitrary: g)
  case (Cons x xs)
  from represents_find [OF Cons.prems(1), of x] Cons.prems(2) obtain r g1 where g1: "uf_find x g = Some (r, g1)"
    "uf_represents g1 V E" "uf_root g1 x = Some r" by (auto simp: insert_absorb)
  have ok: "uf_ok g" "dom g = V" using Cons.prems(1) by (auto simp: uf_represents_def)
  with uf_find_ok [OF ok(1), of x] g1(1) have roots: "\<forall>z\<in>V. uf_root g1 z = uf_root g z" by auto
  from Cons.IH [OF g1(2)] Cons.prems(2) obtain rs where rs: "find_all xs g1 = Some rs" "length rs = length xs"
    "\<forall>i<length xs. uf_root g1 (xs ! i) = Some (rs ! i)" by auto
  have "uf_root g ((x # xs) ! i) = Some ((r # rs) ! i)" if "i < length (x # xs)" for i
  proof (cases i)
    case 0
    then show ?thesis using g1(3) roots Cons.prems(2) by simp
  next
    case (Suc j)
    then have "xs ! j \<in> V" using that Cons.prems(2) by (auto dest: nth_mem)
    then have "uf_root g1 (xs ! j) = uf_root g (xs ! j)" using roots by (rule bspec [rotated])
    moreover have "uf_root g1 (xs ! j) = Some (rs ! j)" using rs(3) [rule_format, of j] that Suc by simp
    ultimately show ?thesis using Suc by simp
  qed
  with g1(1) rs(1,2) show ?case by simp
qed simp

section \<open>The sources of a list of signals\<close>

text \<open>Two signals are one source when their keys agree or some of their excerpts echo.\<close>

definition one_source :: "text_lib \<Rightarrow> (context_signal \<Rightarrow> string) \<Rightarrow> context_signal \<Rightarrow> context_signal \<Rightarrow> bool" where
  "one_source lib key s t \<longleftrightarrow> key s = key t \<or>
     list_ex (\<lambda>q. list_ex (\<lambda>r. excerpts_echo (excerpt_text_of lib q) (excerpt_text_of lib r)) (cs_excerpts t)) (cs_excerpts s)"

definition source_edges :: "text_lib \<Rightarrow> (context_signal \<Rightarrow> string) \<Rightarrow> context_signal list \<Rightarrow> (uuid \<times> uuid) set" where
  "source_edges lib key signals =
     {(cs_signal_id s, cs_signal_id t) | s t. s \<in> set signals \<and> t \<in> set signals \<and> one_source lib key s t}"

definition item_edges :: "text_lib \<Rightarrow> (context_signal \<Rightarrow> string) \<Rightarrow> context_signal list \<Rightarrow> (group_item \<times> group_item) set" where
  "item_edges lib key signals =
     set (map (\<lambda>s. (Item_signal (cs_signal_id s), Item_key (key s))) signals) \<union> pair_edges (excerpt_items lib signals)"

lemma distinct_excerpt_words: "distinct (et_words (excerpt_text_of lib q))"
  by (simp add: excerpt_text_of_def Let_def)

lemma in_excerpt_items:
  "(a, t) \<in> set (excerpt_items lib signals) \<longleftrightarrow>
     (\<exists>s q. s \<in> set signals \<and> q \<in> set (cs_excerpts s) \<and> a = Item_signal (cs_signal_id s) \<and> t = excerpt_text_of lib q)"
  by (auto simp: excerpt_items_def)

lemma echo_edge:
  "(a, b) \<in> pair_edges (excerpt_items lib signals) \<longleftrightarrow>
     (\<exists>s t q r. s \<in> set signals \<and> t \<in> set signals \<and> a = Item_signal (cs_signal_id s) \<and> b = Item_signal (cs_signal_id t) \<and>
        q \<in> set (cs_excerpts s) \<and> r \<in> set (cs_excerpts t) \<and> excerpts_echo (excerpt_text_of lib q) (excerpt_text_of lib r))"
  unfolding pair_edges_def in_excerpt_items by blast

text \<open>From items back to signals: a key item stands for the signals that have the key.\<close>

definition stands_for :: "(context_signal \<Rightarrow> string) \<Rightarrow> context_signal list \<Rightarrow> group_item \<Rightarrow> uuid \<Rightarrow> bool" where
  "stands_for key signals it i \<longleftrightarrow>
     (\<exists>s\<in>set signals. cs_signal_id s = i \<and> (it = Item_signal i \<or> it = Item_key (key s)))"

lemma item_edge_projects:
  assumes edge: "(a, b) \<in> item_edges lib key signals"
    and st: "stands_for key signals a i" "stands_for key signals b j"
    and dist: "distinct (map cs_signal_id signals)"
  shows "(i, j) \<in> closure (source_edges lib key signals)"
proof -
  have link: "(cs_signal_id s, cs_signal_id t) \<in> closure (source_edges lib key signals)"
    if "s \<in> set signals" "t \<in> set signals" "one_source lib key s t" for s t
    using that by (intro closure_base) (auto simp: source_edges_def)
  have inj: "s = t" if "s \<in> set signals" "t \<in> set signals" "cs_signal_id s = cs_signal_id t" for s t
    using that dist by (auto simp: distinct_map inj_on_def)
  from edge consider s where "s \<in> set signals" "a = Item_signal (cs_signal_id s)" "b = Item_key (key s)"
    | "(a, b) \<in> pair_edges (excerpt_items lib signals)" by (auto simp: item_edges_def)
  then show ?thesis
  proof cases
    case 1
    then have i: "i = cs_signal_id s" using st(1) by (auto simp: stands_for_def)
    from 1 st(2) obtain t where t: "t \<in> set signals" "cs_signal_id t = j" "key t = key s"
      by (auto simp: stands_for_def)
    then have "one_source lib key s t" by (simp add: one_source_def)
    with link [OF 1(1) t(1)] i t(2) show ?thesis by simp
  next
    case 2
    then obtain s t q r where e: "s \<in> set signals" "t \<in> set signals" "a = Item_signal (cs_signal_id s)"
      "b = Item_signal (cs_signal_id t)" "q \<in> set (cs_excerpts s)" "r \<in> set (cs_excerpts t)"
      "excerpts_echo (excerpt_text_of lib q) (excerpt_text_of lib r)" unfolding echo_edge by blast
    then have "one_source lib key s t" by (auto simp: one_source_def list_ex_iff)
    moreover have "i = cs_signal_id s" "j = cs_signal_id t" using st e(3,4) by (auto simp: stands_for_def)
    ultimately show ?thesis using link [OF e(1,2)] by simp
  qed
qed

lemma same_item_projects:
  assumes "stands_for key signals a i" "stands_for key signals a j"
  shows "(i, j) \<in> closure (source_edges lib key signals)"
proof -
  from assms obtain s t where s: "s \<in> set signals" "cs_signal_id s = i" "t \<in> set signals" "cs_signal_id t = j"
    "i = j \<or> key s = key t" by (auto simp: stands_for_def)
  show ?thesis
  proof (cases "i = j")
    case False
    with s have "one_source lib key s t" by (simp add: one_source_def)
    with s show ?thesis by (intro closure_base) (auto simp: source_edges_def)
  qed simp
qed

lemma item_edges_stand:
  "(a, b) \<in> item_edges lib key signals \<union> (item_edges lib key signals)\<inverse> \<Longrightarrow> \<exists>i. stands_for key signals b i"
  by (auto simp: item_edges_def echo_edge stands_for_def)

lemma item_path_projects:
  assumes path: "(a, b) \<in> closure (item_edges lib key signals)"
    and dist: "distinct (map cs_signal_id signals)"
    and st: "stands_for key signals a i" "stands_for key signals b j"
  shows "(i, j) \<in> closure (source_edges lib key signals)"
  using path st(2) unfolding closure_def [of "item_edges lib key signals"]
proof (induction arbitrary: j rule: rtrancl_induct)
  case base
  with st(1) show ?case by (rule same_item_projects)
next
  case (step b c)
  obtain k where k: "stands_for key signals b k"
    using step.hyps(2) item_edges_stand [of c b lib key signals] by auto
  from step.IH [OF k] have ik: "(i, k) \<in> closure (source_edges lib key signals)" .
  from step.hyps(2) have "(k, j) \<in> closure (source_edges lib key signals)"
  proof
    assume "(b, c) \<in> item_edges lib key signals"
    from item_edge_projects [OF this k step.prems dist] show ?thesis .
  next
    assume "(b, c) \<in> (item_edges lib key signals)\<inverse>"
    then have "(c, b) \<in> item_edges lib key signals" by simp
    from item_edge_projects [OF this step.prems k dist] show ?thesis by (rule closure_sym)
  qed
  with ik show ?case by (rule closure_trans)
qed

lemma signal_path_lifts:
  assumes "(i, j) \<in> closure (source_edges lib key signals)"
  shows "(Item_signal i, Item_signal j) \<in> closure (item_edges lib key signals)"
proof -
  let ?C = "closure (item_edges lib key signals)"
  have key: "(Item_signal (cs_signal_id s), Item_key (key s)) \<in> ?C" if "s \<in> set signals" for s
    using that by (intro closure_base) (auto simp: item_edges_def)
  have one: "(Item_signal i, Item_signal j) \<in> ?C" if "(i, j) \<in> source_edges lib key signals" for i j
  proof -
    from that obtain s t where s: "s \<in> set signals" "t \<in> set signals" "cs_signal_id s = i" "cs_signal_id t = j"
      "one_source lib key s t" by (auto simp: source_edges_def)
    show ?thesis
    proof (cases "key s = key t")
      case True
      with key [OF s(1)] key [OF s(2)] s(3,4) show ?thesis by (metis closure_sym closure_trans)
    next
      case False
      with s(5) obtain q r where "q \<in> set (cs_excerpts s)" "r \<in> set (cs_excerpts t)"
        "excerpts_echo (excerpt_text_of lib q) (excerpt_text_of lib r)" by (auto simp: one_source_def list_ex_iff)
      with s have "(Item_signal i, Item_signal j) \<in> pair_edges (excerpt_items lib signals)"
        unfolding echo_edge by blast
      then show ?thesis by (intro closure_base) (simp add: item_edges_def)
    qed
  qed
  from assms show ?thesis
    unfolding closure_def [of "source_edges lib key signals"]
  proof (induction rule: rtrancl_induct)
    case (step j k)
    have "(Item_signal j, Item_signal k) \<in> ?C"
    proof (cases "(j, k) \<in> source_edges lib key signals")
      case False
      with step.hyps(2) have "(k, j) \<in> source_edges lib key signals" by simp
      from one [OF this] show ?thesis by (rule closure_sym)
    qed (rule one)
    with step.IH show ?case by (rule closure_trans)
  qed simp
qed

lemma source_groups_ok:
  assumes dist: "distinct (map cs_signal_id signals)"
  shows "\<exists>gs. source_groups lib key signals = Some gs \<and> length gs = length signals \<and>
    (\<forall>i<length signals. \<forall>j<length signals. gs ! i = gs ! j \<longleftrightarrow>
       (cs_signal_id (signals ! i), cs_signal_id (signals ! j)) \<in> closure (source_edges lib key signals))"
proof -
  let ?ps = "map (\<lambda>s. (Item_signal (cs_signal_id s), Item_key (key s))) signals"
  let ?xs = "map (\<lambda>s. Item_signal (cs_signal_id s)) signals"
  let ?E = "item_edges lib key signals"
  obtain V1 g1 where g1: "union_pairs ?ps Map.empty = Some g1" "uf_represents g1 V1 (set ?ps)" "set ?xs \<subseteq> V1"
    using union_pairs_represents [OF represents_empty, of ?ps] by (auto simp: image_image)
  have "\<forall>it\<in>set (excerpt_items lib signals). distinct (et_words (snd it))"
    by (auto simp: in_excerpt_items distinct_excerpt_words)
  from unite_echoes_represents [OF g1(2) this] obtain g2 V2 where
    g2: "unite_echoes g1 (excerpt_items lib signals) = Some g2" "uf_represents g2 V2 ?E" "set ?xs \<subseteq> V2"
    using g1(3) unfolding item_edges_def by blast
  from find_all_represents [OF g2(2,3)] obtain gs where gs: "find_all ?xs g2 = Some gs" "length gs = length signals"
    "\<forall>i<length signals. uf_root g2 (?xs ! i) = Some (gs ! i)" by auto
  have "gs ! i = gs ! j \<longleftrightarrow> (cs_signal_id (signals ! i), cs_signal_id (signals ! j)) \<in> closure (source_edges lib key signals)"
    if ij: "i < length signals" "j < length signals" for i j
  proof -
    let ?i = "cs_signal_id (signals ! i)" and ?j = "cs_signal_id (signals ! j)"
    have V: "Item_signal ?i \<in> V2" "Item_signal ?j \<in> V2" using ij g2(3) by auto
    have "uf_root g2 (Item_signal ?i) = Some (gs ! i)" "uf_root g2 (Item_signal ?j) = Some (gs ! j)"
      using gs(3) [rule_format, OF ij(1)] gs(3) [rule_format, OF ij(2)] ij by simp_all
    then have "gs ! i = gs ! j \<longleftrightarrow> uf_with g2 (Item_signal ?i) (Item_signal ?j)"
      using V g2(2) by (simp add: uf_with_def uf_represents_def)
    also have "\<dots> \<longleftrightarrow> (Item_signal ?i, Item_signal ?j) \<in> closure ?E"
      using V g2(2) by (simp add: uf_represents_def)
    also have "\<dots> \<longleftrightarrow> (?i, ?j) \<in> closure (source_edges lib key signals)"
    proof
      have "stands_for key signals (Item_signal ?i) ?i" "stands_for key signals (Item_signal ?j) ?j"
        using ij by (auto simp: stands_for_def)
      then show "(Item_signal ?i, Item_signal ?j) \<in> closure ?E \<Longrightarrow> (?i, ?j) \<in> closure (source_edges lib key signals)"
        using item_path_projects [OF _ dist] by blast
    qed (rule signal_path_lifts)
    finally show ?thesis .
  qed
  with gs(1,2) g1(1) g2(1) show ?thesis by (simp add: source_groups_def)
qed

text \<open>
  C8.  The groups of \<^verbatim>\<open>source_groups\<close> are the classes of the equivalence closure of "same key, or some
  excerpts echo": for signals with distinct ids the union-find loops end, every signal gets a group, and two
  signals have one group exactly when a chain of such links joins them.  The index of word runs and the
  shortcut that skips the pairs already joined change nothing.
\<close>

theorem source_groups_closure:
  assumes "distinct (map cs_signal_id signals)"
  shows "\<exists>gs. source_groups lib key signals = Some gs \<and> length gs = length signals \<and>
    (\<forall>i<length signals. \<forall>j<length signals. gs ! i = gs ! j \<longleftrightarrow>
       (cs_signal_id (signals ! i), cs_signal_id (signals ! j)) \<in> closure (source_edges lib key signals))"
  using assms by (rule source_groups_ok)

section \<open>Corroboration\<close>

abbreviation publisher_edges :: "text_lib \<Rightarrow> context_signal list \<Rightarrow> (uuid \<times> uuid) set" where
  "publisher_edges lib \<equiv> source_edges lib (\<lambda>s. organisation (cs_publisher_domain s))"

lemma active_signals_idem [simp]: "active_signals (active_signals signals) = active_signals signals"
  by (simp add: active_signals_def)

lemma few_groups: "length (remdups gs) < 2 \<longleftrightarrow> (\<forall>i<length gs. \<forall>j<length gs. gs ! i = gs ! j)"
proof
  assume "length (remdups gs) < 2"
  then have "card (set gs) \<le> 1" by (simp add: length_remdups_card_conv)
  then have "\<forall>x\<in>set gs. \<forall>y\<in>set gs. x = y" by (metis List.finite_set card_le_Suc0_iff_eq One_nat_def)
  then show "\<forall>i<length gs. \<forall>j<length gs. gs ! i = gs ! j" by auto
next
  assume "\<forall>i<length gs. \<forall>j<length gs. gs ! i = gs ! j"
  then have "\<forall>x\<in>set gs. \<forall>y\<in>set gs. x = y" by (metis in_set_conv_nth)
  then have "card (set gs) \<le> Suc 0" by (subst card_le_Suc0_iff_eq) auto
  then show "length (remdups gs) < 2" by (simp add: length_remdups_card_conv)
qed

lemma independent_sources_exactly:
  assumes "distinct (map cs_signal_id (active_signals signals))"
  shows "\<exists>n. independent_sources lib signals = Some n \<and>
    (n < CORROBORATION_MIN_PUBLISHERS \<longleftrightarrow>
       (\<forall>s\<in>set (active_signals signals). \<forall>t\<in>set (active_signals signals).
          (cs_signal_id s, cs_signal_id t) \<in> closure (publisher_edges lib (active_signals signals))))"
proof -
  let ?A = "active_signals signals"
  let ?ok = "\<lambda>s t. (cs_signal_id s, cs_signal_id t) \<in> closure (publisher_edges lib ?A)"
  from source_groups_ok [OF assms] obtain gs where
    gs: "source_groups lib (\<lambda>s. organisation (cs_publisher_domain s)) ?A = Some gs" "length gs = length ?A"
    and eq: "\<forall>i<length ?A. \<forall>j<length ?A. gs ! i = gs ! j \<longleftrightarrow> ?ok (?A ! i) (?A ! j)" by blast
  have "independent_sources lib signals = Some (length (remdups gs))"
    using gs(1) by (simp add: independent_sources_def)
  moreover have "length (remdups gs) < 2 \<longleftrightarrow> (\<forall>i<length ?A. \<forall>j<length ?A. ?ok (?A ! i) (?A ! j))"
    unfolding few_groups gs(2) using eq by blast
  then have "length (remdups gs) < 2 \<longleftrightarrow> (\<forall>s\<in>set ?A. \<forall>t\<in>set ?A. ?ok s t)"
    by (simp add: all_set_conv_all_nth)
  ultimately show ?thesis by (simp add: CORROBORATION_MIN_PUBLISHERS_def)
qed

text \<open>
  C7.  A claim is uncorroborated exactly when none of its active signals is from a listed source and all of
  them are one source: joined, in however many steps, by a shared publisher (or a company's own domains) or
  by echoing excerpts.  Inactive signals count for nothing, and the check always returns.
\<close>

theorem uncorroborated_exactly:
  assumes "distinct (map cs_signal_id (active_signals signals))"
  shows "uncorroborated lib signals = Some
    ((\<forall>s\<in>set signals. cs_active s \<longrightarrow> cs_trust s = Web) \<and>
     (\<forall>s\<in>set (active_signals signals). \<forall>t\<in>set (active_signals signals).
        (cs_signal_id s, cs_signal_id t) \<in> closure (publisher_edges lib (active_signals signals))))"
proof (cases "list_ex (\<lambda>s. cs_trust s = Listed) (active_signals signals)")
  case True
  then obtain s where "s \<in> set signals" "cs_active s" "cs_trust s = Listed"
    by (auto simp: list_ex_iff active_signals_def)
  then have "\<not> (\<forall>s\<in>set signals. cs_active s \<longrightarrow> cs_trust s = Web)" by force
  with True show ?thesis by (simp add: uncorroborated_def del: not_all)
next
  case False
  then have web: "\<forall>s\<in>set signals. cs_active s \<longrightarrow> cs_trust s = Web"
    by (auto simp: list_ex_iff active_signals_def) (metis trust.exhaust)
  from independent_sources_exactly [of "active_signals signals" lib] assms obtain n where
    "independent_sources lib (active_signals signals) = Some n"
    "n < CORROBORATION_MIN_PUBLISHERS \<longleftrightarrow>
       (\<forall>s\<in>set (active_signals signals). \<forall>t\<in>set (active_signals signals).
          (cs_signal_id s, cs_signal_id t) \<in> closure (publisher_edges lib (active_signals signals)))" by auto
  with False web show ?thesis by (simp add: uncorroborated_def)
qed

section \<open>A concrete list\<close>

definition sample_signal :: "uuid \<Rightarrow> string \<Rightarrow> bool \<Rightarrow> string list \<Rightarrow> context_signal" where
  "sample_signal i domain active quotes =
     \<lparr>cs_signal_id = i, cs_category = ''deepfake'', cs_direction = ''tightens'', cs_tags = [],
      cs_unregistered_subjects = [], cs_summary = '''', cs_trust = Web, cs_publisher_domain = domain,
      cs_active = active, cs_created_at = 0, cs_document_key = None, cs_published_at = None,
      cs_excerpts = quotes\<rparr>"

definition sample_signals :: "context_signal list" where
  "sample_signals =
     [sample_signal 1 ''youtube.com'' True [''Today we label every synthetic face in a video''],
      sample_signal 2 ''Google.com'' True [''a policy page''],
      sample_signal 3 ''news.example'' True [''today, we label every SYNTHETIC face in a clip''],
      sample_signal 4 ''other.example'' False [''unrelated'']]"

theorem source_groups_closure_witness:
  "\<exists>gs. source_groups ascii_text (\<lambda>s. organisation (cs_publisher_domain s)) sample_signals = Some gs \<and> length gs = 4"
  using source_groups_closure [of sample_signals ascii_text "\<lambda>s. organisation (cs_publisher_domain s)"]
  by (auto simp: sample_signals_def sample_signal_def)

lemma sample_groups:
  "source_groups ascii_text (\<lambda>s. organisation (cs_publisher_domain s)) sample_signals =
     Some [Item_signal 2, Item_signal 2, Item_signal 2, Item_signal 4]"
  by code_simp

theorem uncorroborated_exactly_witness:
  "uncorroborated ascii_text sample_signals = Some True \<and>
   (1, 3) \<in> closure (publisher_edges ascii_text (active_signals sample_signals))"
proof -
  have "uncorroborated ascii_text sample_signals = Some True" by code_simp
  moreover have "distinct (map cs_signal_id (active_signals sample_signals))" by code_simp
  from uncorroborated_exactly [OF this, of ascii_text]
  have "\<forall>s\<in>set (active_signals sample_signals). \<forall>t\<in>set (active_signals sample_signals).
      (cs_signal_id s, cs_signal_id t) \<in> closure (publisher_edges ascii_text (active_signals sample_signals))"
    unfolding calculation option.inject by blast
  then have "\<forall>i\<in>set (map cs_signal_id (active_signals sample_signals)).
      \<forall>j\<in>set (map cs_signal_id (active_signals sample_signals)).
      (i, j) \<in> closure (publisher_edges ascii_text (active_signals sample_signals))" by (simp only: set_map ball_simps)
  moreover have "map cs_signal_id (active_signals sample_signals) = [1, 2, 3]" by code_simp
  ultimately show ?thesis by (simp only: list.set) blast
qed

end
