(* ===== verification/Vocabulary.thy ===== *)
theory Vocabulary
  imports Corroboration "HOL-Library.AList" "HOL-Library.Monad_Syntax"
begin

text \<open>
  The scoring vocabulary (\<^verbatim>\<open>intel/vocabulary.py\<close>): the backend's push read into questions, tags and the
  rename log, the weight cell (\<^verbatim>\<open>intel/cells.py\<close>) and the tag registry (\<^verbatim>\<open>intel/tags.py\<close>).
\<close>

section \<open>The document pushed by the backend\<close>

text \<open>JSON as Python reads it: integers and floats are different types.\<close>

datatype doc =
  DNull | DBool bool | DInt int | DFloat rat | DStr string | DArr "doc list" | DObj "(string \<times> doc) list"

fun truthy :: "doc \<Rightarrow> bool" where
  "truthy DNull = False"
| "truthy (DBool b) = b"
| "truthy (DInt i) = (i \<noteq> 0)"
| "truthy (DFloat r) = (r \<noteq> 0)"
| "truthy (DStr s) = (s \<noteq> [])"
| "truthy (DArr xs) = (xs \<noteq> [])"
| "truthy (DObj kvs) = (kvs \<noteq> [])"

text \<open>
  None is the KeyError, TypeError or AttributeError the parser catches.  Iterating over a string yields its
  characters, over an object its keys.
\<close>

fun doc_get :: "string \<Rightarrow> doc \<Rightarrow> doc option option" where
  "doc_get k (DObj kvs) = Some (map_of kvs k)"
| "doc_get k _ = None"

definition get_default :: "string \<Rightarrow> doc \<Rightarrow> doc \<Rightarrow> doc option" where
  "get_default k other d =
     (case doc_get k d of None \<Rightarrow> None | Some None \<Rightarrow> Some other | Some (Some x) \<Rightarrow> Some x)"

text \<open>\<^verbatim>\<open>d.get(k) or other\<close>\<close>

definition get_or :: "string \<Rightarrow> doc \<Rightarrow> doc \<Rightarrow> doc option" where
  "get_or k other d =
     (case doc_get k d of None \<Rightarrow> None | Some None \<Rightarrow> Some other
      | Some (Some x) \<Rightarrow> Some (if truthy x then x else other))"

definition doc_item :: "string \<Rightarrow> doc \<Rightarrow> doc option" where
  "doc_item k d = (case doc_get k d of Some (Some x) \<Rightarrow> Some x | _ \<Rightarrow> None)"

fun doc_iter :: "doc \<Rightarrow> doc list option" where
  "doc_iter (DArr xs) = Some xs"
| "doc_iter (DStr s) = Some (map (\<lambda>c. DStr [c]) s)"
| "doc_iter (DObj kvs) = Some (map (\<lambda>(k, _). DStr k) kvs)"
| "doc_iter _ = None"

fun doc_items :: "doc \<Rightarrow> (string \<times> doc) list option" where
  "doc_items (DObj kvs) = Some kvs"
| "doc_items _ = None"


fun py_int :: "doc \<Rightarrow> int option" where
  "py_int (DInt i) = Some i"
| "py_int _ = None"

fun py_str :: "doc \<Rightarrow> string option" where
  "py_str (DStr s) = Some s"
| "py_str _ = None"

fun map_results :: "('a \<Rightarrow> 'b option) \<Rightarrow> 'a list \<Rightarrow> 'b list option" where
  "map_results f [] = Some []"
| "map_results f (x # xs) = (case f x of None \<Rightarrow> None | Some y \<Rightarrow> map_option (\<lambda>ys. y # ys) (map_results f xs))"

section \<open>The vocabulary\<close>

record vocab_question =
  vq_key :: string
  vq_prompt :: string
  vq_type :: "string option"
  vq_options :: "string list"
  vq_deductions :: "(string \<times> int) list"
  vq_cap :: "int option"

record rename =
  rn_release_no :: int
  rn_question_key :: string
  rn_old_option :: string
  rn_new_option :: string

record registry_entry =
  re_slug :: string
  re_label :: string
  re_description :: string
  re_retired :: bool
  re_kind :: string

text \<open>A dictionary is an association list in insertion order, with distinct keys.\<close>

record scoring_vocabulary =
  sv_release_no :: int
  sv_map_version :: int
  sv_scoring_version :: string
  sv_questions :: "(string \<times> vocab_question) list"
  sv_tags :: "(string \<times> registry_entry) list"
  sv_option_tags :: "((string \<times> string) \<times> string list) list"
  sv_renamed :: "rename list"
  sv_mapped_tags :: "string list"

definition question_mutable :: "vocab_question \<Rightarrow> bool" where
  "question_mutable q \<longleftrightarrow> vq_type q = Some ''mutable''"

definition question :: "scoring_vocabulary \<Rightarrow> string \<Rightarrow> vocab_question option" where
  "question v key = map_of (sv_questions v) key"

definition deduction :: "scoring_vocabulary \<Rightarrow> string \<Rightarrow> string \<Rightarrow> int option" where
  "deduction v question_key opt =
     (case question v question_key of
        None \<Rightarrow> None
      | Some q \<Rightarrow> if opt \<notin> set (vq_options q) then None else map_of (vq_deductions q) opt)"

text \<open>The registry's two sets, as lists.\<close>

record tag_registry =
  tr_active :: "string list"
  tr_retired :: "string list"

definition registry :: "scoring_vocabulary \<Rightarrow> tag_registry" where
  "registry v =
     \<lparr>tr_active = map fst (filter (\<lambda>(_, e). \<not> re_retired e) (sv_tags v)),
      tr_retired = map fst (filter (\<lambda>(_, e). re_retired e) (sv_tags v))\<rparr>"

definition membership_problems :: "string list \<Rightarrow> tag_registry \<Rightarrow> string list \<times> string list" where
  "membership_problems added reg =
     (filter (\<lambda>t. t \<notin> set (tr_active reg) \<and> t \<notin> set (tr_retired reg)) added,
      filter (\<lambda>t. t \<in> set (tr_retired reg)) added)"

definition tag_well_formed :: "string \<Rightarrow> bool" where
  "tag_well_formed slug =
     (case slug of [] \<Rightarrow> False
      | c # cs \<Rightarrow> c \<in> set ''abcdefghijklmnopqrstuvwxyz'' \<and> length cs \<le> 39 \<and>
          list_all (\<lambda>d. d \<in> set ''abcdefghijklmnopqrstuvwxyz0123456789_'') cs)"

subsection \<open>Renames\<close>

definition renames_above :: "scoring_vocabulary \<Rightarrow> string \<Rightarrow> int \<Rightarrow> rename list" where
  "renames_above v question_key after_release =
     filter (\<lambda>r. rn_question_key r = question_key \<and> rn_release_no r > after_release) (sv_renamed v)"

text \<open>Entries of one release are one mapping; a later entry for an option replaces an earlier one.\<close>

definition rename_in :: "rename list \<Rightarrow> int \<Rightarrow> string \<Rightarrow> string" where
  "rename_in renames release_no opt =
     (case map_of (rev (map (\<lambda>r. (rn_old_option r, rn_new_option r))
             (filter (\<lambda>r. rn_release_no r = release_no) renames))) opt of
        None \<Rightarrow> opt | Some new \<Rightarrow> new)"

definition fold_renames :: "scoring_vocabulary \<Rightarrow> string \<Rightarrow> string \<Rightarrow> int \<Rightarrow> string" where
  "fold_renames v question_key opt after_release =
     (let renames = renames_above v question_key after_release
      in fold (rename_in renames) (sorted_list_of_set (set (map rn_release_no renames))) opt)"

definition renamed_away :: "scoring_vocabulary \<Rightarrow> string \<Rightarrow> string \<Rightarrow> int \<Rightarrow> bool" where
  "renamed_away v question_key opt after_release =
     list_ex (\<lambda>r. rn_question_key r = question_key \<and> rn_old_option r = opt \<and> rn_release_no r > after_release)
       (sv_renamed v)"

subsection \<open>Subjects and mapped tags\<close>

text \<open>\<^verbatim>\<open>re.sub(r"[\W_]+", " ", s)\<close>: every maximal run of separators becomes one space.\<close>

fun collapse_runs :: "(char \<Rightarrow> bool) \<Rightarrow> bool \<Rightarrow> string \<Rightarrow> string" where
  "collapse_runs sep in_run [] = []"
| "collapse_runs sep in_run (c # cs) =
     (if sep c then (if in_run then collapse_runs sep True cs else CHR '' '' # collapse_runs sep True cs)
      else c # collapse_runs sep False cs)"

definition normalise_subject :: "text_lib \<Rightarrow> string \<Rightarrow> string" where
  "normalise_subject lib s =
     py_strip (collapse_runs (\<lambda>c. \<not> tl_word lib c \<or> c = CHR ''_'') False (tl_casefold lib s))"

definition tag_keys :: "text_lib \<Rightarrow> scoring_vocabulary \<Rightarrow> string \<Rightarrow> string list" where
  "tag_keys lib v slug =
     (let label = (case map_of (sv_tags v) slug of None \<Rightarrow> slug | Some e \<Rightarrow> re_label e)
      in [normalise_subject lib slug, normalise_subject lib label])"

definition mapped_tag_for :: "text_lib \<Rightarrow> scoring_vocabulary \<Rightarrow> string \<Rightarrow> string option \<Rightarrow> string option" where
  "mapped_tag_for lib v subject_key suggested_slug =
     (case suggested_slug of
        Some slug \<Rightarrow>
          if slug \<in> set (sv_mapped_tags v) then Some slug
          else find (\<lambda>t. subject_key \<in> set (tag_keys lib v t)) (sort (sv_mapped_tags v))
      | None \<Rightarrow> find (\<lambda>t. subject_key \<in> set (tag_keys lib v t)) (sort (sv_mapped_tags v)))"

definition subject_is_mapped :: "text_lib \<Rightarrow> scoring_vocabulary \<Rightarrow> string \<Rightarrow> bool" where
  "subject_is_mapped lib v subject_key = (mapped_tag_for lib v subject_key None \<noteq> None)"

section \<open>Reading the document\<close>

record vocabulary_row =
  vr_release_no :: int
  vr_map_version :: int
  vr_scoring_version :: string
  vr_quiz_version :: string
  vr_document :: doc

definition parse_strings :: "doc \<Rightarrow> string list option" where
  "parse_strings d = do { items \<leftarrow> doc_iter d; map_results py_str items }"

definition parse_question :: "doc \<Rightarrow> vocab_question option" where
  "parse_question raw = do {
     deductions \<leftarrow> get_or ''deductions'' (DObj []) raw;
     cap \<leftarrow> get_default ''cap'' DNull raw;
     key \<leftarrow> doc_item ''key'' raw; key \<leftarrow> py_str key;
     prompt \<leftarrow> get_default ''prompt'' (DStr []) raw; prompt \<leftarrow> py_str prompt;
     typ \<leftarrow> get_default ''type'' DNull raw;
     typ \<leftarrow> (if typ = DNull then Some None else map_option Some (py_str typ));
     options \<leftarrow> doc_item ''options'' raw; options \<leftarrow> parse_strings options;
     items \<leftarrow> doc_items deductions;
     items \<leftarrow> map_results (\<lambda>(k, d). map_option (Pair k) (py_int d)) items;
     cap \<leftarrow> (if cap = DNull then Some None else map_option Some (py_int cap));
     Some \<lparr>vq_key = key, vq_prompt = prompt, vq_type = typ, vq_options = options,
           vq_deductions = items, vq_cap = cap\<rparr> }"

definition parse_tag :: "doc \<Rightarrow> registry_entry option" where
  "parse_tag raw = do {
     slug \<leftarrow> doc_item ''slug'' raw; slug \<leftarrow> py_str slug;
     label \<leftarrow> get_default ''label'' (DStr slug) raw; label \<leftarrow> py_str label;
     description \<leftarrow> get_default ''description'' (DStr []) raw; description \<leftarrow> py_str description;
     retired \<leftarrow> get_default ''retired'' (DBool False) raw;
     kind \<leftarrow> get_default ''kind'' (DStr []) raw; kind \<leftarrow> py_str kind;
     Some \<lparr>re_slug = slug, re_label = label, re_description = description,
           re_retired = truthy retired, re_kind = kind\<rparr> }"

definition parse_option_tags :: "doc \<Rightarrow> ((string \<times> string) \<times> string list) option" where
  "parse_option_tags raw = do {
     key \<leftarrow> doc_item ''question_key'' raw; key \<leftarrow> py_str key;
     opt \<leftarrow> doc_item ''option'' raw; opt \<leftarrow> py_str opt;
     tags \<leftarrow> get_or ''tags'' (DArr []) raw; tags \<leftarrow> parse_strings tags;
     Some ((key, opt), tags) }"

definition parse_rename :: "doc \<Rightarrow> rename option" where
  "parse_rename raw = do {
     release_no \<leftarrow> doc_item ''release_no'' raw; release_no \<leftarrow> py_int release_no;
     key \<leftarrow> doc_item ''question_key'' raw; key \<leftarrow> py_str key;
     old \<leftarrow> doc_item ''old_option'' raw; old \<leftarrow> py_str old;
     new \<leftarrow> doc_item ''new_option'' raw; new \<leftarrow> py_str new;
     Some \<lparr>rn_release_no = release_no, rn_question_key = key, rn_old_option = old, rn_new_option = new\<rparr> }"

definition parse_section :: "string \<Rightarrow> (doc \<Rightarrow> 'a option) \<Rightarrow> doc \<Rightarrow> 'a list option" where
  "parse_section name f document = do {
     d \<leftarrow> get_or name (DArr []) document;
     items \<leftarrow> doc_iter d;
     map_results f items }"

text \<open>Assigning into a dictionary in order: a later value replaces an earlier one in its place.\<close>

definition assign_all :: "('k \<times> 'v) list \<Rightarrow> ('k \<times> 'v) list" where
  "assign_all kvs = fold (\<lambda>(k, x) d. AList.update k x d) kvs []"

definition parse_vocabulary :: "vocabulary_row \<Rightarrow> scoring_vocabulary option" where
  "parse_vocabulary row = do {
     questions \<leftarrow> parse_section ''questions'' parse_question (vr_document row);
     tags \<leftarrow> parse_section ''tags'' parse_tag (vr_document row);
     pairs \<leftarrow> parse_section ''option_tags'' parse_option_tags (vr_document row);
     renamed \<leftarrow> parse_section ''renamed'' parse_rename (vr_document row);
     let option_tags = assign_all pairs in
     Some \<lparr>sv_release_no = vr_release_no row, sv_map_version = vr_map_version row,
           sv_scoring_version = vr_scoring_version row,
           sv_questions = assign_all (map (\<lambda>q. (vq_key q, q)) questions),
           sv_tags = assign_all (map (\<lambda>e. (re_slug e, e)) tags),
           sv_option_tags = option_tags, sv_renamed = renamed,
           sv_mapped_tags = remdups (concat (map snd option_tags))\<rparr> }"

section \<open>The push\<close>

text \<open>
  The request body of \<^verbatim>\<open>PUT /vocabulary\<close> (\<^verbatim>\<open>http/models.py\<close>); a tag, an option's tags and a rename have
  the fields of what is read.  An unscored question has no type, deductions or cap.
\<close>

record pushed_question =
  pq_key :: string
  pq_prompt :: string
  pq_type :: "string option"
  pq_options :: "string list"
  pq_deductions :: "(string \<times> int) list option"
  pq_cap :: "int option"

record pushed_document =
  vd_tags :: "registry_entry list"
  vd_option_tags :: "((string \<times> string) \<times> string list) list"
  vd_renamed :: "rename list"
  vd_questions :: "pushed_question list"
  vd_dynamic :: "(string \<times> doc) list option"

record vocabulary_request =
  rq_release_no :: int
  rq_map_version :: int
  rq_scoring_version :: string
  rq_quiz_version :: string
  rq_document :: pushed_document

definition request_ok :: "vocabulary_request \<Rightarrow> bool" where
  "request_ok rq \<longleftrightarrow>
     0 \<le> rq_release_no rq \<and> 0 \<le> rq_map_version rq \<and> rq_scoring_version rq \<noteq> [] \<and> rq_quiz_version rq \<noteq> [] \<and>
     list_all (\<lambda>e. tag_well_formed (re_slug e)) (vd_tags (rq_document rq)) \<and>
     list_all (\<lambda>p. list_all tag_well_formed (snd p)) (vd_option_tags (rq_document rq)) \<and>
     list_all (\<lambda>q. pq_key q \<noteq> [] \<and> (case pq_deductions q of None \<Rightarrow> True | Some ds \<Rightarrow> distinct (map fst ds)))
       (vd_questions (rq_document rq))"

definition doc_opt :: "('a \<Rightarrow> doc) \<Rightarrow> 'a option \<Rightarrow> doc" where
  "doc_opt f x = (case x of None \<Rightarrow> DNull | Some y \<Rightarrow> f y)"

definition doc_strings :: "string list \<Rightarrow> doc" where
  "doc_strings xs = DArr (map DStr xs)"

definition dump_question :: "pushed_question \<Rightarrow> doc" where
  "dump_question q = DObj
     [(''key'', DStr (pq_key q)), (''prompt'', DStr (pq_prompt q)), (''type'', doc_opt DStr (pq_type q)),
      (''options'', doc_strings (pq_options q)),
      (''deductions'', doc_opt (\<lambda>ds. DObj (map (\<lambda>(k, n). (k, DInt n)) ds)) (pq_deductions q)),
      (''cap'', doc_opt DInt (pq_cap q))]"

definition dump_tag :: "registry_entry \<Rightarrow> doc" where
  "dump_tag e = DObj
     [(''slug'', DStr (re_slug e)), (''label'', DStr (re_label e)), (''description'', DStr (re_description e)),
      (''kind'', DStr (re_kind e)), (''retired'', DBool (re_retired e))]"

definition dump_option_tags :: "(string \<times> string) \<times> string list \<Rightarrow> doc" where
  "dump_option_tags p = (case p of ((key, opt), tags) \<Rightarrow>
     DObj [(''question_key'', DStr key), (''option'', DStr opt), (''tags'', doc_strings tags)])"

definition dump_rename :: "rename \<Rightarrow> doc" where
  "dump_rename r = DObj
     [(''release_no'', DInt (rn_release_no r)), (''question_key'', DStr (rn_question_key r)),
      (''old_option'', DStr (rn_old_option r)), (''new_option'', DStr (rn_new_option r))]"

definition dump_document :: "pushed_document \<Rightarrow> doc" where
  "dump_document d = DObj
     [(''tags'', DArr (map dump_tag (vd_tags d))), (''option_tags'', DArr (map dump_option_tags (vd_option_tags d))),
      (''renamed'', DArr (map dump_rename (vd_renamed d))),
      (''questions'', DArr (map dump_question (vd_questions d))), (''dynamic'', doc_opt DObj (vd_dynamic d))]"

text \<open>
  What a \<^verbatim>\<open>JSONB\<close> column keeps of a value: the fields of an object by the length of the key and then the key;
  a string with a null character is refused.
\<close>

definition jsonb_keys :: "(string \<times> 'a) list \<Rightarrow> (string \<times> 'a) list" where
  "jsonb_keys kvs = sort_key (\<lambda>kx. length (fst kx)) (sort_key fst kvs)"

fun jsonb :: "doc \<Rightarrow> doc option"
  and jsonb_items :: "doc list \<Rightarrow> doc list option"
  and jsonb_fields :: "(string \<times> doc) list \<Rightarrow> (string \<times> doc) list option" where
  "jsonb (DStr s) = (if CHR 0x00 \<in> set s then None else Some (DStr s))"
| "jsonb (DArr xs) = map_option DArr (jsonb_items xs)"
| "jsonb (DObj kvs) = map_option (\<lambda>fs. DObj (jsonb_keys fs)) (jsonb_fields kvs)"
| "jsonb (DInt i) = Some (DInt i)"
| "jsonb (DFloat r) = Some (DFloat r)"
| "jsonb (DBool b) = Some (DBool b)"
| "jsonb DNull = Some DNull"
| "jsonb_items [] = Some []"
| "jsonb_items (x # xs) =
     (case jsonb x of None \<Rightarrow> None | Some y \<Rightarrow> map_option (\<lambda>ys. y # ys) (jsonb_items xs))"
| "jsonb_fields [] = Some []"
| "jsonb_fields ((k, x) # kvs) =
     (if CHR 0x00 \<in> set k then None
      else case jsonb x of None \<Rightarrow> None | Some y \<Rightarrow> map_option (\<lambda>fs. (k, y) # fs) (jsonb_fields kvs))"

definition bigint :: "int \<Rightarrow> bool" where
  "bigint i \<longleftrightarrow> - (2 ^ 63) \<le> i \<and> i < 2 ^ 63"

text \<open>
  \<^verbatim>\<open>put_vocabulary\<close> on the singleton row: the row is replaced unless one of the two numbers goes back.  None
  is the statement that fails, with nothing changed.
\<close>

definition put_vocabulary ::
  "vocabulary_request \<Rightarrow> vocabulary_row option \<Rightarrow> (bool \<times> vocabulary_row option) option" where
  "put_vocabulary rq t =
     (case jsonb (dump_document (rq_document rq)) of
        None \<Rightarrow> None
      | Some d \<Rightarrow>
          if \<not> bigint (rq_release_no rq) \<or> \<not> bigint (rq_map_version rq) \<or>
             CHR 0x00 \<in> set (rq_scoring_version rq) \<or> CHR 0x00 \<in> set (rq_quiz_version rq) then None
          else let new = \<lparr>vr_release_no = rq_release_no rq, vr_map_version = rq_map_version rq,
                 vr_scoring_version = rq_scoring_version rq, vr_quiz_version = rq_quiz_version rq, vr_document = d\<rparr>
               in case t of
                 None \<Rightarrow> Some (True, Some new)
               | Some old \<Rightarrow>
                   if vr_release_no old \<le> rq_release_no rq \<and> vr_map_version old \<le> rq_map_version rq
                   then Some (True, Some new) else Some (False, t))"

definition load_scoring_vocabulary :: "vocabulary_row option \<Rightarrow> scoring_vocabulary option" where
  "load_scoring_vocabulary t = (case t of None \<Rightarrow> None | Some row \<Rightarrow> parse_vocabulary row)"

section \<open>The weight cell\<close>

datatype cell_problem_code =
  Unknown_question | Not_mutable | Unknown_option | Current_mismatch | Delta_out_of_bounds | Result_out_of_bounds

datatype stale_code = Option_renamed | Cell_removed | Cell_not_mutable | Deduction_moved

abbreviation WEIGHT_DELTA_MIN :: int where "WEIGHT_DELTA_MIN \<equiv> - 2"
abbreviation WEIGHT_DELTA_MAX :: int where "WEIGHT_DELTA_MAX \<equiv> 2"
abbreviation DEDUCTION_MIN :: int where "DEDUCTION_MIN \<equiv> 0"
abbreviation DEDUCTION_MAX :: int where "DEDUCTION_MAX \<equiv> 10"

definition cell_problem :: "scoring_vocabulary \<Rightarrow> string \<Rightarrow> string \<Rightarrow> int \<Rightarrow> int \<Rightarrow> cell_problem_code option" where
  "cell_problem v question_key opt current delta =
     (case question v question_key of
        None \<Rightarrow> Some Unknown_question
      | Some q \<Rightarrow>
          if \<not> question_mutable q then Some Not_mutable
          else case deduction v question_key opt of
              None \<Rightarrow> Some Unknown_option
            | Some live \<Rightarrow>
                if live \<noteq> current then Some Current_mismatch
                else if delta = 0 \<or> \<not> (WEIGHT_DELTA_MIN \<le> delta \<and> delta \<le> WEIGHT_DELTA_MAX) then Some Delta_out_of_bounds
                else if \<not> (DEDUCTION_MIN \<le> current + delta \<and> current + delta \<le> DEDUCTION_MAX) \<or>
                     (case vq_cap q of None \<Rightarrow> False | Some cap \<Rightarrow> current + delta > cap) then Some Result_out_of_bounds
                else None)"

definition stale_reason :: "scoring_vocabulary \<Rightarrow> string \<Rightarrow> string \<Rightarrow> int \<Rightarrow> int \<Rightarrow> stale_code option" where
  "stale_reason v question_key opt current generated_at_release =
     (case question v question_key of
        None \<Rightarrow> Some Cell_removed
      | Some q \<Rightarrow>
          (case deduction v question_key opt of
             None \<Rightarrow> if renamed_away v question_key opt generated_at_release then Some Option_renamed
                     else Some Cell_removed
           | Some live \<Rightarrow>
               if \<not> question_mutable q then Some Cell_not_mutable
               else if live \<noteq> current then Some Deduction_moved
               else None))"

definition published_unacknowledged :: "scoring_vocabulary \<Rightarrow> string \<Rightarrow> string \<Rightarrow> int \<Rightarrow> int \<Rightarrow> bool" where
  "published_unacknowledged v question_key opt current delta \<longleftrightarrow>
     deduction v question_key opt = Some (current + delta)"

section \<open>Renames compose\<close>

definition pushed_at :: "int \<Rightarrow> scoring_vocabulary \<Rightarrow> scoring_vocabulary" where
  "pushed_at release_no v = v\<lparr>sv_renamed := filter (\<lambda>r. rn_release_no r \<le> release_no) (sv_renamed v)\<rparr>"

lemma rename_in_cong:
  "(\<And>r. rn_release_no r = n \<Longrightarrow> r \<in> set rs \<longleftrightarrow> r \<in> set rs') \<Longrightarrow>
   filter (\<lambda>r. rn_release_no r = n) rs = filter (\<lambda>r. rn_release_no r = n) rs' \<Longrightarrow> rename_in rs n = rename_in rs' n"
  by (simp add: rename_in_def fun_eq_iff)

lemma rename_in_above:
  assumes "a < n"
  shows "rename_in (renames_above v k a) n =
    rename_in (filter (\<lambda>r. rn_question_key r = k) (sv_renamed v)) n"
proof -
  have "filter (\<lambda>r. rn_release_no r = n) (renames_above v k a) =
      filter (\<lambda>r. rn_release_no r = n) (filter (\<lambda>r. rn_question_key r = k) (sv_renamed v))"
    using assms by (auto simp: renames_above_def intro!: filter_cong)
  then show ?thesis by (simp add: rename_in_def fun_eq_iff)
qed

lemma rename_in_pushed:
  assumes "a < n" "n \<le> b"
  shows "rename_in (renames_above (pushed_at b v) k a) n = rename_in (renames_above v k a) n"
proof -
  have "filter (\<lambda>r. rn_release_no r = n) (renames_above (pushed_at b v) k a) =
      filter (\<lambda>r. rn_release_no r = n) (renames_above v k a)"
    using assms by (auto simp: renames_above_def pushed_at_def intro!: filter_cong)
  then show ?thesis by (simp add: rename_in_def fun_eq_iff)
qed

lemma sorted_split:
  fixes A B :: "int set"
  assumes "finite A" "finite B" "\<forall>x\<in>A. \<forall>y\<in>B. x < y"
  shows "sorted_list_of_set (A \<union> B) = sorted_list_of_set A @ sorted_list_of_set B"
proof -
  have "sorted (sorted_list_of_set A @ sorted_list_of_set B)"
    using assms by (auto simp: sorted_append intro: less_imp_le)
  moreover have "distinct (sorted_list_of_set A @ sorted_list_of_set B)" using assms by fastforce
  moreover have "set (sorted_list_of_set A @ sorted_list_of_set B) = A \<union> B" using assms by simp
  ultimately show ?thesis
    using assms by (metis finite_UnI sorted_list_of_set.idem_if_sorted_distinct sorted_list_of_set.set_sorted_key_list_of_set)
qed

lemma fold_rename_cong:
  "\<forall>n\<in>set ns. rename_in rs n = rename_in rs' n \<Longrightarrow> fold (rename_in rs) ns = fold (rename_in rs') ns"
  by (induction ns) auto

lemma renames_compose:
  assumes ab: "a \<le> b"
  shows "fold_renames v k opt a = fold_renames v k (fold_renames (pushed_at b v) k opt a) b"
proof -
  let ?rel = "\<lambda>rs. set (map rn_release_no rs)"
  let ?A = "?rel (renames_above (pushed_at b v) k a)" and ?B = "?rel (renames_above v k b)"
  have split: "?rel (renames_above v k a) = ?A \<union> ?B"
    using ab by (force simp: renames_above_def pushed_at_def)
  have A: "\<forall>n\<in>?A. a < n \<and> n \<le> b" and B: "\<forall>n\<in>?B. b < n"
    by (auto simp: renames_above_def pushed_at_def)
  have order: "\<forall>x\<in>?A. \<forall>y\<in>?B. x < y" using A B by fastforce
  have "sorted_list_of_set (?rel (renames_above v k a)) = sorted_list_of_set ?A @ sorted_list_of_set ?B"
    unfolding split using order by (intro sorted_split) auto
  moreover have "fold (rename_in (renames_above v k a)) (sorted_list_of_set ?A) =
      fold (rename_in (renames_above (pushed_at b v) k a)) (sorted_list_of_set ?A)"
    using A by (intro fold_rename_cong) (simp add: rename_in_pushed)
  moreover have "fold (rename_in (renames_above v k a)) (sorted_list_of_set ?B) =
      fold (rename_in (renames_above v k b)) (sorted_list_of_set ?B)"
    using B ab by (intro fold_rename_cong) (auto simp: rename_in_above)
  ultimately show ?thesis by (simp add: fold_renames_def Let_def)
qed

lemma fold_renames_unmoved:
  assumes "\<not> renamed_away v k opt a"
  shows "fold_renames v k opt a = opt"
proof -
  have "rename_in (renames_above v k a) n opt = opt" for n
  proof -
    have "opt \<notin> fst ` set (rev (map (\<lambda>r. (rn_old_option r, rn_new_option r))
        (filter (\<lambda>r. rn_release_no r = n) (renames_above v k a))))"
      using assms by (force simp: renamed_away_def renames_above_def list_ex_iff)
    then have "map_of (rev (map (\<lambda>r. (rn_old_option r, rn_new_option r))
        (filter (\<lambda>r. rn_release_no r = n) (renames_above v k a)))) opt = None"
      unfolding map_of_eq_None_iff .
    then show ?thesis unfolding rename_in_def by (simp only: option.case)
  qed
  then have "fold (rename_in (renames_above v k a)) ns opt = opt" for ns by (induction ns) auto
  then show ?thesis by (simp add: fold_renames_def Let_def)
qed

text \<open>
  C12.  Following the rename log in two steps gives what following it in one gives: an option followed by the
  log as it was when release \<open>b\<close> was pushed, then from \<open>b\<close> on, lands where following all releases after \<open>a\<close>
  lands.  So a proposal ends on the same option however many pushes each reconcile saw.
\<close>

theorem fold_renames_composes:
  assumes "a \<le> b"
  shows "fold_renames v question_key opt a =
    fold_renames v question_key (fold_renames (pushed_at b v) question_key opt a) b"
  using assms by (rule renames_compose)

section \<open>What the document's reading guarantees\<close>

definition vocabulary_ok :: "scoring_vocabulary \<Rightarrow> bool" where
  "vocabulary_ok v \<longleftrightarrow>
     distinct (map fst (sv_questions v)) \<and> (\<forall>(k, q)\<in>set (sv_questions v). vq_key q = k) \<and>
     distinct (map fst (sv_tags v)) \<and> (\<forall>(s, e)\<in>set (sv_tags v). re_slug e = s) \<and>
     distinct (map fst (sv_option_tags v)) \<and>
     sv_mapped_tags v = remdups (concat (map snd (sv_option_tags v)))"

lemma update_fresh: "k \<notin> fst ` set d \<Longrightarrow> AList.update k x d = d @ [(k, x)]"
  by (induction d) auto

lemma assign_all_distinct:
  assumes "distinct (map fst kvs)" shows "assign_all kvs = kvs"
proof -
  have "distinct (map fst (d @ kvs)) \<Longrightarrow> fold (\<lambda>(k, x) d. AList.update k x d) kvs d = d @ kvs" for d
    by (induction kvs arbitrary: d) (auto simp: update_fresh)
  from this [of "[]"] assms show ?thesis by (simp add: assign_all_def)
qed

lemma assign_all_keys:
  assumes "\<forall>(k, x)\<in>set kvs. P k x"
  shows "distinct (map fst (assign_all kvs)) \<and> (\<forall>(k, x)\<in>set (assign_all kvs). P k x)"
proof -
  have "distinct (map fst (fold (\<lambda>(k, x) d. AList.update k x d) kvs d)) \<and>
      (\<forall>(k, x)\<in>set (fold (\<lambda>(k, x) d. AList.update k x d) kvs d). P k x)"
    if "distinct (map fst d)" "\<forall>(k, x)\<in>set d. P k x" for d
    using that assms
  proof (induction kvs arbitrary: d)
    case (Cons kx kvs)
    obtain k x where kx: "kx = (k, x)" by force
    have "\<forall>(k', x')\<in>set (AList.update k x d). P k' x'"
      using Cons.prems by (induction d) (auto simp: kx)
    moreover have "distinct (map fst (AList.update k x d))" using Cons.prems(1) by (rule distinct_update)
    ultimately have "distinct (map fst (fold (\<lambda>(k, x) d. AList.update k x d) kvs (AList.update k x d))) \<and>
      (\<forall>(k, x)\<in>set (fold (\<lambda>(k, x) d. AList.update k x d) kvs (AList.update k x d)). P k x)"
      using Cons.prems(3) by (intro Cons.IH) auto
    then show ?case by (simp add: kx)
  qed simp
  from this [of "[]"] show ?thesis by (simp add: assign_all_def)
qed

lemma parse_vocabulary_ok:
  assumes "parse_vocabulary row = Some v" shows "vocabulary_ok v"
proof -
  from assms obtain qs ts ps rs where v: "v = \<lparr>sv_release_no = vr_release_no row, sv_map_version = vr_map_version row,
           sv_scoring_version = vr_scoring_version row,
           sv_questions = assign_all (map (\<lambda>q. (vq_key q, q)) qs),
           sv_tags = assign_all (map (\<lambda>e. (re_slug e, e)) ts),
           sv_option_tags = assign_all ps, sv_renamed = rs,
           sv_mapped_tags = remdups (concat (map snd (assign_all ps)))\<rparr>"
    by (auto simp: parse_vocabulary_def Let_def bind_eq_Some_conv)
  have "\<forall>(k, q)\<in>set (map (\<lambda>q. (vq_key q, q)) qs). vq_key q = k"
    "\<forall>(s, e)\<in>set (map (\<lambda>e. (re_slug e, e)) ts). re_slug e = s" by auto
  note keys = assign_all_keys [OF this(1)] assign_all_keys [OF this(2)]
  have "\<forall>(k, x)\<in>set ps. True" by auto
  from assign_all_keys [of ps "\<lambda>_ _. True", OF this] keys show ?thesis
    unfolding vocabulary_ok_def v by simp
qed

section \<open>A push is read back\<close>

lemmas doc_access = get_or_def get_default_def doc_item_def

lemma map_results_map: "(\<And>x. x \<in> set xs \<Longrightarrow> f (g x) = Some (h x)) \<Longrightarrow> map_results f (map g xs) = Some (map h xs)"
  by (induction xs) auto

text \<open>The stored form of an object is read as the object was.\<close>

lemma jsonb_keys_map_of:
  assumes "distinct (map fst kvs)" shows "map_of (jsonb_keys kvs) = map_of kvs"
proof (rule map_of_eqI)
  show "set (map fst (jsonb_keys kvs)) = set (map fst kvs)" by (simp add: jsonb_keys_def)
  have "mset (map fst (jsonb_keys kvs)) = mset (map fst kvs)" by (simp add: jsonb_keys_def)
  then have "distinct (map fst (jsonb_keys kvs))" using assms mset_eq_imp_distinct_iff by blast
  moreover have "set (jsonb_keys kvs) = set kvs" by (simp add: jsonb_keys_def)
  ultimately show "\<forall>k\<in>set (map fst (jsonb_keys kvs)). map_of (jsonb_keys kvs) k = map_of kvs k"
    using assms by (auto simp: map_of_eq_Some_iff)
qed

lemma sort_key_of_map: "sort_key f (map g xs) = map g (sort_key (\<lambda>x. f (g x)) xs)"
proof -
  have "insort_key f (g x) (map g ys) = map g (insort_key (\<lambda>x. f (g x)) x ys)" for x ys by (induction ys) auto
  then show ?thesis by (induction xs) simp_all
qed

lemma jsonb_keys_map: "jsonb_keys (map (\<lambda>(k, x). (k, f x)) kvs) = map (\<lambda>(k, x). (k, f x)) (jsonb_keys kvs)"
  by (simp add: jsonb_keys_def sort_key_of_map comp_def case_prod_beta)

lemma jsonb_itemsD:
  assumes "jsonb_items (map g xs) = Some ys" "\<And>x y. x \<in> set xs \<Longrightarrow> jsonb (g x) = Some y \<Longrightarrow> f y = Some (h x)"
  shows "map_results f ys = Some (map h xs)"
  using assms
proof (induction xs arbitrary: ys)
  case (Cons x xs)
  then obtain z zs where z: "jsonb (g x) = Some z" "jsonb_items (map g xs) = Some zs" "ys = z # zs"
    by (auto split: option.splits)
  have "f z = Some (h x)" using z(1) by (intro Cons.prems(2)) simp_all
  moreover have "map_results f zs = Some (map h xs)" using z(2) Cons.prems(2) by (intro Cons.IH) simp_all
  ultimately show ?case unfolding z(3) by simp
qed simp

lemma jsonb_strings: "jsonb (doc_strings xs) = Some y \<Longrightarrow> y = doc_strings xs"
proof -
  have "jsonb_items (map DStr xs) = Some ys \<Longrightarrow> ys = map DStr xs" for ys
    by (induction xs arbitrary: ys) (auto split: if_splits)
  then show "jsonb (doc_strings xs) = Some y \<Longrightarrow> y = doc_strings xs" by (auto simp: doc_strings_def)
qed

lemma jsonb_opt:
  "jsonb (doc_opt DStr t) = Some y \<Longrightarrow> y = doc_opt DStr t"
  "jsonb (doc_opt DInt c) = Some y \<Longrightarrow> y = doc_opt DInt c"
  by (auto simp: doc_opt_def split: option.splits if_splits)

lemma jsonb_deductions:
  "jsonb (DObj (map (\<lambda>(k, n). (k, DInt n)) ds)) = Some y \<Longrightarrow> y = DObj (map (\<lambda>(k, n). (k, DInt n)) (jsonb_keys ds))"
proof -
  have "jsonb_fields (map (\<lambda>(k, n). (k, DInt n)) ds) = Some fs \<Longrightarrow> fs = map (\<lambda>(k, n). (k, DInt n)) ds" for fs
    by (induction ds arbitrary: fs) (auto split: if_splits)
  then show "jsonb (DObj (map (\<lambda>(k, n). (k, DInt n)) ds)) = Some y \<Longrightarrow>
      y = DObj (map (\<lambda>(k, n). (k, DInt n)) (jsonb_keys ds))" by (auto simp: jsonb_keys_map)
qed

lemma stored_get:
  assumes "jsonb (DObj kvs) = Some y"
  shows "\<exists>fs. jsonb_fields kvs = Some fs \<and> (distinct (map fst fs) \<longrightarrow> (\<forall>k. doc_get k y = Some (map_of fs k)))"
  using assms by (auto simp: jsonb_keys_map_of)

lemma parse_doc_strings: "parse_strings (doc_strings xs) = Some xs"
  using map_results_map [of xs py_str DStr "\<lambda>x. x"] by (simp add: parse_strings_def doc_strings_def)

text \<open>What is read of a pushed question.\<close>

definition read_question :: "pushed_question \<Rightarrow> vocab_question" where
  "read_question q = \<lparr>vq_key = pq_key q, vq_prompt = pq_prompt q, vq_type = pq_type q, vq_options = pq_options q,
     vq_deductions = (case pq_deductions q of None \<Rightarrow> [] | Some ds \<Rightarrow> jsonb_keys ds), vq_cap = pq_cap q\<rparr>"

lemma read_question_key [simp]: "vq_key (read_question q) = pq_key q"
  by (simp add: read_question_def)

lemma stored_question:
  assumes "jsonb (dump_question q) = Some y" shows "parse_question y = Some (read_question q)"
proof -
  from stored_get [OF assms [unfolded dump_question_def]] obtain fs where
    fs: "jsonb_fields [(''key'', DStr (pq_key q)), (''prompt'', DStr (pq_prompt q)), (''type'', doc_opt DStr (pq_type q)),
      (''options'', doc_strings (pq_options q)),
      (''deductions'', doc_opt (\<lambda>ds. DObj (map (\<lambda>(k, n). (k, DInt n)) ds)) (pq_deductions q)),
      (''cap'', doc_opt DInt (pq_cap q))] = Some fs"
    and get: "distinct (map fst fs) \<longrightarrow> (\<forall>k. doc_get k y = Some (map_of fs k))" by blast
  from fs obtain d where d: "jsonb (doc_opt (\<lambda>ds. DObj (map (\<lambda>(k, n). (k, DInt n)) ds)) (pq_deductions q)) = Some d"
    "fs = [(''key'', DStr (pq_key q)), (''prompt'', DStr (pq_prompt q)), (''type'', doc_opt DStr (pq_type q)),
      (''options'', doc_strings (pq_options q)), (''deductions'', d), (''cap'', doc_opt DInt (pq_cap q))]"
    by (auto dest!: jsonb_opt jsonb_strings split: option.splits if_splits)
  have items: "map_results (\<lambda>(k, d). map_option (Pair k) (py_int d)) (map (\<lambda>(k, n). (k, DInt n)) ds) = Some ds" for ds
    using map_results_map [of ds "\<lambda>(k, d). map_option (Pair k) (py_int d)" "\<lambda>(k, n). (k, DInt n)" "\<lambda>x. x"] by auto
  have some: "doc_items (if truthy (DObj kvs) then DObj kvs else DObj []) = Some kvs" for kvs by simp
  have get': "doc_get k y = Some (map_of fs k)" for k using get d(2) by simp
  have opt: "(if doc_opt DStr t = DNull then Some None else map_option Some (py_str (doc_opt DStr t))) = Some t"
    "(if doc_opt DInt c = DNull then Some None else map_option Some (py_int (doc_opt DInt c))) = Some c" for t c
    by (cases t; simp add: doc_opt_def) (cases c; simp add: doc_opt_def)
  show ?thesis
  proof (cases "pq_deductions q")
    case None
    then have "d = DNull" using d(1) by (simp add: doc_opt_def)
    then show ?thesis unfolding parse_question_def doc_access get' d(2) read_question_def
      by (simp add: None opt parse_doc_strings)
  next
    case (Some ds)
    then have "d = DObj (map (\<lambda>(k, n). (k, DInt n)) (jsonb_keys ds))"
      using d(1) jsonb_deductions by (simp add: doc_opt_def del: jsonb.simps)
    then show ?thesis unfolding parse_question_def doc_access get' d(2) read_question_def
      by (simp add: Some opt parse_doc_strings some items del: truthy.simps)
  qed
qed

lemma stored_tag:
  assumes "jsonb (dump_tag e) = Some y" shows "parse_tag y = Some e"
proof -
  from stored_get [OF assms [unfolded dump_tag_def]] obtain fs where
    "jsonb_fields [(''slug'', DStr (re_slug e)), (''label'', DStr (re_label e)), (''description'', DStr (re_description e)),
      (''kind'', DStr (re_kind e)), (''retired'', DBool (re_retired e))] = Some fs"
    and get: "distinct (map fst fs) \<longrightarrow> (\<forall>k. doc_get k y = Some (map_of fs k))" by blast
  then have fs: "fs = [(''slug'', DStr (re_slug e)), (''label'', DStr (re_label e)), (''description'', DStr (re_description e)),
      (''kind'', DStr (re_kind e)), (''retired'', DBool (re_retired e))]"
    by (auto split: option.splits if_splits)
  have get': "doc_get k y = Some (map_of fs k)" for k using get fs by simp
  show ?thesis unfolding parse_tag_def doc_access get' fs by simp
qed

lemma stored_option_tags:
  assumes "jsonb (dump_option_tags p) = Some y" shows "parse_option_tags y = Some p"
proof -
  obtain key opt tags where p: "p = ((key, opt), tags)" by (metis prod.collapse)
  from stored_get [OF assms [unfolded dump_option_tags_def p prod.case]] obtain fs where
    "jsonb_fields [(''question_key'', DStr key), (''option'', DStr opt), (''tags'', doc_strings tags)] = Some fs"
    and get: "distinct (map fst fs) \<longrightarrow> (\<forall>k. doc_get k y = Some (map_of fs k))" by blast
  then have fs: "fs = [(''question_key'', DStr key), (''option'', DStr opt), (''tags'', doc_strings tags)]"
    by (auto dest!: jsonb_strings split: option.splits if_splits)
  have get': "doc_get k y = Some (map_of fs k)" for k using get fs by simp
  have "parse_strings (if truthy (doc_strings tags) then doc_strings tags else DArr []) = Some tags"
    using parse_doc_strings by (cases tags) (auto simp: doc_strings_def parse_strings_def)
  then show ?thesis unfolding parse_option_tags_def doc_access get' fs p by simp
qed

lemma stored_rename:
  assumes "jsonb (dump_rename r) = Some y" shows "parse_rename y = Some r"
proof -
  from stored_get [OF assms [unfolded dump_rename_def]] obtain fs where
    "jsonb_fields [(''release_no'', DInt (rn_release_no r)), (''question_key'', DStr (rn_question_key r)),
      (''old_option'', DStr (rn_old_option r)), (''new_option'', DStr (rn_new_option r))] = Some fs"
    and get: "distinct (map fst fs) \<longrightarrow> (\<forall>k. doc_get k y = Some (map_of fs k))" by blast
  then have fs: "fs = [(''release_no'', DInt (rn_release_no r)), (''question_key'', DStr (rn_question_key r)),
      (''old_option'', DStr (rn_old_option r)), (''new_option'', DStr (rn_new_option r))]"
    by (auto split: option.splits if_splits)
  have get': "doc_get k y = Some (map_of fs k)" for k using get fs by simp
  show ?thesis unfolding parse_rename_def doc_access get' fs by simp
qed

lemma stored_section:
  assumes "doc_get name document = Some (Some d)" "jsonb (DArr (map g xs)) = Some d"
    and "\<And>x y. x \<in> set xs \<Longrightarrow> jsonb (g x) = Some y \<Longrightarrow> f y = Some (h x)"
  shows "parse_section name f document = Some (map h xs)"
proof -
  obtain ys where ys: "jsonb_items (map g xs) = Some ys" "d = DArr ys" using assms(2) by auto
  have "map_results f ys = Some (map h xs)" using jsonb_itemsD [OF ys(1)] assms(3) .
  then show ?thesis using assms(1) ys by (cases ys) (auto simp: parse_section_def get_or_def)
qed

lemma parse_stored:
  assumes "jsonb (dump_document d) = Some y"
  shows "parse_section ''questions'' parse_question y = Some (map read_question (vd_questions d))"
    "parse_section ''tags'' parse_tag y = Some (vd_tags d)"
    "parse_section ''option_tags'' parse_option_tags y = Some (vd_option_tags d)"
    "parse_section ''renamed'' parse_rename y = Some (vd_renamed d)"
proof -
  from stored_get [OF assms [unfolded dump_document_def]] obtain fs where
    fs: "jsonb_fields [(''tags'', DArr (map dump_tag (vd_tags d))), (''option_tags'', DArr (map dump_option_tags (vd_option_tags d))),
      (''renamed'', DArr (map dump_rename (vd_renamed d))),
      (''questions'', DArr (map dump_question (vd_questions d))), (''dynamic'', doc_opt DObj (vd_dynamic d))] = Some fs"
    and get: "distinct (map fst fs) \<longrightarrow> (\<forall>k. doc_get k y = Some (map_of fs k))" by blast
  from fs obtain a b c q e where abc: "jsonb (DArr (map dump_tag (vd_tags d))) = Some a"
    "jsonb (DArr (map dump_option_tags (vd_option_tags d))) = Some b" "jsonb (DArr (map dump_rename (vd_renamed d))) = Some c"
    "jsonb (DArr (map dump_question (vd_questions d))) = Some q"
    and fs': "fs = [(''tags'', a), (''option_tags'', b), (''renamed'', c), (''questions'', q), (''dynamic'', e)]"
    by (auto simp del: jsonb.simps split: option.splits if_splits)
  have get': "doc_get k y = Some (map_of fs k)" for k using get fs' by simp
  show "parse_section ''questions'' parse_question y = Some (map read_question (vd_questions d))"
    by (rule stored_section [OF _ abc(4)]) (simp_all add: get' fs' stored_question)
  have "parse_section ''tags'' parse_tag y = Some (map (\<lambda>e. e) (vd_tags d))"
    by (rule stored_section [OF _ abc(1)]) (simp_all add: get' fs' stored_tag)
  then show "parse_section ''tags'' parse_tag y = Some (vd_tags d)" by simp
  have "parse_section ''option_tags'' parse_option_tags y = Some (map (\<lambda>e. e) (vd_option_tags d))"
    by (rule stored_section [OF _ abc(2)]) (simp_all add: get' fs' stored_option_tags)
  then show "parse_section ''option_tags'' parse_option_tags y = Some (vd_option_tags d)" by simp
  have "parse_section ''renamed'' parse_rename y = Some (map (\<lambda>e. e) (vd_renamed d))"
    by (rule stored_section [OF _ abc(3)]) (simp_all add: get' fs' stored_rename)
  then show "parse_section ''renamed'' parse_rename y = Some (vd_renamed d)" by simp
qed

lemma map_of_assign_all: "map_of (assign_all kvs) = map_of (rev kvs)"
proof (induction kvs rule: rev_induct)
  case (snoc kx kvs)
  then show ?case by (cases kx) (simp add: assign_all_def update_conv')
qed (simp add: assign_all_def)

text \<open>The last question of a push with a key, if any.\<close>

definition pushed_question_of :: "pushed_document \<Rightarrow> string \<Rightarrow> pushed_question option" where
  "pushed_question_of d k = find (\<lambda>q. pq_key q = k) (rev (vd_questions d))"

lemma find_mem: "find P xs = Some x \<Longrightarrow> x \<in> set xs"
  by (induction xs) (auto split: if_splits)

lemma map_of_keyed: "map_of (map (\<lambda>x. (f x, g x)) xs) k = map_option g (find (\<lambda>x. f x = k) xs)"
  by (induction xs) auto

lemma mapped_tags_of:
  "set (concat (map snd (assign_all ps))) = (\<Union>c. case map_of (rev ps) c of None \<Rightarrow> {} | Some ts \<Rightarrow> set ts)"
proof -
  have "distinct (map fst (assign_all ps))" using assign_all_keys [of ps "\<lambda>_ _. True"] by auto
  then have "(c, ts) \<in> set (assign_all ps) \<longleftrightarrow> map_of (rev ps) c = Some ts" for c ts
    using map_of_eq_Some_iff [of "assign_all ps" c ts] by (simp add: map_of_assign_all)
  then show ?thesis by (force split: option.splits)
qed


section \<open>What a live cell is\<close>

lemma cell_problem_None:
  "cell_problem v k opt current delta = None \<longleftrightarrow>
     (\<exists>q. question v k = Some q \<and> question_mutable q \<and> deduction v k opt = Some current \<and>
        delta \<noteq> 0 \<and> WEIGHT_DELTA_MIN \<le> delta \<and> delta \<le> WEIGHT_DELTA_MAX \<and>
        DEDUCTION_MIN \<le> current + delta \<and> current + delta \<le> DEDUCTION_MAX \<and>
        (\<forall>cap. vq_cap q = Some cap \<longrightarrow> current + delta \<le> cap))"
  by (auto simp: cell_problem_def split: option.splits if_splits)

definition cell_mismatch :: "cell_problem_code option \<Rightarrow> bool" where
  "cell_mismatch p \<longleftrightarrow> p \<in> {Some Unknown_question, Some Not_mutable, Some Unknown_option, Some Current_mismatch}"

lemma cell_mismatch_stale: "cell_mismatch (cell_problem v k opt current delta) \<longleftrightarrow> stale_reason v k opt current r \<noteq> None"
  by (auto simp: cell_mismatch_def cell_problem_def stale_reason_def deduction_def split: option.splits if_splits)

lemma unregistered_or_retired:
  "membership_problems added reg = ([], []) \<longleftrightarrow> set added \<subseteq> set (tr_active reg) - set (tr_retired reg)"
  by (auto simp: membership_problems_def filter_empty_conv)

text \<open>
  C14.  The check of a decision (\<^verbatim>\<open>cell_problem\<close>) and \<^verbatim>\<open>stale_reason\<close> read a cell alike, whatever the
  release a proposal was generated at: a change is refused for its cell (question gone, not mutable, option
  gone, deduction moved) exactly when \<^verbatim>\<open>stale_reason\<close> names a reason.  A change has no problem exactly when
  no reason is named, its delta is not zero and within its bounds, and the result lies in the deduction range
  and under the question's cap if it has one.  Once published (the live deduction being its result) a change
  with a non-zero delta is one of a moved cell.
\<close>

theorem stale_iff_cell_refused:
  "(stale_reason v k opt current r \<noteq> None \<longleftrightarrow> cell_mismatch (cell_problem v k opt current delta)) \<and>
   (cell_problem v k opt current delta = None \<longleftrightarrow>
      stale_reason v k opt current r = None \<and> delta \<noteq> 0 \<and> delta \<in> {WEIGHT_DELTA_MIN..WEIGHT_DELTA_MAX} \<and>
      current + delta \<in> {DEDUCTION_MIN..DEDUCTION_MAX} \<and>
      (\<forall>q cap. question v k = Some q \<longrightarrow> vq_cap q = Some cap \<longrightarrow> current + delta \<le> cap)) \<and>
   (published_unacknowledged v k opt current delta \<longrightarrow> delta \<noteq> 0 \<longrightarrow>
      stale_reason v k opt current r \<noteq> None)"
proof (intro conjI impI)
  show "stale_reason v k opt current r \<noteq> None \<longleftrightarrow> cell_mismatch (cell_problem v k opt current delta)"
    using cell_mismatch_stale by blast
next
  have "stale_reason v k opt current r = None \<longleftrightarrow>
      (\<exists>q. question v k = Some q \<and> question_mutable q \<and> deduction v k opt = Some current)"
    by (auto simp: stale_reason_def split: option.splits if_splits)
  then show "cell_problem v k opt current delta = None \<longleftrightarrow>
      stale_reason v k opt current r = None \<and> delta \<noteq> 0 \<and> delta \<in> {WEIGHT_DELTA_MIN..WEIGHT_DELTA_MAX} \<and>
      current + delta \<in> {DEDUCTION_MIN..DEDUCTION_MAX} \<and>
      (\<forall>q cap. question v k = Some q \<longrightarrow> vq_cap q = Some cap \<longrightarrow> current + delta \<le> cap)"
    unfolding cell_problem_None by auto
next
  assume "published_unacknowledged v k opt current delta" "delta \<noteq> 0"
  then show "stale_reason v k opt current r \<noteq> None"
    by (auto simp: published_unacknowledged_def stale_reason_def split: option.splits)
qed

section \<open>A small quiz\<close>

definition small_quiz :: scoring_vocabulary where
  "small_quiz =
     \<lparr>sv_release_no = 6, sv_map_version = 1, sv_scoring_version = ''s6'',
      sv_questions = [(''apps'', \<lparr>vq_key = ''apps'', vq_prompt = ''Which apps?'', vq_type = Some ''mutable'',
         vq_options = [''A'', ''C''], vq_deductions = [(''A'', 3), (''C'', 5)], vq_cap = Some 8\<rparr>)],
      sv_tags = [(''x_twitter'', \<lparr>re_slug = ''x_twitter'', re_label = ''X (Twitter)'', re_description = '''',
         re_retired = False, re_kind = ''platform''\<rparr>)],
      sv_option_tags = [((''apps'', ''A''), [''x_twitter''])],
      sv_renamed = [\<lparr>rn_release_no = 5, rn_question_key = ''apps'', rn_old_option = ''A'', rn_new_option = ''B''\<rparr>,
        \<lparr>rn_release_no = 5, rn_question_key = ''apps'', rn_old_option = ''B'', rn_new_option = ''A''\<rparr>,
        \<lparr>rn_release_no = 6, rn_question_key = ''apps'', rn_old_option = ''B'', rn_new_option = ''C''\<rparr>],
      sv_mapped_tags = [''x_twitter'']\<rparr>"

theorem fold_renames_composes_witness:
  "fold_renames small_quiz ''apps'' ''A'' 4 = ''C'' \<and>
   fold_renames small_quiz ''apps'' (fold_renames (pushed_at 5 small_quiz) ''apps'' ''A'' 4) 5 = ''C''"
proof -
  have "fold_renames small_quiz ''apps'' ''A'' 4 = ''C''" by code_simp
  with fold_renames_composes [of 4 5 small_quiz "''apps''" "''A''"] show ?thesis by simp
qed

definition small_push :: vocabulary_request where
  "small_push =
     \<lparr>rq_release_no = 7, rq_map_version = 2, rq_scoring_version = ''s7'', rq_quiz_version = ''q7'',
      rq_document = \<lparr>vd_tags = [\<lparr>re_slug = ''x_twitter'', re_label = ''X'', re_description = '''', re_retired = False,
          re_kind = ''platform''\<rparr>],
        vd_option_tags = [((''apps'', ''A''), [''x_twitter''])],
        vd_renamed = [\<lparr>rn_release_no = 7, rn_question_key = ''apps'', rn_old_option = ''B'', rn_new_option = ''A''\<rparr>],
        vd_questions = [
          \<lparr>pq_key = ''apps'', pq_prompt = ''Which apps?'', pq_type = Some ''mutable'', pq_options = [''None'', ''A''],
           pq_deductions = Some [(''None'', 0), (''A'', 4)], pq_cap = Some 8\<rparr>,
          \<lparr>pq_key = ''age'', pq_prompt = ''Your age?'', pq_type = None, pq_options = [''18''],
           pq_deductions = None, pq_cap = None\<rparr>],
        vd_dynamic = Some [(''v'', DInt 1)]\<rparr>\<rparr>"


theorem stale_iff_cell_refused_witness:
  "stale_reason small_quiz ''apps'' ''C'' 4 6 = Some Deduction_moved \<and>
   cell_mismatch (cell_problem small_quiz ''apps'' ''C'' 4 1) \<and>
   cell_problem small_quiz ''apps'' ''C'' 5 1 = None \<and> stale_reason small_quiz ''apps'' ''C'' 5 6 = None"
proof -
  have "stale_reason small_quiz ''apps'' ''C'' 4 6 = Some Deduction_moved"
    "cell_problem small_quiz ''apps'' ''C'' 5 1 = None" by code_simp+
  moreover have "question small_quiz ''apps'' \<noteq> None" by code_simp
  ultimately show ?thesis
    using stale_iff_cell_refused [of small_quiz "''apps''" "''C''" 4 6 1]
      stale_iff_cell_refused [of small_quiz "''apps''" "''C''" 5 6 1] by auto
qed

end
