(* ===== verification/Regex.thy ===== *)
theory Regex
  imports Ratelimit
begin

text \<open>
  Python's \<^verbatim>\<open>re\<close> on the patterns the program uses: classes, sequence, ordered choice, greedy bounded
  repetition and word boundaries.  A position is the character before it and what is left; a run lists the
  positions a match may end at, in the order the backtracking matcher tries them, so its head is the match
  \<^verbatim>\<open>re\<close> reports.  \<open>run_sound\<close> and \<open>run_complete\<close> say that the list is exactly the matches of the language.
\<close>

type_synonym pos = "char option \<times> string"

datatype re =
  Eps
| Cls "char \<Rightarrow> bool"
| Sq re re
| Alt re re
| Rep re nat "nat option"
| Bnd "char \<Rightarrow> bool"

text \<open>Greedy repetition: another round before stopping; a round that consumes nothing ends it.\<close>

fun rounds :: "(pos \<Rightarrow> pos list) \<Rightarrow> nat \<Rightarrow> nat \<Rightarrow> nat option \<Rightarrow> pos \<Rightarrow> pos list" where
  "rounds f 0 lo hi p = (if lo = 0 then [p] else [])"
| "rounds f (Suc k) lo hi p =
     (if hi = Some 0 then []
      else concat (map (rounds f k (lo - 1) (map_option (\<lambda>h. h - 1) hi))
             (filter (\<lambda>q. length (snd q) < length (snd p)) (f p))))
     @ (if lo = 0 then [p] else [])"

definition word_at :: "(char \<Rightarrow> bool) \<Rightarrow> char option \<Rightarrow> bool" where
  "word_at w c = (case c of None \<Rightarrow> False | Some x \<Rightarrow> w x)"

definition first_char :: "string \<Rightarrow> char option" where
  "first_char s = (case s of [] \<Rightarrow> None | c # _ \<Rightarrow> Some c)"

primrec run :: "re \<Rightarrow> pos \<Rightarrow> pos list" where
  "run Eps = (\<lambda>p. [p])"
| "run (Cls c) = (\<lambda>p. case snd p of [] \<Rightarrow> [] | x # xs \<Rightarrow> if c x then [(Some x, xs)] else [])"
| "run (Sq a b) = (\<lambda>p. concat (map (run b) (run a p)))"
| "run (Alt a b) = (\<lambda>p. run a p @ run b p)"
| "run (Rep a lo hi) = (\<lambda>p. rounds (run a) (length (snd p)) lo hi p)"
| "run (Bnd w) = (\<lambda>p. if word_at w (fst p) \<noteq> word_at w (first_char (snd p)) then [p] else [])"

text \<open>The first match at or after a position: what precedes it, what it matches, where it ends.\<close>

fun next_match :: "re \<Rightarrow> char option \<Rightarrow> string \<Rightarrow> (string \<times> string \<times> pos) option" where
  "next_match r prev s =
     (case run r (prev, s) of
        q # _ \<Rightarrow> Some ([], take (length s - length (snd q)) s, q)
      | [] \<Rightarrow>
          (case s of [] \<Rightarrow> None
           | c # cs \<Rightarrow> map_option (\<lambda>(gap, m, q). (c # gap, m, q)) (next_match r (Some c) cs)))"

declare next_match.simps [simp del]

definition re_search :: "re \<Rightarrow> string \<Rightarrow> bool" where
  "re_search r s = (next_match r None s \<noteq> None)"

text \<open>
  \<^verbatim>\<open>finditer\<close>: the gaps and matches in order, and the tail.  The patterns of the program match at least one
  character, so the length of the text bounds the number of matches.
\<close>

fun matches_from :: "nat \<Rightarrow> re \<Rightarrow> pos \<Rightarrow> (string \<times> string) list \<times> string" where
  "matches_from 0 r p = ([], snd p)"
| "matches_from (Suc k) r p =
     (case next_match r (fst p) (snd p) of
        None \<Rightarrow> ([], snd p)
      | Some (gap, m, q) \<Rightarrow>
          let (ms, tail) = matches_from k r q in ((gap, m) # ms, tail))"

definition finditer :: "re \<Rightarrow> string \<Rightarrow> (string \<times> string) list \<times> string" where
  "finditer r s = matches_from (length s) r (None, s)"

definition re_sub :: "re \<Rightarrow> (string \<Rightarrow> string) \<Rightarrow> string \<Rightarrow> string" where
  "re_sub r f s = (let (ms, tail) = finditer r s in concat (map (\<lambda>(gap, m). gap @ f m) ms) @ tail)"

section \<open>Building patterns\<close>

primrec lit :: "string \<Rightarrow> re" where
  "lit [] = Eps"
| "lit (c # cs) = Sq (Cls (\<lambda>x. x = c)) (lit cs)"

text \<open>Under \<^verbatim>\<open>IGNORECASE\<close>.\<close>

primrec lit_i :: "string \<Rightarrow> re" where
  "lit_i [] = Eps"
| "lit_i (c # cs) = Sq (Cls (\<lambda>x. lower_char x = lower_char c)) (lit_i cs)"

fun alts :: "re list \<Rightarrow> re" where
  "alts [] = Alt Eps Eps"
| "alts [r] = r"
| "alts (r # rs) = Alt r (alts rs)"

fun seqs :: "re list \<Rightarrow> re" where
  "seqs [] = Eps"
| "seqs [r] = r"
| "seqs (r # rs) = Sq r (seqs rs)"

abbreviation opt_re :: "re \<Rightarrow> re" where "opt_re r \<equiv> Rep r 0 (Some 1)"
abbreviation plus :: "re \<Rightarrow> re" where "plus r \<equiv> Rep r 1 None"
abbreviation many :: "re \<Rightarrow> re" where "many r \<equiv> Rep r 0 None"
abbreviation times :: "nat \<Rightarrow> re \<Rightarrow> re" where "times n r \<equiv> Rep r n (Some n)"

text \<open>\<^verbatim>\<open>\d\<close> and \<^verbatim>\<open>\s\<close> on one-byte characters.\<close>

abbreviation digit :: re where "digit \<equiv> Cls is_digit"

definition re_space :: "char \<Rightarrow> bool" where
  "re_space c \<longleftrightarrow> is_space c \<or> of_char c = (133::nat) \<or> of_char c = (160::nat)"

section \<open>The language\<close>

text \<open>\<open>matches r p q\<close>: read from \<open>p\<close>, the pattern can end at \<open>q\<close>.\<close>

inductive matches :: "re \<Rightarrow> pos \<Rightarrow> pos \<Rightarrow> bool" where
  m_eps: "matches Eps p p"
| m_cls: "c x \<Longrightarrow> matches (Cls c) (prev, x # xs) (Some x, xs)"
| m_seq: "matches a p q \<Longrightarrow> matches b q r \<Longrightarrow> matches (Sq a b) p r"
| m_alt1: "matches a p q \<Longrightarrow> matches (Alt a b) p q"
| m_alt2: "matches b p q \<Longrightarrow> matches (Alt a b) p q"
| m_stop: "matches (Rep a 0 hi) p p"
| m_round: "hi \<noteq> Some 0 \<Longrightarrow> matches a p q \<Longrightarrow> length (snd q) < length (snd p) \<Longrightarrow>
    matches (Rep a (lo - 1) (map_option (\<lambda>h. h - 1) hi)) q r \<Longrightarrow> matches (Rep a lo hi) p r"
| m_bnd: "word_at w (fst p) \<noteq> word_at w (first_char (snd p)) \<Longrightarrow> matches (Bnd w) p p"

inductive_cases match_epsE: "matches Eps p q"
inductive_cases match_clsE: "matches (Cls c) p q"
inductive_cases match_seqE: "matches (Sq a b) p q"
inductive_cases match_altE: "matches (Alt a b) p q"
inductive_cases match_repE: "matches (Rep a lo hi) p q"
inductive_cases match_bndE: "matches (Bnd w) p q"

definition ends :: "(pos \<Rightarrow> pos list) \<Rightarrow> re \<Rightarrow> bool" where
  "ends f r \<longleftrightarrow> (\<forall>p q. q \<in> set (f p) \<longleftrightarrow> matches r p q)"

lemma endsD: "ends f r \<Longrightarrow> q \<in> set (f p) \<longleftrightarrow> matches r p q"
  unfolding ends_def by blast

lemma rounds_sound:
  assumes "ends f a" "q \<in> set (rounds f k lo hi p)"
  shows "matches (Rep a lo hi) p q"
  using assms(2)
proof (induction k arbitrary: lo hi p)
  case 0
  then show ?case by (auto split: if_splits intro: m_stop)
next
  case (Suc k)
  from Suc.prems consider "lo = 0" "q = p"
    | z where "hi \<noteq> Some 0" "z \<in> set (f p)" "length (snd z) < length (snd p)"
        "q \<in> set (rounds f k (lo - 1) (map_option (\<lambda>h. h - 1) hi) z)"
    by (auto split: if_splits)
  then show ?case
  proof cases
    case 1
    then show ?thesis by (simp add: m_stop)
  next
    case (2 z)
    from Suc.IH [OF 2(4)] 2(1,3) show ?thesis
      using assms(1) 2(2) unfolding ends_def by (blast intro: m_round)
  qed
qed

lemma rounds_complete:
  assumes "matches (Rep a lo hi) p q" "ends f a" "length (snd p) \<le> k"
  shows "q \<in> set (rounds f k lo hi p)"
  using assms(1,3)
proof (induction "Rep a lo hi" p q arbitrary: lo hi k rule: matches.induct)
  case (m_stop hi p)
  then show ?case by (cases k) auto
next
  case (m_round hi p q lo r)
  then obtain j where k: "k = Suc j" by (cases k) auto
  have "r \<in> set (rounds f j (lo - 1) (map_option (\<lambda>h. h - 1) hi) q)"
    using m_round.hyps(4) m_round.prems k by (intro m_round.hyps(6)) auto
  moreover have "q \<in> set (f p)" using m_round.hyps(2) endsD [OF assms(2)] by simp
  ultimately have "r \<in> set (concat (map (rounds f j (lo - 1) (map_option (\<lambda>h. h - 1) hi))
      (filter (\<lambda>q. length (snd q) < length (snd p)) (f p))))"
    using m_round.hyps(4) unfolding set_concat set_map set_filter by blast
  then show ?case using m_round.hyps(1) k by simp
qed

lemma run_ends: "ends (run r) r"
proof (induction r)
  case (Cls c)
  show ?case by (auto simp: ends_def split: list.splits elim!: match_clsE intro: m_cls)
next
  case (Sq a b)
  show ?case
    unfolding ends_def
  proof (intro allI)
    fix p q
    have "q \<in> set (run (Sq a b) p) \<longleftrightarrow> (\<exists>z\<in>set (run a p). q \<in> set (run b z))" by simp
    also have "\<dots> \<longleftrightarrow> (\<exists>z. matches a p z \<and> matches b z q)"
      unfolding endsD [OF Sq.IH(1)] endsD [OF Sq.IH(2)] Bex_def by blast
    also have "\<dots> \<longleftrightarrow> matches (Sq a b) p q" by (blast elim: match_seqE intro: m_seq)
    finally show "q \<in> set (run (Sq a b) p) \<longleftrightarrow> matches (Sq a b) p q" .
  qed
next
  case (Alt a b)
  show ?case
    unfolding ends_def run.simps set_append Un_iff endsD [OF Alt.IH(1)] endsD [OF Alt.IH(2)]
    by (blast elim: match_altE intro: m_alt1 m_alt2)
next
  case (Rep a lo hi)
  then show ?case
    using rounds_sound [OF Rep] rounds_complete [OF _ Rep] unfolding ends_def run.simps by blast
next
  case (Bnd w)
  show ?case by (auto simp: ends_def elim!: match_bndE intro: m_bnd)
qed (auto simp: ends_def elim: match_epsE intro: m_eps)

lemma run_matches: "q \<in> set (run r p) \<longleftrightarrow> matches r p q"
  using run_ends [of r] unfolding ends_def by blast

lemma run_None: "run r p = [] \<longleftrightarrow> (\<forall>q. \<not> matches r p q)"
  using run_matches [of _ r p] by (cases "run r p") auto

lemma match_suffix:
  assumes "matches r p q" shows "\<exists>m. snd p = m @ snd q"
  using assms by (induction rule: matches.induct) auto

lemma next_match_splits:
  "next_match r prev s = Some (gap, m, q) \<Longrightarrow> s = gap @ m @ snd q"
proof (induction s arbitrary: prev gap)
  case Nil
  show ?case
  proof (cases "run r (prev, [])")
    case (Cons q' qs)
    then have "matches r (prev, []) q'" using run_matches [of q' r "(prev, [])"] by simp
    then have "snd q' = []" using match_suffix [of r "(prev, [])" q'] by simp
    with Cons Nil.prems show ?thesis by (simp add: next_match.simps [of r prev "[]"])
  qed (use Nil.prems in \<open>simp add: next_match.simps [of r prev "[]"]\<close>)
next
  case (Cons c cs)
  show ?case
  proof (cases "run r (prev, c # cs)")
    case Nil
    with Cons.prems obtain gap' where "next_match r (Some c) cs = Some (gap', m, q)" "gap = c # gap'"
      by (auto simp: next_match.simps [of r prev "c # cs"])
    with Cons.IH show ?thesis by simp
  next
    case (Cons q' qs)
    then have "matches r (prev, c # cs) q'" using run_matches [of q' r "(prev, c # cs)"] by simp
    then obtain m' where m': "c # cs = m' @ snd q'" using match_suffix [of r "(prev, c # cs)" q'] by auto
    then have "take (length (c # cs) - length (snd q')) (c # cs) = m'" by simp
    moreover have "gap = [] \<and> q = q' \<and> m = take (length (c # cs) - length (snd q')) (c # cs)"
      using Cons \<open>next_match r prev (c # cs) = Some (gap, m, q)\<close> by (auto simp: next_match.simps [of r prev "c # cs"])
    ultimately show ?thesis using m' by simp
  qed
qed

lemma matches_from_splits:
  "matches_from k r p = (ms, tail) \<Longrightarrow> snd p = concat (map (\<lambda>(gap, m). gap @ m) ms) @ tail"
proof (induction k arbitrary: p ms tail)
  case (Suc k)
  show ?case
  proof (cases "next_match r (fst p) (snd p)")
    case (Some x)
    obtain gap m q where x: "x = (gap, m, q)" by (metis prod.collapse)
    obtain ms' tail' where ms': "matches_from k r q = (ms', tail')" by force
    from Suc.IH [OF this] next_match_splits [of r "fst p" "snd p" gap m q] Suc.prems Some x ms'
    show ?thesis by auto
  qed (use Suc.prems in auto)
qed auto

lemma no_match_anywhere:
  "next_match r prev s = None \<longleftrightarrow>
     (\<forall>pre suf. s = pre @ suf \<longrightarrow> (\<forall>q. \<not> matches r (if pre = [] then prev else Some (last pre), suf) q))"
proof (induction s arbitrary: prev)
  case Nil
  have "next_match r prev [] = None \<longleftrightarrow> run r (prev, []) = []"
    by (cases "run r (prev, [])") (simp_all add: next_match.simps [of r prev "[]"])
  then show ?case unfolding run_None by auto
next
  case (Cons c cs)
  have here: "next_match r prev (c # cs) = None \<longleftrightarrow>
      (\<forall>q. \<not> matches r (prev, c # cs) q) \<and> next_match r (Some c) cs = None"
    unfolding run_None [symmetric]
    by (cases "run r (prev, c # cs)") (simp_all add: next_match.simps [of r prev "c # cs"])
  have split: "(\<forall>pre suf. c # cs = pre @ suf \<longrightarrow> P pre suf) \<longleftrightarrow>
      P [] (c # cs) \<and> (\<forall>pre suf. cs = pre @ suf \<longrightarrow> P (c # pre) suf)" for P
    by (auto simp: Cons_eq_append_conv)
  have rest: "next_match r (Some c) cs = None \<longleftrightarrow> (\<forall>pre suf. cs = pre @ suf \<longrightarrow>
      (\<forall>q. \<not> matches r (if c # pre = [] then prev else Some (last (c # pre)), suf) q))"
  proof -
    have "(if pre = [] then Some c else Some (last pre)) =
        (if c # pre = [] then prev else Some (last (c # pre)))" for pre :: string by simp
    then show ?thesis unfolding Cons.IH by (simp only:)
  qed
  show ?case
    unfolding split here rest by simp
qed

section \<open>Greedy repetition of a class\<close>

text \<open>The position after \<open>n\<close> characters.\<close>

definition after :: "nat \<Rightarrow> pos \<Rightarrow> pos" where
  "after n p = (if n = 0 then fst p else Some (snd p ! (n - 1)), drop n (snd p))"

definition reach :: "(char \<Rightarrow> bool) \<Rightarrow> nat option \<Rightarrow> string \<Rightarrow> nat" where
  "reach c hi s = (let n = length (takeWhile c s) in case hi of None \<Rightarrow> n | Some h \<Rightarrow> min h n)"

lemma rounds_class:
  assumes "length (snd p) \<le> k"
  shows "rounds (run (Cls c)) k lo hi p = map (\<lambda>n. after n p) (rev [lo..<Suc (reach c hi (snd p))])"
  using assms
proof (induction k arbitrary: lo hi p)
  case 0
  then show ?case by (cases lo; cases p; cases hi) (auto simp: after_def reach_def)
next
  case (Suc k)
  obtain prev s where p: "p = (prev, s)" by force
  have stop: "map (\<lambda>n. after n p) (rev [lo..<Suc 0]) = (if lo = 0 then [p] else [])"
    by (auto simp: after_def p)
  show ?case
  proof (cases "hi = Some 0 \<or> takeWhile c s = []")
    case True
    then have "reach c hi (snd p) = 0" by (auto simp: reach_def p split: option.splits)
    moreover have "hi = Some 0 \<or> run (Cls c) p = []" using True by (cases s) (auto simp: p split: if_splits)
    then have "hi = Some 0 \<or> filter (\<lambda>q. length (snd q) < length (snd p)) (run (Cls c) p) = []" by auto
    then have "rounds (run (Cls c)) (Suc k) lo hi p = (if lo = 0 then [p] else [])"
      unfolding rounds.simps by (elim disjE) (simp_all del: run.simps)
    with calculation stop show ?thesis by simp
  next
    case False
    then obtain x xs where s: "s = x # xs" "c x" by (cases s) (auto split: if_splits)
    let ?hi = "map_option (\<lambda>h. h - 1) hi"
    have reach: "reach c hi s = Suc (reach c ?hi xs)"
      using False s by (cases hi) (auto simp: reach_def min_def Let_def)
    have shift: "after n (Some x, xs) = after (Suc n) p" for n
      by (cases n) (auto simp: after_def p s)
    have "rounds (run (Cls c)) k (lo - 1) ?hi (Some x, xs) =
        map (\<lambda>n. after n (Some x, xs)) (rev [lo - 1..<Suc (reach c ?hi xs)])"
      using Suc.IH [of "(Some x, xs)" "lo - 1" ?hi] Suc.prems p s by simp
    also have "\<dots> = map (\<lambda>n. after n p) (map Suc (rev [lo - 1..<Suc (reach c ?hi xs)]))"
      by (simp only: shift map_map comp_def)
    also have "map Suc (rev [lo - 1..<Suc (reach c ?hi xs)]) = rev [Suc (lo - 1)..<Suc (reach c hi s)]"
      by (simp only: rev_map [symmetric] map_Suc_upt reach)
    finally have "rounds (run (Cls c)) (Suc k) lo hi p =
        map (\<lambda>n. after n p) (rev [Suc (lo - 1)..<Suc (reach c hi s)]) @ (if lo = 0 then [p] else [])"
      using False s by (simp add: p)
    also have "\<dots> = map (\<lambda>n. after n p) (rev [lo..<Suc (reach c hi s)])"
    proof (cases lo)
      case 0
      have "[0..<Suc (reach c hi s)] = 0 # [Suc 0..<Suc (reach c hi s)]" by (simp add: upt_conv_Cons)
      then show ?thesis by (simp add: 0 after_def p)
    qed simp
    finally show ?thesis by (simp add: p)
  qed
qed

lemma run_class: "run (Rep (Cls c) lo hi) p = map (\<lambda>n. after n p) (rev [lo..<Suc (reach c hi (snd p))])"
  unfolding run.simps(5) by (rule rounds_class) simp

text \<open>A character every match contains.\<close>

primrec needs :: "char \<Rightarrow> re \<Rightarrow> bool" where
  "needs c Eps = False"
| "needs c (Cls f) = (\<forall>x. f x \<longrightarrow> x = c)"
| "needs c (Sq a b) = (needs c a \<or> needs c b)"
| "needs c (Alt a b) = (needs c a \<and> needs c b)"
| "needs c (Rep a lo hi) = (lo > 0 \<and> needs c a)"
| "needs c (Bnd w) = False"

lemma needs_matched: "matches r p q \<Longrightarrow> needs c r \<Longrightarrow> c \<in> set (snd p)"
proof (induction rule: matches.induct)
  case (m_seq a p q b r)
  then show ?case using match_suffix [of a p q] by auto
qed auto

lemma needed_search:
  assumes "needs c r" "c \<notin> set s" shows "next_match r prev s = None"
  unfolding no_match_anywhere
proof (intro allI impI notI)
  fix pre suf q assume "s = pre @ suf" "matches r (if pre = [] then prev else Some (last pre), suf) q"
  with assms needs_matched [of r _ q c] show False by fastforce
qed

lemma greedy_first:
  assumes "f m = x # xs" "lo \<le> m" "m \<le> r" "\<forall>n. m < n \<longrightarrow> n \<le> r \<longrightarrow> f n = []"
  shows "\<exists>ys. concat (map f (rev [lo..<Suc r])) = x # ys"
proof -
  have "[lo..<Suc r] = [lo..<m] @ m # [Suc m..<Suc r]"
  proof -
    have "[lo..<Suc r] = [lo..<m] @ [m..<Suc r]" using upt_add_eq_append [of lo m "Suc r - m"] assms(2,3) by simp
    then show ?thesis using assms(3) by (simp add: upt_conv_Cons [of m "Suc r"] del: upt_Suc)
  qed
  moreover have "concat (map f (rev [Suc m..<Suc r])) = []" using assms(4) by auto
  ultimately have "concat (map f (rev [lo..<Suc r])) = x # (xs @ concat (map f (rev [lo..<m])))"
    using assms(1) by (simp only: rev_append rev.simps map_append concat_append list.map concat.simps append_Nil append_assoc append_Cons)
  then show ?thesis by blast
qed

lemma next_match_here: "run r (prev, s) = q # qs \<Longrightarrow> next_match r prev s = Some ([], take (length s - length (snd q)) s, q)"
  by (simp add: next_match.simps [of r prev s])

lemma next_match_skip:
  assumes "\<forall>i<length a. run r (if i = 0 then prev else Some (a ! (i - 1)), drop i a @ s) = []"
    and "next_match r (if a = [] then prev else Some (last a)) s = Some ([], m, q)"
  shows "next_match r prev (a @ s) = Some (a, m, q)"
  using assms
proof (induction a arbitrary: prev)
  case (Cons c cs)
  have "run r (prev, c # cs @ s) = []" using Cons.prems(1) by force
  moreover have "\<forall>i<length cs. run r (if i = 0 then Some c else Some (cs ! (i - 1)), drop i cs @ s) = []"
  proof (intro allI impI)
    fix i assume "i < length cs"
    with Cons.prems(1) [rule_format, of "Suc i"]
    show "run r (if i = 0 then Some c else Some (cs ! (i - 1)), drop i cs @ s) = []"
      by (cases i) auto
  qed
  moreover have "next_match r (if cs = [] then Some c else Some (last cs)) s = Some ([], m, q)"
    using Cons.prems(2) by (simp split: if_splits)
  ultimately show ?case using Cons.IH [of "Some c"] by (simp add: next_match.simps [of r prev "c # cs @ s"])
qed simp

end
