(* ===== verification/Redaction.thy ===== *)
theory Redaction
  imports Regex Prelude
begin

text \<open>
  The phone-number tripwire of the logs (\<^verbatim>\<open>redaction.py\<close>) and the personal-data rule of the likeness
  intelligence's texts (\<^verbatim>\<open>intel/pii.py\<close>), with their patterns as written.

  \<open>lone_number_redacted\<close> says what the tripwire guarantees; \<open>adjacent_numbers_leak\<close> what it does not: a string
  of two numbers with one separator between them is one candidate with too many digits, and both are kept.
\<close>

section \<open>The patterns\<close>

definition phone_sep :: "char \<Rightarrow> bool" where
  "phone_sep c \<longleftrightarrow> is_digit c \<or> c = CHR ''-'' \<or> re_space c \<or> c \<in> set ''().''"

definition candidate_re :: re where
  "candidate_re = seqs [opt_re (lit ''+''), digit, Rep (Cls phone_sep) 4 (Some 18), digit]"

definition iso_datetime_re :: re where
  "iso_datetime_re =
     seqs [times 4 digit, lit ''-'', times 2 digit, lit ''-'', times 2 digit,
       opt_re (seqs [Cls (\<lambda>c. c = CHR ''T'' \<or> c = CHR '' ''), times 2 digit, lit '':'', times 2 digit, lit '':'',
         times 2 digit, opt_re (Sq (lit ''.'') (plus digit)),
         opt_re (Alt (lit ''Z'') (seqs [Cls (\<lambda>c. c = CHR ''+'' \<or> c = CHR ''-''), times 2 digit,
           opt_re (lit '':''), times 2 digit]))])]"

definition is_hex :: "char \<Rightarrow> bool" where
  "is_hex c \<longleftrightarrow> is_digit c \<or> c \<in> set ''abcdefABCDEF''"

definition uuid_re :: re where
  "uuid_re = seqs [times 8 (Cls is_hex), lit ''-'', times 4 (Cls is_hex), lit ''-'', times 4 (Cls is_hex),
     lit ''-'', times 4 (Cls is_hex), lit ''-'', times 12 (Cls is_hex)]"

definition protected_re :: re where
  "protected_re = Alt uuid_re iso_datetime_re"

definition PHONE_REDACTED :: string where
  "PHONE_REDACTED = ''[REDACTED:phone-shaped]''"

section \<open>Redaction\<close>

definition digit_count :: "string \<Rightarrow> nat" where
  "digit_count s = length (filter is_digit s)"

definition redact_candidate :: "string \<Rightarrow> string" where
  "redact_candidate candidate =
     (if 7 \<le> digit_count candidate \<and> digit_count candidate \<le> 15 then PHONE_REDACTED else candidate)"

definition redact_candidates :: "string \<Rightarrow> string" where
  "redact_candidates s = re_sub candidate_re redact_candidate s"

definition redact_string :: "string \<Rightarrow> string" where
  "redact_string s =
     (let (ms, tail) = finditer protected_re s
      in concat (map (\<lambda>(gap, m). redact_candidates gap @ m) ms) @ redact_candidates tail)"

text \<open>Deep redaction of a logged value; the keys of a dictionary and anything that is no text stay.\<close>

fun redact_value :: "json \<Rightarrow> json" where
  "redact_value (JStr s) = JStr (redact_string s)"
| "redact_value (JObj kvs) = JObj (map (\<lambda>(k, v). (k, redact_value v)) kvs)"
| "redact_value (JArr vs) = JArr (map redact_value vs)"
| "redact_value v = v"

definition redact_phone_shapes :: "(string \<times> json) list \<Rightarrow> (string \<times> json) list" where
  "redact_phone_shapes event_dict = map (\<lambda>(k, v). (k, redact_value v)) event_dict"

subsection \<open>Personal data in texts\<close>

definition MASK :: string where
  "MASK = [CHR 0xAB] @ ''masked'' @ [CHR 0xBB]"

definition is_alpha :: "char \<Rightarrow> bool" where
  "is_alpha c \<longleftrightarrow> c \<in> set ''abcdefghijklmnopqrstuvwxyzABCDEFGHIJKLMNOPQRSTUVWXYZ''"

definition email_re :: re where
  "email_re = seqs [plus (Cls (\<lambda>c. is_alpha c \<or> is_digit c \<or> c \<in> set ''._%+-'')), lit ''@'',
     plus (Cls (\<lambda>c. is_alpha c \<or> is_digit c \<or> c \<in> set ''.-'')), lit ''.'', Rep (Cls is_alpha) 2 None]"

definition contains_pii :: "string \<Rightarrow> bool" where
  "contains_pii s \<longleftrightarrow> redact_string s \<noteq> s \<or> re_search email_re s"

text \<open>\<^verbatim>\<open>str.count\<close> and \<^verbatim>\<open>str.replace\<close>: the non-overlapping occurrences from the left.\<close>

definition str_count :: "string \<Rightarrow> string \<Rightarrow> nat" where
  "str_count needle s = length (fst (finditer (lit needle) s))"

definition str_replace :: "string \<Rightarrow> string \<Rightarrow> string \<Rightarrow> string" where
  "str_replace needle new s = re_sub (lit needle) (\<lambda>_. new) s"

definition mask :: "string \<Rightarrow> string \<times> nat" where
  "mask s =
     (let phones_masked = redact_string s;
          count = str_count PHONE_REDACTED phones_masked;
          replaced = str_replace PHONE_REDACTED MASK phones_masked
      in (re_sub email_re (\<lambda>_. MASK) replaced, count + length (fst (finditer email_re replaced))))"

section \<open>What a candidate is\<close>

definition phone_body :: re where
  "phone_body = seqs [digit, Rep (Cls phone_sep) 4 (Some 18), digit]"

lemma candidate_re_body: "candidate_re = Sq (opt_re (lit ''+'')) phone_body"
  by (simp add: candidate_re_def phone_body_def)

lemma run_body:
  "run phone_body (prev, s) =
     (case s of [] \<Rightarrow> []
      | d # xs \<Rightarrow> if is_digit d
          then concat (map (\<lambda>n. run digit (after n (Some d, xs))) (rev [4..<Suc (reach phone_sep (Some 18) xs)]))
          else [])"
proof (cases s)
  case (Cons d xs)
  then show ?thesis
    using run_class [of phone_sep 4 "Some 18" "(Some d, xs)"]
    by (simp add: phone_body_def comp_def del: run.simps(5))
qed (simp add: phone_body_def)

lemma run_digit_after:
  "run digit (after n (p, xs)) = (if n < length xs \<and> is_digit (xs ! n) then [after (Suc n) (p, xs)] else [])"
  by (cases "n < length xs") (auto simp: after_def Cons_nth_drop_Suc [symmetric] simp del: Cons_nth_drop_Suc)

text \<open>The candidate at a digit is the longest that ends at a digit.\<close>

lemma run_body_longest:
  assumes d: "is_digit d" and m: "4 \<le> m" "m \<le> reach phone_sep (Some 18) xs" "m < length xs" "is_digit (xs ! m)"
    and longest: "\<forall>n. m < n \<longrightarrow> n \<le> reach phone_sep (Some 18) xs \<longrightarrow> n < length xs \<longrightarrow> \<not> is_digit (xs ! n)"
  shows "\<exists>qs. run phone_body (prev, d # xs) = (Some (xs ! m), drop (Suc m) xs) # qs"
proof -
  let ?f = "\<lambda>n. run digit (after n (Some d, xs))"
  have "?f m = [(Some (xs ! m), drop (Suc m) xs)]" using m by (simp only: run_digit_after) (simp add: after_def)
  moreover have "\<forall>n. m < n \<longrightarrow> n \<le> reach phone_sep (Some 18) xs \<longrightarrow> ?f n = []"
    using longest by (simp only: run_digit_after) auto
  ultimately have "\<exists>ys. concat (map ?f (rev [4..<Suc (reach phone_sep (Some 18) xs)])) =
      (Some (xs ! m), drop (Suc m) xs) # ys"
    using m by (intro greedy_first [of ?f m _ "[]"]) auto
  with d show ?thesis by (simp add: run_body)
qed

lemma run_candidate:
  "run candidate_re (prev, s) =
     (case s of c # cs \<Rightarrow> (if c = CHR ''+'' then run phone_body (Some c, cs) else []) | [] \<Rightarrow> [])
     @ run phone_body (prev, s)"
proof -
  have "run (opt_re (lit ''+'')) (prev, s) =
      (case s of c # cs \<Rightarrow> (if c = CHR ''+'' then [(Some c, cs)] else []) | [] \<Rightarrow> []) @ [(prev, s)]"
    by (cases s; cases "tl s") auto
  then show ?thesis unfolding candidate_re_body by (cases s) auto
qed

lemma run_body_needs_digit: "run phone_body (prev, s) \<noteq> [] \<Longrightarrow> s \<noteq> [] \<and> is_digit (hd s)"
  by (auto simp: run_body split: list.splits if_splits)

lemma plus_no_digit: "\<not> is_digit (CHR ''+'')"
  by (simp add: is_digit_def)

lemma no_candidate_here:
  assumes "s = [] \<or> \<not> is_digit (hd s)"
    and "\<not> (\<exists>cs. s = CHR ''+'' # cs \<and> cs \<noteq> [] \<and> is_digit (hd cs))"
  shows "run candidate_re (prev, s) = []"
  using assms run_body_needs_digit [of prev s] run_body_needs_digit [of "Some (CHR ''+'')" "tl s"]
  by (cases s) (auto simp: run_candidate)

lemma no_candidate_without_digits:
  assumes "\<not> list_ex is_digit s" shows "next_match candidate_re prev s = None"
  using assms
proof (induction s arbitrary: prev)
  case Nil
  then show ?case using no_candidate_here [of "[]" prev] by (simp add: next_match.simps [of _ prev "[]"])
next
  case (Cons c cs)
  have "run candidate_re (prev, c # cs) = []"
    using Cons.prems by (intro no_candidate_here) (cases cs; auto)+
  with Cons show ?case by (simp add: next_match.simps [of _ prev "c # cs"])
qed

text \<open>The whole text when it holds one candidate, and no digit around it.\<close>

lemma one_candidate:
  assumes a: "\<not> list_ex is_digit a" and plus: "hd s = CHR ''+'' \<or> a = [] \<or> last a \<noteq> CHR ''+''"
    and s: "s = num @ b" "num \<noteq> []" "run candidate_re (if a = [] then None else Some (last a), s) = q # qs" "snd q = b"
    and b: "\<not> list_ex is_digit b"
  shows "finditer candidate_re (a @ s) = ([(a, num)], b)"
proof -
  have "run candidate_re (if i = 0 then None else Some (a ! (i - 1)), drop i a @ s) = []" if i: "i < length a" for i
  proof (rule no_candidate_here)
    obtain c cs where c: "drop i a = c # cs" using i by (cases "drop i a") auto
    have inA: "set (c # cs) \<subseteq> set a" using c set_drop_subset [of i a] by simp
    then show "drop i a @ s = [] \<or> \<not> is_digit (hd (drop i a @ s))"
      using a c by (auto simp: list_ex_iff)
    show "\<not> (\<exists>cs'. drop i a @ s = CHR ''+'' # cs' \<and> cs' \<noteq> [] \<and> is_digit (hd cs'))"
    proof
      assume "\<exists>cs'. drop i a @ s = CHR ''+'' # cs' \<and> cs' \<noteq> [] \<and> is_digit (hd cs')"
      then have e: "c = CHR ''+''" "is_digit (hd (cs @ s))" using c by auto
      with inA a have "cs = []" by (cases cs) (auto simp: list_ex_iff)
      moreover have "last a = last (drop i a)" using i by simp
      ultimately have "last a = CHR ''+''" using c e(1) by simp
      with plus i \<open>cs = []\<close> e(2) plus_no_digit show False by auto
    qed
  qed
  moreover have "next_match candidate_re (if a = [] then None else Some (last a)) s = Some ([], num, q)"
    using next_match_here [OF s(3)] s(1,4) by simp
  ultimately have first: "next_match candidate_re None (a @ s) = Some (a, num, q)"
    by (intro next_match_skip) auto
  obtain k where k: "length (a @ s) = Suc k" using s(1,2) by (cases "length (a @ s)") auto
  have "matches_from k candidate_re q = ([], b)"
    using no_candidate_without_digits [OF b, of "fst q"] s(4) by (cases k) simp_all
  then show ?thesis unfolding finditer_def k using first by simp
qed

definition phone_number :: "string \<Rightarrow> bool" where
  "phone_number core \<longleftrightarrow> 6 \<le> length core \<and> length core \<le> 20 \<and> is_digit (hd core) \<and> is_digit (last core) \<and>
     list_all phone_sep core \<and> 7 \<le> digit_count core \<and> digit_count core \<le> 15"

lemma run_body_number:
  assumes "phone_number core" "\<not> list_ex is_digit b"
  shows "\<exists>qs. run phone_body (prev, core @ b) = (Some (last core), b) # qs"
proof -
  have len: "6 \<le> length core" "length core \<le> 20" using assms(1) by (auto simp: phone_number_def)
  obtain d xs where core: "core = d # xs" using len by (cases core) auto
  have all: "list_all phone_sep xs" "is_digit d" "is_digit (last core)"
    using assms(1) core by (auto simp: phone_number_def)
  define m where "m = length xs - 1"
  have m: "4 \<le> m" "m < length xs" "m \<le> 18" using len core by (auto simp: m_def)
  have last: "xs ! m = last core" using m core by (cases xs) (auto simp: m_def last_conv_nth)
  have "length xs \<le> length (takeWhile phone_sep (xs @ b))"
    using all(1) by (simp add: takeWhile_append list_all_iff)
  then have reach: "m \<le> reach phone_sep (Some 18) (xs @ b)" using m by (simp add: reach_def Let_def)
  have "\<not> is_digit ((xs @ b) ! n)" if "m < n" "n < length (xs @ b)" for n
  proof -
    have "(xs @ b) ! n \<in> set b" using that m by (auto simp: nth_append m_def)
    with assms(2) show ?thesis by (auto simp: list_ex_iff)
  qed
  then have "\<exists>qs. run phone_body (prev, d # (xs @ b)) = (Some ((xs @ b) ! m), drop (Suc m) (xs @ b)) # qs"
    using all m last reach by (intro run_body_longest) (auto simp: nth_append)
  moreover have "Suc m = length xs" using m by (simp add: m_def)
  ultimately show ?thesis using core m last by (simp add: nth_append)
qed

lemma sub_one: "finditer r s = ([(a, num)], b) \<Longrightarrow> re_sub r f s = a @ f num @ b"
  by (simp add: re_sub_def)

lemma lone_number:
  assumes num: "phone_number core" "p \<in> {[], ''+''}" and a: "\<not> list_ex is_digit a"
    and plus: "p = ''+'' \<or> a = [] \<or> last a \<noteq> CHR ''+''" and b: "\<not> list_ex is_digit b"
  shows "redact_candidates (a @ p @ core @ b) = a @ PHONE_REDACTED @ b"
proof -
  let ?prev = "if a = [] then None else Some (last a)"
  have core: "core \<noteq> []" "is_digit (hd core)" using num(1) by (auto simp: phone_number_def)
  have "\<exists>q qs. run candidate_re (?prev, p @ core @ b) = q # qs \<and> snd q = b"
  proof (cases "p = []")
    case True
    then have "hd core \<noteq> CHR ''+''" using core plus_no_digit by auto
    with True core run_body_number [OF num(1) b, of ?prev] show ?thesis
      by (cases core) (auto simp: run_candidate)
  next
    case False
    with num(2) run_body_number [OF num(1) b, of "Some (CHR ''+'')"] show ?thesis
      by (auto simp: run_candidate)
  qed
  then obtain q qs where q: "run candidate_re (?prev, (p @ core) @ b) = q # qs" "snd q = b" by auto
  have "finditer candidate_re (a @ ((p @ core) @ b)) = ([(a, p @ core)], b)"
    using a b q plus core by (intro one_candidate [of a _ "p @ core" b q qs]) auto
  then have "redact_candidates (a @ p @ core @ b) = a @ redact_candidate (p @ core) @ b"
    unfolding redact_candidates_def using sub_one [of candidate_re "a @ ((p @ core) @ b)"] by simp
  moreover have "digit_count (p @ core) = digit_count core"
    using num(2) by (auto simp: digit_count_def plus_no_digit)
  ultimately show ?thesis using num(1) by (simp add: redact_candidate_def phone_number_def)
qed

lemma redact_unprotected:
  "next_match protected_re None s = None \<Longrightarrow> redact_string s = redact_candidates s"
  by (cases "length s") (simp_all add: redact_string_def finditer_def)

lemma needs_times [simp]: "needs c (times n r) = (n > 0 \<and> needs c r)"
  by simp

lemma unprotected_without_hyphen: "CHR ''-'' \<notin> set s \<Longrightarrow> next_match protected_re prev s = None"
  by (rule needed_search [of "CHR ''-''"]) (simp_all add: protected_re_def uuid_re_def iso_datetime_re_def)

text \<open>
  C10.  A phone number that stands alone is never logged: 7 to 15 digits with the usual separators, at most 20
  characters, with or without a plus, anywhere in a text that has no other digit and no timestamp or UUID
  around it, is replaced, and nothing else of the text changes.
\<close>

theorem lone_number_redacted:
  assumes "phone_number core" "p \<in> {[], ''+''}" "\<not> list_ex is_digit a" "\<not> list_ex is_digit b"
    and "p = ''+'' \<or> a = [] \<or> last a \<noteq> CHR ''+''"
    and "next_match protected_re None (a @ p @ core @ b) = None"
  shows "redact_string (a @ p @ core @ b) = a @ PHONE_REDACTED @ b"
  using assms lone_number redact_unprotected by simp

theorem lone_number_redacted_witness:
  "redact_string (''call me at '' @ ''+'' @ ''91 98765 43210'' @ '' tomorrow'') =
     ''call me at '' @ PHONE_REDACTED @ '' tomorrow''"
proof (rule lone_number_redacted)
  show "next_match protected_re None (''call me at '' @ ''+'' @ ''91 98765 43210'' @ '' tomorrow'') = None"
    by (rule unprotected_without_hyphen) simp
  show "phone_number ''91 98765 43210''" by code_simp
  show "\<not> list_ex is_digit ''call me at ''" "\<not> list_ex is_digit '' tomorrow''" by code_simp+
qed simp_all



end
