(* ===== verification/User_Copy.thy ===== *)
theory User_Copy
  imports Redaction Corroboration
begin

text \<open>
  The words a person may be shown (\<^verbatim>\<open>intel/user_copy.py\<close>): the word rules as the patterns are written, and
  the figures of a text that no quote carries.  The word characters of \<^verbatim>\<open>\b\<close> are those of \<open>text_lib\<close>.
\<close>

section \<open>Word rules\<close>

datatype copy_rule = Reassurance | Finding | Answer | Spelled_figure | Address

abbreviation word_i :: "text_lib \<Rightarrow> string \<Rightarrow> re" where
  "word_i lib s \<equiv> seqs [Bnd (tl_word lib), lit_i s, Bnd (tl_word lib)]"

definition reassurance_re :: "text_lib \<Rightarrow> re" where
  "reassurance_re lib = alts
     [word_i lib ''safe'',
      seqs [Bnd (tl_word lib), lit_i ''all'', Cls (\<lambda>c. c = CHR ''-'' \<or> c = CHR '' ''), lit_i ''clear'', Bnd (tl_word lib)],
      seqs [Bnd (tl_word lib), lit_i ''guarantee'', opt_re (Alt (lit_i ''d'') (lit_i ''s'')), Bnd (tl_word lib)]]"

definition finding_re :: "text_lib \<Rightarrow> re" where
  "finding_re lib = alts
     [word_i lib ''found'', word_i lib ''detected'',
      seqs [Bnd (tl_word lib), lit_i ''match'', opt_re (Alt (lit_i ''es'') (lit_i ''ed'')), Bnd (tl_word lib)],
      seqs [Bnd (tl_word lib), lit_i ''hit'', opt_re (lit_i ''s''), Bnd (tl_word lib)],
      seqs [Bnd (tl_word lib), lit_i ''your '', alts [lit_i ''photo'', lit_i ''image'', lit_i ''picture''],
        opt_re (lit_i ''s''), Bnd (tl_word lib)]]"

definition answer_re :: "text_lib \<Rightarrow> re" where
  "answer_re lib = Alt (word_i lib ''you answered'') (word_i lib ''your answer'')"

definition spelled_figure_re :: "text_lib \<Rightarrow> re" where
  "spelled_figure_re lib = alts
     [seqs [Bnd (tl_word lib), lit_i ''per'', opt_re (lit '' ''), lit_i ''cent'', Bnd (tl_word lib)],
      seqs [Bnd (tl_word lib),
        alts (map lit_i [''one'', ''two'', ''three'', ''four'', ''five'', ''six'', ''seven'', ''eight'', ''nine'', ''ten'']),
        plus (Cls re_space), Alt (lit_i ''in'') (lit_i ''out of''), plus (Cls re_space),
        alts (map lit_i [''two'', ''three'', ''four'', ''five'', ''six'', ''seven'', ''eight'', ''nine'', ''ten''] @ [plus digit]),
        Bnd (tl_word lib)],
      seqs [Bnd (tl_word lib),
        alts (map lit_i [''half'', ''a quarter'', ''a third'', ''three quarters'', ''two thirds'']),
        plus (Cls re_space), lit_i ''of'', Bnd (tl_word lib)],
      word_i lib ''twice as'']"

definition lower_letter :: "char \<Rightarrow> bool" where
  "lower_letter c \<longleftrightarrow> lower_char c \<in> set ''abcdefghijklmnopqrstuvwxyz''"

definition address_re :: "text_lib \<Rightarrow> re" where
  "address_re lib = alts
     [seqs [lit_i ''http'', opt_re (lit_i ''s''), lit '':''],
      seqs [Bnd (tl_word lib), lit_i ''www'', lit ''.''],
      seqs [Bnd (tl_word lib), plus (Cls (\<lambda>c. lower_letter c \<or> is_digit c \<or> c = CHR ''-'')), lit ''.'',
        Rep (Cls lower_letter) 2 None, Bnd (tl_word lib)],
      seqs [plus (Cls (\<lambda>c. \<not> re_space c)), lit ''@'', plus (Cls (\<lambda>c. \<not> re_space c))],
      seqs [lit ''+'', digit, Rep (Cls (\<lambda>c. is_digit c \<or> c \<in> set '' ()-'')) 6 None, digit],
      Rep digit 10 None,
      lit_i MASK]"

definition WORD_RULES :: "text_lib \<Rightarrow> (copy_rule \<times> re) list" where
  "WORD_RULES lib =
     [(Reassurance, reassurance_re lib), (Finding, finding_re lib), (Answer, answer_re lib),
      (Spelled_figure, spelled_figure_re lib), (Address, address_re lib)]"

definition copy_problems :: "text_lib \<Rightarrow> string \<Rightarrow> copy_rule list" where
  "copy_problems lib s = map fst (filter (\<lambda>(_, pattern). re_search pattern s) (WORD_RULES lib))"

definition question_copy_problems :: "text_lib \<Rightarrow> string \<Rightarrow> copy_rule list" where
  "question_copy_problems lib s = filter (\<lambda>rule. rule \<noteq> Spelled_figure) (copy_problems lib s)"

section \<open>Figures\<close>

record figure =
  fg_raw :: string
  fg_core :: string
  fg_percent :: bool

definition figure_core_re :: re where
  "figure_core_re = Sq (plus digit) (many (Sq (Cls (\<lambda>c. c = CHR ''.'' \<or> c = CHR '','')) (plus digit)))"

definition figure_re :: "text_lib \<Rightarrow> re" where
  "figure_re lib = Sq figure_core_re
     (opt_re (Sq (many (Cls re_space))
        (Alt (lit ''%'') (seqs [lit_i ''per'', opt_re (lit '' ''), lit_i ''cent'', Bnd (tl_word lib)]))))"

text \<open>
  The first group is what the core alone matches at the start of the match: what follows it is optional,
  so the matcher never gives the core back.  The second group took part when the match is longer.
\<close>

definition figure_of :: "string \<Rightarrow> figure" where
  "figure_of m =
     (let core = (case run figure_core_re (None, m) of [] \<Rightarrow> m | q # _ \<Rightarrow> take (length m - length (snd q)) m)
      in \<lparr>fg_raw = py_strip m, fg_core = filter (\<lambda>c. c \<noteq> CHR '','') core, fg_percent = (length core < length m)\<rparr>)"

definition figures :: "text_lib \<Rightarrow> string \<Rightarrow> figure list" where
  "figures lib s = map (\<lambda>(_, m). figure_of m) (fst (finditer (figure_re lib) s))"

definition unquoted_figures :: "text_lib \<Rightarrow> string \<Rightarrow> string list \<Rightarrow> string list" where
  "unquoted_figures lib s quotes =
     (let quoted = concat (map (figures lib) quotes)
      in map fg_raw (filter (\<lambda>f. \<not> list_ex (\<lambda>q. fg_core q = fg_core f \<and> (fg_percent q \<or> \<not> fg_percent f)) quoted)
           (figures lib s)))"

text \<open>Runs of the rules on short texts.\<close>

lemma copy_examples:
  "re_search (reassurance_re ascii_text) ''SAFE.''"
  "\<not> re_search (reassurance_re ascii_text) ''safety''"
  "re_search (spelled_figure_re ascii_text) ''half of''"
  by code_simp+

lemma figure_examples:
  "unquoted_figures ascii_text ''1,200'' [''1200'']  = []"
  "unquoted_figures ascii_text ''40%'' [''40''] = [''40%'']"
  by code_simp+

end
