(* ===== verification/Proposal_Models.thy ===== *)
theory Proposal_Models
  imports Vocabulary User_Copy Identifiers
begin

text \<open>
  The shapes of a proposal's \<^verbatim>\<open>target\<close>, \<^verbatim>\<open>suggested\<close> and \<^verbatim>\<open>decided\<close> documents (\<^verbatim>\<open>intel/proposal_models.py\<close>):
  one reader per pydantic model, with its field types, bounds and validators; None is a validation error.
  A model forbids extra keys, and a strict integer refuses a boolean and a float.
\<close>

section \<open>Reading a model\<close>

fun obj_fields :: "string list \<Rightarrow> doc \<Rightarrow> (string \<Rightarrow> doc option) option" where
  "obj_fields known (DObj kvs) = (if list_all (\<lambda>(k, _). k \<in> set known) kvs then Some (map_of kvs) else None)"
| "obj_fields known _ = None"

definition required :: "string \<Rightarrow> (doc \<Rightarrow> 'a option) \<Rightarrow> (string \<Rightarrow> doc option) \<Rightarrow> 'a option" where
  "required k f m = (case m k of None \<Rightarrow> None | Some d \<Rightarrow> f d)"

definition default :: "string \<Rightarrow> 'a \<Rightarrow> (doc \<Rightarrow> 'a option) \<Rightarrow> (string \<Rightarrow> doc option) \<Rightarrow> 'a option" where
  "default k x f m = (case m k of None \<Rightarrow> Some x | Some d \<Rightarrow> f d)"

definition nullable :: "(doc \<Rightarrow> 'a option) \<Rightarrow> doc \<Rightarrow> 'a option option" where
  "nullable f d = (if d = DNull then Some None else map_option Some (f d))"

fun py_bool :: "doc \<Rightarrow> bool option" where
  "py_bool (DBool b) = Some b"
| "py_bool _ = None"

fun py_tuple :: "(doc \<Rightarrow> 'a option) \<Rightarrow> doc \<Rightarrow> 'a list option" where
  "py_tuple f (DArr ds) = map_results f ds"
| "py_tuple f _ = None"

definition py_uuid :: "doc \<Rightarrow> uuid option" where
  "py_uuid d = (case py_str d of None \<Rightarrow> None | Some s \<Rightarrow> uuid_of_text s)"

definition check :: "('a \<Rightarrow> bool) \<Rightarrow> 'a \<Rightarrow> 'a option" where
  "check p x = (if p x then Some x else None)"

definition str_between :: "nat \<Rightarrow> nat \<Rightarrow> doc \<Rightarrow> string option" where
  "str_between lo hi d = do { s \<leftarrow> py_str d; check (\<lambda>s. lo \<le> length s \<and> length s \<le> hi) s }"

definition int_between :: "int \<Rightarrow> int \<Rightarrow> doc \<Rightarrow> int option" where
  "int_between lo hi d = do { i \<leftarrow> py_int d; check (\<lambda>i. lo \<le> i \<and> i \<le> hi) i }"

definition str_in :: "string list \<Rightarrow> doc \<Rightarrow> string option" where
  "str_in values d = do { s \<leftarrow> py_str d; check (\<lambda>s. s \<in> set values) s }"

definition not_blank :: "string \<Rightarrow> string option" where
  "not_blank s = check (\<lambda>s. py_strip s \<noteq> []) s"

definition distinct_slugs :: "string list \<Rightarrow> string list option" where
  "distinct_slugs tags = check (\<lambda>ts. list_all tag_well_formed ts \<and> distinct ts) tags"

definition slugs :: "doc \<Rightarrow> string list option" where
  "slugs d = do { ts \<leftarrow> py_tuple py_str d; distinct_slugs ts }"

text \<open>\<^verbatim>\<open>intel/text.py\<close>\<close>

definition normalise :: "text_lib \<Rightarrow> string \<Rightarrow> string" where
  "normalise lib s =
     py_strip (collapse_runs re_space False
       (map (\<lambda>c. if of_char c = (160::nat) then CHR '' '' else c) (tl_nfc lib s)))"

section \<open>Weight changes and gaps\<close>

record weight_target =
  wt_question_key :: string
  wt_option :: string
  wt_current :: int

definition nonempty_str :: "doc \<Rightarrow> string option" where
  "nonempty_str d = do { s \<leftarrow> py_str d; check (\<lambda>s. s \<noteq> []) s }"

definition weight_change_target :: "doc \<Rightarrow> weight_target option" where
  "weight_change_target d = do {
     m \<leftarrow> obj_fields [''question_key'', ''option'', ''current''] d;
     key \<leftarrow> required ''question_key'' nonempty_str m;
     opt \<leftarrow> required ''option'' nonempty_str m;
     current \<leftarrow> required ''current'' py_int m;
     Some \<lparr>wt_question_key = key, wt_option = opt, wt_current = current\<rparr> }"

record weight_delta =
  wd_delta :: int
  wd_body :: string

definition weight_delta_of :: "doc \<Rightarrow> weight_delta option" where
  "weight_delta_of d = do {
     m \<leftarrow> obj_fields [''delta'', ''body''] d;
     delta \<leftarrow> required ''delta'' py_int m;
     body \<leftarrow> default ''body'' [] (str_between 0 200) m;
     Some \<lparr>wd_delta = delta, wd_body = py_strip body\<rparr> }"

definition weight_delta_dump :: "weight_delta \<Rightarrow> doc" where
  "weight_delta_dump w = DObj [(''delta'', DInt (wd_delta w)), (''body'', DStr (wd_body w))]"

record suggested_tag =
  st_slug :: string
  st_label :: string
  st_kind :: string

definition suggested_tag_of :: "doc \<Rightarrow> suggested_tag option" where
  "suggested_tag_of d = do {
     m \<leftarrow> obj_fields [''slug'', ''label'', ''kind''] d;
     slug \<leftarrow> required ''slug'' py_str m;
     label \<leftarrow> required ''label'' py_str m;
     kind \<leftarrow> required ''kind'' (str_in [''platform'', ''service'', ''practice'']) m;
     Some \<lparr>st_slug = slug, st_label = label, st_kind = kind\<rparr> }"

record gap_target =
  gt_subject :: string
  gt_suggested_tag :: "suggested_tag option"
  gt_suggested_question :: "string option"
  gt_regenerated_by :: "uuid option"

definition coverage_gap_target :: "doc \<Rightarrow> gap_target option" where
  "coverage_gap_target d = do {
     m \<leftarrow> obj_fields [''subject'', ''suggested_tag'', ''suggested_question'', ''regenerated_by_run_id''] d;
     subject \<leftarrow> required ''subject'' nonempty_str m;
     tag \<leftarrow> default ''suggested_tag'' None (nullable suggested_tag_of) m;
     question \<leftarrow> default ''suggested_question'' None (nullable py_str) m;
     run \<leftarrow> default ''regenerated_by_run_id'' None (nullable py_uuid) m;
     Some \<lparr>gt_subject = subject, gt_suggested_tag = tag, gt_suggested_question = question,
           gt_regenerated_by = run\<rparr> }"

section \<open>Lessons\<close>

definition lesson_text :: "text_lib \<Rightarrow> nat \<Rightarrow> doc \<Rightarrow> string option" where
  "lesson_text lib limit d = do {
     s \<leftarrow> py_str d;
     check (\<lambda>t. t \<noteq> [] \<and> length t \<le> limit) (normalise lib s) }"

record lesson_section =
  ls_kind :: string
  ls_items :: "string list"

definition lesson_section_of :: "text_lib \<Rightarrow> doc \<Rightarrow> lesson_section option" where
  "lesson_section_of lib d = do {
     m \<leftarrow> obj_fields [''kind'', ''items''] d;
     kind \<leftarrow> required ''kind'' (str_in [''warning_signs'', ''what_to_do'', ''how_to_use'']) m;
     items \<leftarrow> required ''items'' (py_tuple (lesson_text lib 160)) m;
     items \<leftarrow> check (\<lambda>is. 1 \<le> length is \<and> length is \<le> 5) items;
     Some \<lparr>ls_kind = kind, ls_items = items\<rparr> }"

record lesson_link =
  ll_url :: string
  ll_label :: string

definition https :: "string \<Rightarrow> bool" where
  "https s \<longleftrightarrow> take 8 s = ''https://''"

definition lesson_link_of :: "text_lib \<Rightarrow> doc \<Rightarrow> lesson_link option" where
  "lesson_link_of lib d = do {
     m \<leftarrow> obj_fields [''url'', ''label''] d;
     url \<leftarrow> required ''url'' (str_between 0 500) m;
     url \<leftarrow> check https url;
     label \<leftarrow> required ''label'' (lesson_text lib 40) m;
     Some \<lparr>ll_url = url, ll_label = label\<rparr> }"

record lesson_draft =
  ld_title :: string
  ld_intro :: string
  ld_sections :: "lesson_section list"
  ld_link :: "lesson_link option"

definition lesson_draft_of :: "text_lib \<Rightarrow> doc \<Rightarrow> lesson_draft option" where
  "lesson_draft_of lib d = do {
     m \<leftarrow> obj_fields [''title'', ''intro'', ''sections'', ''link''] d;
     title \<leftarrow> required ''title'' (lesson_text lib 60) m;
     intro \<leftarrow> required ''intro'' (lesson_text lib 400) m;
     sections \<leftarrow> required ''sections'' (py_tuple (lesson_section_of lib)) m;
     sections \<leftarrow> check (\<lambda>ss. 1 \<le> length ss \<and> length ss \<le> 2 \<and> distinct (map ls_kind ss)) sections;
     link \<leftarrow> default ''link'' None (nullable (lesson_link_of lib)) m;
     Some \<lparr>ld_title = title, ld_intro = intro, ld_sections = sections, ld_link = link\<rparr> }"

definition lesson_section_dump :: "lesson_section \<Rightarrow> doc" where
  "lesson_section_dump s = DObj [(''kind'', DStr (ls_kind s)), (''items'', DArr (map DStr (ls_items s)))]"

definition lesson_draft_dump :: "lesson_draft \<Rightarrow> doc" where
  "lesson_draft_dump l = DObj
     [(''title'', DStr (ld_title l)), (''intro'', DStr (ld_intro l)),
      (''sections'', DArr (map lesson_section_dump (ld_sections l))),
      (''link'', doc_opt (\<lambda>k. DObj [(''url'', DStr (ll_url k)), (''label'', DStr (ll_label k))]) (ld_link l))]"

section \<open>Events\<close>

record threat_action =
  ta_title :: string
  ta_why :: string
  ta_steps :: "string list"
  ta_link_url :: "string option"
  ta_link_label :: "string option"

definition stripped :: "string \<Rightarrow> string option" where
  "stripped s = (if py_strip s = [] then None else Some (py_strip s))"

definition threat_action_of :: "doc \<Rightarrow> threat_action option" where
  "threat_action_of d = do {
     m \<leftarrow> obj_fields [''title'', ''why'', ''steps'', ''link_url'', ''link_label''] d;
     title \<leftarrow> required ''title'' (str_between 1 120) m; title \<leftarrow> stripped title;
     why \<leftarrow> required ''why'' (str_between 1 300) m; why \<leftarrow> stripped why;
     steps \<leftarrow> required ''steps'' (py_tuple py_str) m;
     steps \<leftarrow> check (\<lambda>ss. 1 \<le> length ss \<and> length ss \<le> 10) steps;
     steps \<leftarrow> check (list_all (\<lambda>s. s \<noteq> [] \<and> length s \<le> 300)) (map py_strip steps);
     url \<leftarrow> default ''link_url'' None (nullable (str_between 0 500)) m;
     url \<leftarrow> check (\<lambda>u. case u of None \<Rightarrow> True | Some x \<Rightarrow> https x) url;
     label \<leftarrow> default ''link_label'' None (nullable (str_between 0 60)) m;
     label \<leftarrow> check (\<lambda>l. l = None \<or> url \<noteq> None) label;
     Some \<lparr>ta_title = title, ta_why = why, ta_steps = steps, ta_link_url = url, ta_link_label = label\<rparr> }"

definition threat_action_dump :: "threat_action \<Rightarrow> doc" where
  "threat_action_dump a = DObj
     [(''title'', DStr (ta_title a)), (''why'', DStr (ta_why a)), (''steps'', DArr (map DStr (ta_steps a))),
      (''link_url'', doc_opt DStr (ta_link_url a)), (''link_label'', doc_opt DStr (ta_link_label a))]"

definition threat_event_target :: "doc \<Rightarrow> string list option" where
  "threat_event_target d = do {
     m \<leftarrow> obj_fields [''tags''] d;
     tags \<leftarrow> required ''tags'' slugs m;
     check (\<lambda>ts. ts \<noteq> []) tags }"

definition THREAT_KINDS :: "string list" where
  "THREAT_KINDS = [''leak'', ''deepfake_wave'', ''platform_incident'', ''other'']"

record threat_decided =
  td_kind :: string
  td_title :: string
  td_body :: string
  td_card_line :: string
  td_severity :: int
  td_expires_in_days :: int
  td_action :: "threat_action option"
  td_lesson :: "lesson_draft option"
  td_tags :: "string list"

definition THREAT_FIELDS :: "string list" where
  "THREAT_FIELDS = [''kind'', ''title'', ''body'', ''card_line'', ''severity'', ''expires_in_days'',
     ''action'', ''lesson'', ''tags'']"

definition threat_event_decided :: "text_lib \<Rightarrow> doc \<Rightarrow> threat_decided option" where
  "threat_event_decided lib d = do {
     m \<leftarrow> obj_fields THREAT_FIELDS d;
     kind \<leftarrow> required ''kind'' (str_in THREAT_KINDS) m;
     title \<leftarrow> required ''title'' (str_between 1 200) m; title \<leftarrow> not_blank title;
     body \<leftarrow> default ''body'' [] (str_between 0 400) m;
     line \<leftarrow> default ''card_line'' [] (str_between 0 160) m;
     severity \<leftarrow> required ''severity'' (int_between 1 5) m;
     days \<leftarrow> required ''expires_in_days'' (int_between 1 90) m;
     action \<leftarrow> default ''action'' None (nullable threat_action_of) m;
     lesson \<leftarrow> default ''lesson'' None (nullable (lesson_draft_of lib)) m;
     tags \<leftarrow> required ''tags'' slugs m; tags \<leftarrow> check (\<lambda>ts. ts \<noteq> []) tags;
     Some \<lparr>td_kind = kind, td_title = title, td_body = py_strip body, td_card_line = py_strip line,
           td_severity = severity, td_expires_in_days = days, td_action = action, td_lesson = lesson,
           td_tags = tags\<rparr> }"

definition threat_decided_dump :: "threat_decided \<Rightarrow> doc" where
  "threat_decided_dump t = DObj
     [(''kind'', DStr (td_kind t)), (''title'', DStr (td_title t)), (''body'', DStr (td_body t)),
      (''card_line'', DStr (td_card_line t)), (''severity'', DInt (td_severity t)),
      (''expires_in_days'', DInt (td_expires_in_days t)), (''action'', doc_opt threat_action_dump (td_action t)),
      (''lesson'', doc_opt lesson_draft_dump (td_lesson t)), (''tags'', doc_strings (td_tags t))]"

text \<open>An edit names the keys it changes; what it does not name is left out of its dump.\<close>

definition edit_fields :: "(string \<times> (doc \<Rightarrow> doc option)) list \<Rightarrow> doc \<Rightarrow> (string \<times> doc) list option" where
  "edit_fields readers d =
     (case d of DObj kvs \<Rightarrow>
        map_results (\<lambda>(k, x). case map_of readers k of None \<Rightarrow> None | Some f \<Rightarrow> map_option (Pair k) (f x)) kvs
      | _ \<Rightarrow> None)"

definition kept :: "('a \<Rightarrow> doc) \<Rightarrow> (doc \<Rightarrow> 'a option) \<Rightarrow> doc \<Rightarrow> doc option" where
  "kept dump f d = map_option (\<lambda>x. doc_opt dump x) (nullable f d)"

definition threat_event_values :: "text_lib \<Rightarrow> doc \<Rightarrow> (string \<times> doc) list option" where
  "threat_event_values lib d = edit_fields
     [(''kind'', kept DStr (str_in THREAT_KINDS)), (''title'', kept DStr py_str), (''body'', kept DStr py_str),
      (''card_line'', kept DStr py_str), (''action'', kept threat_action_dump threat_action_of),
      (''severity'', kept DInt py_int), (''expires_in_days'', kept DInt py_int),
      (''tags'', kept doc_strings (py_tuple py_str)), (''lesson'', kept lesson_draft_dump (lesson_draft_of lib))] d"

record protection_target =
  pt_tags :: "string list"
  pt_is_global :: bool
  pt_renews_event_id :: "uuid option"

definition one_scope :: "string list \<Rightarrow> bool \<Rightarrow> bool" where
  "one_scope tags is_global \<longleftrightarrow> is_global \<noteq> (tags \<noteq> [])"

definition protection_event_target :: "doc \<Rightarrow> protection_target option" where
  "protection_event_target d = do {
     m \<leftarrow> obj_fields [''tags'', ''is_global'', ''renews_event_id''] d;
     tags \<leftarrow> default ''tags'' [] slugs m;
     is_global \<leftarrow> default ''is_global'' False py_bool m;
     renews \<leftarrow> default ''renews_event_id'' None (nullable py_uuid) m;
     check (\<lambda>t. one_scope (pt_tags t) (pt_is_global t))
       \<lparr>pt_tags = tags, pt_is_global = is_global, pt_renews_event_id = renews\<rparr> }"

record protection_decided =
  pd_title :: string
  pd_body :: string
  pd_strength :: int
  pd_review_in_days :: int
  pd_lesson :: "lesson_draft option"
  pd_tags :: "string list"
  pd_is_global :: bool

definition PROTECTION_FIELDS :: "string list" where
  "PROTECTION_FIELDS = [''title'', ''body'', ''strength'', ''review_in_days'', ''lesson'', ''tags'', ''is_global'',
     ''applies_regardless_of_location'']"

definition protection_event_decided :: "text_lib \<Rightarrow> doc \<Rightarrow> protection_decided option" where
  "protection_event_decided lib d = do {
     m \<leftarrow> obj_fields PROTECTION_FIELDS d;
     title \<leftarrow> required ''title'' (str_between 1 200) m; title \<leftarrow> not_blank title;
     body \<leftarrow> default ''body'' [] (str_between 0 400) m;
     strength \<leftarrow> required ''strength'' (int_between 1 5) m;
     days \<leftarrow> required ''review_in_days'' (int_between 30 366) m;
     lesson \<leftarrow> default ''lesson'' None (nullable (lesson_draft_of lib)) m;
     tags \<leftarrow> default ''tags'' [] slugs m;
     is_global \<leftarrow> required ''is_global'' py_bool m;
     attested \<leftarrow> required ''applies_regardless_of_location'' py_bool m;
     attested \<leftarrow> check (\<lambda>a. a) attested;
     check (\<lambda>p. one_scope (pd_tags p) (pd_is_global p))
       \<lparr>pd_title = title, pd_body = py_strip body, pd_strength = strength, pd_review_in_days = days,
        pd_lesson = lesson, pd_tags = tags, pd_is_global = is_global\<rparr> }"

definition protection_decided_dump :: "protection_decided \<Rightarrow> doc" where
  "protection_decided_dump p = DObj
     [(''title'', DStr (pd_title p)), (''body'', DStr (pd_body p)), (''strength'', DInt (pd_strength p)),
      (''review_in_days'', DInt (pd_review_in_days p)), (''lesson'', doc_opt lesson_draft_dump (pd_lesson p)),
      (''tags'', doc_strings (pd_tags p)), (''is_global'', DBool (pd_is_global p)),
      (''applies_regardless_of_location'', DBool True)]"

definition protection_event_values :: "text_lib \<Rightarrow> doc \<Rightarrow> (string \<times> doc) list option" where
  "protection_event_values lib d = edit_fields
     [(''title'', kept DStr py_str), (''body'', kept DStr py_str), (''strength'', kept DInt py_int),
      (''review_in_days'', kept DInt py_int), (''tags'', kept doc_strings (py_tuple py_str)),
      (''is_global'', kept DBool py_bool), (''lesson'', kept lesson_draft_dump (lesson_draft_of lib))] d"

section \<open>Quiz questions\<close>

definition lower_ascii :: "char \<Rightarrow> bool" where
  "lower_ascii c \<longleftrightarrow> c \<in> set ''abcdefghijklmnopqrstuvwxyz''"

definition key_pattern :: "nat \<Rightarrow> string \<Rightarrow> bool" where
  "key_pattern hi s \<longleftrightarrow>
     (case s of [] \<Rightarrow> False
      | c # cs \<Rightarrow> lower_ascii c \<and> 1 \<le> length cs \<and> length cs \<le> hi \<and>
          list_all (\<lambda>x. lower_ascii x \<or> is_digit x \<or> x = CHR ''_'') cs)"

record question_target =
  qt_question_key :: string
  qt_subject :: string
  qt_research_run_id :: "uuid option"

definition quiz_question_target :: "doc \<Rightarrow> question_target option" where
  "quiz_question_target d = do {
     m \<leftarrow> obj_fields [''question_key'', ''subject'', ''research_run_id''] d;
     key \<leftarrow> required ''question_key'' py_str m; key \<leftarrow> check (key_pattern 39) key;
     subject \<leftarrow> required ''subject'' (str_between 1 120) m;
     run \<leftarrow> default ''research_run_id'' None (nullable py_uuid) m;
     Some \<lparr>qt_question_key = key, qt_subject = subject, qt_research_run_id = run\<rparr> }"

definition question_text :: "text_lib \<Rightarrow> string \<Rightarrow> string option" where
  "question_text lib s = check (\<lambda>t. t \<noteq> [] \<and> question_copy_problems lib t = []) (normalise lib s)"

definition distinct_options :: "text_lib \<Rightarrow> string list \<Rightarrow> bool" where
  "distinct_options lib options \<longleftrightarrow> distinct (map (tl_casefold lib) options)"

record option_suggested =
  os_option :: string
  os_tags :: "string list"

definition option_suggested_of :: "doc \<Rightarrow> option_suggested option" where
  "option_suggested_of d = do {
     m \<leftarrow> obj_fields [''option'', ''tags'', ''new_tag''] d;
     opt \<leftarrow> required ''option'' (str_between 1 200) m;
     tags \<leftarrow> default ''tags'' [] slugs m;
     new \<leftarrow> default ''new_tag'' None (nullable suggested_tag_of) m;
     Some \<lparr>os_option = opt, os_tags = tags\<rparr> }"

record question_suggested =
  qs_prompt :: string
  qs_multi :: bool
  qs_options :: "option_suggested list"

definition quiz_question_suggested :: "text_lib \<Rightarrow> doc \<Rightarrow> question_suggested option" where
  "quiz_question_suggested lib d = do {
     m \<leftarrow> obj_fields [''prompt'', ''multi'', ''options''] d;
     prompt \<leftarrow> required ''prompt'' (str_between 1 300) m; prompt \<leftarrow> question_text lib prompt;
     multi \<leftarrow> default ''multi'' False py_bool m;
     options \<leftarrow> required ''options'' (py_tuple option_suggested_of) m;
     options \<leftarrow> check (\<lambda>os. 2 \<le> length os) options;
     _ \<leftarrow> map_results (\<lambda>x. question_text lib (os_option x)) options;
     options \<leftarrow> check (\<lambda>os. distinct_options lib (map os_option os)) options;
     Some \<lparr>qs_prompt = prompt, qs_multi = multi, qs_options = options\<rparr> }"

record option_decided =
  od_option :: string
  od_deduction :: int
  od_tags :: "string list"

definition option_decided_of :: "text_lib \<Rightarrow> doc \<Rightarrow> option_decided option" where
  "option_decided_of lib d = do {
     m \<leftarrow> obj_fields [''option'', ''deduction'', ''tags''] d;
     opt \<leftarrow> required ''option'' (str_between 1 200) m; opt \<leftarrow> question_text lib opt;
     n \<leftarrow> required ''deduction'' (int_between 0 10) m;
     tags \<leftarrow> default ''tags'' [] slugs m;
     Some \<lparr>od_option = opt, od_deduction = n, od_tags = tags\<rparr> }"

record question_decided =
  qd_prompt :: string
  qd_multi :: bool
  qd_cap :: "int option"
  qd_options :: "option_decided list"
  qd_suggestion_proposal_id :: "uuid option"

definition quiz_question_decided :: "text_lib \<Rightarrow> doc \<Rightarrow> question_decided option" where
  "quiz_question_decided lib d = do {
     m \<leftarrow> obj_fields [''prompt'', ''multi'', ''cap'', ''options'', ''suggestion_proposal_id''] d;
     prompt \<leftarrow> required ''prompt'' (str_between 1 300) m; prompt \<leftarrow> question_text lib prompt;
     multi \<leftarrow> required ''multi'' py_bool m;
     cap \<leftarrow> default ''cap'' None (nullable (int_between 0 10)) m;
     options \<leftarrow> required ''options'' (py_tuple (option_decided_of lib)) m;
     options \<leftarrow> check (\<lambda>os. 2 \<le> length os) options;
     sug \<leftarrow> default ''suggestion_proposal_id'' None (nullable py_uuid) m;
     check (\<lambda>q. distinct_options lib (map od_option (qd_options q)) \<and> (qd_multi q \<or> qd_cap q = None))
       \<lparr>qd_prompt = prompt, qd_multi = multi, qd_cap = cap, qd_options = options,
        qd_suggestion_proposal_id = sug\<rparr> }"

definition option_decided_dump :: "option_decided \<Rightarrow> doc" where
  "option_decided_dump x = DObj
     [(''option'', DStr (od_option x)), (''deduction'', DInt (od_deduction x)), (''tags'', doc_strings (od_tags x))]"

definition question_decided_dump :: "question_decided \<Rightarrow> doc" where
  "question_decided_dump q = DObj
     [(''prompt'', DStr (qd_prompt q)), (''multi'', DBool (qd_multi q)), (''cap'', doc_opt DInt (qd_cap q)),
      (''options'', DArr (map option_decided_dump (qd_options q))),
      (''suggestion_proposal_id'', doc_opt (\<lambda>i. DStr (show_uuid i)) (qd_suggestion_proposal_id q))]"

record option_values =
  ov_option :: "string option"
  ov_deduction :: "int option"
  ov_tags :: "string list option"

definition option_values_of :: "doc \<Rightarrow> option_values option" where
  "option_values_of d = do {
     m \<leftarrow> obj_fields [''option'', ''deduction'', ''tags''] d;
     opt \<leftarrow> default ''option'' None (nullable py_str) m;
     n \<leftarrow> default ''deduction'' None (nullable py_int) m;
     tags \<leftarrow> default ''tags'' None (nullable (py_tuple py_str)) m;
     Some \<lparr>ov_option = opt, ov_deduction = n, ov_tags = tags\<rparr> }"

record question_values =
  qv_prompt :: "string option"
  qv_multi :: "bool option"
  qv_cap :: "int option"
  qv_options :: "option_values list option"

definition quiz_question_values :: "doc \<Rightarrow> question_values option" where
  "quiz_question_values d = do {
     m \<leftarrow> obj_fields [''prompt'', ''multi'', ''cap'', ''options''] d;
     prompt \<leftarrow> default ''prompt'' None (nullable py_str) m;
     multi \<leftarrow> default ''multi'' None (nullable py_bool) m;
     cap \<leftarrow> default ''cap'' None (nullable py_int) m;
     options \<leftarrow> default ''options'' None (nullable (py_tuple option_values_of)) m;
     Some \<lparr>qv_prompt = prompt, qv_multi = multi, qv_cap = cap, qv_options = options\<rparr> }"

section \<open>Lesson proposals\<close>

record lesson_target =
  lt_topic :: "string option"
  lt_event_id :: "uuid option"

definition lesson_target_of :: "doc \<Rightarrow> lesson_target option" where
  "lesson_target_of d = do {
     m \<leftarrow> obj_fields [''topic'', ''event_id''] d;
     topic \<leftarrow> default ''topic'' None (nullable (\<lambda>x. do { s \<leftarrow> py_str x; check (key_pattern 59) s })) m;
     event \<leftarrow> default ''event_id'' None (nullable py_uuid) m;
     check (\<lambda>t. (lt_topic t = None) \<noteq> (lt_event_id t = None)) \<lparr>lt_topic = topic, lt_event_id = event\<rparr> }"

record lesson_decided =
  le_lesson :: lesson_draft
  le_tags :: "string list"
  le_is_global :: bool

definition LESSON_FIELDS :: "string list" where
  "LESSON_FIELDS = [''lesson'', ''tags'', ''is_global'']"

definition lesson_decided_of :: "text_lib \<Rightarrow> doc \<Rightarrow> lesson_decided option" where
  "lesson_decided_of lib d = do {
     m \<leftarrow> obj_fields LESSON_FIELDS d;
     lesson \<leftarrow> required ''lesson'' (lesson_draft_of lib) m;
     tags \<leftarrow> default ''tags'' [] slugs m;
     is_global \<leftarrow> default ''is_global'' False py_bool m;
     Some \<lparr>le_lesson = lesson, le_tags = tags, le_is_global = is_global\<rparr> }"

definition lesson_decided_dump :: "lesson_decided \<Rightarrow> doc" where
  "lesson_decided_dump l = DObj
     [(''lesson'', lesson_draft_dump (le_lesson l)), (''tags'', doc_strings (le_tags l)),
      (''is_global'', DBool (le_is_global l))]"

definition lesson_values :: "text_lib \<Rightarrow> doc \<Rightarrow> (string \<times> doc) list option" where
  "lesson_values lib d = edit_fields
     [(''lesson'', kept lesson_draft_dump (lesson_draft_of lib)), (''tags'', kept doc_strings (py_tuple py_str)),
      (''is_global'', kept DBool py_bool)] d"

section \<open>Normalised text\<close>

fun single_spaced :: "bool \<Rightarrow> string \<Rightarrow> bool" where
  "single_spaced r [] = True"
| "single_spaced r (c # cs) =
     (if re_space c then c = CHR '' '' \<and> \<not> r \<and> single_spaced True cs else single_spaced False cs)"

lemma space_is_space [simp]: "re_space (CHR '' '')" "is_space (CHR '' '')"
  by (simp_all add: re_space_def is_space_def)

lemma collapse_single: "single_spaced r (collapse_runs re_space r s)"
  by (induction s arbitrary: r) auto

lemma single_collapse: "single_spaced r s \<Longrightarrow> collapse_runs re_space r s = s"
  by (induction s arbitrary: r) (auto split: if_splits)

lemma single_append: "single_spaced r (a @ b) \<Longrightarrow> single_spaced r a"
  by (induction a arbitrary: r) (auto split: if_splits)

lemma single_weaken: "single_spaced True s \<Longrightarrow> single_spaced False s"
  by (cases s) (auto split: if_splits)

lemma single_suffix: "single_spaced r (a @ b) \<Longrightarrow> single_spaced False b"
proof (induction a arbitrary: r)
  case Nil
  then show ?case by (cases r) (auto dest: single_weaken)
qed (auto split: if_splits)

lemma single_strip:
  assumes "single_spaced False s" shows "single_spaced False (py_strip s)"
proof -
  have "single_spaced False (dropWhile is_space s)"
    using single_suffix [of False "takeWhile is_space s" "dropWhile is_space s"] assms by simp
  moreover have "dropWhile is_space s = py_strip s @ rev (takeWhile is_space (rev (dropWhile is_space s)))"
    unfolding py_strip_def by (metis rev_append rev_rev_ident takeWhile_dropWhile_id)
  ultimately show ?thesis by (metis single_append)
qed

lemma py_strip_idem [simp]: "py_strip (py_strip s) = py_strip s"
proof -
  let ?t = "dropWhile is_space s"
  have "dropWhile is_space (py_strip s) = py_strip s"
  proof (cases "py_strip s")
    case (Cons c cs)
    obtain z where z: "?t = (c # cs) @ z"
      using Cons unfolding py_strip_def by (metis rev_append rev_rev_ident takeWhile_dropWhile_id)
    then have "\<not> is_space c" by (metis append_Cons hd_dropWhile list.distinct(1) list.sel(1))
    then show ?thesis by (simp add: Cons)
  qed simp
  then show ?thesis unfolding py_strip_def [of "py_strip s"] by (simp add: py_strip_def dropWhile_idem)
qed

lemma py_strip_short: "length (py_strip s) \<le> length s"
  unfolding py_strip_def by (metis length_dropWhile_le length_rev le_trans)

lemma single_no_nbsp:
  "single_spaced r s \<Longrightarrow> map (\<lambda>c. if of_char c = (160::nat) then CHR '' '' else c) s = s"
  by (induction s arbitrary: r) (auto simp: re_space_def split: if_splits)

text \<open>What NFC promises of a text whose white space was tidied: it changes it no more.\<close>

definition text_ok :: "text_lib \<Rightarrow> bool" where
  "text_ok lib \<longleftrightarrow> (\<forall>s. tl_nfc lib (normalise lib s) = normalise lib s)"

lemma normalise_idem:
  assumes "text_ok lib" shows "normalise lib (normalise lib s) = normalise lib s"
proof -
  let ?n = "normalise lib s"
  have "single_spaced False ?n" unfolding normalise_def by (intro single_strip collapse_single)
  moreover have "py_strip ?n = ?n" by (simp add: normalise_def)
  ultimately show ?thesis
    using assms unfolding normalise_def [of lib ?n] text_ok_def by (simp only: single_no_nbsp single_collapse)
qed

lemma ascii_text_ok: "text_ok ascii_text"
proof -
  have id: "normalise ascii_text s = s" if "single_spaced False s" "py_strip s = s" for s
    using that by (simp add: normalise_def ascii_text_def single_no_nbsp single_collapse)
  show ?thesis by (simp add: text_ok_def ascii_text_def)
qed

section \<open>What is stored reads back\<close>

lemma check_Some [simp]: "check p x = Some y \<longleftrightarrow> p x \<and> y = x"
  by (auto simp: check_def)

lemmas reads = required_def default_def nullable_def str_between_def int_between_def str_in_def doc_opt_def
lemmas reading = bind_eq_Some_conv

lemma required_Some: "required k f m = Some x \<longleftrightarrow> (\<exists>d. m k = Some d \<and> f d = Some x)"
  by (auto simp: required_def split: option.splits)

lemma default_Some: "default k x0 f m = Some x \<longleftrightarrow> (m k = None \<and> x = x0) \<or> (\<exists>d. m k = Some d \<and> f d = Some x)"
  by (auto simp: default_def split: option.splits)

lemma map_results_Some: "map_results f xs = Some ys \<Longrightarrow> length ys = length xs \<and> (\<forall>y\<in>set ys. \<exists>x\<in>set xs. f x = Some y)"
proof (induction xs arbitrary: ys)
  case (Cons x xs)
  then obtain y zs where "f x = Some y" "map_results f xs = Some zs" "ys = y # zs" by (auto split: option.splits)
  with Cons.IH [of zs] show ?case by auto
qed simp

lemma map_results_dump: "(\<forall>y\<in>set ys. f (g y) = Some y) \<Longrightarrow> map_results f (map g ys) = Some ys"
  using map_results_map [of ys f g "\<lambda>x. x"] by simp

lemma tuple_dump: "(\<forall>y\<in>set ys. f (g y) = Some y) \<Longrightarrow> py_tuple f (DArr (map g ys)) = Some ys"
  by (simp add: map_results_dump)

lemma tuple_Some: "py_tuple f d = Some ys \<Longrightarrow> \<forall>y\<in>set ys. \<exists>x. f x = Some y"
  by (cases d) (auto dest: map_results_Some)

lemma strs_dump [simp]: "py_tuple py_str (DArr (map DStr ts)) = Some ts"
  by (rule tuple_dump) simp

lemma slugs_dump: "slugs d = Some ts \<Longrightarrow> slugs (doc_strings ts) = Some ts"
  unfolding slugs_def doc_strings_def by (auto simp: reading distinct_slugs_def simp del: py_tuple.simps)

lemma weight_delta_reread:
  assumes "weight_delta_of d = Some w" shows "weight_delta_of (weight_delta_dump w) = Some w"
proof -
  from assms obtain n b where w: "w = \<lparr>wd_delta = n, wd_body = py_strip b\<rparr>" "length b \<le> 200"
    by (auto simp: weight_delta_of_def reading default_Some str_between_def)
  have "length (py_strip b) \<le> 200" using py_strip_short [of b] w(2) by simp
  then show ?thesis by (simp add: w(1) weight_delta_of_def weight_delta_dump_def reads check_def)
qed

lemma lesson_text_reread:
  assumes "text_ok lib" "lesson_text lib n d = Some t" shows "lesson_text lib n (DStr t) = Some t"
  using assms by (auto simp: lesson_text_def reading normalise_idem)

lemma lesson_section_reread:
  assumes ok: "text_ok lib" and "lesson_section_of lib d = Some s"
  shows "lesson_section_of lib (lesson_section_dump s) = Some s"
proof -
  from assms(2) obtain k ts ds where s: "s = \<lparr>ls_kind = k, ls_items = ts\<rparr>" "py_tuple (lesson_text lib 160) ds = Some ts"
    "1 \<le> length ts" "length ts \<le> 5" "k \<in> set [''warning_signs'', ''what_to_do'', ''how_to_use'']"
    by (auto simp: lesson_section_of_def reading required_Some str_in_def)
  have "py_tuple (lesson_text lib 160) (DArr (map DStr ts)) = Some ts"
    by (rule tuple_dump) (use tuple_Some [OF s(2)] lesson_text_reread [OF ok] in blast)
  with s show ?thesis by (simp add: lesson_section_of_def lesson_section_dump_def reads check_def del: py_tuple.simps)
qed

lemma lesson_link_reread:
  assumes ok: "text_ok lib" and "lesson_link_of lib d = Some k"
  shows "lesson_link_of lib (DObj [(''url'', DStr (ll_url k)), (''label'', DStr (ll_label k))]) = Some k"
proof -
  from assms(2) obtain u l dl where k: "k = \<lparr>ll_url = u, ll_label = l\<rparr>" "length u \<le> 500" "https u"
    "lesson_text lib 40 dl = Some l" by (auto simp: lesson_link_of_def reading required_Some str_between_def)
  from lesson_text_reread [OF ok k(4)] k show ?thesis by (simp add: lesson_link_of_def reads check_def)
qed

lemma lesson_draft_reread:
  assumes ok: "text_ok lib" and "lesson_draft_of lib d = Some l"
  shows "lesson_draft_of lib (lesson_draft_dump l) = Some l"
proof -
  from assms(2) obtain t i ss k dt di ds where l: "l = \<lparr>ld_title = t, ld_intro = i, ld_sections = ss, ld_link = k\<rparr>"
    "lesson_text lib 60 dt = Some t" "lesson_text lib 400 di = Some i" "py_tuple (lesson_section_of lib) ds = Some ss"
    "1 \<le> length ss" "length ss \<le> 2" "distinct (map ls_kind ss)"
    and link: "k = None \<or> (\<exists>dk. lesson_link_of lib dk = k \<and> k \<noteq> None)"
    by (auto simp: lesson_draft_of_def reading required_Some default_Some nullable_def split: if_splits) blast+
  have "py_tuple (lesson_section_of lib) (DArr (map lesson_section_dump ss)) = Some ss"
    by (rule tuple_dump) (use tuple_Some [OF l(4)] lesson_section_reread [OF ok] in blast)
  moreover have "nullable (lesson_link_of lib) (doc_opt (\<lambda>k. DObj [(''url'', DStr (ll_url k)), (''label'', DStr (ll_label k))]) k) = Some k"
    using link lesson_link_reread [OF ok] by (cases k) (auto simp: nullable_def doc_opt_def)
  ultimately show ?thesis
    using l lesson_text_reread [OF ok l(2)] lesson_text_reread [OF ok l(3)]
    by (simp add: lesson_draft_of_def lesson_draft_dump_def required_def default_def check_def del: py_tuple.simps)
qed

lemma threat_action_reread:
  assumes "threat_action_of d = Some a" shows "threat_action_of (threat_action_dump a) = Some a"
proof -
  from assms obtain t w ss u l where a: "a = \<lparr>ta_title = py_strip t, ta_why = py_strip w, ta_steps = map py_strip ss, ta_link_url = u, ta_link_label = l\<rparr>"
    "length t \<le> 120" "py_strip t \<noteq> []" "length w \<le> 300" "py_strip w \<noteq> []" "1 \<le> length ss" "length ss \<le> 10"
    "list_all (\<lambda>s. s \<noteq> [] \<and> length s \<le> 300) (map py_strip ss)"
    "case u of None \<Rightarrow> True | Some x \<Rightarrow> https x \<and> length x \<le> 500" "l = None \<or> u \<noteq> None"
    "case l of None \<Rightarrow> True | Some x \<Rightarrow> length x \<le> 60"
    by (auto simp: threat_action_of_def reading required_Some default_Some nullable_def str_between_def stripped_def split: if_splits)
  have len: "length (py_strip t) \<le> 120" "length (py_strip w) \<le> 300"
    using a(2,4) py_strip_short [of t] py_strip_short [of w] by simp_all
  have one: "Suc 0 \<le> length (py_strip t)" "Suc 0 \<le> length (py_strip w)" using a(3,5) by (cases "py_strip t"; cases "py_strip w"; simp)+
  have steps: "py_tuple py_str (DArr (map DStr (map py_strip ss))) = Some (map py_strip ss)" by (rule strs_dump)
  have strip: "map py_strip (map py_strip ss) = map py_strip ss" by simp
  have url: "nullable (str_between 0 500) (doc_opt DStr u) = Some u"
    and label: "nullable (str_between 0 60) (doc_opt DStr l) = Some l"
    using a(9,11) by (auto simp: nullable_def doc_opt_def str_between_def check_def split: option.splits)
  have "check (\<lambda>u. case u of None \<Rightarrow> True | Some x \<Rightarrow> https x) u = Some u"
    using a(9) by (simp split: option.splits)
  then show ?thesis
    unfolding a(1) threat_action_of_def threat_action_dump_def
    using len one a(3,5,6,7,8,10) steps strip url label
    by (simp add: required_def default_def str_between_def check_def stripped_def del: py_tuple.simps map_map)
qed

lemma nullable_reread:
  assumes "x = None \<or> (\<exists>d y. f d = Some y \<and> x = Some y)" "\<And>d y. f d = Some y \<Longrightarrow> f (dump y) = Some y" "\<And>y. dump y \<noteq> DNull"
  shows "nullable f (doc_opt dump x) = Some x"
  using assms by (cases x) (auto simp: nullable_def doc_opt_def)

lemma nullable_Some: "nullable f d = Some x \<Longrightarrow> x = None \<or> (\<exists>d y. f d = Some y \<and> x = Some y)"
  by (auto simp: nullable_def split: if_splits)

lemma default_nullable: "default k None (nullable f) m = Some x \<Longrightarrow> x = None \<or> (\<exists>d y. f d = Some y \<and> x = Some y)"
  using nullable_Some by (fastforce simp: default_Some)

lemma lesson_field_reread:
  assumes "text_ok lib" "default k None (nullable (lesson_draft_of lib)) m = Some x"
  shows "nullable (lesson_draft_of lib) (doc_opt lesson_draft_dump x) = Some x"
  by (rule nullable_reread [OF default_nullable [OF assms(2)] lesson_draft_reread [OF assms(1)]])
    (auto simp: lesson_draft_dump_def)

lemma slugs_field: "required ''tags'' slugs m = Some ts \<or> default ''tags'' [] slugs m = Some ts \<Longrightarrow> slugs (doc_strings ts) = Some ts"
  using slugs_dump by (auto simp: required_Some default_Some slugs_def doc_strings_def reading distinct_slugs_def)

lemma threat_decided_reread:
  assumes ok: "text_ok lib" and "threat_event_decided lib d = Some t"
  shows "threat_event_decided lib (threat_decided_dump t) = Some t"
proof -
  from assms(2) obtain m kind title body line sev days action lesson tags where
    t: "t = \<lparr>td_kind = kind, td_title = title, td_body = py_strip body, td_card_line = py_strip line,
      td_severity = sev, td_expires_in_days = days, td_action = action, td_lesson = lesson, td_tags = tags\<rparr>"
    "required ''kind'' (str_in THREAT_KINDS) m = Some kind" "required ''title'' (str_between 1 200) m = Some title"
    "not_blank title = Some title" "default ''body'' [] (str_between 0 400) m = Some body"
    "default ''card_line'' [] (str_between 0 160) m = Some line" "required ''severity'' (int_between 1 5) m = Some sev"
    "required ''expires_in_days'' (int_between 1 90) m = Some days"
    "default ''action'' None (nullable threat_action_of) m = Some action"
    "default ''lesson'' None (nullable (lesson_draft_of lib)) m = Some lesson"
    "required ''tags'' slugs m = Some tags" "tags \<noteq> []"
    by (auto simp: threat_event_decided_def reading not_blank_def)
  have kind: "kind \<in> set THREAT_KINDS" and title: "1 \<le> length title" "length title \<le> 200"
    and body: "length (py_strip body) \<le> 400" "length (py_strip line) \<le> 160"
    and nums: "1 \<le> sev" "sev \<le> 5" "1 \<le> days" "days \<le> 90"
    using t(2,3,5-8) py_strip_short [of body] py_strip_short [of line]
    by (auto simp: required_Some default_Some str_in_def str_between_def int_between_def reading)
  have action: "nullable threat_action_of (doc_opt threat_action_dump action) = Some action"
    by (rule nullable_reread [OF default_nullable [OF t(9)] threat_action_reread]) (auto simp: threat_action_dump_def)
  show ?thesis
    unfolding t(1) threat_event_decided_def threat_decided_dump_def
    using kind title body nums action lesson_field_reread [OF ok t(10)] slugs_field [of m tags] t(4,11,12)
    by (simp add: required_def default_def str_in_def str_between_def int_between_def check_def THREAT_FIELDS_def)
qed

lemma protection_decided_reread:
  assumes ok: "text_ok lib" and "protection_event_decided lib d = Some p"
  shows "protection_event_decided lib (protection_decided_dump p) = Some p"
proof -
  from assms(2) obtain m title body strength days lesson tags glob where
    p: "p = \<lparr>pd_title = title, pd_body = py_strip body, pd_strength = strength, pd_review_in_days = days,
        pd_lesson = lesson, pd_tags = tags, pd_is_global = glob\<rparr>"
    "required ''title'' (str_between 1 200) m = Some title" "not_blank title = Some title"
    "default ''body'' [] (str_between 0 400) m = Some body" "required ''strength'' (int_between 1 5) m = Some strength"
    "required ''review_in_days'' (int_between 30 366) m = Some days"
    "default ''lesson'' None (nullable (lesson_draft_of lib)) m = Some lesson"
    "default ''tags'' [] slugs m = Some tags" "one_scope tags glob"
    by (auto simp: protection_event_decided_def reading not_blank_def)
  have title: "1 \<le> length title" "length title \<le> 200" and body: "length (py_strip body) \<le> 400"
    and nums: "1 \<le> strength" "strength \<le> 5" "30 \<le> days" "days \<le> 366"
    using p(2,4-6) py_strip_short [of body] by (auto simp: required_Some default_Some str_between_def int_between_def reading)
  show ?thesis
    unfolding p(1) protection_event_decided_def protection_decided_dump_def
    using title body nums lesson_field_reread [OF ok p(7)] slugs_field [of m tags] p(3,8,9)
    by (simp add: required_def default_def str_between_def int_between_def check_def PROTECTION_FIELDS_def)
qed

lemma lesson_decided_reread:
  assumes ok: "text_ok lib" and "lesson_decided_of lib d = Some l"
  shows "lesson_decided_of lib (lesson_decided_dump l) = Some l"
proof -
  from assms(2) obtain m lesson dl tags glob where
    l: "l = \<lparr>le_lesson = lesson, le_tags = tags, le_is_global = glob\<rparr>" "lesson_draft_of lib dl = Some lesson"
    "default ''tags'' [] slugs m = Some tags"
    by (auto simp: lesson_decided_of_def reading required_Some)
  show ?thesis
    unfolding l(1) lesson_decided_of_def lesson_decided_dump_def
    using lesson_draft_reread [OF ok l(2)] slugs_field [of m tags] l(3)
    by (simp add: required_def default_def LESSON_FIELDS_def)
qed

text \<open>A question: the one bound that normalisation can break is the length of its texts.\<close>

lemma hex_digits_bound: "hex_digits acc ok s = Some v \<Longrightarrow> v < (acc + 1) * 16 ^ length s"
proof (induction acc ok s rule: hex_digits.induct)
  case (2 acc ok c cs)
  have hex: "hex_value c = Some x \<Longrightarrow> x < 16" for x by (auto simp: hex_value_def Let_def split: if_splits)
  show ?case
  proof (cases "c = CHR ''_''")
    case True
    with 2 have "v < (acc + 1) * 16 ^ length cs" by (auto split: if_splits)
    also have "\<dots> \<le> (acc + 1) * 16 ^ length (c # cs)" by simp
    finally show ?thesis .
  next
    case False
    with "2.prems" obtain x where x: "hex_value c = Some x" "hex_digits (16 * acc + x) True cs = Some v"
      by (auto split: option.splits)
    from "2.IH"(2) [OF False x] have "v < (16 * acc + x + 1) * 16 ^ length cs" .
    also have "\<dots> \<le> (16 * (acc + 1)) * 16 ^ length cs" using hex [OF x(1)] by (intro mult_right_mono) simp_all
    finally show ?thesis by (simp add: algebra_simps)
  qed
qed (auto split: if_splits)

lemma uuid_of_text_bound: assumes "uuid_of_text s = Some u" shows "u < 2 ^ 128"
proof -
  from assms obtain h where h: "length h = 32" "int_16 h = Some u"
    by (auto simp: uuid_of_text_def Let_def split: if_splits)
  let ?t = "py_strip h"
  let ?r = "case ?t of c # r \<Rightarrow> if c = CHR ''+'' then r else ?t | [] \<Rightarrow> []"
  have "length ?t \<le> 32" using py_strip_short [of h] h(1) by simp
  then have "length ?r \<le> 32" by (auto split: list.split)
  moreover have "length (drop_hex_prefix ?r) \<le> length ?r" by (auto simp: drop_hex_prefix_def split: list.split)
  ultimately have len: "length (drop_hex_prefix ?r) \<le> 32" by simp
  have "hex_digits 0 False (drop_hex_prefix ?r) = Some u" using h(2) by (simp only: int_16_def Let_def)
  from hex_digits_bound [OF this] have "u < 16 ^ length (drop_hex_prefix ?r)" by simp
  also have "\<dots> \<le> 16 ^ 32" by (rule power_increasing [OF len]) simp
  also have "(16::nat) ^ 32 = 2 ^ 128" by simp
  finally show ?thesis .
qed

lemma uuid_reread: assumes "py_uuid d = Some u" shows "py_uuid (DStr (show_uuid u)) = Some u"
proof -
  have u: "u < 2 ^ 128" using assms uuid_of_text_bound by (auto simp: py_uuid_def split: option.splits)
  have "\<forall>c\<in>set (show_uuid u). \<not> is_space c" using uuid_plain by auto
  then have "py_strip (show_uuid u) = show_uuid u"
    using py_strip_padded [of "show_uuid u" "[]" "[]"] by (cases "show_uuid u") (auto simp: py_strip_def)
  with uuid_text_parses [of u "[]" "[]"] u show ?thesis by (simp add: py_uuid_def parse_user_ref_def parse_uuid_def)
qed

lemma question_text_reread:
  assumes "text_ok lib" "question_text lib s = Some t"
  shows "question_text lib t = Some t" "t \<noteq> []"
  using assms by (auto simp: question_text_def normalise_idem)

lemma str_between_dump: "str_between lo hi (DStr t) = (if lo \<le> length t \<and> length t \<le> hi then Some t else None)"
  by (simp add: str_between_def check_def)

lemma option_decided_reread:
  assumes ok: "text_ok lib" and "option_decided_of lib d = Some x"
  shows "option_decided_of lib (option_decided_dump x) = (if length (od_option x) \<le> 200 then Some x else None)"
proof -
  from assms(2) obtain m t n tags s where x: "x = \<lparr>od_option = t, od_deduction = n, od_tags = tags\<rparr>"
    "question_text lib s = Some t" "required ''deduction'' (int_between 0 10) m = Some n" "default ''tags'' [] slugs m = Some tags"
    by (auto simp: option_decided_of_def reading)
  have n: "0 \<le> n" "n \<le> 10" using x(3) by (auto simp: required_Some int_between_def reading)
  have one: "Suc 0 \<le> length t" using question_text_reread(2) [OF ok x(2)] by (cases t) simp_all
  show ?thesis
    unfolding x(1) option_decided_of_def option_decided_dump_def
    using n one question_text_reread(1) [OF ok x(2)] slugs_field [of m tags] x(4)
    by (simp add: required_def default_def str_between_dump int_between_def check_def)
qed

lemma map_results_None: "map_results f xs = None \<longleftrightarrow> (\<exists>x\<in>set xs. f x = None)"
  by (induction xs) (auto split: option.splits)

lemma quiz_question_reread:
  assumes ok: "text_ok lib" and "quiz_question_decided lib d = Some q"
  shows "quiz_question_decided lib (question_decided_dump q) =
    (if length (qd_prompt q) \<le> 300 \<and> (\<forall>x\<in>set (qd_options q). length (od_option x) \<le> 200) then Some q else None)"
proof -
  from assms(2) obtain m s prompt multi cap options ds sug where
    q: "q = \<lparr>qd_prompt = prompt, qd_multi = multi, qd_cap = cap, qd_options = options, qd_suggestion_proposal_id = sug\<rparr>"
    "question_text lib s = Some prompt" "default ''cap'' None (nullable (int_between 0 10)) m = Some cap"
    "py_tuple (option_decided_of lib) ds = Some options" "2 \<le> length options"
    "default ''suggestion_proposal_id'' None (nullable py_uuid) m = Some sug"
    "distinct_options lib (map od_option options)" "multi \<or> cap = None"
    by (auto simp: quiz_question_decided_def reading required_Some)
  have one: "Suc 0 \<le> length prompt" using question_text_reread(2) [OF ok q(2)] by (cases prompt) simp_all
  have cap: "nullable (int_between 0 10) (doc_opt DInt cap) = Some cap"
    by (rule nullable_reread [OF default_nullable [OF q(3)]]) (auto simp: int_between_def reading)
  have sug: "nullable py_uuid (doc_opt (\<lambda>i. DStr (show_uuid i)) sug) = Some sug"
    by (rule nullable_reread [OF default_nullable [OF q(6)] uuid_reread]) auto
  have each: "option_decided_of lib (option_decided_dump x) = (if length (od_option x) \<le> 200 then Some x else None)"
    if "x \<in> set options" for x using that tuple_Some [OF q(4)] option_decided_reread [OF ok] by blast
  have opts: "py_tuple (option_decided_of lib) (DArr (map option_decided_dump options)) =
      (if \<forall>x\<in>set options. length (od_option x) \<le> 200 then Some options else None)"
  proof (cases "\<forall>x\<in>set options. length (od_option x) \<le> 200")
    case True
    then have "py_tuple (option_decided_of lib) (DArr (map option_decided_dump options)) = Some options"
      by (intro tuple_dump) (simp add: each)
    with True show ?thesis by simp
  next
    case False
    then show ?thesis using each by (auto simp: map_results_None)
  qed
  show ?thesis
    unfolding q(1) quiz_question_decided_def question_decided_dump_def
    using one cap sug opts q(5,7,8) question_text_reread(1) [OF ok q(2)]
    by (simp add: required_def default_def str_between_dump check_def del: py_tuple.simps)
qed


definition sample_threat :: doc where
  "sample_threat = DObj
     [(''kind'', DStr ''leak''), (''title'', DStr ''A leak''), (''body'', DStr '' passwords ''), (''severity'', DInt 3),
      (''expires_in_days'', DInt 30), (''tags'', DArr [DStr ''x_twitter''])]"


end
