(* ===== verification/Overlap.thy ===== *)
theory Overlap
  imports Proposal_Models
begin

text \<open>
  Proposals and the evidence they share (\<^verbatim>\<open>intel/overlap.py\<close>): two pending proposals overlap when they could
  be the same fact, share a tag and rest on the same evidence.  The evidence units are the groups of
  \<open>source_groups\<close> with the document as the key.
\<close>

section \<open>Proposals\<close>

datatype proposal_kind =
  Weight_change | Threat_event | Protection_event | Weight_suggestion | Coverage_gap | Quiz_question | Lesson

datatype proposal_status = Ps_pending | Ps_approved | Ps_rejected | Ps_superseded | Ps_applied | Ps_delivered

record proposal_record =
  pr_proposal_id :: uuid
  pr_kind :: proposal_kind
  pr_status :: proposal_status
  pr_target :: doc
  pr_suggested :: doc
  pr_decided :: "doc option"
  pr_against_release_no :: "int option"
  pr_created_at :: instant

text \<open>
  \<^verbatim>\<open>str(target.get(k, ""))\<close>: a stored key is a string; the printed form of anything else names no question.
\<close>

definition doc_text :: "string \<Rightarrow> doc \<Rightarrow> string" where
  "doc_text k d = (case doc_get k d of Some (Some (DStr s)) \<Rightarrow> s | _ \<Rightarrow> [])"

definition doc_tags :: "doc \<Rightarrow> string list" where
  "doc_tags d =
     (case doc_get ''tags'' d of
        Some (Some (DArr ts)) \<Rightarrow> concat (map (\<lambda>t. case t of DStr s \<Rightarrow> [s] | _ \<Rightarrow> []) ts)
      | _ \<Rightarrow> [])"

definition OVERLAP_KINDS :: "proposal_kind list" where
  "OVERLAP_KINDS = [Weight_change, Threat_event, Protection_event]"

record overlap_candidate =
  oc_proposal_id :: uuid
  oc_kind :: proposal_kind
  oc_tags :: "string list"
  oc_signals :: "context_signal list"

definition proposal_tags :: "proposal_record \<Rightarrow> scoring_vocabulary option \<Rightarrow> string list" where
  "proposal_tags p vocabulary =
     (if pr_kind p = Weight_change then
        (case vocabulary of None \<Rightarrow> []
         | Some v \<Rightarrow>
             (case map_of (sv_option_tags v) (doc_text ''question_key'' (pr_target p), doc_text ''option'' (pr_target p)) of
                None \<Rightarrow> [] | Some ts \<Rightarrow> ts))
      else doc_tags (pr_target p))"

definition renews :: "proposal_record \<Rightarrow> bool" where
  "renews p = (case doc_get ''renews_event_id'' (pr_target p) of Some (Some x) \<Rightarrow> truthy x | _ \<Rightarrow> False)"

definition candidate ::
  "proposal_record \<Rightarrow> context_signal list \<Rightarrow> scoring_vocabulary option \<Rightarrow> overlap_candidate option" where
  "candidate p linked vocabulary =
     (if pr_kind p \<notin> set OVERLAP_KINDS then None
      else if pr_kind p = Protection_event \<and> renews p then None
      else Some \<lparr>oc_proposal_id = pr_proposal_id p, oc_kind = pr_kind p, oc_tags = proposal_tags p vocabulary,
                 oc_signals = filter cs_active linked\<rparr>)"

definition could_be_one_fact :: "overlap_candidate \<Rightarrow> overlap_candidate \<Rightarrow> bool" where
  "could_be_one_fact a b \<longleftrightarrow> (oc_kind a = oc_kind b \<longrightarrow> oc_kind a \<noteq> Weight_change)"

section \<open>Evidence units\<close>

fun first_seen :: "uuid list \<Rightarrow> context_signal list \<Rightarrow> context_signal list" where
  "first_seen seen [] = []"
| "first_seen seen (s # ss) =
     (if cs_signal_id s \<in> set seen then first_seen seen ss
      else s # first_seen (cs_signal_id s # seen) ss)"

definition evidence_document :: "context_signal \<Rightarrow> string" where
  "evidence_document s =
     (case cs_document_key s of None \<Rightarrow> show_uuid (cs_signal_id s)
      | Some k \<Rightarrow> if k = [] then show_uuid (cs_signal_id s) else k)"

definition pool_signals :: "overlap_candidate list \<Rightarrow> context_signal list" where
  "pool_signals pool = first_seen [] (concat (map oc_signals pool))"

definition units :: "text_lib \<Rightarrow> overlap_candidate list \<Rightarrow> (uuid \<times> group_item) list option" where
  "units lib pool =
     map_option (zip (map cs_signal_id (pool_signals pool)))
       (source_groups lib evidence_document (pool_signals pool))"

definition unit_set :: "(uuid \<times> group_item) list \<Rightarrow> overlap_candidate \<Rightarrow> group_item list" where
  "unit_set us p = remdups (concat (map (\<lambda>s. case map_of us (cs_signal_id s) of None \<Rightarrow> [] | Some u \<Rightarrow> [u]) (oc_signals p)))"

text \<open>\<^verbatim>\<open>OVERLAP_MIN_SHARE\<close> is one half.\<close>

definition same_evidence :: "group_item list \<Rightarrow> group_item list \<Rightarrow> bool" where
  "same_evidence a b =
     (let shared = length (filter (\<lambda>u. u \<in> set b) a)
      in shared \<noteq> 0 \<and> (length a \<le> 2 * shared \<or> length b \<le> 2 * shared))"

definition overlapping :: "(uuid \<times> group_item) list \<Rightarrow> overlap_candidate \<Rightarrow> overlap_candidate \<Rightarrow> bool" where
  "overlapping us a b \<longleftrightarrow>
     oc_proposal_id b \<noteq> oc_proposal_id a \<and> could_be_one_fact a b \<and>
     list_ex (\<lambda>t. t \<in> set (oc_tags b)) (oc_tags a) \<and> same_evidence (unit_set us a) (unit_set us b)"

text \<open>For every proposal asked for, the ones of the pool it overlaps, in the order of the pool.\<close>

definition overlaps_of ::
  "text_lib \<Rightarrow> overlap_candidate list \<Rightarrow> uuid list option \<Rightarrow> (uuid \<times> (uuid \<times> proposal_kind) list) list option" where
  "overlaps_of lib pool only =
     map_option
       (\<lambda>us. map (\<lambda>pid. (pid, concat (map (\<lambda>a.
            if oc_proposal_id a \<noteq> pid then []
            else map (\<lambda>b. (oc_proposal_id b, oc_kind b)) (filter (overlapping us a) pool)) pool)))
          (remdups (case only of None \<Rightarrow> map oc_proposal_id pool | Some ids \<Rightarrow> ids)))
       (units lib pool)"

definition overlaps_for :: "text_lib \<Rightarrow> overlap_candidate list \<Rightarrow> uuid \<Rightarrow> uuid list option" where
  "overlaps_for lib pool pid =
     map_option (\<lambda>found. case map_of found pid of None \<Rightarrow> [] | Some os \<Rightarrow> map fst os) (overlaps_of lib pool (Some [pid]))"

definition pool_of ::
  "proposal_record list \<Rightarrow> (uuid \<Rightarrow> context_signal list) \<Rightarrow> scoring_vocabulary option \<Rightarrow> overlap_candidate list" where
  "pool_of records linked vocabulary =
     concat (map (\<lambda>p. case candidate p (linked (pr_proposal_id p)) vocabulary of None \<Rightarrow> [] | Some c \<Rightarrow> [c]) records)"

text \<open>
  \<^verbatim>\<open>proposal_store.overlap_pool\<close>: the newest pending proposals that can overlap, bounded, and each extra
  row not among them.  A read passes the pending row it shows, the decision the row as it was before the
  approval; by then the table has the row decided.
\<close>

definition OVERLAP_POOL_MAX :: nat where
  "OVERLAP_POOL_MAX = 500"

definition can_overlap :: "proposal_record \<Rightarrow> bool" where
  "can_overlap p \<longleftrightarrow> pr_status p = Ps_pending \<and> pr_kind p \<in> set OVERLAP_KINDS"

definition pending_pool :: "proposal_record list \<Rightarrow> proposal_record list" where
  "pending_pool T =
     take OVERLAP_POOL_MAX (rev (sort_key pr_created_at (sort_key pr_proposal_id (filter can_overlap T))))"

definition overlap_pool ::
  "proposal_record list \<Rightarrow> (uuid \<Rightarrow> context_signal list) \<Rightarrow> scoring_vocabulary option \<Rightarrow> proposal_record list
     \<Rightarrow> overlap_candidate list" where
  "overlap_pool T linked vocabulary extra =
     pool_of (pending_pool T @ filter (\<lambda>r. pr_proposal_id r \<notin> set (map pr_proposal_id (pending_pool T))) extra)
       linked vocabulary"

text \<open>The \<^verbatim>\<open>overlaps\<close> of a proposal an operator reads.\<close>

definition read_overlaps ::
  "text_lib \<Rightarrow> proposal_record list \<Rightarrow> (uuid \<Rightarrow> context_signal list) \<Rightarrow> scoring_vocabulary option \<Rightarrow> proposal_record
     \<Rightarrow> uuid list option" where
  "read_overlaps lib T linked vocabulary row =
     (if pr_status row = Ps_pending
      then overlaps_for lib (overlap_pool T linked vocabulary [row]) (pr_proposal_id row)
      else Some [])"

text \<open>An approval: the row is decided, then the pending proposals it covers are superseded.\<close>

definition approved_status :: "proposal_kind \<Rightarrow> proposal_status" where
  "approved_status k = (if k \<in> {Threat_event, Protection_event, Lesson} then Ps_applied else Ps_approved)"

definition mark_approved :: "proposal_record \<Rightarrow> proposal_record list \<Rightarrow> proposal_record list" where
  "mark_approved row T =
     map (\<lambda>r. if pr_proposal_id r = pr_proposal_id row \<and> pr_status r = Ps_pending
              then r\<lparr>pr_status := approved_status (pr_kind row)\<rparr> else r) T"

definition supersede_covered :: "uuid list \<Rightarrow> proposal_record list \<Rightarrow> proposal_record list" where
  "supersede_covered covered T =
     map (\<lambda>r. if pr_proposal_id r \<in> set covered \<and> pr_status r = Ps_pending
              then r\<lparr>pr_status := Ps_superseded\<rparr> else r) T"

definition approve_and_cover ::
  "text_lib \<Rightarrow> proposal_record list \<Rightarrow> (uuid \<Rightarrow> context_signal list) \<Rightarrow> scoring_vocabulary option \<Rightarrow> proposal_record
     \<Rightarrow> proposal_record list option" where
  "approve_and_cover lib T linked vocabulary row =
     (let T' = mark_approved row T
      in map_option (\<lambda>covered. supersede_covered covered T')
           (overlaps_for lib (overlap_pool T' linked vocabulary [row]) (pr_proposal_id row)))"

section \<open>Overlap is symmetric and always computed\<close>

lemma first_seen_distinct:
  "distinct (map cs_signal_id (first_seen seen ss)) \<and> set (map cs_signal_id (first_seen seen ss)) \<inter> set seen = {}"
  by (induction seen ss rule: first_seen.induct) auto

lemma units_total: "\<exists>us. units lib pool = Some us"
proof -
  have "distinct (map cs_signal_id (pool_signals pool))" using first_seen_distinct by (simp add: pool_signals_def)
  from source_groups_ok [OF this, of lib evidence_document] show ?thesis unfolding units_def by auto
qed

lemma could_be_one_fact_sym: "could_be_one_fact a b \<longleftrightarrow> could_be_one_fact b a"
  by (auto simp: could_be_one_fact_def)

lemma same_evidence_sym:
  assumes "distinct a" "distinct b" shows "same_evidence a b \<longleftrightarrow> same_evidence b a"
  using shared_count_comm [OF assms] by (auto simp: same_evidence_def Let_def)

lemma overlapping_sym: "overlapping us a b \<longleftrightarrow> overlapping us b a"
proof -
  have "same_evidence (unit_set us a) (unit_set us b) \<longleftrightarrow> same_evidence (unit_set us b) (unit_set us a)"
    by (rule same_evidence_sym) (simp_all add: unit_set_def)
  then show ?thesis using could_be_one_fact_sym [of a b] by (auto simp: overlapping_def list_ex_iff)
qed

lemma concat_single:
  assumes "distinct (map f xs)" "a \<in> set xs"
  shows "concat (map (\<lambda>x. if f x \<noteq> f a then [] else g x) xs) = g a"
proof -
  obtain l r where x: "xs = l @ a # r" using assms(2) by (meson split_list)
  have "\<forall>x\<in>set l \<union> set r. f x \<noteq> f a" using assms(1) x by (auto simp: image_iff)
  then have "concat (map (\<lambda>x. if f x \<noteq> f a then [] else g x) l) = []"
    "concat (map (\<lambda>x. if f x \<noteq> f a then [] else g x) r) = []" by auto
  then show ?thesis unfolding x map_append concat_append list.map concat.simps by (simp only:) simp
qed

lemma overlaps_for_pool:
  assumes "units lib pool = Some us" "distinct (map oc_proposal_id pool)" "a \<in> set pool"
  shows "overlaps_for lib pool (oc_proposal_id a) = Some (map oc_proposal_id (filter (overlapping us a) pool))"
  using concat_single [OF assms(2,3), of "\<lambda>a. map (\<lambda>b. (oc_proposal_id b, oc_kind b)) (filter (overlapping us a) pool)"] assms(1)
  by (simp add: overlaps_for_def overlaps_of_def comp_def)

section \<open>The pool is read in any order\<close>

text \<open>A signal is one row of \<^verbatim>\<open>intel_signals\<close>, whichever proposal links to it.\<close>

definition one_row_each :: "context_signal set \<Rightarrow> bool" where
  "one_row_each S \<longleftrightarrow> (\<forall>s\<in>S. \<forall>t\<in>S. cs_signal_id s = cs_signal_id t \<longrightarrow> s = t)"

definition signals_of :: "overlap_candidate list \<Rightarrow> context_signal set" where
  "signals_of pool = (\<Union>c\<in>set pool. set (oc_signals c))"

lemma first_seen_ids:
  "cs_signal_id ` set (first_seen seen ss) = cs_signal_id ` set ss - set seen"
  by (induction seen ss rule: first_seen.induct) auto

lemma first_seen_subset: "set (first_seen seen ss) \<subseteq> set ss"
  by (induction seen ss rule: first_seen.induct) auto

lemma pool_signals_set:
  assumes "one_row_each (signals_of pool)"
  shows "set (pool_signals pool) = signals_of pool"
proof -
  have all: "set (concat (map oc_signals pool)) = signals_of pool" by (simp add: signals_of_def)
  have "s \<in> set (pool_signals pool)" if s: "s \<in> signals_of pool" for s
  proof -
    have "cs_signal_id s \<in> cs_signal_id ` set (pool_signals pool)"
      using s first_seen_ids [of "[]" "concat (map oc_signals pool)"] unfolding pool_signals_def all by simp
    then obtain t where t: "t \<in> set (pool_signals pool)" "cs_signal_id s = cs_signal_id t" by blast
    have "t \<in> signals_of pool" using t(1) first_seen_subset unfolding pool_signals_def all [symmetric] by blast
    then have "s = t" using assms s t(2) unfolding one_row_each_def by blast
    with t(1) show ?thesis by simp
  qed
  then show ?thesis using first_seen_subset unfolding pool_signals_def all [symmetric] by blast
qed

definition unit_edges :: "text_lib \<Rightarrow> overlap_candidate list \<Rightarrow> (uuid \<times> uuid) set" where
  "unit_edges lib pool = source_edges lib evidence_document (pool_signals pool)"

lemma unit_edges_cong:
  assumes "set pool = set pool'" "one_row_each (signals_of pool)"
  shows "unit_edges lib pool = unit_edges lib pool'"
proof -
  have same: "signals_of pool = signals_of pool'" using assms(1) by (simp add: signals_of_def)
  then have "set (pool_signals pool) = set (pool_signals pool')"
    using pool_signals_set [OF assms(2)] pool_signals_set [of pool'] assms(2) by simp
  then show ?thesis by (simp add: unit_edges_def source_edges_def)
qed

lemma units_classes:
  assumes "units lib pool = Some us" "one_row_each (signals_of pool)"
  shows "\<exists>f. (\<forall>s\<in>signals_of pool. map_of us (cs_signal_id s) = Some (f s)) \<and>
    (\<forall>s\<in>signals_of pool. \<forall>t\<in>signals_of pool.
       f s = f t \<longleftrightarrow> (cs_signal_id s, cs_signal_id t) \<in> closure (unit_edges lib pool))"
proof -
  let ?ps = "pool_signals pool"
  have dist: "distinct (map cs_signal_id ?ps)" using first_seen_distinct by (simp add: pool_signals_def)
  from source_groups_ok [OF dist, of lib evidence_document] obtain gs where
    gs: "source_groups lib evidence_document ?ps = Some gs" "length gs = length ?ps"
    and eq: "\<And>i j. i < length ?ps \<Longrightarrow> j < length ?ps \<Longrightarrow> gs ! i = gs ! j \<longleftrightarrow>
      (cs_signal_id (?ps ! i), cs_signal_id (?ps ! j)) \<in> closure (unit_edges lib pool)"
    unfolding unit_edges_def by blast
  have us: "us = zip (map cs_signal_id ?ps) gs" using assms(1) gs(1) by (simp add: units_def)
  have at: "map_of us (cs_signal_id (?ps ! i)) = Some (gs ! i)" if "i < length ?ps" for i
    unfolding us using that gs(2) map_of_zip_nth [of "map cs_signal_id ?ps" gs i] dist by simp
  define f :: "context_signal \<Rightarrow> group_item" where "f = (\<lambda>s. the (map_of us (cs_signal_id s)))"
  have idx: "\<exists>i<length ?ps. ?ps ! i = s" if "s \<in> signals_of pool" for s
    using that pool_signals_set [OF assms(2)] by (metis in_set_conv_nth)
  have f: "f (?ps ! i) = gs ! i" if "i < length ?ps" for i using at [OF that] by (simp add: f_def)
  have "\<forall>s\<in>signals_of pool. map_of us (cs_signal_id s) = Some (f s)" using idx at f by metis
  moreover have "\<forall>s\<in>signals_of pool. \<forall>t\<in>signals_of pool.
     f s = f t \<longleftrightarrow> (cs_signal_id s, cs_signal_id t) \<in> closure (unit_edges lib pool)"
    using idx f eq by metis
  ultimately show ?thesis by blast
qed

lemma same_kernel_cards:
  assumes ker: "\<forall>s\<in>S. \<forall>t\<in>S. f s = f t \<longleftrightarrow> g s = g t" and sub: "A \<subseteq> S" "B \<subseteq> S"
  shows "card (f ` A) = card (g ` A)" "card (f ` A \<inter> f ` B) = card (g ` A \<inter> g ` B)"
proof -
  have "\<exists>h. \<forall>s\<in>S. h (f s) = g s"
    using ker by (intro exI [of _ "\<lambda>y. g (SOME s. s \<in> S \<and> f s = y)"]) (metis (mono_tags, lifting) someI_ex)
  then obtain h where h: "\<And>s. s \<in> S \<Longrightarrow> h (f s) = g s" by blast
  have inj: "inj_on h (f ` S)" using h ker by (auto intro!: inj_onI)
  have img: "h ` (f ` X) = g ` X" if "X \<subseteq> S" for X using h that by (force simp: image_iff)
  have "card (h ` (f ` A)) = card (f ` A)" by (rule card_image) (rule inj_on_subset [OF inj], use sub in blast)
  then show "card (f ` A) = card (g ` A)" using img [OF sub(1)] by simp
  have "h ` (f ` A \<inter> f ` B) = h ` (f ` A) \<inter> h ` (f ` B)"
    by (rule inj_on_image_Int [OF inj]) (use sub in blast)+
  moreover have "card (h ` (f ` A \<inter> f ` B)) = card (f ` A \<inter> f ` B)"
    by (rule card_image) (rule inj_on_subset [OF inj], use sub in blast)
  ultimately show "card (f ` A \<inter> f ` B) = card (g ` A \<inter> g ` B)" using img sub by simp
qed

lemma unit_set_image:
  assumes "\<forall>s\<in>signals_of pool. map_of us (cs_signal_id s) = Some (f s)" "c \<in> set pool"
  shows "set (unit_set us c) = f ` set (oc_signals c)" "distinct (unit_set us c)"
proof -
  have "\<forall>s\<in>set (oc_signals c). map_of us (cs_signal_id s) = Some (f s)" using assms by (auto simp: signals_of_def)
  then have "map (\<lambda>s. case map_of us (cs_signal_id s) of None \<Rightarrow> [] | Some u \<Rightarrow> [u]) (oc_signals c) =
      map (\<lambda>s. [f s]) (oc_signals c)" by simp
  then show "set (unit_set us c) = f ` set (oc_signals c)" unfolding unit_set_def by (simp only:) auto
qed (simp add: unit_set_def)

lemma same_evidence_card:
  assumes "distinct a" "distinct b"
  shows "same_evidence a b \<longleftrightarrow> card (set a \<inter> set b) \<noteq> 0 \<and>
    (card (set a) \<le> 2 * card (set a \<inter> set b) \<or> card (set b) \<le> 2 * card (set a \<inter> set b))"
proof -
  have "length (filter (\<lambda>u. u \<in> set b) a) = card (set a \<inter> set b)"
    using assms(1) distinct_card [of "filter (\<lambda>u. u \<in> set b) a"] by (simp add: Int_def)
  then show ?thesis unfolding same_evidence_def Let_def by (simp only: distinct_card [OF assms(1)] distinct_card [OF assms(2)])
qed

lemma overlapping_cong:
  assumes us: "units lib pool = Some us" "units lib pool' = Some us'" and set: "set pool = set pool'"
    and one: "one_row_each (signals_of pool)" and mem: "a \<in> set pool" "b \<in> set pool"
  shows "overlapping us a b \<longleftrightarrow> overlapping us' a b"
proof -
  let ?S = "signals_of pool"
  have same: "signals_of pool' = ?S" using set by (simp add: signals_of_def)
  obtain f where f: "\<forall>s\<in>?S. map_of us (cs_signal_id s) = Some (f s)"
    "\<forall>s\<in>?S. \<forall>t\<in>?S. f s = f t \<longleftrightarrow> (cs_signal_id s, cs_signal_id t) \<in> closure (unit_edges lib pool)"
    using units_classes [OF us(1) one] by blast
  have one': "one_row_each (signals_of pool')" using one same by simp
  obtain g where g: "\<forall>s\<in>signals_of pool'. map_of us' (cs_signal_id s) = Some (g s)"
    "\<forall>s\<in>?S. \<forall>t\<in>?S. g s = g t \<longleftrightarrow> (cs_signal_id s, cs_signal_id t) \<in> closure (unit_edges lib pool)"
    using units_classes [OF us(2) one'] unfolding same unit_edges_cong [OF set one, symmetric] by blast
  have ker: "\<forall>s\<in>?S. \<forall>t\<in>?S. f s = f t \<longleftrightarrow> g s = g t" using f(2) g(2) by simp
  have sub: "set (oc_signals a) \<subseteq> ?S" "set (oc_signals b) \<subseteq> ?S" using mem by (auto simp: signals_of_def)
  have mem': "a \<in> set pool'" "b \<in> set pool'" using mem set by simp_all
  have "same_evidence (unit_set us a) (unit_set us b) \<longleftrightarrow> same_evidence (unit_set us' a) (unit_set us' b)"
    unfolding same_evidence_card [OF unit_set_image(2) [OF f(1) mem(1)] unit_set_image(2) [OF f(1) mem(2)]]
      same_evidence_card [OF unit_set_image(2) [OF g(1) mem'(1)] unit_set_image(2) [OF g(1) mem'(2)]]
      unit_set_image(1) [OF f(1) mem(1)] unit_set_image(1) [OF f(1) mem(2)]
      unit_set_image(1) [OF g(1) mem'(1)] unit_set_image(1) [OF g(1) mem'(2)]
    using same_kernel_cards [OF ker sub] same_kernel_cards(1) [OF ker sub(2) sub(1)] by simp
  then show ?thesis by (simp add: overlapping_def)
qed

section \<open>A read and an approval see the same pool\<close>

lemma in_pool_of:
  "c \<in> set (pool_of rows linked v) \<longleftrightarrow> (\<exists>p\<in>set rows. candidate p (linked (pr_proposal_id p)) v = Some c)"
  by (force simp: pool_of_def split: option.splits)

lemma candidate_SomeD:
  assumes "candidate p ss v = Some c"
  shows "oc_proposal_id c = pr_proposal_id p" "oc_kind c = pr_kind p" "pr_kind p \<in> set OVERLAP_KINDS"
    "set (oc_signals c) \<subseteq> set ss"
  using assms by (auto simp: candidate_def split: if_splits)

lemma pool_of_distinct:
  assumes "distinct (map pr_proposal_id rows)"
  shows "distinct (map oc_proposal_id (pool_of rows linked v))"
  using assms
proof (induction rows)
  case (Cons p rows)
  have "pool_of (p # rows) linked v =
      (case candidate p (linked (pr_proposal_id p)) v of None \<Rightarrow> [] | Some c \<Rightarrow> [c]) @ pool_of rows linked v"
    by (simp add: pool_of_def)
  moreover have "oc_proposal_id c \<notin> oc_proposal_id ` set (pool_of rows linked v)"
    if "candidate p (linked (pr_proposal_id p)) v = Some c" for c
  proof
    assume "oc_proposal_id c \<in> oc_proposal_id ` set (pool_of rows linked v)"
    then obtain q d where q: "q \<in> set rows" "candidate q (linked (pr_proposal_id q)) v = Some d"
      "oc_proposal_id c = oc_proposal_id d" unfolding image_iff Bex_def in_pool_of by blast
    with Cons.prems candidate_SomeD(1) [OF that] candidate_SomeD(1) [OF q(2)] show False by (auto simp: image_iff)
  qed
  ultimately show ?case using Cons by (auto split: option.splits)
qed (simp add: pool_of_def)

lemma pending_pool_rows:
  assumes "length (filter can_overlap T) \<le> OVERLAP_POOL_MAX"
  shows "set (pending_pool T) = {p \<in> set T. can_overlap p}"
    "distinct (map pr_proposal_id T) \<Longrightarrow> distinct (map pr_proposal_id (pending_pool T))"
proof -
  let ?s = "sort_key pr_created_at (sort_key pr_proposal_id (filter can_overlap T))"
  have all: "pending_pool T = rev ?s" using assms by (simp add: pending_pool_def)
  then show "set (pending_pool T) = {p \<in> set T. can_overlap p}" by auto
  assume "distinct (map pr_proposal_id T)"
  then have "distinct (map pr_proposal_id (filter can_overlap T))" by (rule distinct_map_filter)
  moreover have "mset (map pr_proposal_id ?s) = mset (map pr_proposal_id (filter can_overlap T))"
    by (simp only: mset_map mset_sort)
  ultimately have "distinct (map pr_proposal_id ?s)" by (metis mset_eq_imp_distinct_iff)
  then show "distinct (map pr_proposal_id (pending_pool T))" unfolding all by (simp only: rev_map [symmetric] distinct_rev)
qed

text \<open>The candidates among the pending proposals of the table.\<close>

definition live_candidates ::
  "proposal_record list \<Rightarrow> (uuid \<Rightarrow> context_signal list) \<Rightarrow> scoring_vocabulary option \<Rightarrow> overlap_candidate set" where
  "live_candidates T linked v =
     {c. \<exists>p\<in>set T. pr_status p = Ps_pending \<and> candidate p (linked (pr_proposal_id p)) v = Some c}"

lemma overlap_pool_with_row:
  assumes few: "length (filter can_overlap T) \<le> OVERLAP_POOL_MAX" and dist: "distinct (map pr_proposal_id T)"
    and row: "pr_status row = Ps_pending" and others: "\<forall>p\<in>set T. pr_proposal_id p = pr_proposal_id row \<longrightarrow> can_overlap p \<longrightarrow> p = row"
  shows "set (overlap_pool T linked v [row]) =
      live_candidates T linked v \<union> {c. candidate row (linked (pr_proposal_id row)) v = Some c}"
    "distinct (map oc_proposal_id (overlap_pool T linked v [row]))"
proof -
  note P = pending_pool_rows [OF few]
  let ?rows = "pending_pool T @ filter (\<lambda>r. pr_proposal_id r \<notin> set (map pr_proposal_id (pending_pool T))) [row]"
  have pool: "overlap_pool T linked v [row] = pool_of ?rows linked v" by (simp add: overlap_pool_def)
  have "row \<in> set T" if "pr_proposal_id row \<in> set (map pr_proposal_id (pending_pool T))"
    using that others unfolding set_map P(1) by auto
  then have rows: "set ?rows = {p \<in> set T. can_overlap p} \<union> {row}" if "pr_kind row \<in> set OVERLAP_KINDS"
    using that row P(1) by (auto simp: can_overlap_def)
  show "distinct (map oc_proposal_id (overlap_pool T linked v [row]))"
    unfolding pool using P(2) [OF dist] by (intro pool_of_distinct) auto
  have live: "live_candidates T linked v =
      {c. \<exists>p\<in>{p \<in> set T. can_overlap p}. candidate p (linked (pr_proposal_id p)) v = Some c}"
    by (auto simp: live_candidates_def can_overlap_def dest: candidate_SomeD(3))
  show "set (overlap_pool T linked v [row]) =
      live_candidates T linked v \<union> {c. candidate row (linked (pr_proposal_id row)) v = Some c}"
  proof (cases "pr_kind row \<in> set OVERLAP_KINDS")
    case True
    show ?thesis unfolding pool live using rows [OF True] by (auto simp: in_pool_of simp del: set_append)
  next
    case False
    then have none: "candidate row ss v = None" for ss by (simp add: candidate_def)
    have "\<exists>R. set ?rows = R \<and> R \<subseteq> {p \<in> set T. can_overlap p} \<union> {row} \<and> {p \<in> set T. can_overlap p} \<subseteq> R"
      using P(1) by auto
    then obtain R where R: "set ?rows = R" "R \<subseteq> {p \<in> set T. can_overlap p} \<union> {row}" "{p \<in> set T. can_overlap p} \<subseteq> R"
      by blast
    have "c \<in> set (pool_of ?rows linked v) \<longleftrightarrow>
        c \<in> {c. \<exists>p\<in>{p \<in> set T. can_overlap p}. candidate p (linked (pr_proposal_id p)) v = Some c}" for c
      unfolding in_pool_of R(1) using R(2,3) none by auto
    then show ?thesis unfolding pool live using none by auto
  qed
qed

lemma overlaps_for_mem:
  assumes "units lib pool = Some us" "distinct (map oc_proposal_id pool)"
  shows "\<exists>xs. overlaps_for lib pool pid = Some xs \<and>
    (\<forall>q. q \<in> set xs \<longleftrightarrow> (\<exists>x\<in>set pool. \<exists>y\<in>set pool. oc_proposal_id x = pid \<and> oc_proposal_id y = q \<and> overlapping us x y))"
proof (cases "\<exists>x\<in>set pool. oc_proposal_id x = pid")
  case True
  then obtain x where x: "x \<in> set pool" "oc_proposal_id x = pid" by blast
  have only: "z = x" if "z \<in> set pool" "oc_proposal_id z = pid" for z
    using that x assms(2) by (auto simp: distinct_map dest: inj_onD)
  have "q \<in> set (map oc_proposal_id (filter (overlapping us x) pool)) \<longleftrightarrow>
      (\<exists>x\<in>set pool. \<exists>y\<in>set pool. oc_proposal_id x = pid \<and> oc_proposal_id y = q \<and> overlapping us x y)" for q
    unfolding set_map set_filter image_iff using only x by blast
  then show ?thesis using overlaps_for_pool [OF assms x(1)] x(2) by blast
next
  case False
  then have "\<forall>a\<in>set pool. oc_proposal_id a \<noteq> pid" by blast
  then have "concat (map (\<lambda>a. if oc_proposal_id a \<noteq> pid then []
      else map (\<lambda>b. (oc_proposal_id b, oc_kind b)) (filter (overlapping us a) pool)) pool) = []"
    unfolding concat_eq_Nil_conv by auto
  then have "overlaps_for lib pool pid = Some []"
    using assms(1) unfolding overlaps_for_def overlaps_of_def by simp
  with False show ?thesis by auto
qed

lemma mark_approved_rows:
  assumes "distinct (map pr_proposal_id T)" "row \<in> set T" "pr_status row = Ps_pending"
  shows "p \<in> set (mark_approved row T) \<and> pr_status p = Ps_pending \<longleftrightarrow>
      p \<in> set T \<and> pr_status p = Ps_pending \<and> p \<noteq> row"
    "map pr_proposal_id (mark_approved row T) = map pr_proposal_id T"
    "length (filter can_overlap (mark_approved row T)) \<le> length (filter can_overlap T)"
proof -
  have same: "\<forall>r\<in>set T. pr_proposal_id r = pr_proposal_id row \<longleftrightarrow> r = row"
    using assms(1,2) by (auto simp: distinct_map dest: inj_onD)
  have st: "approved_status k \<noteq> Ps_pending" for k by (simp add: approved_status_def)
  obtain row' where row': "row' = row\<lparr>pr_status := approved_status (pr_kind row)\<rparr>" "pr_status row' \<noteq> Ps_pending"
    using st by simp
  have m: "mark_approved row T = map (\<lambda>r. if r = row then row' else r) T"
    unfolding mark_approved_def row'(1) by (rule map_cong [OF refl]) (use same assms(3) in auto)
  show "p \<in> set (mark_approved row T) \<and> pr_status p = Ps_pending \<longleftrightarrow>
      p \<in> set T \<and> pr_status p = Ps_pending \<and> p \<noteq> row"
    unfolding m set_map image_iff using row'(2) by (auto split: if_splits)
  show "map pr_proposal_id (mark_approved row T) = map pr_proposal_id T" by (simp add: mark_approved_def)
  show "length (filter can_overlap (mark_approved row T)) \<le> length (filter can_overlap T)"
    unfolding mark_approved_def by (induction T) (simp_all add: can_overlap_def st)
qed

lemma live_after_approval:
  assumes "distinct (map pr_proposal_id T)" "row \<in> set T" "pr_status row = Ps_pending"
  shows "live_candidates (mark_approved row T) linked v \<union> {c. candidate row (linked (pr_proposal_id row)) v = Some c} =
    live_candidates T linked v"
  unfolding live_candidates_def using mark_approved_rows(1) [OF assms] assms(2,3) by blast

lemma live_signals:
  assumes "set pool = live_candidates T linked v" "one_row_each (\<Union>p\<in>set T. set (linked (pr_proposal_id p)))"
  shows "one_row_each (signals_of pool)"
proof -
  have "signals_of pool \<subseteq> (\<Union>p\<in>set T. set (linked (pr_proposal_id p)))"
    unfolding signals_of_def assms(1) live_candidates_def using candidate_SomeD(4) by fast
  then show ?thesis using assms(2) unfolding one_row_each_def by blast
qed

text \<open>One relation answers every read and every approval.\<close>

lemma read_and_approve:
  assumes dist: "distinct (map pr_proposal_id T)" and few: "length (filter can_overlap T) \<le> OVERLAP_POOL_MAX"
    and one: "one_row_each (\<Union>p\<in>set T. set (linked (pr_proposal_id p)))"
  shows "\<exists>R. (\<forall>p q. R p q \<longleftrightarrow> R q p) \<and> (\<forall>p. \<not> R p p) \<and>
    (\<forall>a\<in>set T. \<forall>b\<in>set T. pr_kind a = Weight_change \<and> pr_kind b = Weight_change \<longrightarrow>
       \<not> R (pr_proposal_id a) (pr_proposal_id b)) \<and>
    (\<forall>a\<in>set T. pr_status a = Ps_pending \<longrightarrow>
       (\<exists>xs ys. read_overlaps lib T linked v a = Some xs \<and> set xs = {q. R (pr_proposal_id a) q} \<and>
          approve_and_cover lib T linked v a = Some (supersede_covered ys (mark_approved a T)) \<and>
          set ys = {q. R (pr_proposal_id a) q}))"
proof -
  obtain pool where pool: "set pool = live_candidates T linked v" "distinct (map oc_proposal_id pool)"
  proof
    let ?p = "pool_of (filter (\<lambda>p. pr_status p = Ps_pending) T) linked v"
    show "set ?p = live_candidates T linked v" by (auto simp: in_pool_of live_candidates_def)
    show "distinct (map oc_proposal_id ?p)" using dist by (intro pool_of_distinct distinct_map_filter)
  qed
  obtain us where us: "units lib pool = Some us" using units_total by blast
  define R where "R = (\<lambda>p q. \<exists>x\<in>set pool. \<exists>y\<in>set pool. oc_proposal_id x = p \<and> oc_proposal_id y = q \<and> overlapping us x y)"
  have ask: "\<exists>xs. overlaps_for lib pool' p = Some xs \<and> set xs = {q. R p q}"
    if p': "set pool' = live_candidates T linked v" "distinct (map oc_proposal_id pool')" for pool' p
  proof -
    obtain us' where us': "units lib pool' = Some us'" using units_total by blast
    have same: "set pool = set pool'" using pool(1) p'(1) by simp
    have "R p q \<longleftrightarrow> (\<exists>x\<in>set pool'. \<exists>y\<in>set pool'. oc_proposal_id x = p \<and> oc_proposal_id y = q \<and> overlapping us' x y)" for q
      unfolding R_def same [symmetric] using overlapping_cong [OF us us' same live_signals [OF pool(1) one]] by blast
    with overlaps_for_mem [OF us' p'(2), of p] show ?thesis by blast
  qed
  have unique: "x = y" if "x \<in> set pool" "y \<in> set pool" "oc_proposal_id x = oc_proposal_id y" for x y
    using that pool(2) by (auto simp: distinct_map dest: inj_onD)
  have kind: "oc_kind c = pr_kind a" if c: "c \<in> set pool" "a \<in> set T" "oc_proposal_id c = pr_proposal_id a" for c a
  proof -
    obtain p where p: "p \<in> set T" "candidate p (linked (pr_proposal_id p)) v = Some c"
      using c(1) unfolding pool(1) live_candidates_def by blast
    with candidate_SomeD [OF p(2)] c(2,3) dist have "p = a" by (auto simp: distinct_map dest: inj_onD)
    with candidate_SomeD(2) [OF p(2)] show ?thesis by simp
  qed
  have both: "\<exists>xs ys. read_overlaps lib T linked v a = Some xs \<and> set xs = {q. R (pr_proposal_id a) q} \<and>
      approve_and_cover lib T linked v a = Some (supersede_covered ys (mark_approved a T)) \<and>
      set ys = {q. R (pr_proposal_id a) q}" if a: "a \<in> set T" "pr_status a = Ps_pending" for a
  proof -
    note M = mark_approved_rows [OF dist a]
    have row: "\<forall>p\<in>set T. pr_proposal_id p = pr_proposal_id a \<longrightarrow> can_overlap p \<longrightarrow> p = a"
      using dist a(1) by (auto simp: distinct_map dest: inj_onD)
    have row': "\<forall>p\<in>set (mark_approved a T). pr_proposal_id p = pr_proposal_id a \<longrightarrow> can_overlap p \<longrightarrow> p = a"
      using row M(1) unfolding can_overlap_def by blast
    have few': "length (filter can_overlap (mark_approved a T)) \<le> OVERLAP_POOL_MAX" using M(3) few by simp
    have dist': "distinct (map pr_proposal_id (mark_approved a T))" using M(2) dist by simp
    have "{c. candidate a (linked (pr_proposal_id a)) v = Some c} \<subseteq> live_candidates T linked v"
      using a unfolding live_candidates_def by blast
    then have "set (overlap_pool T linked v [a]) = live_candidates T linked v"
      using overlap_pool_with_row(1) [OF few dist a(2) row] by blast
    from ask [OF this overlap_pool_with_row(2) [OF few dist a(2) row]] obtain xs where
      xs: "overlaps_for lib (overlap_pool T linked v [a]) (pr_proposal_id a) = Some xs" "set xs = {q. R (pr_proposal_id a) q}"
      by blast
    have "set (overlap_pool (mark_approved a T) linked v [a]) = live_candidates T linked v"
      using overlap_pool_with_row(1) [OF few' dist' a(2) row'] live_after_approval [OF dist a] by simp
    from ask [OF this overlap_pool_with_row(2) [OF few' dist' a(2) row']] obtain ys where
      ys: "overlaps_for lib (overlap_pool (mark_approved a T) linked v [a]) (pr_proposal_id a) = Some ys"
        "set ys = {q. R (pr_proposal_id a) q}" by blast
    show ?thesis using xs ys a(2) by (auto simp: read_overlaps_def approve_and_cover_def Let_def)
  qed
  show ?thesis
  proof (intro exI [of _ R] conjI allI ballI impI)
    show "R p q \<longleftrightarrow> R q p" for p q unfolding R_def using overlapping_sym by blast
    show "\<not> R p p" for p unfolding R_def overlapping_def by auto
    show "\<not> R (pr_proposal_id a) (pr_proposal_id b)"
      if "a \<in> set T" "b \<in> set T" "pr_kind a = Weight_change \<and> pr_kind b = Weight_change" for a b
      unfolding R_def overlapping_def could_be_one_fact_def using kind that by force
    fix a assume "a \<in> set T" "pr_status a = Ps_pending"
    then show "\<exists>xs ys. read_overlaps lib T linked v a = Some xs \<and> set xs = {q. R (pr_proposal_id a) q} \<and>
      approve_and_cover lib T linked v a = Some (supersede_covered ys (mark_approved a T)) \<and>
      set ys = {q. R (pr_proposal_id a) q}" by (rule both)
  qed
qed

lemma supersede_covered_cong: "set xs = set ys \<Longrightarrow> supersede_covered xs T = supersede_covered ys T"
  by (simp add: supersede_covered_def)

lemma superseded_row:
  assumes "distinct (map pr_proposal_id T)" "a \<in> set T" "b \<in> set T" "pr_status a = Ps_pending" "pr_status b = Ps_pending"
    "a \<noteq> b"
  shows "b\<lparr>pr_status := Ps_superseded\<rparr> \<in> set (supersede_covered xs (mark_approved a T)) \<longleftrightarrow> pr_proposal_id b \<in> set xs"
proof
  note M = mark_approved_rows [OF assms(1,2,4)]
  let ?b = "b\<lparr>pr_status := Ps_superseded\<rparr>"
  have st: "approved_status k \<noteq> Ps_superseded" for k by (simp add: approved_status_def)
  show "?b \<in> set (supersede_covered xs (mark_approved a T))" if "pr_proposal_id b \<in> set xs"
    using that M(1) [of b] assms(3,5,6) unfolding supersede_covered_def set_map image_iff by (intro bexI [of _ b]) simp_all
  assume "?b \<in> set (supersede_covered xs (mark_approved a T))"
  then obtain r where r: "r \<in> set (mark_approved a T)"
    "?b = (if pr_proposal_id r \<in> set xs \<and> pr_status r = Ps_pending then r\<lparr>pr_status := Ps_superseded\<rparr> else r)"
    unfolding supersede_covered_def by auto
  have id: "pr_proposal_id r = pr_proposal_id b" using arg_cong [OF r(2), of pr_proposal_id] by (auto split: if_splits)
  show "pr_proposal_id b \<in> set xs"
  proof (rule ccontr)
    assume "pr_proposal_id b \<notin> set xs"
    then have "r = ?b" using r(2) id by simp
    then have "?b \<in> set (mark_approved a T)" using r(1) by simp
    then obtain q where q: "q \<in> set T" "?b = (if pr_proposal_id q = pr_proposal_id a \<and> pr_status q = Ps_pending
        then q\<lparr>pr_status := approved_status (pr_kind a)\<rparr> else q)"
      unfolding mark_approved_def by auto
    have "pr_proposal_id q = pr_proposal_id b" using arg_cong [OF q(2), of pr_proposal_id] by (auto split: if_splits)
    then have "q = b" using assms(1,3) q(1) by (auto simp: distinct_map dest: inj_onD)
    then have "pr_status ?b \<noteq> Ps_superseded" unfolding q(2) using assms(5) st by auto
    then show False by simp
  qed
qed


text \<open>Three proposals on one tag: an event and a weight change share a page.\<close>

definition sample_proposal :: "uuid \<Rightarrow> proposal_kind \<Rightarrow> proposal_record" where
  "sample_proposal i k = \<lparr>pr_proposal_id = i, pr_kind = k, pr_status = Ps_pending,
     pr_target = DObj [(''tags'', DArr [DStr ''x_twitter''])], pr_suggested = DObj [], pr_decided = None,
     pr_against_release_no = None, pr_created_at = int i\<rparr>"

definition sample_table :: "proposal_record list" where
  "sample_table = [sample_proposal 10 Threat_event, sample_proposal 11 Protection_event, sample_proposal 12 Quiz_question]"

definition sample_links :: "uuid \<Rightarrow> context_signal list" where
  "sample_links i = (if i = 10 then take 1 sample_signals
     else if i = 11 then [sample_signals ! 2, sample_signals ! 3] else [])"


end
