(* ===== verification/Spec2Isabelle.thy ===== *)
theory Spec2Isabelle
  imports Runner Confirm_Flow Relay Recheck Enrolment_Safety Overlap
begin

text \<open>
  A model of ImageShield (\<^verbatim>\<open>src/imageshield\<close>), the service that enrols people by a liveness check, searches
  the web for pages that show their face, triages what it finds, asks operators and the people
  themselves, and keeps rechecking what is online.

  \<^bold>\<open>The parts and how they interact.\<close>  Postgres is the meeting point: a search run (\<^verbatim>\<open>search/runner.py\<close>)
  asks the reverse-image providers through the dispatch guards (\<^verbatim>\<open>providers/gate.py\<close>: kill switch,
  breaker, budget, half-open probe) and records hits (\<^verbatim>\<open>search/store.py\<close>); completing a run writes
  outbox rows (\<^verbatim>\<open>outbox.py\<close>) which the relay (\<^verbatim>\<open>relay.py\<close>) sends to SQS; the confirm worker
  (\<^verbatim>\<open>confirm/worker.py\<close>) triages each hit into a review task; operators and subjects decide it
  (\<^verbatim>\<open>review/store.py\<close>); the recheck loop (\<^verbatim>\<open>recheck/\<close>) probes the pages.  Beside that, enrolment
  (\<^verbatim>\<open>http/routes/liveness.py\<close>) ties a face in the Rekognition collection to a consumed liveness
  session, and attribution (\<^verbatim>\<open>attribution/\<close>) says whose faces a photo shows.

  \<^bold>\<open>Theories and code.\<close>
  \<^item> \<open>Prelude\<close>: identifiers, JSON, exceptions, tables as lists of rows with the SQL statements over them.
  \<^item> \<open>Breaker\<close>, \<open>Budget\<close>, \<open>Ratelimit\<close>, \<open>Gate\<close>, \<open>Provider_Store\<close>: \<^verbatim>\<open>providers/\<close>.
  \<^item> \<open>Cadence\<close>, \<open>Urlhash\<close>, \<open>Search_Store\<close>, \<open>Runner\<close>: \<^verbatim>\<open>search/\<close>; \<open>Bands\<close>: \<^verbatim>\<open>calibration/bands.py\<close>.
  \<^item> \<open>Database\<close>: the rows of the shared tables and their constraints (\<^verbatim>\<open>migrations/\<close>).
  \<^item> \<open>Triage\<close>, \<open>Confirm_Store\<close>, \<open>Confirm_Worker\<close>, \<open>Confirm_Flow\<close>: \<^verbatim>\<open>confirm/\<close>.
  \<^item> \<open>Review_Store\<close>, \<open>Review_Feed\<close>: \<^verbatim>\<open>review/store.py\<close>.
  \<^item> \<open>Hit_Machine\<close> is the abstract state machine of one hit; \<open>Lifecycle\<close> and \<open>Hit_Safety\<close> show that
    every store operation is a sequence of its moves, and draw the consequences.
  \<^item> \<open>Outbox\<close>, \<open>Relay\<close>: \<^verbatim>\<open>outbox.py\<close>, \<^verbatim>\<open>relay.py\<close>.
  \<^item> \<open>Egress\<close>, \<open>Recheck\<close>: \<^verbatim>\<open>recheck/\<close>, with \<^verbatim>\<open>ipaddress\<close> and \<^verbatim>\<open>urljoin\<close> written out.
  \<^item> \<open>Identifiers\<close>, \<open>Attribution\<close>: \<^verbatim>\<open>types.py\<close>, \<^verbatim>\<open>attribution/\<close>.
  \<^item> \<open>Identity_Store\<close>, \<open>Enrolment_Route\<close>: \<^verbatim>\<open>liveness/\<close>, \<^verbatim>\<open>enrolment/\<close>, \<^verbatim>\<open>subjects/\<close> and their routes, the result
    call as a program counter that advances one await at a time; \<open>Enrolment_Calls\<close> and
    \<open>Enrolment_Safety\<close> interleave any number of such calls with deletions and crashes.
\<close>

end
